(* ===== verification/Prelude.thy ===== *)
theory Prelude
  imports Main "HOL-Library.Word"
begin

text \<open>
  Shared vocabulary of the development: the Go integer and byte types at their
  widths, the error-or-value type, the fact collections the component theories
  fill, and generic lemmas about options, sums, lists and words that more than
  one component uses.
\<close>

section \<open>Go's machine types\<close>

type_synonym byte = "8 word"
type_synonym u8 = "8 word"
type_synonym u16 = "16 word"
type_synonym u32 = "32 word"
type_synonym u64 = "64 word"

text \<open>
  Signed Go integers are the same words; they are read with \<^const>\<open>sint\<close>.
\<close>

type_synonym i8 = "8 word"
type_synonym i16 = "16 word"
type_synonym i32 = "32 word"
type_synonym i64 = "64 word"

text \<open>
  A Go \<open>string\<close> is a sequence of bytes; \<^typ>\<open>string\<close> is the list of them as
  characters. \<open>bytes_of_string\<close> is the conversion \<open>[]byte(s)\<close>.
\<close>

definition bytes_of_string :: "string \<Rightarrow> byte list" where
  "bytes_of_string s = map of_char s"

section \<open>Fact collections\<close>

named_theorems decode_simps
  "equations that evaluate the JSON decoders on a concrete document"
named_theorems skip_rules
  "soundness of each rule of the row-group skip evaluator"
named_theorems store_laws
  "what each object-store operation does to the published objects"
named_theorems reader_laws
  "what each record-reader wrapper does to the batches still to come"

section \<open>Error-or-value computations\<close>

text \<open>
  Go's \<open>(value, error)\<close> results are values of \<open>'e + 'a\<close>. \<open>sbind\<close> is the
  \<open>if err != nil { return err }\<close> that follows almost every call.
\<close>

definition sbind :: "'e + 'a \<Rightarrow> ('a \<Rightarrow> 'e + 'b) \<Rightarrow> 'e + 'b" where
  "sbind r f = (case r of Inl e \<Rightarrow> Inl e | Inr x \<Rightarrow> f x)"

lemma sbind_simps [simp]:
  "sbind (Inl e) f = Inl e"
  "sbind (Inr x) f = f x"
  by (simp_all add: sbind_def)

lemma sbind_eq_Inr: "sbind r f = Inr y \<longleftrightarrow> (\<exists>x. r = Inr x \<and> f x = Inr y)"
  by (cases r) simp_all

lemma sbind_eq_Inl: "sbind r f = Inl e \<longleftrightarrow> r = Inl e \<or> (\<exists>x. r = Inr x \<and> f x = Inl e)"
  by (cases r) auto

lemma sbind_cong [fundef_cong]:
  "r = r' \<Longrightarrow> (\<And>x. r' = Inr x \<Longrightarrow> f x = f' x) \<Longrightarrow> sbind r f = sbind r' f'"
  by (cases r') auto

text \<open>A loop that stops at the first error, collecting the results in order.\<close>

fun smap :: "('a \<Rightarrow> 'e + 'b) \<Rightarrow> 'a list \<Rightarrow> 'e + 'b list" where
  "smap f [] = Inr []"
| "smap f (x # xs) = sbind (f x) (\<lambda>y. sbind (smap f xs) (\<lambda>ys. Inr (y # ys)))"

lemma smap_cong [fundef_cong]:
  "xs = ys \<Longrightarrow> (\<And>x. x \<in> set ys \<Longrightarrow> f x = g x) \<Longrightarrow> smap f xs = smap g ys"
proof (induction ys arbitrary: xs)
  case Nil
  then show ?case by simp
next
  case (Cons y ys)
  then show ?case by (auto intro!: sbind_cong)
qed

lemma smap_Inr_iff:
  "smap f xs = Inr ys \<longleftrightarrow> list_all2 (\<lambda>x y. f x = Inr y) xs ys"
  by (induction xs arbitrary: ys) (auto simp: sbind_eq_Inr list_all2_Cons1)

lemma smap_length: "smap f xs = Inr ys \<Longrightarrow> length ys = length xs"
  by (simp add: smap_Inr_iff list_all2_lengthD)

text \<open>The same loop where a step can only fail or succeed.\<close>

fun omap :: "('a \<Rightarrow> 'b option) \<Rightarrow> 'a list \<Rightarrow> 'b list option" where
  "omap f [] = Some []"
| "omap f (x # xs) = Option.bind (f x) (\<lambda>y. Option.bind (omap f xs) (\<lambda>ys. Some (y # ys)))"

lemma omap_Some_iff: "omap f xs = Some ys \<longleftrightarrow> list_all2 (\<lambda>x y. f x = Some y) xs ys"
  by (induction xs arbitrary: ys) (auto simp: bind_eq_Some_conv list_all2_Cons1)

lemma omap_length: "omap f xs = Some ys \<Longrightarrow> length ys = length xs"
  by (simp add: omap_Some_iff list_all2_lengthD)

section \<open>Three-way comparison\<close>

text \<open>The \<open>-1 / 0 / 1\<close> result convention of Go's \<open>Compare\<close> functions.\<close>

definition order_int :: "bool \<Rightarrow> bool \<Rightarrow> int" where
  "order_int lt gt = (if lt then -1 else if gt then 1 else 0)"

lemma order_int_cases [simp]:
  "order_int True gt = -1"
  "order_int False True = 1"
  "order_int False False = 0"
  by (simp_all add: order_int_def)

text \<open>\<open>bytes.Compare\<close>: lexicographic on unsigned bytes, a proper prefix is smaller.\<close>

fun bytes_compare :: "byte list \<Rightarrow> byte list \<Rightarrow> int" where
  "bytes_compare [] [] = 0"
| "bytes_compare [] (y # ys) = -1"
| "bytes_compare (x # xs) [] = 1"
| "bytes_compare (x # xs) (y # ys) =
     (if x < y then -1 else if y < x then 1 else bytes_compare xs ys)"

lemma bytes_compare_refl [simp]: "bytes_compare xs xs = 0"
  by (induction xs) simp_all

lemma bytes_compare_eq_0_iff: "bytes_compare xs ys = 0 \<longleftrightarrow> xs = ys"
  by (induction xs ys rule: bytes_compare.induct) auto

lemma bytes_compare_swap: "bytes_compare ys xs = - bytes_compare xs ys"
  by (induction xs ys rule: bytes_compare.induct) auto

lemma bytes_compare_range: "bytes_compare xs ys \<in> {-1, 0, 1}"
  by (induction xs ys rule: bytes_compare.induct) auto

lemma bytes_compare_trans:
  "bytes_compare xs ys \<le> 0 \<Longrightarrow> bytes_compare ys zs \<le> 0 \<Longrightarrow> bytes_compare xs zs \<le> 0"
proof (induction xs ys arbitrary: zs rule: bytes_compare.induct)
  case (4 x xs y ys)
  then show ?case by (cases zs) (auto split: if_splits)
qed (case_tac zs; simp)+

section \<open>Words read as signed integers\<close>

lemma sint_range_64: "- (2 ^ 63) \<le> sint (w :: i64)" "sint (w :: i64) < 2 ^ 63"
  using sint_ge [of w] sint_lt [of w] by simp_all

lemma sint_range_32: "- (2 ^ 31) \<le> sint (w :: i32)" "sint (w :: i32) < 2 ^ 31"
  using sint_ge [of w] sint_lt [of w] by simp_all

lemma sint_scast_up:
  "LENGTH('a::len) \<le> LENGTH('b::len) \<Longrightarrow> sint (scast (w :: 'a word) :: 'b word) = sint w"
  by (simp add: is_up sint_up_scast)

lemma uint_ucast_up:
  "LENGTH('a::len) \<le> LENGTH('b::len) \<Longrightarrow> uint (ucast (w :: 'a word) :: 'b word) = uint w"
  by (simp add: is_up uint_up_ucast)

end
