(* ===== verification/Go_Floats.thy ===== *)
theory Go_Floats
  imports Prelude "HOL-Library.Log_Nat"
begin

text \<open>
  Go's \<open>float32\<close> and \<open>float64\<close> as IEEE 754 bit patterns: NaN, the comparison
  operators, the conversion \<open>float64(x)\<close> of a \<open>float32\<close> and the correctly rounded
  reading of a decimal literal (\<open>strconv.ParseFloat\<close>), all on the bits and all
  executable. The magnitude of a pattern (its bits without the sign) denotes a
  whole number of smallest subnormals, \<open>fp_units\<close>; ordering and widening are
  justified against it.
\<close>

section \<open>Bit patterns\<close>

datatype float64 = F64 (f64_bits: u64)
datatype float32 = F32 (f32_bits: u32)

definition f64_mag :: "float64 \<Rightarrow> nat" where
  "f64_mag f = unat (f64_bits f) mod 2 ^ 63"

definition f64_neg :: "float64 \<Rightarrow> bool" where
  "f64_neg f \<longleftrightarrow> 2 ^ 63 \<le> unat (f64_bits f)"

definition f32_mag :: "float32 \<Rightarrow> nat" where
  "f32_mag f = unat (f32_bits f) mod 2 ^ 31"

definition f32_neg :: "float32 \<Rightarrow> bool" where
  "f32_neg f \<longleftrightarrow> 2 ^ 31 \<le> unat (f32_bits f)"

text \<open>The magnitudes of the two infinities; every larger magnitude is a NaN.\<close>

definition f64_inf_mag :: nat where
  "f64_inf_mag = 2047 * 2 ^ 52"

definition f32_inf_mag :: nat where
  "f32_inf_mag = 255 * 2 ^ 23"

definition f64_is_nan :: "float64 \<Rightarrow> bool" where
  "f64_is_nan f \<longleftrightarrow> f64_inf_mag < f64_mag f"

definition f32_is_nan :: "float32 \<Rightarrow> bool" where
  "f32_is_nan f \<longleftrightarrow> f32_inf_mag < f32_mag f"

definition signed_mag :: "bool \<Rightarrow> nat \<Rightarrow> int" where
  "signed_mag neg m = (if neg then - int m else int m)"

definition f64_key :: "float64 \<Rightarrow> int" where
  "f64_key f = signed_mag (f64_neg f) (f64_mag f)"

definition f32_key :: "float32 \<Rightarrow> int" where
  "f32_key f = signed_mag (f32_neg f) (f32_mag f)"

text \<open>
  Go's \<open><\<close> and \<open>==\<close> on \<open>float64\<close>: false whenever an operand is a NaN, and the two
  zeros are equal (both have key 0).
\<close>

definition f64_less :: "float64 \<Rightarrow> float64 \<Rightarrow> bool" where
  "f64_less a b \<longleftrightarrow> \<not> f64_is_nan a \<and> \<not> f64_is_nan b \<and> f64_key a < f64_key b"

definition f64_equal :: "float64 \<Rightarrow> float64 \<Rightarrow> bool" where
  "f64_equal a b \<longleftrightarrow> \<not> f64_is_nan a \<and> \<not> f64_is_nan b \<and> f64_key a = f64_key b"

lemma f64_trichotomy:
  "\<not> f64_is_nan a \<Longrightarrow> \<not> f64_is_nan b \<Longrightarrow> f64_less a b \<or> f64_equal a b \<or> f64_less b a"
  by (auto simp: f64_less_def f64_equal_def)

section \<open>What a magnitude denotes\<close>

text \<open>
  With \<open>p\<close> fraction bits, magnitude \<open>m\<close> is the number \<open>fp_units p m\<close> of smallest
  subnormals: the fraction itself below \<open>2 ^ p\<close>, and the significand with its hidden
  bit shifted by the exponent above.
\<close>

definition fp_units :: "nat \<Rightarrow> nat \<Rightarrow> nat" where
  "fp_units p m =
     (if m div 2 ^ p = 0 then m mod 2 ^ p
      else (2 ^ p + m mod 2 ^ p) * 2 ^ (m div 2 ^ p - 1))"

lemma fp_units_small: "m < 2 ^ p \<Longrightarrow> fp_units p m = m"
  by (simp add: fp_units_def)

lemma fp_units_split:
  "f < 2 ^ p \<Longrightarrow> fp_units p (Suc e * 2 ^ p + f) = (2 ^ p + f) * 2 ^ e"
proof -
  assume f: "f < 2 ^ p"
  have d: "(Suc e * 2 ^ p + f) div 2 ^ p = Suc e"
    using f by (subst div_mult_self3) simp_all
  have m: "(Suc e * 2 ^ p + f) mod 2 ^ p = f"
    using f by (subst mod_mult_self3) simp_all
  show ?thesis by (simp only: fp_units_def d m) simp
qed

lemma fp_units_Suc: "fp_units p m < fp_units p (Suc m)"
proof (cases "Suc m mod 2 ^ p = 0")
  case True
  then obtain e where e: "Suc m = Suc e * 2 ^ p"
    by (metis Suc_neq_Zero mod_0_imp_dvd dvd_def mult.commute mult_0 not0_implies_Suc)
  have pos: "(0::nat) < 2 ^ p" by simp
  have m: "m = e * 2 ^ p + (2 ^ p - 1)" using e pos by (simp add: algebra_simps)
  have up: "fp_units p (Suc m) = 2 ^ p * 2 ^ e"
    using fp_units_split [of 0 p e] by (simp add: e)
  show ?thesis
  proof (cases e)
    case 0
    with m pos have "m < 2 ^ p" by simp
    moreover have "Suc m = 2 ^ p" using e 0 by simp
    ultimately show ?thesis using up 0 by (simp add: fp_units_small)
  next
    case (Suc e')
    then have "fp_units p m = (2 ^ p + (2 ^ p - 1)) * 2 ^ e'"
      using m fp_units_split [of "2 ^ p - 1" p e'] by simp
    moreover have "(2 ^ p + (2 ^ p - 1)) * 2 ^ e' < (2 * 2 ^ p) * (2::nat) ^ e'"
      by (rule mult_strict_right_mono) (use pos in linarith, simp)
    ultimately show ?thesis using up Suc by (simp add: algebra_simps)
  qed
next
  case False
  then have md: "Suc m mod 2 ^ p = Suc (m mod 2 ^ p)" "Suc m div 2 ^ p = m div 2 ^ p"
    by (simp_all add: mod_Suc div_Suc split: if_splits)
  then show ?thesis by (auto simp: fp_units_def)
qed

lemma fp_units_less_iff: "fp_units p m < fp_units p n \<longleftrightarrow> m < n"
  by (rule strict_mono_less) (simp add: strict_mono_Suc_iff fp_units_Suc)

lemma fp_units_le_iff: "fp_units p m \<le> fp_units p n \<longleftrightarrow> m \<le> n"
  by (simp add: fp_units_less_iff flip: not_less)

lemma fp_units_inject: "fp_units p m = fp_units p n \<longleftrightarrow> m = n"
  by (simp add: fp_units_le_iff order_eq_iff)

text \<open>The signed value of a non-NaN pattern, in smallest subnormals.\<close>

definition f64_units :: "float64 \<Rightarrow> int" where
  "f64_units f = signed_mag (f64_neg f) (fp_units 52 (f64_mag f))"

definition f32_units :: "float32 \<Rightarrow> int" where
  "f32_units f = signed_mag (f32_neg f) (fp_units 23 (f32_mag f))"

lemma fp_units_0 [simp]: "fp_units p 0 = 0"
  by (simp add: fp_units_def)

lemma signed_mag_units_less:
  "signed_mag s (fp_units p m) < signed_mag t (fp_units p n) \<longleftrightarrow> signed_mag s m < signed_mag t n"
  using fp_units_less_iff [of p m n] fp_units_less_iff [of p n m]
    fp_units_less_iff [of p 0 m] fp_units_less_iff [of p 0 n]
  by (auto simp: signed_mag_def)

lemma f64_key_less_iff: "f64_key a < f64_key b \<longleftrightarrow> f64_units a < f64_units b"
  by (simp add: f64_key_def f64_units_def signed_mag_units_less)

lemma f64_key_eq_iff: "f64_key a = f64_key b \<longleftrightarrow> f64_units a = f64_units b"
  using f64_key_less_iff [of a b] f64_key_less_iff [of b a] by linarith

section \<open>The conversion float64(x)\<close>

text \<open>
  Widening a magnitude: the exponent is rebiased by 896 and the fraction moves up
  29 bits; a subnormal is normalised by its leading bit; infinity stays, and a NaN
  becomes a quiet NaN.
\<close>

definition widen_mag :: "nat \<Rightarrow> nat" where
  "widen_mag m =
     (let e = m div 2 ^ 23; f = m mod 2 ^ 23 in
      if e = 255 then
        (if f = 0 then f64_inf_mag else f64_inf_mag + (2 ^ 51 + (f mod 2 ^ 22) * 2 ^ 29))
      else if e \<noteq> 0 then (e + 896) * 2 ^ 52 + f * 2 ^ 29
      else if f = 0 then 0
      else (let k = floorlog 2 f - 1 in (k + 874) * 2 ^ 52 + (f - 2 ^ k) * 2 ^ (52 - k)))"

definition f64_of_f32 :: "float32 \<Rightarrow> float64" where
  "f64_of_f32 x =
     F64 (of_nat ((if f32_neg x then 2 ^ 63 else 0) + widen_mag (f32_mag x)))"

lemma floorlog_2_bounds:
  assumes "0 < f" and "f < 2 ^ n"
  shows "2 ^ (floorlog 2 f - 1) \<le> f" and "f < 2 * 2 ^ (floorlog 2 f - 1)"
    and "floorlog 2 f - 1 < n"
proof -
  have b: "2 ^ (floorlog 2 f - 1) \<le> f \<and> f < 2 ^ floorlog 2 f"
    using floorlog_bounds [of f 2] assms(1) by simp
  then show lo: "2 ^ (floorlog 2 f - 1) \<le> f" by blast
  have pos: "floorlog 2 f \<noteq> 0" using assms(1) by (simp add: floorlog_eq_zero_iff)
  then show "f < 2 * 2 ^ (floorlog 2 f - 1)"
    using b by (cases "floorlog 2 f") simp_all
  have "(2::nat) ^ (floorlog 2 f - 1) < 2 ^ n" using lo assms(2) by linarith
  then show "floorlog 2 f - 1 < n" by simp
qed

text \<open>
  A finite magnitude keeps its value: the smallest \<open>float32\<close> subnormal is
  \<open>2 ^ 925\<close> times the smallest \<open>float64\<close> one.
\<close>

lemma widen_mag_normal:
  assumes "0 < e" "e < 255" "f < 2 ^ 23"
  shows "widen_mag (e * 2 ^ 23 + f) = (e + 896) * 2 ^ 52 + f * 2 ^ 29"
  using assms by (simp add: widen_mag_def)

lemma widen_mag_subnormal:
  assumes "0 < f" "f < 2 ^ 23"
  shows "widen_mag f =
    (floorlog 2 f - 1 + 874) * 2 ^ 52 + (f - 2 ^ (floorlog 2 f - 1)) * 2 ^ (52 - (floorlog 2 f - 1))"
  using assms by (simp add: widen_mag_def Let_def)

lemma widen_units_normal:
  assumes e: "0 < e" "e < 255" and f: "f < 2 ^ 23"
  shows "fp_units 52 (widen_mag (e * 2 ^ 23 + f)) = fp_units 23 (e * 2 ^ 23 + f) * 2 ^ 925"
proof -
  obtain e' where e': "e = Suc e'" using e by (cases e) simp_all
  have small: "f * 2 ^ 29 < 2 ^ 52"
  proof -
    have "f * 2 ^ 29 < 2 ^ 23 * (2::nat) ^ 29" using f by simp
    then show ?thesis by simp
  qed
  have "fp_units 52 (Suc (e' + 896) * 2 ^ 52 + f * 2 ^ 29) = (2 ^ 52 + f * 2 ^ 29) * 2 ^ (e' + 896)"
    using small by (rule fp_units_split)
  also have "\<dots> = (2 ^ 23 + f) * 2 ^ 29 * 2 ^ (e' + 896)" by (simp add: algebra_simps)
  also have "\<dots> = (2 ^ 23 + f) * 2 ^ e' * 2 ^ 925"
  proof -
    have "(2::nat) ^ 29 * 2 ^ (e' + 896) = 2 ^ e' * 2 ^ 925"
      by (simp only: power_add [symmetric]) (simp add: algebra_simps)
    then show ?thesis by (simp only: mult.assoc)
  qed
  also have "\<dots> = fp_units 23 (Suc e' * 2 ^ 23 + f) * 2 ^ 925"
    by (simp only: fp_units_split [OF f])
  finally show ?thesis
    using widen_mag_normal [OF e f] e' by (simp only: add_Suc)
qed

lemma widen_units_subnormal:
  assumes f: "0 < f" "f < 2 ^ 23"
  shows "fp_units 52 (widen_mag f) = fp_units 23 f * 2 ^ 925"
proof -
  define k where "k = floorlog 2 f - 1"
  have lo: "2 ^ k \<le> f" and hi: "f < 2 * 2 ^ k" and kn: "k < 23"
    using floorlog_2_bounds [OF f] by (simp_all add: k_def)
  have pow: "2 ^ k * 2 ^ (52 - k) = (2::nat) ^ 52"
    using kn by (simp add: power_add [symmetric])
  have "(f - 2 ^ k) * 2 ^ (52 - k) < 2 ^ k * (2::nat) ^ (52 - k)"
    using hi by (intro mult_strict_right_mono) simp_all
  then have small: "(f - 2 ^ k) * 2 ^ (52 - k) < 2 ^ 52" by (simp only: pow)
  have "fp_units 52 (Suc (k + 873) * 2 ^ 52 + (f - 2 ^ k) * 2 ^ (52 - k))
      = (2 ^ 52 + (f - 2 ^ k) * 2 ^ (52 - k)) * 2 ^ (k + 873)"
    using small by (rule fp_units_split)
  also have "2 ^ 52 + (f - 2 ^ k) * 2 ^ (52 - k) = f * 2 ^ (52 - k)"
  proof -
    have "2 ^ k * 2 ^ (52 - k) \<le> f * (2::nat) ^ (52 - k)"
      using lo by (intro mult_right_mono) simp_all
    then show ?thesis by (simp only: diff_mult_distrib pow)
  qed
  also have "f * 2 ^ (52 - k) * 2 ^ (k + 873) = f * 2 ^ 925"
    using kn by (simp add: mult.assoc power_add [symmetric])
  finally have "fp_units 52 (Suc (k + 873) * 2 ^ 52 + (f - 2 ^ k) * 2 ^ (52 - k)) = f * 2 ^ 925" .
  moreover have "widen_mag f = Suc (k + 873) * 2 ^ 52 + (f - 2 ^ k) * 2 ^ (52 - k)"
    unfolding widen_mag_subnormal [OF f] k_def [symmetric] by simp
  ultimately show ?thesis using fp_units_small [OF f(2)] by (simp only:)
qed

lemma widen_units:
  assumes "m < f32_inf_mag"
  shows "fp_units 52 (widen_mag m) = fp_units 23 m * 2 ^ 925"
proof -
  have m: "m = (m div 2 ^ 23) * 2 ^ 23 + m mod 2 ^ 23"
    by (rule div_mult_mod_eq [symmetric])
  have e: "m div 2 ^ 23 < 255" using assms by (simp add: f32_inf_mag_def less_mult_imp_div_less)
  have f: "m mod 2 ^ 23 < 2 ^ 23" by simp
  show ?thesis
  proof (cases "m div 2 ^ 23 = 0")
    case False
    then show ?thesis using widen_units_normal [OF _ e f] m by simp
  next
    case True
    then have "m < 2 ^ 23" using m f by simp
    then show ?thesis
      by (cases "m = 0") (simp_all add: widen_units_subnormal widen_mag_def [of 0])
  qed
qed


lemma widen_finite:
  assumes "m < f32_inf_mag"
  shows "widen_mag m < f64_inf_mag"
proof -
  have "fp_units 23 m < fp_units 23 f32_inf_mag" using assms by (simp only: fp_units_less_iff)
  also have "fp_units 23 f32_inf_mag = 2 ^ 277"
    using fp_units_split [of 0 23 254] by (simp add: f32_inf_mag_def)
  finally have "fp_units 23 m * 2 ^ 925 < 2 ^ 277 * 2 ^ 925"
    by (rule mult_strict_right_mono) simp
  also have "\<dots> \<le> (2 ^ 52 + 0) * 2 ^ 2046" by simp
  also have "\<dots> = fp_units 52 f64_inf_mag"
    using fp_units_split [of 0 52 2046] by (simp add: f64_inf_mag_def)
  finally have "fp_units 52 (widen_mag m) < fp_units 52 f64_inf_mag"
    by (simp only: widen_units [OF assms])
  then show ?thesis by (simp only: fp_units_less_iff)
qed

lemma widen_inf [simp]: "widen_mag f32_inf_mag = f64_inf_mag"
  by (simp add: widen_mag_def f32_inf_mag_def)

lemma f32_mag_bound: "f32_mag x < 2 ^ 31"
  by (simp add: f32_mag_def)

lemma widen_nan:
  assumes "f32_inf_mag < m" "m < 2 ^ 31"
  shows "f64_inf_mag < widen_mag m" "widen_mag m < 2 ^ 63"
proof -
  have "m div 2 ^ 23 = 255"
    using assms by (simp add: f32_inf_mag_def)
  then have w: "widen_mag m = (if m mod 2 ^ 23 = 0 then f64_inf_mag
      else f64_inf_mag + (2 ^ 51 + (m mod 2 ^ 23 mod 2 ^ 22) * 2 ^ 29))"
    by (simp add: widen_mag_def)
  have nz: "m mod 2 ^ 23 \<noteq> 0"
  proof
    assume "m mod 2 ^ 23 = 0"
    then have "m = 255 * 2 ^ 23" using \<open>m div 2 ^ 23 = 255\<close> by (metis div_mult_mod_eq add_0_right)
    then show False using assms by (simp add: f32_inf_mag_def)
  qed
  have "m mod 2 ^ 23 mod 2 ^ 22 < (2::nat) ^ 22" by simp
  then have "(m mod 2 ^ 23 mod 2 ^ 22) * 2 ^ 29 < 2 ^ 22 * (2::nat) ^ 29"
    by (rule mult_strict_right_mono) simp
  then show "f64_inf_mag < widen_mag m" "widen_mag m < 2 ^ 63"
    using nz by (simp_all add: w f64_inf_mag_def)
qed

lemma widen_bound: "m < 2 ^ 31 \<Longrightarrow> widen_mag m < 2 ^ 63"
  using widen_finite [of m] widen_nan [of m] widen_inf
  by (cases m f32_inf_mag rule: linorder_cases) (simp_all add: f64_inf_mag_def)

lemma f64_of_mag_fields:
  assumes "w < 2 ^ 63"
  shows "f64_neg (F64 (of_nat ((if s then 2 ^ 63 else 0) + w))) = s"
    and "f64_mag (F64 (of_nat ((if s then 2 ^ 63 else 0) + w))) = w"
proof -
  have u: "unat (of_nat ((if s then 2 ^ 63 else 0) + w) :: u64) = (if s then 2 ^ 63 else 0) + w"
  proof -
    have "(if s then 2 ^ 63 else 0) + w < (2::nat) ^ LENGTH(64)" using assms by simp
    then show ?thesis by (simp only: unat_of_nat take_bit_nat_eq_self mod_less)
  qed
  show "f64_neg (F64 (of_nat ((if s then 2 ^ 63 else 0) + w))) = s"
    using assms by (simp only: f64_neg_def float64.sel u) simp
  show "f64_mag (F64 (of_nat ((if s then 2 ^ 63 else 0) + w))) = w"
    using assms by (simp only: f64_mag_def float64.sel u) (simp split: if_splits)
qed

lemma f64_of_f32_neg [simp]: "f64_neg (f64_of_f32 x) = f32_neg x"
  and f64_of_f32_mag [simp]: "f64_mag (f64_of_f32 x) = widen_mag (f32_mag x)"
  unfolding f64_of_f32_def
  by (rule f64_of_mag_fields, rule widen_bound, rule f32_mag_bound)+

lemma f64_of_f32_nan [simp]: "f64_is_nan (f64_of_f32 x) = f32_is_nan x"
  using widen_finite [of "f32_mag x"] widen_nan(1) [OF _ f32_mag_bound, of x] widen_inf
  by (cases "f32_mag x" f32_inf_mag rule: linorder_cases) (auto simp: f64_is_nan_def f32_is_nan_def)

lemma f64_of_f32_units:
  "f32_mag x < f32_inf_mag \<Longrightarrow> f64_units (f64_of_f32 x) = f32_units x * 2 ^ 925"
  by (simp add: f64_units_def f32_units_def signed_mag_def widen_units)

lemma widen_less_iff:
  assumes "m \<le> f32_inf_mag" "n \<le> f32_inf_mag"
  shows "widen_mag m < widen_mag n \<longleftrightarrow> m < n"
proof -
  consider "m < f32_inf_mag" "n < f32_inf_mag" | "m = f32_inf_mag" | "n = f32_inf_mag"
    using assms by linarith
  then show ?thesis
  proof cases
    case 1
    then have "widen_mag m < widen_mag n \<longleftrightarrow> fp_units 23 m * 2 ^ 925 < fp_units 23 n * 2 ^ 925"
      by (simp only: widen_units [symmetric] fp_units_less_iff)
    also have "\<dots> \<longleftrightarrow> fp_units 23 m < fp_units 23 n" by simp
    finally show ?thesis by (simp only: fp_units_less_iff)
  next
    case 2
    then show ?thesis using assms(2) widen_finite [of n] by (cases "n = m") auto
  next
    case 3
    then show ?thesis using assms(1) widen_finite [of m] by (cases "n = m") auto
  qed
qed

text \<open>Widening keeps the order of \<open>float32\<close> values.\<close>

lemma f64_of_f32_less:
  assumes "\<not> f32_is_nan a" "\<not> f32_is_nan b"
  shows "f64_less (f64_of_f32 a) (f64_of_f32 b) \<longleftrightarrow> f32_key a < f32_key b"
proof -
  have z: "widen_mag 0 = 0" by (simp add: widen_mag_def)
  have le: "f32_mag a \<le> f32_inf_mag" "f32_mag b \<le> f32_inf_mag"
    using assms by (simp_all add: f32_is_nan_def)
  show ?thesis
    using assms widen_less_iff [OF le] widen_less_iff [OF le(2) le(1)]
      widen_less_iff [OF _ le(1), of 0] widen_less_iff [OF _ le(2), of 0]
    by (auto simp: f64_less_def f64_key_def f32_key_def signed_mag_def z)
qed

end
