(* ===== verification/Go_Numbers.thy ===== *)
theory Go_Numbers
  imports Go_Floats
begin

text \<open>
  Reading the text of a number as Go's \<open>strconv\<close> does for \<open>encoding/json\<close>:
  \<open>ParseInt\<close> and \<open>ParseUint\<close> in base 10 with their 64-bit range, and \<open>ParseFloat\<close>
  with correct rounding (nearest, ties to even) into either float width.
\<close>

section \<open>Integers\<close>

definition is_digit :: "char \<Rightarrow> bool" where
  "is_digit c \<longleftrightarrow> (48::nat) \<le> of_char c \<and> of_char c \<le> (57::nat)"

definition digit_val :: "char \<Rightarrow> nat" where
  "digit_val c = of_char c - 48"

definition digits_val :: "string \<Rightarrow> nat" where
  "digits_val s = foldl (\<lambda>n c. 10 * n + digit_val c) 0 s"

definition parse_digits :: "string \<Rightarrow> nat option" where
  "parse_digits s = (if s \<noteq> [] \<and> list_all is_digit s then Some (digits_val s) else None)"

definition parse_uint64 :: "string \<Rightarrow> nat option" where
  "parse_uint64 s =
     (case parse_digits s of
        None \<Rightarrow> None
      | Some n \<Rightarrow> if n < 2 ^ 64 then Some n else None)"

fun split_sign :: "string \<Rightarrow> bool \<times> string" where
  "split_sign (c # s) =
     (if c = CHR ''-'' then (True, s) else if c = CHR ''+'' then (False, s) else (False, c # s))"
| "split_sign [] = (False, [])"

definition parse_int64 :: "string \<Rightarrow> int option" where
  "parse_int64 s =
     (case split_sign s of (neg, ds) \<Rightarrow>
      case parse_digits ds of
        None \<Rightarrow> None
      | Some n \<Rightarrow>
          (let v = (if neg then - int n else int n)
           in if - (2 ^ 63) \<le> v \<and> v < 2 ^ 63 then Some v else None))"

section \<open>Floats\<close>

text \<open>A decimal text as sign, integer mantissa and power of ten.\<close>

definition parse_exponent :: "string \<Rightarrow> int option" where
  "parse_exponent s =
     (case s of
        [] \<Rightarrow> Some 0
      | c # t \<Rightarrow>
          if c = CHR ''e'' \<or> c = CHR ''E'' then
            (case split_sign t of (neg, ds) \<Rightarrow>
               map_option (\<lambda>n. if neg then - int n else int n) (parse_digits ds))
          else None)"

definition split_frac :: "string \<Rightarrow> string \<times> string" where
  "split_frac s =
     (case s of
        [] \<Rightarrow> ([], [])
      | c # t \<Rightarrow> if c = CHR ''.'' then (takeWhile is_digit t, dropWhile is_digit t) else ([], s))"

definition parse_decimal :: "string \<Rightarrow> (bool \<times> nat \<times> int) option" where
  "parse_decimal s =
     (case split_sign s of (neg, t) \<Rightarrow>
      let ip = takeWhile is_digit t in
      case split_frac (dropWhile is_digit t) of (fp, rest) \<Rightarrow>
        if ip @ fp = [] then None
        else map_option (\<lambda>e. (neg, digits_val (ip @ fp), e - int (length fp))) (parse_exponent rest))"

text \<open>
  Rounding \<open>num / den\<close> to a magnitude with \<open>p\<close> fraction bits whose smallest
  subnormal is \<open>2 ^ (- b)\<close>: the quotient is taken at the scale where it has
  \<open>p + 1\<close> bits (or at the subnormal scale) and rounded half to even. A carry out of
  the significand lands in the exponent by itself.
\<close>

definition round_half_even :: "nat \<Rightarrow> nat \<Rightarrow> nat" where
  "round_half_even n d =
     (let q = n div d; r = n mod d
      in if d < 2 * r \<or> (d = 2 * r \<and> odd q) then q + 1 else q)"

definition fp_round :: "nat \<Rightarrow> nat \<Rightarrow> nat \<Rightarrow> nat \<Rightarrow> nat" where
  "fp_round p b num den =
     (let n = num * 2 ^ b; s = floorlog 2 (n div den) - Suc p
      in s * 2 ^ p + round_half_even n (den * 2 ^ s))"

definition round_decimal :: "nat \<Rightarrow> nat \<Rightarrow> nat \<Rightarrow> int \<Rightarrow> nat" where
  "round_decimal p b m e =
     (if 0 \<le> e then fp_round p b (m * 10 ^ nat e) 1 else fp_round p b m (10 ^ nat (- e)))"

text \<open>Overflow to infinity is Go's \<open>ErrRange\<close>, an error for \<open>encoding/json\<close>.\<close>

definition parse_float64 :: "string \<Rightarrow> float64 option" where
  "parse_float64 s =
     (case parse_decimal s of
        None \<Rightarrow> None
      | Some (neg, m, e) \<Rightarrow>
          (let w = round_decimal 52 1074 m e in
           if f64_inf_mag \<le> w then None
           else Some (F64 (of_nat ((if neg then 2 ^ 63 else 0) + w)))))"

definition parse_float32 :: "string \<Rightarrow> float32 option" where
  "parse_float32 s =
     (case parse_decimal s of
        None \<Rightarrow> None
      | Some (neg, m, e) \<Rightarrow>
          (let w = round_decimal 23 149 m e in
           if f32_inf_mag \<le> w then None
           else Some (F32 (of_nat ((if neg then 2 ^ 31 else 0) + w)))))"

section \<open>Correct rounding\<close>

lemma round_half_even_exact: "0 < d \<Longrightarrow> round_half_even (q * d) d = q"
  by (simp add: round_half_even_def)

lemma round_half_even_close:
  assumes "0 < d"
  shows "2 * \<bar>int (round_half_even n d * d) - int n\<bar> \<le> int d"
proof -
  define q r where "q = n div d" and "r = n mod d"
  have n: "n = q * d + r" by (simp add: q_def r_def)
  have r: "r < d" using assms by (simp add: r_def)
  have q1: "(q + 1) * d = q * d + d" by simp
  show ?thesis
  proof (cases "d < 2 * r \<or> (d = 2 * r \<and> odd q)")
    case True
    then have "round_half_even n d = q + 1" by (simp add: round_half_even_def q_def r_def)
    then show ?thesis using True r n by (simp add: distrib_right) linarith
  next
    case False
    then have "round_half_even n d = q"
      unfolding round_half_even_def q_def r_def Let_def by (simp only: if_False)
    then show ?thesis using False r n by auto
  qed
qed

lemma floorlog_2_unique: "2 ^ k \<le> n \<Longrightarrow> n < 2 ^ Suc k \<Longrightarrow> floorlog 2 n = Suc k"
  using floorlog_leD floorlog_leI floorlog_geI [of 2 k n]
  by (intro antisym floorlog_leI floorlog_geI) simp_all

text \<open>A number the format can represent is read back exactly.\<close>

lemma fp_round_exact:
  assumes den: "0 < den" and num: "num * 2 ^ b = fp_units p m * den"
  shows "fp_round p b num den = m"
proof (cases "m < 2 ^ Suc p")
  case True
  have I: "fp_units p m = m"
  proof (cases "m < 2 ^ p")
    case False
    then have "m div 2 ^ p = 1" using True
      by (intro div_nat_eqI) simp_all
    moreover have "2 ^ p + m mod 2 ^ p = m"
      using div_mult_mod_eq [of m "2 ^ p"] \<open>m div 2 ^ p = 1\<close> by simp
    ultimately show ?thesis by (simp add: fp_units_def)
  qed (simp add: fp_units_small)
  have "floorlog 2 m \<le> Suc p" using True by (intro floorlog_leI) simp_all
  then show ?thesis
    using den by (simp add: fp_round_def Let_def num I round_half_even_exact)
next
  case False
  define e f where "e = m div 2 ^ p - 1" and "f = m mod 2 ^ p"
  have f: "f < 2 ^ p" by (simp add: f_def)
  have "Suc p \<le> m div 2 ^ p \<or> 0 < m div 2 ^ p"
    using False by (simp add: div_greater_zero_iff)
  then have m: "m = Suc e * 2 ^ p + f"
    using div_mult_mod_eq [of m "2 ^ p"] False by (simp add: e_def f_def div_greater_zero_iff)
  have I: "fp_units p m = (2 ^ p + f) * 2 ^ e" using fp_units_split [OF f, of e] m by simp
  have "floorlog 2 ((2 ^ p + f) * 2 ^ e) = Suc (p + e)"
  proof (rule floorlog_2_unique)
    show "2 ^ (p + e) \<le> (2 ^ p + f) * 2 ^ e" by (simp add: power_add)
    have "(2 ^ p + f) * 2 ^ e < (2 ^ p + 2 ^ p) * 2 ^ e" using f by simp
    then show "(2 ^ p + f) * 2 ^ e < 2 ^ Suc (p + e)" by (simp add: power_add)
  qed
  then have s: "floorlog 2 (num * 2 ^ b div den) - Suc p = e" using den by (simp add: num I)
  have "num * 2 ^ b = (2 ^ p + f) * (den * 2 ^ e)" by (simp add: num I algebra_simps)
  then have "round_half_even (num * 2 ^ b) (den * 2 ^ e) = 2 ^ p + f"
    using round_half_even_exact [of "den * 2 ^ e"] den by simp
  then show ?thesis using s m by (simp add: fp_round_def Let_def)
qed

lemmas int_text_simps = parse_int64_def parse_uint64_def parse_digits_def digits_val_def
  is_digit_def digit_val_def

lemmas float_text_simps = parse_float64_def parse_float32_def parse_decimal_def split_frac_def
  parse_exponent_def parse_digits_def digits_val_def is_digit_def digit_val_def

lemma parse_int_examples:
  "parse_int64 ''-128'' = Some (- 128)" "parse_int64 ''1.0'' = None"
  "parse_uint64 ''18446744073709551615'' = Some (2 ^ 64 - 1)"
  "parse_uint64 ''-1'' = None"
  by (simp_all add: int_text_simps)

text \<open>A large bit length is computed 64 bits at a time.\<close>

lemma floorlog_chunk:
  fixes n :: nat
  assumes "2 ^ 64 \<le> n"
  shows "floorlog 2 n = floorlog 2 (n div 2 ^ 64) + 64"
proof -
  define m k where "m = n div 2 ^ 64" and "k = floorlog 2 m - 1"
  have m: "0 < m" using assms by (simp add: m_def div_greater_zero_iff)
  have "m < 2 ^ m" by (rule less_exp)
  from floorlog_2_bounds [OF m this] have k: "2 ^ k \<le> m" "m < 2 * 2 ^ k"
    by (simp_all add: k_def)
  have n: "n = m * 2 ^ 64 + n mod 2 ^ 64" by (simp add: m_def)
  have r: "n mod 2 ^ 64 < 2 ^ 64" by simp
  have "floorlog 2 n = Suc (k + 64)"
  proof (rule floorlog_2_unique)
    have "2 ^ k * 2 ^ 64 \<le> m * (2::nat) ^ 64" using k by simp
    then show "2 ^ (k + 64) \<le> n" using n by (simp add: power_add)
    have "(m + 1) * 2 ^ 64 \<le> (2 * 2 ^ k) * (2::nat) ^ 64" using k by (intro mult_right_mono) simp_all
    then show "n < 2 ^ Suc (k + 64)" using n r by (simp add: power_add)
  qed
  moreover have "floorlog 2 m \<noteq> 0" using m by (simp add: floorlog_eq_zero_iff)
  ultimately show ?thesis by (simp add: k_def m_def)
qed

text \<open>Evaluating a representable literal through its exact magnitude.\<close>

lemma parse_float64_2_25: "parse_float64 ''2.25'' = Some (F64 0x4002000000000000)"
proof -
  have "fp_round 52 1074 225 (10 ^ nat 2) = 0x4002000000000000"
    by (rule fp_round_exact) (simp_all add: fp_units_def)
  then have "round_decimal 52 1074 225 (- 2) = 0x4002000000000000"
    by (simp add: round_decimal_def)
  moreover have "parse_decimal ''2.25'' = Some (False, 225, - 2)"
    by (simp add: float_text_simps)
  ultimately show ?thesis by (simp add: parse_float64_def f64_inf_mag_def)
qed

end
