(* ===== verification/Filter_Expr.thy ===== *)
theory Filter_Expr
  imports Go_Numbers
begin

text \<open>
  The pushed-down predicate AST of \<open>datafusion/expr.go\<close>: columns, comparison
  operators, typed literals and the seven expression forms. Go's string-typed
  enumerations keep a constructor for every other string, since a program can build
  an AST by hand that the decoder would refuse.
\<close>

section \<open>Columns, operators, literals\<close>

record Column =
  col_name :: string
  col_index :: int

datatype CompareOp =
    CompareEq | CompareNeq | CompareLt | CompareLtEq | CompareGt | CompareGtEq
  | OtherOp string

datatype LiteralType =
    LiteralBool | LiteralInt8 | LiteralInt16 | LiteralInt32 | LiteralInt64
  | LiteralUint8 | LiteralUint16 | LiteralUint32 | LiteralUint64
  | LiteralFloat32 | LiteralFloat64 | LiteralUtf8 | LiteralBinary
  | LiteralDate32 | LiteralDate64 | LiteralTimestamp
  | OtherType string

datatype TimeUnit =
    TimeUnitSecond | TimeUnitMillisecond | TimeUnitMicrosecond | TimeUnitNanosecond
  | OtherUnit string

text \<open>The dynamically typed \<open>Value any\<close> of a literal: one constructor per Go type it can hold.\<close>

datatype GoValue =
    NilV
  | is_BoolV: BoolV bool
  | is_Int8V: Int8V i8 | is_Int16V: Int16V i16 | is_Int32V: Int32V i32 | is_Int64V: Int64V i64
  | is_Uint8V: Uint8V u8 | is_Uint16V: Uint16V u16 | is_Uint32V: Uint32V u32
  | is_Uint64V: Uint64V u64
  | is_Float32V: Float32V float32 | is_Float64V: Float64V float64
  | is_StringV: StringV string | is_BytesV: BytesV "byte list"

record Literal =
  lit_type :: LiteralType
  lit_value :: GoValue
  lit_unit :: TimeUnit
  lit_tz :: string

text \<open>The zero values Go gives an unset struct field.\<close>

definition zero_column :: Column where
  "zero_column = \<lparr>col_name = [], col_index = 0\<rparr>"

definition zero_literal :: Literal where
  "zero_literal = \<lparr>lit_type = OtherType [], lit_value = NilV, lit_unit = OtherUnit [], lit_tz = []\<rparr>"

section \<open>Expressions\<close>

text \<open>
  \<open>NotE\<close> is Go's \<open>Not\<close>; \<open>NilExpr\<close> is the nil interface value, which every type
  switch sends to its default branch.
\<close>

datatype Expr =
    Compare Column CompareOp Literal
  | IsNull Column bool
  | Between Column bool Literal Literal
  | InList Column bool "Literal list"
  | And Expr Expr
  | Or Expr Expr
  | NotE Expr
  | NilExpr

section \<open>The strings the constants stand for\<close>

definition compareOp_of_string :: "string \<Rightarrow> CompareOp" where
  "compareOp_of_string s =
     (if s = ''eq'' then CompareEq else if s = ''neq'' then CompareNeq
      else if s = ''lt'' then CompareLt else if s = ''lteq'' then CompareLtEq
      else if s = ''gt'' then CompareGt else if s = ''gteq'' then CompareGtEq
      else OtherOp s)"

definition literalType_of_string :: "string \<Rightarrow> LiteralType" where
  "literalType_of_string s =
     (if s = ''bool'' then LiteralBool else if s = ''int8'' then LiteralInt8
      else if s = ''int16'' then LiteralInt16 else if s = ''int32'' then LiteralInt32
      else if s = ''int64'' then LiteralInt64 else if s = ''uint8'' then LiteralUint8
      else if s = ''uint16'' then LiteralUint16 else if s = ''uint32'' then LiteralUint32
      else if s = ''uint64'' then LiteralUint64 else if s = ''float32'' then LiteralFloat32
      else if s = ''float64'' then LiteralFloat64 else if s = ''utf8'' then LiteralUtf8
      else if s = ''binary'' then LiteralBinary else if s = ''date32'' then LiteralDate32
      else if s = ''date64'' then LiteralDate64 else if s = ''timestamp'' then LiteralTimestamp
      else OtherType s)"

definition timeUnit_of_string :: "string \<Rightarrow> TimeUnit" where
  "timeUnit_of_string s =
     (if s = ''s'' then TimeUnitSecond else if s = ''ms'' then TimeUnitMillisecond
      else if s = ''us'' then TimeUnitMicrosecond else if s = ''ns'' then TimeUnitNanosecond
      else OtherUnit s)"

definition known_op :: "CompareOp \<Rightarrow> bool" where
  "known_op op = (case op of OtherOp _ \<Rightarrow> False | _ \<Rightarrow> True)"

definition known_unit :: "TimeUnit \<Rightarrow> bool" where
  "known_unit u = (case u of OtherUnit _ \<Rightarrow> False | _ \<Rightarrow> True)"

section \<open>Well-formed ASTs\<close>

text \<open>
  The documented agreement of a literal's \<open>Type\<close> and the Go type of its \<open>Value\<close>,
  with \<open>Unit\<close> set only for timestamps. The decoder is shown to establish it.
\<close>

definition value_fits :: "LiteralType \<Rightarrow> GoValue \<Rightarrow> bool" where
  "value_fits t v =
     (case t of
        LiteralBool \<Rightarrow> is_BoolV v
      | LiteralInt8 \<Rightarrow> is_Int8V v | LiteralInt16 \<Rightarrow> is_Int16V v
      | LiteralInt32 \<Rightarrow> is_Int32V v | LiteralInt64 \<Rightarrow> is_Int64V v
      | LiteralUint8 \<Rightarrow> is_Uint8V v | LiteralUint16 \<Rightarrow> is_Uint16V v
      | LiteralUint32 \<Rightarrow> is_Uint32V v | LiteralUint64 \<Rightarrow> is_Uint64V v
      | LiteralFloat32 \<Rightarrow> is_Float32V v | LiteralFloat64 \<Rightarrow> is_Float64V v
      | LiteralUtf8 \<Rightarrow> is_StringV v | LiteralBinary \<Rightarrow> is_BytesV v
      | LiteralDate32 \<Rightarrow> is_Int32V v | LiteralDate64 \<Rightarrow> is_Int64V v
      | LiteralTimestamp \<Rightarrow> is_Int64V v
      | OtherType _ \<Rightarrow> False)"

definition wf_literal :: "Literal \<Rightarrow> bool" where
  "wf_literal l \<longleftrightarrow>
     value_fits (lit_type l) (lit_value l) \<and>
     (lit_type l = LiteralTimestamp \<longrightarrow> known_unit (lit_unit l))"

fun wf_expr :: "Expr \<Rightarrow> bool" where
  "wf_expr (Compare c op l) \<longleftrightarrow> known_op op \<and> wf_literal l"
| "wf_expr (IsNull c n) \<longleftrightarrow> True"
| "wf_expr (Between c n lo hi) \<longleftrightarrow> wf_literal lo \<and> wf_literal hi"
| "wf_expr (InList c n ls) \<longleftrightarrow> list_all wf_literal ls"
| "wf_expr (And a b) \<longleftrightarrow> wf_expr a \<and> wf_expr b"
| "wf_expr (Or a b) \<longleftrightarrow> wf_expr a \<and> wf_expr b"
| "wf_expr (NotE e) \<longleftrightarrow> wf_expr e"
| "wf_expr NilExpr \<longleftrightarrow> False"

end
