(* ===== verification/Base64.thy ===== *)
theory Base64
  imports Prelude
begin

text \<open>
  \<open>base64.StdEncoding.DecodeString\<close> of Go's standard library, which the literal
  decoder applies to binary literals: line breaks are skipped, padding is required,
  and the unused low bits of the last group are ignored. The encoder is the standard
  alphabet with padding the engine's serializer uses.
\<close>

section \<open>The alphabet\<close>

definition b64_char :: "nat \<Rightarrow> char" where
  "b64_char n =
     (if n < 26 then char_of (65 + n)
      else if n < 52 then char_of (71 + n)
      else if n < 62 then char_of (n - 4)
      else if n = 62 then CHR ''+'' else CHR ''/'')"

definition b64_val :: "char \<Rightarrow> nat option" where
  "b64_val c =
     (let k = of_char c :: nat in
      if 65 \<le> k \<and> k \<le> 90 then Some (k - 65)
      else if 97 \<le> k \<and> k \<le> 122 then Some (k - 71)
      else if 48 \<le> k \<and> k \<le> 57 then Some (k + 4)
      else if c = CHR ''+'' then Some 62
      else if c = CHR ''/'' then Some 63
      else None)"

lemma b64_val_char: "n < 64 \<Longrightarrow> b64_val (b64_char n) = Some n"
  by (auto simp: b64_val_def b64_char_def Let_def)

lemma b64_char_not_pad: "n < 64 \<Longrightarrow> b64_char n \<noteq> CHR ''=''"
  using b64_val_char [of n] by (auto simp: b64_val_def)

section \<open>Encoding and decoding\<close>

fun b64_encode_nats :: "nat list \<Rightarrow> string" where
  "b64_encode_nats (a # b # c # xs) =
     b64_char (a div 4) # b64_char (a mod 4 * 16 + b div 16)
       # b64_char (b mod 16 * 4 + c div 64) # b64_char (c mod 64) # b64_encode_nats xs"
| "b64_encode_nats [a, b] =
     [b64_char (a div 4), b64_char (a mod 4 * 16 + b div 16), b64_char (b mod 16 * 4), CHR ''='']"
| "b64_encode_nats [a] =
     [b64_char (a div 4), b64_char (a mod 4 * 16), CHR ''='', CHR ''='']"
| "b64_encode_nats [] = []"

text \<open>
  One quantum of four characters at a time; only the last may be padded, and nothing
  may follow the padding.
\<close>

fun b64_decode_nats :: "string \<Rightarrow> nat list option" where
  "b64_decode_nats (a # b # c # d # s) =
     (case (b64_val a, b64_val b) of
        (Some x, Some y) \<Rightarrow>
          if c = CHR ''='' then
            (if d = CHR ''='' \<and> s = [] then Some [x * 4 + y div 16] else None)
          else (case b64_val c of
            None \<Rightarrow> None
          | Some z \<Rightarrow>
              if d = CHR ''='' then
                (if s = [] then Some [x * 4 + y div 16, y mod 16 * 16 + z div 4] else None)
              else (case b64_val d of
                None \<Rightarrow> None
              | Some w \<Rightarrow>
                  map_option (\<lambda>r. (x * 4 + y div 16) # (y mod 16 * 16 + z div 4) # (z mod 4 * 64 + w) # r)
                    (b64_decode_nats s)))
      | _ \<Rightarrow> None)"
| "b64_decode_nats [] = Some []"
| "b64_decode_nats _ = None"

definition b64_decode :: "string \<Rightarrow> byte list option" where
  "b64_decode s =
     map_option (map of_nat)
       (b64_decode_nats (filter (\<lambda>c. c \<noteq> CHR 0x0D \<and> c \<noteq> CHR 0x0A) s))"

definition b64_encode :: "byte list \<Rightarrow> string" where
  "b64_encode bs = b64_encode_nats (map unat bs)"

section \<open>Round trip\<close>

text \<open>The three bytes of a group reassembled from the four six-bit values.\<close>

lemma b64_group:
  fixes a b c :: nat
  assumes "a < 256" "b < 256" "c < 256"
  shows "a div 4 < 64" "a mod 4 * 16 + b div 16 < 64" "b mod 16 * 4 + c div 64 < 64"
    and "a mod 4 * 16 < 64" "b mod 16 * 4 < 64" "c mod 64 < 64"
    and "a div 4 * 4 + (a mod 4 * 16 + b div 16) div 16 = a"
    and "(a mod 4 * 16 + b div 16) mod 16 * 16 + (b mod 16 * 4 + c div 64) div 4 = b"
    and "(b mod 16 * 4 + c div 64) mod 4 * 64 + c mod 64 = c"
    and "a div 4 * 4 + a mod 4 * 16 div 16 = a"
    and "(a mod 4 * 16 + b div 16) mod 16 * 16 + b mod 16 * 4 div 4 = b"
proof -
  have b: "b div 16 < 16" and c: "c div 64 < 4" using assms by (simp_all add: less_mult_imp_div_less)
  have "a mod 4 < 4" "b mod 16 < 16" by simp_all
  with b c show "a div 4 < 64" "a mod 4 * 16 + b div 16 < 64" "b mod 16 * 4 + c div 64 < 64"
    "a mod 4 * 16 < 64" "b mod 16 * 4 < 64" "c mod 64 < 64"
    using assms by (simp_all add: less_mult_imp_div_less)
  have dm: "(q * k + r) div k = q" "(q * k + r) mod k = r" if "r < k" for q k r :: nat
    using that by simp_all
  show "a div 4 * 4 + (a mod 4 * 16 + b div 16) div 16 = a"
    "(a mod 4 * 16 + b div 16) mod 16 * 16 + (b mod 16 * 4 + c div 64) div 4 = b"
    "(b mod 16 * 4 + c div 64) mod 4 * 64 + c mod 64 = c"
    "a div 4 * 4 + a mod 4 * 16 div 16 = a"
    "(a mod 4 * 16 + b div 16) mod 16 * 16 + b mod 16 * 4 div 4 = b"
    by (simp_all only: dm [OF b] dm [OF c]) simp_all
qed

lemma b64_nats_roundtrip:
  "list_all (\<lambda>n. n < 256) xs \<Longrightarrow> b64_decode_nats (b64_encode_nats xs) = Some xs"
proof (induction xs rule: b64_encode_nats.induct)
  case (1 a b c xs)
  then have "a < 256" "b < 256" "c < 256" by simp_all
  from b64_group [OF this] 1 show ?case by (simp add: b64_val_char b64_char_not_pad)
next
  case (2 a b)
  then have "a < 256" "b < 256" by simp_all
  from b64_group [OF this, of 0] show ?case by (simp add: b64_val_char b64_char_not_pad)
next
  case (3 a)
  then have "a < 256" by simp
  from b64_group [OF this, of 0 0] show ?case by (simp add: b64_val_char)
qed simp

lemma b64_char_not_newline:
  "n < 64 \<Longrightarrow> b64_char n \<noteq> CHR 0x0D \<and> b64_char n \<noteq> CHR 0x0A"
  using b64_val_char [of n] by (auto simp: b64_val_def)

lemma b64_encode_no_newline:
  "list_all (\<lambda>n. n < 256) xs \<Longrightarrow>
   list_all (\<lambda>c. c \<noteq> CHR 0x0D \<and> c \<noteq> CHR 0x0A) (b64_encode_nats xs)"
proof (induction xs rule: b64_encode_nats.induct)
  case (1 a b c xs)
  then have "a < 256" "b < 256" "c < 256" by simp_all
  from b64_group [OF this] 1 show ?case by (simp add: b64_char_not_newline)
next
  case (2 a b)
  then have "a < 256" "b < 256" by simp_all
  from b64_group [OF this, of 0] show ?case by (simp add: b64_char_not_newline)
next
  case (3 a)
  then have "a < 256" by simp
  from b64_group [OF this, of 0 0] show ?case by (simp add: b64_char_not_newline)
qed simp

lemma b64_roundtrip: "b64_decode (b64_encode bs) = Some bs"
proof -
  have small: "list_all (\<lambda>n. n < 256) (map unat bs)"
    proof (simp add: list_all_iff, intro ballI)
    fix w :: byte
    show "unat w < 256" by (rule order_less_le_trans [OF unsigned_less]) simp
  qed
  have "filter (\<lambda>c. c \<noteq> CHR 0x0D \<and> c \<noteq> CHR 0x0A) (b64_encode_nats (map unat bs))
      = b64_encode_nats (map unat bs)"
    using b64_encode_no_newline [OF small] by (simp add: list_all_iff filter_id_conv)
  then show ?thesis
    using b64_nats_roundtrip [OF small] by (simp add: b64_decode_def b64_encode_def comp_def)
qed

lemma b64_decode_examples:
  "b64_decode ''3q2+7w=='' = Some [0xDE, 0xAD, 0xBE, 0xEF]"
  "b64_decode ''!!'' = None" "b64_decode ''3q2+7w'' = None"
  by (simp_all add: b64_decode_def b64_val_def Let_def)

end
