(* ===== verification/Wire_Decode.thy ===== *)
theory Wire_Decode
  imports Filter_Expr Base64
begin

text \<open>
  \<open>datafusion/expr.go\<close>: decoding the engine's JSON filter document into the AST.
  A document is given as the JSON tree \<open>encoding/json\<close>'s scanner accepted (\<open>None\<close>
  for a text it rejected). What the decoder uses of \<open>encoding/json\<close> is written out:
  case-insensitive field names, \<open>null\<close> leaving a value unchanged, the last of
  repeated keys winning, an error of a wrongly typed field reported only after the
  whole value was walked, and an error of an \<open>UnmarshalJSON\<close> method reported at once.
\<close>

section \<open>JSON values and errors\<close>

datatype json =
    JNull
  | JBool bool
  | JNumber string
  | JString string
  | JArray "json list"
  | JObject "(string \<times> json) list"

datatype decode_err =
    JsonError                       \<comment> \<open>any error of \<open>encoding/json\<close> itself\<close>
  | LiteralError                    \<comment> \<open>\<open>literal: ...\<close>\<close>
  | LiteralNoValue string
  | LiteralBadValue string
  | LiteralBadBase64 string
  | LiteralBadUnit string
  | LiteralUnknownType string
  | UnknownOperator string
  | UnknownKind string
  | DecodingFilters decode_err
  | DecodingFilter nat decode_err

section \<open>What encoding/json does with one value\<close>

text \<open>
  Each scalar decoder returns whether the JSON value had the right type, and the
  variable's new value (unchanged by \<open>null\<close> and by a type error).
\<close>

definition dec_string :: "json \<Rightarrow> string \<Rightarrow> bool \<times> string" where
  "dec_string j v = (case j of JNull \<Rightarrow> (True, v) | JString s \<Rightarrow> (True, s) | _ \<Rightarrow> (False, v))"

definition dec_bool :: "json \<Rightarrow> bool \<Rightarrow> bool \<times> bool" where
  "dec_bool j v = (case j of JNull \<Rightarrow> (True, v) | JBool b \<Rightarrow> (True, b) | _ \<Rightarrow> (False, v))"

definition dec_int :: "nat \<Rightarrow> json \<Rightarrow> int \<Rightarrow> bool \<times> int" where
  "dec_int w j v =
     (case j of
        JNull \<Rightarrow> (True, v)
      | JNumber t \<Rightarrow>
          (case parse_int64 t of
             None \<Rightarrow> (False, v)
           | Some n \<Rightarrow> if - (2 ^ (w - 1)) \<le> n \<and> n < 2 ^ (w - 1) then (True, n) else (False, v))
      | _ \<Rightarrow> (False, v))"

definition dec_uint :: "nat \<Rightarrow> json \<Rightarrow> nat \<Rightarrow> bool \<times> nat" where
  "dec_uint w j v =
     (case j of
        JNull \<Rightarrow> (True, v)
      | JNumber t \<Rightarrow>
          (case parse_uint64 t of
             None \<Rightarrow> (False, v)
           | Some n \<Rightarrow> if n < 2 ^ w then (True, n) else (False, v))
      | _ \<Rightarrow> (False, v))"

definition dec_float32 :: "json \<Rightarrow> float32 \<Rightarrow> bool \<times> float32" where
  "dec_float32 j v =
     (case j of
        JNull \<Rightarrow> (True, v)
      | JNumber t \<Rightarrow> (case parse_float32 t of None \<Rightarrow> (False, v) | Some f \<Rightarrow> (True, f))
      | _ \<Rightarrow> (False, v))"

definition dec_float64 :: "json \<Rightarrow> float64 \<Rightarrow> bool \<times> float64" where
  "dec_float64 j v =
     (case j of
        JNull \<Rightarrow> (True, v)
      | JNumber t \<Rightarrow> (case parse_float64 t of None \<Rightarrow> (False, v) | Some f \<Rightarrow> (True, f))
      | _ \<Rightarrow> (False, v))"

text \<open>
  Struct fields match by name, ignoring case as \<open>encoding/json\<close> folds it: besides
  the ASCII letters, the two non-ASCII characters that fold to ASCII ones (the
  Kelvin sign and the long s, here as their UTF-8 bytes).
\<close>

definition upper :: "char \<Rightarrow> char" where
  "upper c =
     (if (97::nat) \<le> of_char c \<and> of_char c \<le> (122::nat)
      then (case c of Char b0 b1 b2 b3 b4 b5 b6 b7 \<Rightarrow> Char b0 b1 b2 b3 b4 False b6 b7)
      else c)"

fun fold_name :: "string \<Rightarrow> string" where
  "fold_name [] = []"
| "fold_name (a # s) =
     (case s of
        b # c # r \<Rightarrow>
          if a = CHR 0xE2 \<and> b = CHR 0x84 \<and> c = CHR 0xAA then CHR ''K'' # fold_name r
          else if a = CHR 0xC5 \<and> b = CHR 0xBF then CHR ''S'' # fold_name (c # r)
          else upper a # fold_name s
      | [b] \<Rightarrow>
          if a = CHR 0xC5 \<and> b = CHR 0xBF then ''S'' else upper a # fold_name s
      | [] \<Rightarrow> [upper a])"

definition field_named :: "string \<Rightarrow> string \<Rightarrow> bool" where
  "field_named name key \<longleftrightarrow> fold_name key = fold_name name"

text \<open>
  Walking an object into a struct: every key in order. The flag records a saved type
  error; \<open>Inl\<close> is an error that stops the walk.
\<close>

fun dec_fields ::
  "(string \<Rightarrow> json \<Rightarrow> 's \<Rightarrow> decode_err + (bool \<times> 's)) \<Rightarrow> (string \<times> json) list \<Rightarrow>
   bool \<times> 's \<Rightarrow> decode_err + (bool \<times> 's)" where
  "dec_fields f [] st = Inr st"
| "dec_fields f ((k, j) # kvs) (ok, s) =
     sbind (f k j s) (\<lambda>(ok', s'). dec_fields f kvs (ok \<and> ok', s'))"

definition dec_struct ::
  "(string \<Rightarrow> json \<Rightarrow> 's \<Rightarrow> decode_err + (bool \<times> 's)) \<Rightarrow> json \<Rightarrow> 's \<Rightarrow>
   decode_err + (bool \<times> 's)" where
  "dec_struct f j s =
     (case j of
        JNull \<Rightarrow> Inr (True, s)
      | JObject kvs \<Rightarrow> dec_fields f kvs (True, s)
      | _ \<Rightarrow> Inr (False, s))"

text \<open>\<open>json.Unmarshal(data, &v)\<close>: the saved error is returned at the end.\<close>

definition unmarshal_struct ::
  "(string \<Rightarrow> json \<Rightarrow> 's \<Rightarrow> decode_err + (bool \<times> 's)) \<Rightarrow> json \<Rightarrow> 's \<Rightarrow> decode_err + 's" where
  "unmarshal_struct f j s =
     sbind (dec_struct f j s) (\<lambda>(ok, s'). if ok then Inr s' else Inl JsonError)"

text \<open>\<open>json.Unmarshal\<close> into a fresh scalar variable.\<close>

definition unmarshal_scalar :: "bool \<times> 'a \<Rightarrow> decode_err \<Rightarrow> decode_err + 'a" where
  "unmarshal_scalar r e = (if fst r then Inr (snd r) else Inl e)"

section \<open>Literal.UnmarshalJSON\<close>

record RawLiteral =
  raw_type :: string
  raw_value :: "json option"
  raw_unit :: string
  raw_tz :: string

definition zero_raw :: RawLiteral where
  "zero_raw = \<lparr>raw_type = [], raw_value = None, raw_unit = [], raw_tz = []\<rparr>"

definition raw_literal_field :: "string \<Rightarrow> json \<Rightarrow> RawLiteral \<Rightarrow> decode_err + (bool \<times> RawLiteral)" where
  "raw_literal_field k j r =
     (if field_named ''type'' k then
        (case dec_string j (raw_type r) of (ok, s) \<Rightarrow> Inr (ok, r\<lparr>raw_type := s\<rparr>))
      else if field_named ''value'' k then Inr (True, r\<lparr>raw_value := Some j\<rparr>)
      else if field_named ''unit'' k then
        (case dec_string j (raw_unit r) of (ok, s) \<Rightarrow> Inr (ok, r\<lparr>raw_unit := s\<rparr>))
      else if field_named ''tz'' k then
        (case dec_string j (raw_tz r) of (ok, s) \<Rightarrow> Inr (ok, r\<lparr>raw_tz := s\<rparr>))
      else Inr (True, r))"

text \<open>
  The value of a literal of a given type, each decoded into a fresh Go variable of
  the type the switch declares.
\<close>

definition unmarshal_value :: "RawLiteral \<Rightarrow> json \<Rightarrow> decode_err + GoValue" where
  "unmarshal_value r j =
     (let bad = LiteralBadValue (raw_type r);
          int = (\<lambda>w. unmarshal_scalar (dec_int w j 0) bad);
          uint = (\<lambda>w. unmarshal_scalar (dec_uint w j 0) bad)
      in case literalType_of_string (raw_type r) of
        LiteralBool \<Rightarrow> sbind (unmarshal_scalar (dec_bool j False) bad) (\<lambda>v. Inr (BoolV v))
      | LiteralInt8 \<Rightarrow> sbind (int 8) (\<lambda>v. Inr (Int8V (of_int v)))
      | LiteralInt16 \<Rightarrow> sbind (int 16) (\<lambda>v. Inr (Int16V (of_int v)))
      | LiteralInt32 \<Rightarrow> sbind (int 32) (\<lambda>v. Inr (Int32V (of_int v)))
      | LiteralInt64 \<Rightarrow> sbind (int 64) (\<lambda>v. Inr (Int64V (of_int v)))
      | LiteralUint8 \<Rightarrow> sbind (uint 8) (\<lambda>v. Inr (Uint8V (of_nat v)))
      | LiteralUint16 \<Rightarrow> sbind (uint 16) (\<lambda>v. Inr (Uint16V (of_nat v)))
      | LiteralUint32 \<Rightarrow> sbind (uint 32) (\<lambda>v. Inr (Uint32V (of_nat v)))
      | LiteralUint64 \<Rightarrow> sbind (uint 64) (\<lambda>v. Inr (Uint64V (of_nat v)))
      | LiteralFloat32 \<Rightarrow>
          sbind (unmarshal_scalar (dec_float32 j (F32 0)) bad) (\<lambda>v. Inr (Float32V v))
      | LiteralFloat64 \<Rightarrow>
          sbind (unmarshal_scalar (dec_float64 j (F64 0)) bad) (\<lambda>v. Inr (Float64V v))
      | LiteralUtf8 \<Rightarrow> sbind (unmarshal_scalar (dec_string j []) bad) (\<lambda>v. Inr (StringV v))
      | LiteralBinary \<Rightarrow>
          sbind (unmarshal_scalar (dec_string j []) bad)
            (\<lambda>s. case b64_decode s of
                   None \<Rightarrow> Inl (LiteralBadBase64 (raw_type r))
                 | Some b \<Rightarrow> Inr (BytesV b))
      | LiteralDate32 \<Rightarrow> sbind (int 32) (\<lambda>v. Inr (Int32V (of_int v)))
      | LiteralDate64 \<Rightarrow> sbind (int 64) (\<lambda>v. Inr (Int64V (of_int v)))
      | LiteralTimestamp \<Rightarrow>
          sbind (int 64)
            (\<lambda>v. if known_unit (timeUnit_of_string (raw_unit r)) then Inr (Int64V (of_int v))
                 else Inl (LiteralBadUnit (raw_unit r)))
      | OtherType t \<Rightarrow> Inl (LiteralUnknownType t))"

definition unmarshal_literal :: "json \<Rightarrow> Literal \<Rightarrow> decode_err + Literal" where
  "unmarshal_literal j l =
     (case unmarshal_struct raw_literal_field j zero_raw of
        Inl _ \<Rightarrow> Inl LiteralError
      | Inr r \<Rightarrow>
          (case raw_value r of
             None \<Rightarrow> Inl (LiteralNoValue (raw_type r))
           | Some jv \<Rightarrow>
               sbind (unmarshal_value r jv) (\<lambda>v.
                 let t = literalType_of_string (raw_type r);
                     l' = l\<lparr>lit_type := t, lit_value := v\<rparr>
                 in Inr (if t = LiteralTimestamp
                         then l'\<lparr>lit_unit := timeUnit_of_string (raw_unit r), lit_tz := raw_tz r\<rparr>
                         else l'))))"

section \<open>decodeExpr and decodeFilters\<close>

definition column_field :: "string \<Rightarrow> json \<Rightarrow> Column \<Rightarrow> decode_err + (bool \<times> Column)" where
  "column_field k j c =
     (if field_named ''name'' k then
        (case dec_string j (col_name c) of (ok, s) \<Rightarrow> Inr (ok, c\<lparr>col_name := s\<rparr>))
      else if field_named ''index'' k then
        (case dec_int 64 j (col_index c) of (ok, n) \<Rightarrow> Inr (ok, c\<lparr>col_index := n\<rparr>))
      else Inr (True, c))"

definition kind_field :: "string \<Rightarrow> json \<Rightarrow> string \<Rightarrow> decode_err + (bool \<times> string)" where
  "kind_field k j s = (if field_named ''kind'' k then Inr (dec_string j s) else Inr (True, s))"

text \<open>A \<open>[]Literal\<close>: element by element over what the slice held before.\<close>

fun dec_literals :: "json list \<Rightarrow> Literal list \<Rightarrow> decode_err + Literal list" where
  "dec_literals [] old = Inr []"
| "dec_literals (j # js) old =
     sbind (unmarshal_literal j (case old of [] \<Rightarrow> zero_literal | l # _ \<Rightarrow> l))
       (\<lambda>l. sbind (dec_literals js (tl old)) (\<lambda>ls. Inr (l # ls)))"

definition dec_literal_list :: "json \<Rightarrow> Literal list \<Rightarrow> decode_err + (bool \<times> Literal list)" where
  "dec_literal_list j old =
     (case j of
        JNull \<Rightarrow> Inr (True, [])
      | JArray js \<Rightarrow> sbind (dec_literals js old) (\<lambda>ls. Inr (True, ls))
      | _ \<Rightarrow> Inr (False, old))"

text \<open>The union of the anonymous structs \<open>decodeExpr\<close> declares for its cases.\<close>

record RawExpr =
  re_column :: Column
  re_op :: string
  re_negated :: bool
  re_literal :: Literal
  re_low :: Literal
  re_high :: Literal
  re_list :: "Literal list"

definition zero_raw_expr :: RawExpr where
  "zero_raw_expr =
     \<lparr>re_column = zero_column, re_op = [], re_negated = False, re_literal = zero_literal,
      re_low = zero_literal, re_high = zero_literal, re_list = []\<rparr>"

definition set_column :: "json \<Rightarrow> RawExpr \<Rightarrow> decode_err + (bool \<times> RawExpr)" where
  "set_column j r =
     sbind (dec_struct column_field j (re_column r)) (\<lambda>(ok, c). Inr (ok, r\<lparr>re_column := c\<rparr>))"

definition set_negated :: "json \<Rightarrow> RawExpr \<Rightarrow> decode_err + (bool \<times> RawExpr)" where
  "set_negated j r = (case dec_bool j (re_negated r) of (ok, b) \<Rightarrow> Inr (ok, r\<lparr>re_negated := b\<rparr>))"

definition compare_field :: "string \<Rightarrow> json \<Rightarrow> RawExpr \<Rightarrow> decode_err + (bool \<times> RawExpr)" where
  "compare_field k j r =
     (if field_named ''column'' k then set_column j r
      else if field_named ''op'' k then
        (case dec_string j (re_op r) of (ok, s) \<Rightarrow> Inr (ok, r\<lparr>re_op := s\<rparr>))
      else if field_named ''literal'' k then
        sbind (unmarshal_literal j (re_literal r)) (\<lambda>l. Inr (True, r\<lparr>re_literal := l\<rparr>))
      else Inr (True, r))"

definition is_null_field :: "string \<Rightarrow> json \<Rightarrow> RawExpr \<Rightarrow> decode_err + (bool \<times> RawExpr)" where
  "is_null_field k j r =
     (if field_named ''column'' k then set_column j r
      else if field_named ''negated'' k then set_negated j r
      else Inr (True, r))"

definition between_field :: "string \<Rightarrow> json \<Rightarrow> RawExpr \<Rightarrow> decode_err + (bool \<times> RawExpr)" where
  "between_field k j r =
     (if field_named ''column'' k then set_column j r
      else if field_named ''negated'' k then set_negated j r
      else if field_named ''low'' k then
        sbind (unmarshal_literal j (re_low r)) (\<lambda>l. Inr (True, r\<lparr>re_low := l\<rparr>))
      else if field_named ''high'' k then
        sbind (unmarshal_literal j (re_high r)) (\<lambda>l. Inr (True, r\<lparr>re_high := l\<rparr>))
      else Inr (True, r))"

definition in_list_field :: "string \<Rightarrow> json \<Rightarrow> RawExpr \<Rightarrow> decode_err + (bool \<times> RawExpr)" where
  "in_list_field k j r =
     (if field_named ''column'' k then set_column j r
      else if field_named ''negated'' k then set_negated j r
      else if field_named ''list'' k then
        sbind (dec_literal_list j (re_list r)) (\<lambda>(ok, ls). Inr (ok, r\<lparr>re_list := ls\<rparr>))
      else Inr (True, r))"

text \<open>
  A \<open>json.RawMessage\<close> field: the value of its last occurrence, \<open>None\<close> (no bytes)
  when the key is absent.
\<close>

definition raw_message :: "string \<Rightarrow> json \<Rightarrow> json option" where
  "raw_message name j =
     (case j of
        JObject kvs \<Rightarrow> map_option snd (find (\<lambda>kv. field_named name (fst kv)) (rev kvs))
      | _ \<Rightarrow> None)"

lemma raw_message_size: "raw_message name j = Some v \<Longrightarrow> size v < size j"
proof (cases j)
  case (JObject kvs)
  assume "raw_message name j = Some v"
  with JObject obtain kv where kv: "find (\<lambda>kv. field_named name (fst kv)) (rev kvs) = Some kv"
    "v = snd kv" by (auto simp: raw_message_def)
  then have "kv \<in> set (rev kvs)" by (metis find_Some_iff nth_mem)
  then have "kv \<in> set kvs" by simp
  then have "size v < size_list (size_prod (\<lambda>_. 0) size) kvs + 1"
    unfolding kv(2)
  proof (induction kvs)
    case (Cons a kvs)
    then show ?case by (cases kv, cases a) auto
  qed simp
  then show ?thesis using JObject by simp
qed (auto simp: raw_message_def)

lemma raw_message_measure:
  "(case raw_message name j of None \<Rightarrow> 0 | Some v \<Rightarrow> Suc (size v)) < Suc (size j)"
  by (auto split: option.split dest: raw_message_size)

function decodeExpr :: "json option \<Rightarrow> decode_err + Expr" where
  "decodeExpr None = Inl JsonError"
| "decodeExpr (Some j) =
     sbind (unmarshal_struct kind_field j []) (\<lambda>kind.
       if kind = ''compare'' then
         sbind (unmarshal_struct compare_field j zero_raw_expr) (\<lambda>r.
           let op = compareOp_of_string (re_op r) in
           if known_op op then Inr (Compare (re_column r) op (re_literal r))
           else Inl (UnknownOperator (re_op r)))
       else if kind = ''is_null'' then
         sbind (unmarshal_struct is_null_field j zero_raw_expr) (\<lambda>r.
           Inr (IsNull (re_column r) (re_negated r)))
       else if kind = ''between'' then
         sbind (unmarshal_struct between_field j zero_raw_expr) (\<lambda>r.
           Inr (Between (re_column r) (re_negated r) (re_low r) (re_high r)))
       else if kind = ''in_list'' then
         sbind (unmarshal_struct in_list_field j zero_raw_expr) (\<lambda>r.
           Inr (InList (re_column r) (re_negated r) (re_list r)))
       else if kind = ''and'' \<or> kind = ''or'' then
         sbind (decodeExpr (raw_message ''left'' j)) (\<lambda>l.
           sbind (decodeExpr (raw_message ''right'' j)) (\<lambda>r.
             Inr (if kind = ''and'' then And l r else Or l r)))
       else if kind = ''not'' then
         sbind (decodeExpr (raw_message ''expr'' j)) (\<lambda>e. Inr (NotE e))
       else Inl (UnknownKind kind))"
  by pat_completeness auto

termination
  by (relation "measure (\<lambda>m. case m of None \<Rightarrow> 0 | Some j \<Rightarrow> Suc (size j))")
    (simp_all add: raw_message_measure)

fun decode_from :: "nat \<Rightarrow> json list \<Rightarrow> decode_err + Expr list" where
  "decode_from i [] = Inr []"
| "decode_from i (j # js) =
     (case decodeExpr (Some j) of
        Inl e \<Rightarrow> Inl (DecodingFilter i e)
      | Inr x \<Rightarrow> sbind (decode_from (Suc i) js) (\<lambda>xs. Inr (x # xs)))"

definition decodeFilters :: "json option \<Rightarrow> decode_err + Expr list" where
  "decodeFilters doc =
     (case doc of
        Some JNull \<Rightarrow> Inr []
      | Some (JArray js) \<Rightarrow> decode_from 0 js
      | _ \<Rightarrow> Inl (DecodingFilters JsonError))"

end
