(* ===== verification/Wire_Roundtrip.thy ===== *)
theory Wire_Roundtrip
  imports Wire_Decode
begin

text \<open>
  The wire contract between the engine's serializer
  (\<open>rust/datafusion-c-abi/src/pushdown.rs\<close>) and the Go decoder: a reference
  serializer, the round trip through \<open>decodeFilters\<close>, the well-formedness of
  everything the decoder accepts, and the exactness of decoded integers.
\<close>

section \<open>Printing numbers\<close>

fun show_nat :: "nat \<Rightarrow> string" where
  "show_nat n =
     (if n < 10 then [char_of (48 + n)] else show_nat (n div 10) @ [char_of (48 + n mod 10)])"

declare show_nat.simps [simp del]

definition show_int :: "int \<Rightarrow> string" where
  "show_int i = (if i < 0 then CHR ''-'' # show_nat (nat (- i)) else show_nat (nat i))"

lemma is_digit_char: "d < 10 \<Longrightarrow> is_digit (char_of (48 + d))"
  and digit_val_char: "d < 10 \<Longrightarrow> digit_val (char_of (48 + d)) = d"
  by (simp_all add: is_digit_def digit_val_def)

lemma show_nat_digits: "list_all is_digit (show_nat n) \<and> show_nat n \<noteq> [] \<and> digits_val (show_nat n) = n"
proof (induction n rule: show_nat.induct)
  case (1 n)
  show ?case
  proof (cases "n < 10")
    case True
    then show ?thesis
      by (simp add: show_nat.simps [of n] digits_val_def is_digit_char digit_val_char)
  next
    case False
    with 1 have IH: "list_all is_digit (show_nat (n div 10))" "digits_val (show_nat (n div 10)) = n div 10"
      by simp_all
    have "digits_val (show_nat (n div 10) @ [char_of (48 + n mod 10)]) = 10 * (n div 10) + n mod 10"
      using IH(2) by (simp add: digits_val_def digit_val_char)
    then show ?thesis
      using False IH(1) by (simp add: show_nat.simps [of n] is_digit_char)
  qed
qed

lemma parse_digits_show [simp]: "parse_digits (show_nat n) = Some n"
  using show_nat_digits [of n] by (simp add: parse_digits_def)

lemma split_sign_show [simp]: "split_sign (show_nat n) = (False, show_nat n)"
proof (cases "show_nat n")
  case (Cons c s)
  then have "is_digit c" using show_nat_digits [of n] by simp
  then have "c \<noteq> CHR ''-''" "c \<noteq> CHR ''+''" by (auto simp: is_digit_def)
  with Cons show ?thesis by simp
qed simp

lemma parse_int64_show: "- (2 ^ 63) \<le> i \<Longrightarrow> i < 2 ^ 63 \<Longrightarrow> parse_int64 (show_int i) = Some i"
  by (simp add: parse_int64_def show_int_def)

lemma parse_uint64_show: "n < 2 ^ 64 \<Longrightarrow> parse_uint64 (show_nat n) = Some n"
  by (simp add: parse_uint64_def)

lemma dec_int_show:
  assumes "1 \<le> w" "w \<le> 64" "- (2 ^ (w - 1)) \<le> i" "i < 2 ^ (w - 1)"
  shows "dec_int w (JNumber (show_int i)) v = (True, i)"
proof -
  have "(2::int) ^ (w - 1) \<le> 2 ^ 63" using assms(1,2) by (intro power_increasing) auto
  then have "- (2 ^ 63) \<le> i" "i < 2 ^ 63" using assms(3,4) by linarith+
  then show ?thesis using assms(3,4) by (simp add: dec_int_def parse_int64_show)
qed

lemma dec_uint_show:
  assumes "w \<le> 64" "n < 2 ^ w"
  shows "dec_uint w (JNumber (show_nat n)) v = (True, n)"
proof -
  have "(2::nat) ^ w \<le> 2 ^ 64" using assms(1) by (intro power_increasing) auto
  then have "n < 2 ^ 64" using assms(2) by linarith
  then show ?thesis using assms(2) by (simp add: dec_uint_def parse_uint64_show)
qed

lemma dec_sint_word [simp]:
  "dec_int 8 (JNumber (show_int (sint (w8 :: i8)))) v = (True, sint w8)"
  "dec_int 16 (JNumber (show_int (sint (w16 :: i16)))) v = (True, sint w16)"
  "dec_int 32 (JNumber (show_int (sint (w32 :: i32)))) v = (True, sint w32)"
  "dec_int 64 (JNumber (show_int (sint (w64 :: i64)))) v = (True, sint w64)"
  using sint_ge [of w8] sint_lt [of w8] sint_ge [of w16] sint_lt [of w16]
    sint_range_32 [of w32] sint_range_64 [of w64]
  by (simp_all add: dec_int_show)

lemma dec_uint_word [simp]:
  "dec_uint 8 (JNumber (show_nat (unat (w8 :: u8)))) n = (True, unat w8)"
  "dec_uint 16 (JNumber (show_nat (unat (w16 :: u16)))) n = (True, unat w16)"
  "dec_uint 32 (JNumber (show_nat (unat (w32 :: u32)))) n = (True, unat w32)"
  "dec_uint 64 (JNumber (show_nat (unat (w64 :: u64)))) n = (True, unat w64)"
  by (rule dec_uint_show, simp, rule order_less_le_trans [OF unsigned_less], simp)+

section \<open>The engine's serializer\<close>

definition string_of_compareOp :: "CompareOp \<Rightarrow> string" where
  "string_of_compareOp op =
     (case op of
        CompareEq \<Rightarrow> ''eq'' | CompareNeq \<Rightarrow> ''neq'' | CompareLt \<Rightarrow> ''lt'' | CompareLtEq \<Rightarrow> ''lteq''
      | CompareGt \<Rightarrow> ''gt'' | CompareGtEq \<Rightarrow> ''gteq'' | OtherOp s \<Rightarrow> s)"

definition string_of_literalType :: "LiteralType \<Rightarrow> string" where
  "string_of_literalType t =
     (case t of
        LiteralBool \<Rightarrow> ''bool'' | LiteralInt8 \<Rightarrow> ''int8'' | LiteralInt16 \<Rightarrow> ''int16''
      | LiteralInt32 \<Rightarrow> ''int32'' | LiteralInt64 \<Rightarrow> ''int64'' | LiteralUint8 \<Rightarrow> ''uint8''
      | LiteralUint16 \<Rightarrow> ''uint16'' | LiteralUint32 \<Rightarrow> ''uint32'' | LiteralUint64 \<Rightarrow> ''uint64''
      | LiteralFloat32 \<Rightarrow> ''float32'' | LiteralFloat64 \<Rightarrow> ''float64'' | LiteralUtf8 \<Rightarrow> ''utf8''
      | LiteralBinary \<Rightarrow> ''binary'' | LiteralDate32 \<Rightarrow> ''date32'' | LiteralDate64 \<Rightarrow> ''date64''
      | LiteralTimestamp \<Rightarrow> ''timestamp'' | OtherType s \<Rightarrow> s)"

definition string_of_timeUnit :: "TimeUnit \<Rightarrow> string" where
  "string_of_timeUnit u =
     (case u of
        TimeUnitSecond \<Rightarrow> ''s'' | TimeUnitMillisecond \<Rightarrow> ''ms'' | TimeUnitMicrosecond \<Rightarrow> ''us''
      | TimeUnitNanosecond \<Rightarrow> ''ns'' | OtherUnit s \<Rightarrow> s)"

text \<open>
  The \<open>value\<close> of a literal. The float texts are the serializer's; it writes \<open>null\<close>
  for a NaN or an infinity.
\<close>

definition wire_value :: "(float32 \<Rightarrow> string) \<Rightarrow> (float64 \<Rightarrow> string) \<Rightarrow> GoValue \<Rightarrow> json" where
  "wire_value fmt32 fmt64 v =
     (case v of
        NilV \<Rightarrow> JNull
      | BoolV b \<Rightarrow> JBool b
      | Int8V i \<Rightarrow> JNumber (show_int (sint i)) | Int16V i \<Rightarrow> JNumber (show_int (sint i))
      | Int32V i \<Rightarrow> JNumber (show_int (sint i)) | Int64V i \<Rightarrow> JNumber (show_int (sint i))
      | Uint8V n \<Rightarrow> JNumber (show_nat (unat n)) | Uint16V n \<Rightarrow> JNumber (show_nat (unat n))
      | Uint32V n \<Rightarrow> JNumber (show_nat (unat n)) | Uint64V n \<Rightarrow> JNumber (show_nat (unat n))
      | Float32V f \<Rightarrow> if f32_inf_mag \<le> f32_mag f then JNull else JNumber (fmt32 f)
      | Float64V f \<Rightarrow> if f64_inf_mag \<le> f64_mag f then JNull else JNumber (fmt64 f)
      | StringV s \<Rightarrow> JString s
      | BytesV b \<Rightarrow> JString (b64_encode b))"

definition wire_literal :: "(float32 \<Rightarrow> string) \<Rightarrow> (float64 \<Rightarrow> string) \<Rightarrow> Literal \<Rightarrow> json" where
  "wire_literal fmt32 fmt64 l =
     JObject ([(''type'', JString (string_of_literalType (lit_type l))),
               (''value'', wire_value fmt32 fmt64 (lit_value l))] @
       (if lit_type l = LiteralTimestamp then
          (''unit'', JString (string_of_timeUnit (lit_unit l)))
            # (if lit_tz l = [] then [] else [(''tz'', JString (lit_tz l))])
        else []))"

definition wire_column :: "Column \<Rightarrow> json" where
  "wire_column c =
     JObject [(''name'', JString (col_name c)), (''index'', JNumber (show_int (col_index c)))]"

fun wire_expr :: "(float32 \<Rightarrow> string) \<Rightarrow> (float64 \<Rightarrow> string) \<Rightarrow> Expr \<Rightarrow> json" where
  "wire_expr f g (Compare c op l) =
     JObject [(''kind'', JString ''compare''), (''column'', wire_column c),
              (''op'', JString (string_of_compareOp op)), (''literal'', wire_literal f g l)]"
| "wire_expr f g (IsNull c n) =
     JObject [(''kind'', JString ''is_null''), (''column'', wire_column c), (''negated'', JBool n)]"
| "wire_expr f g (Between c n lo hi) =
     JObject [(''kind'', JString ''between''), (''column'', wire_column c), (''negated'', JBool n),
              (''low'', wire_literal f g lo), (''high'', wire_literal f g hi)]"
| "wire_expr f g (InList c n ls) =
     JObject [(''kind'', JString ''in_list''), (''column'', wire_column c), (''negated'', JBool n),
              (''list'', JArray (map (wire_literal f g) ls))]"
| "wire_expr f g (And a b) =
     JObject [(''kind'', JString ''and''), (''left'', wire_expr f g a), (''right'', wire_expr f g b)]"
| "wire_expr f g (Or a b) =
     JObject [(''kind'', JString ''or''), (''left'', wire_expr f g a), (''right'', wire_expr f g b)]"
| "wire_expr f g (NotE e) = JObject [(''kind'', JString ''not''), (''expr'', wire_expr f g e)]"
| "wire_expr f g NilExpr = JNull"

text \<open>
  What the engine can put on the wire: well-formed literals with finite floats, and
  no unit or time zone but on timestamps.
\<close>

definition wire_ok_literal :: "Literal \<Rightarrow> bool" where
  "wire_ok_literal l \<longleftrightarrow>
     wf_literal l \<and>
     (lit_type l \<noteq> LiteralTimestamp \<longrightarrow> lit_unit l = OtherUnit [] \<and> lit_tz l = []) \<and>
     (case lit_value l of
        Float32V f \<Rightarrow> f32_mag f < f32_inf_mag
      | Float64V f \<Rightarrow> f64_mag f < f64_inf_mag
      | _ \<Rightarrow> True)"

definition wire_ok_column :: "Column \<Rightarrow> bool" where
  "wire_ok_column c \<longleftrightarrow> 0 \<le> col_index c \<and> col_index c < 2 ^ 63"

fun wire_ok :: "Expr \<Rightarrow> bool" where
  "wire_ok (Compare c op l) \<longleftrightarrow> wire_ok_column c \<and> known_op op \<and> wire_ok_literal l"
| "wire_ok (IsNull c n) \<longleftrightarrow> wire_ok_column c"
| "wire_ok (Between c n lo hi) \<longleftrightarrow> wire_ok_column c \<and> wire_ok_literal lo \<and> wire_ok_literal hi"
| "wire_ok (InList c n ls) \<longleftrightarrow> wire_ok_column c \<and> list_all wire_ok_literal ls"
| "wire_ok (And a b) \<longleftrightarrow> wire_ok a \<and> wire_ok b"
| "wire_ok (Or a b) \<longleftrightarrow> wire_ok a \<and> wire_ok b"
| "wire_ok (NotE e) \<longleftrightarrow> wire_ok e"
| "wire_ok NilExpr \<longleftrightarrow> False"

section \<open>Evaluating the decoder on the serializer's keys\<close>

lemma fold_names [decode_simps]:
  "fold_name ''kind'' = ''KIND''" "fold_name ''column'' = ''COLUMN''" "fold_name ''op'' = ''OP''"
  "fold_name ''literal'' = ''LITERAL''" "fold_name ''negated'' = ''NEGATED''"
  "fold_name ''low'' = ''LOW''" "fold_name ''high'' = ''HIGH''" "fold_name ''list'' = ''LIST''"
  "fold_name ''left'' = ''LEFT''" "fold_name ''right'' = ''RIGHT''" "fold_name ''expr'' = ''EXPR''"
  "fold_name ''name'' = ''NAME''" "fold_name ''index'' = ''INDEX''" "fold_name ''type'' = ''TYPE''"
  "fold_name ''value'' = ''VALUE''" "fold_name ''unit'' = ''UNIT''" "fold_name ''tz'' = ''TZ''"
  by (simp_all add: upper_def)

declare fold_name.simps [simp del] decodeExpr.simps [simp del]

declare field_named_def [decode_simps] unmarshal_struct_def [decode_simps]
  dec_struct_def [decode_simps] dec_string_def [decode_simps] dec_bool_def [decode_simps]
  unmarshal_scalar_def [decode_simps]

lemma literalType_of_string_of [simp]: "literalType_of_string (string_of_literalType t) = t"
  if "\<forall>s. t \<noteq> OtherType s"
  using that by (cases t) (simp_all add: string_of_literalType_def literalType_of_string_def)

lemma timeUnit_of_string_of [simp]: "known_unit u \<Longrightarrow> timeUnit_of_string (string_of_timeUnit u) = u"
  by (cases u) (simp_all add: string_of_timeUnit_def timeUnit_of_string_def known_unit_def)

lemma compareOp_of_string_of [simp]: "known_op op \<Longrightarrow> compareOp_of_string (string_of_compareOp op) = op"
  by (cases op) (simp_all add: string_of_compareOp_def compareOp_of_string_def known_op_def)

lemma column_wire [decode_simps]:
  "wire_ok_column c \<Longrightarrow> set_column (wire_column c) r = Inr (True, r\<lparr>re_column := c\<rparr>)"
  by (simp add: wire_ok_column_def wire_column_def set_column_def column_field_def decode_simps
      dec_int_show)

lemma raw_literal_wire:
  "unmarshal_struct raw_literal_field (wire_literal f g l) zero_raw =
     Inr \<lparr>raw_type = string_of_literalType (lit_type l),
          raw_value = Some (wire_value f g (lit_value l)),
          raw_unit = (if lit_type l = LiteralTimestamp then string_of_timeUnit (lit_unit l) else []),
          raw_tz = (if lit_type l = LiteralTimestamp then lit_tz l else [])\<rparr>"
  by (simp add: wire_literal_def raw_literal_field_def zero_raw_def decode_simps)

lemmas govalue_forms = is_BoolV_def is_Int8V_def is_Int16V_def is_Int32V_def is_Int64V_def
  is_Uint8V_def is_Uint16V_def is_Uint32V_def is_Uint64V_def is_Float32V_def is_Float64V_def
  is_StringV_def is_BytesV_def

lemma unmarshal_value_wire:
  assumes ok: "wire_ok_literal l"
    and f32: "\<And>x. f32_mag x < f32_inf_mag \<Longrightarrow> parse_float32 (f x) = Some x"
    and f64: "\<And>x. f64_mag x < f64_inf_mag \<Longrightarrow> parse_float64 (g x) = Some x"
    and r: "raw_type r = string_of_literalType (lit_type l)"
      "lit_type l = LiteralTimestamp \<longrightarrow> raw_unit r = string_of_timeUnit (lit_unit l)"
  shows "unmarshal_value r (wire_value f g (lit_value l)) = Inr (lit_value l)"
proof -
  have fits: "value_fits (lit_type l) (lit_value l)" using ok by (simp add: wire_ok_literal_def wf_literal_def)
  show ?thesis
  proof (cases "lit_type l")
    case LiteralTimestamp
    then show ?thesis
      using ok fits r
      by (auto simp: value_fits_def govalue_forms unmarshal_value_def wire_value_def
          wire_ok_literal_def wf_literal_def decode_simps)
  qed (use ok fits r f32 f64 in \<open>auto simp: value_fits_def govalue_forms unmarshal_value_def
      wire_value_def wire_ok_literal_def decode_simps dec_float32_def dec_float64_def b64_roundtrip\<close>)
qed

lemma unmarshal_literal_wire:
  assumes ok: "wire_ok_literal l"
    and f32: "\<And>x. f32_mag x < f32_inf_mag \<Longrightarrow> parse_float32 (f x) = Some x"
    and f64: "\<And>x. f64_mag x < f64_inf_mag \<Longrightarrow> parse_float64 (g x) = Some x"
  shows "unmarshal_literal (wire_literal f g l) zero_literal = Inr l"
proof -
  have known: "\<forall>s. lit_type l \<noteq> OtherType s"
    using ok by (auto simp: wire_ok_literal_def wf_literal_def value_fits_def)
  have v: "unmarshal_value r (wire_value f g (lit_value l)) = Inr (lit_value l)"
    if "raw_type r = string_of_literalType (lit_type l)"
      "lit_type l = LiteralTimestamp \<longrightarrow> raw_unit r = string_of_timeUnit (lit_unit l)" for r
    using ok f32 f64 that by (rule unmarshal_value_wire)
  show ?thesis
  proof (cases "lit_type l = LiteralTimestamp")
    case True
    then show ?thesis
      using ok known
      by (simp add: unmarshal_literal_def raw_literal_wire v Let_def wire_ok_literal_def
          wf_literal_def zero_literal_def)
  next
    case False
    then show ?thesis
      using ok known
      by (simp add: unmarshal_literal_def raw_literal_wire v Let_def wire_ok_literal_def
          zero_literal_def)
  qed
qed

section \<open>The round trip\<close>

lemma dec_literals_wire:
  assumes "list_all wire_ok_literal ls"
    and f32: "\<And>x. f32_mag x < f32_inf_mag \<Longrightarrow> parse_float32 (f x) = Some x"
    and f64: "\<And>x. f64_mag x < f64_inf_mag \<Longrightarrow> parse_float64 (g x) = Some x"
  shows "dec_literals (map (wire_literal f g) ls) [] = Inr ls"
  using assms(1) by (induction ls) (simp_all add: unmarshal_literal_wire [OF _ f32 f64])

lemma kind_wire: "unmarshal_struct kind_field (wire_expr f g e) [] =
    Inr (case e of
        Compare c op l \<Rightarrow> ''compare'' | IsNull c n \<Rightarrow> ''is_null'' | Between c n lo hi \<Rightarrow> ''between''
      | InList c n ls \<Rightarrow> ''in_list'' | And a b \<Rightarrow> ''and'' | Or a b \<Rightarrow> ''or'' | NotE a \<Rightarrow> ''not''
      | NilExpr \<Rightarrow> [])"
  by (cases e) (simp_all add: kind_field_def decode_simps)

lemma raw_message_wire [decode_simps]:
  "raw_message ''left'' (wire_expr f g (And a b)) = Some (wire_expr f g a)"
  "raw_message ''right'' (wire_expr f g (And a b)) = Some (wire_expr f g b)"
  "raw_message ''left'' (wire_expr f g (Or a b)) = Some (wire_expr f g a)"
  "raw_message ''right'' (wire_expr f g (Or a b)) = Some (wire_expr f g b)"
  "raw_message ''expr'' (wire_expr f g (NotE a)) = Some (wire_expr f g a)"
  by (simp_all add: raw_message_def decode_simps)

lemma decodeExpr_wire:
  assumes f32: "\<And>x. f32_mag x < f32_inf_mag \<Longrightarrow> parse_float32 (f x) = Some x"
    and f64: "\<And>x. f64_mag x < f64_inf_mag \<Longrightarrow> parse_float64 (g x) = Some x"
  shows "wire_ok e \<Longrightarrow> decodeExpr (Some (wire_expr f g e)) = Inr e"
proof (induction e)
  case (Compare c op l)
  then have "unmarshal_struct compare_field (wire_expr f g (Compare c op l)) zero_raw_expr =
      Inr (zero_raw_expr\<lparr>re_column := c, re_op := string_of_compareOp op, re_literal := l\<rparr>)"
    by (simp add: compare_field_def zero_raw_expr_def decode_simps
        unmarshal_literal_wire [OF _ f32 f64])
  then show ?case using Compare by (simp add: decodeExpr.simps kind_wire del: wire_expr.simps)
next
  case (IsNull c n)
  then have "unmarshal_struct is_null_field (wire_expr f g (IsNull c n)) zero_raw_expr =
      Inr (zero_raw_expr\<lparr>re_column := c, re_negated := n\<rparr>)"
    by (simp add: is_null_field_def set_negated_def zero_raw_expr_def decode_simps)
  then show ?case by (simp add: decodeExpr.simps kind_wire del: wire_expr.simps)
next
  case (Between c n lo hi)
  then have "unmarshal_struct between_field (wire_expr f g (Between c n lo hi)) zero_raw_expr =
      Inr (zero_raw_expr\<lparr>re_column := c, re_negated := n, re_low := lo, re_high := hi\<rparr>)"
    by (simp add: between_field_def set_negated_def zero_raw_expr_def decode_simps
        unmarshal_literal_wire [OF _ f32 f64])
  then show ?case by (simp add: decodeExpr.simps kind_wire del: wire_expr.simps)
next
  case (InList c n ls)
  then have "unmarshal_struct in_list_field (wire_expr f g (InList c n ls)) zero_raw_expr =
      Inr (zero_raw_expr\<lparr>re_column := c, re_negated := n, re_list := ls\<rparr>)"
    by (simp add: in_list_field_def set_negated_def zero_raw_expr_def decode_simps
        dec_literal_list_def dec_literals_wire [OF _ f32 f64])
  then show ?case by (simp add: decodeExpr.simps kind_wire del: wire_expr.simps)
qed (simp_all add: decodeExpr.simps kind_wire raw_message_wire del: wire_expr.simps)

lemma decode_from_wire:
  assumes "list_all wire_ok es"
    and f32: "\<And>x. f32_mag x < f32_inf_mag \<Longrightarrow> parse_float32 (f x) = Some x"
    and f64: "\<And>x. f64_mag x < f64_inf_mag \<Longrightarrow> parse_float64 (g x) = Some x"
  shows "decode_from i (map (wire_expr f g) es) = Inr es"
  using assms(1) by (induction es arbitrary: i) (simp_all add: decodeExpr_wire [OF f32 f64])

text \<open>C4: Whatever list of predicates without an infinite or NaN float literal the engine serializes,
  \<open>decodeFilters\<close> gives back exactly that list. The serializer's texts of finite floats are only assumed
  to read back as the float they were printed from, which shortest-representation printers document;
  it sends the other floats as null, which does not read back.\<close>

theorem decodeFilters_wire_roundtrip:
  assumes "list_all wire_ok es"
    and "\<And>x. f32_mag x < f32_inf_mag \<Longrightarrow> parse_float32 (f x) = Some x"
    and "\<And>x. f64_mag x < f64_inf_mag \<Longrightarrow> parse_float64 (g x) = Some x"
  shows "decodeFilters (Some (JArray (map (wire_expr f g) es))) = Inr es"
  using decode_from_wire [OF assms] by (simp add: decodeFilters_def)

subsection \<open>A float printer with the assumed law\<close>

text \<open>
  The exact decimal expansion of a finite float: its number of smallest subnormals
  times \<open>5 ^ b\<close>, scaled by \<open>10 ^ (- b)\<close>.
\<close>

definition exact_decimal :: "nat \<Rightarrow> nat \<Rightarrow> bool \<Rightarrow> nat \<Rightarrow> string" where
  "exact_decimal p b neg m =
     (if neg then ''-'' else []) @ show_nat (fp_units p m * 5 ^ b) @ ''e-'' @ show_nat b"

definition exact_fmt64 :: "float64 \<Rightarrow> string" where
  "exact_fmt64 x = exact_decimal 52 1074 (f64_neg x) (f64_mag x)"

definition exact_fmt32 :: "float32 \<Rightarrow> string" where
  "exact_fmt32 x = exact_decimal 23 149 (f32_neg x) (f32_mag x)"

lemma split_sign_show_append [simp]: "split_sign (show_nat n @ s) = (False, show_nat n @ s)"
  using split_sign_show [of n] show_nat_digits [of n]
  by (cases "show_nat n") (auto split: if_splits)

lemma parse_exact_decimal:
  "parse_decimal (exact_decimal p b neg m) = Some (neg, fp_units p m * 5 ^ b, - int b)"
proof -
  define n where "n = fp_units p m * 5 ^ b"
  have d: "list_all is_digit (show_nat n)" "show_nat n \<noteq> []" "digits_val (show_nat n) = n"
    using show_nat_digits [of n] by simp_all
  have e: "\<not> is_digit (CHR ''e'')" by (simp add: is_digit_def)
  have split: "takeWhile is_digit (show_nat n @ ''e-'' @ show_nat b) = show_nat n"
    "dropWhile is_digit (show_nat n @ ''e-'' @ show_nat b) = ''e-'' @ show_nat b"
    using d(1) e by (simp_all add: takeWhile_append2 dropWhile_append2 list_all_iff)
  have s: "split_sign (exact_decimal p b neg m) = (neg, show_nat n @ ''e-'' @ show_nat b)"
    unfolding exact_decimal_def n_def [symmetric] by simp
  show ?thesis
    unfolding parse_decimal_def s Let_def n_def [symmetric]
    using d by (simp only: prod.case split) (simp add: split_frac_def parse_exponent_def)
qed

lemma round_exact_decimal:
  assumes "0 < b"
  shows "round_decimal p b (fp_units p m * 5 ^ b) (- int b) = m"
proof -
  have "fp_units p m * 5 ^ b * 2 ^ b = fp_units p m * 10 ^ b"
    by (simp add: mult.assoc flip: power_mult_distrib)
  then have "fp_round p b (fp_units p m * 5 ^ b) (10 ^ b) = m"
    by (intro fp_round_exact) simp_all
  then show ?thesis using assms by (simp add: round_decimal_def)
qed

lemma f64_rebuild: "F64 (of_nat ((if f64_neg x then 2 ^ 63 else 0) + f64_mag x)) = x"
proof (cases x)
  case (F64 w)
  have "unat w < 2 ^ 64" by (rule order_less_le_trans [OF unsigned_less]) simp
  then have "(if f64_neg x then 2 ^ 63 else 0) + f64_mag x = unat w"
    using F64 by (auto simp: f64_neg_def f64_mag_def le_mod_geq)
  then show ?thesis using F64 by simp
qed

lemma f32_rebuild: "F32 (of_nat ((if f32_neg x then 2 ^ 31 else 0) + f32_mag x)) = x"
proof (cases x)
  case (F32 w)
  have "unat w < 2 ^ 32" by (rule order_less_le_trans [OF unsigned_less]) simp
  then have "(if f32_neg x then 2 ^ 31 else 0) + f32_mag x = unat w"
    using F32 by (auto simp: f32_neg_def f32_mag_def le_mod_geq)
  then show ?thesis using F32 by simp
qed

lemma parse_exact_fmt64:
  assumes "f64_mag x < f64_inf_mag"
  shows "parse_float64 (exact_fmt64 x) = Some x"
proof -
  have p: "parse_decimal (exact_fmt64 x) =
      Some (f64_neg x, fp_units 52 (f64_mag x) * 5 ^ 1074, - int 1074)"
    unfolding exact_fmt64_def by (rule parse_exact_decimal)
  have r: "round_decimal 52 1074 (fp_units 52 (f64_mag x) * 5 ^ 1074) (- int 1074) = f64_mag x"
    by (rule round_exact_decimal) simp
  show ?thesis
    unfolding parse_float64_def p option.case prod.case r Let_def
    using assms by (simp only: f64_rebuild not_le if_not_P if_P simp_thms)
qed

lemma parse_exact_fmt32:
  assumes "f32_mag x < f32_inf_mag"
  shows "parse_float32 (exact_fmt32 x) = Some x"
proof -
  have p: "parse_decimal (exact_fmt32 x) =
      Some (f32_neg x, fp_units 23 (f32_mag x) * 5 ^ 149, - int 149)"
    unfolding exact_fmt32_def by (rule parse_exact_decimal)
  have r: "round_decimal 23 149 (fp_units 23 (f32_mag x) * 5 ^ 149) (- int 149) = f32_mag x"
    by (rule round_exact_decimal) simp
  show ?thesis
    unfolding parse_float32_def p option.case prod.case r Let_def
    using assms by (simp only: f32_rebuild not_le if_not_P if_P simp_thms)
qed

definition sample_filters :: "Expr list" where
  "sample_filters =
     (let id = \<lparr>col_name = ''id'', col_index = 0\<rparr>; ts = \<lparr>col_name = ''ts'', col_index = 1\<rparr>;
          lit = (\<lambda>t v. \<lparr>lit_type = t, lit_value = v, lit_unit = OtherUnit [], lit_tz = []\<rparr>)
      in [And (Compare id CompareGtEq (lit LiteralInt64 (Int64V (- 1))))
              (Or (IsNull id False) (NotE (Compare id CompareEq (lit LiteralUtf8 (StringV ''x''))))),
          Between id True (lit LiteralFloat64 (Float64V (F64 0x4002000000000000)))
            (lit LiteralUint64 (Uint64V (- 1))),
          InList ts False [\<lparr>lit_type = LiteralTimestamp, lit_value = Int64V 7,
            lit_unit = TimeUnitNanosecond, lit_tz = ''UTC''\<rparr>, lit LiteralBinary (BytesV [0xDE, 0xAD])]])"

theorem decodeFilters_wire_roundtrip_witness:
  "decodeFilters (Some (JArray (map (wire_expr exact_fmt32 exact_fmt64) sample_filters))) =
     Inr sample_filters"
proof (rule decodeFilters_wire_roundtrip)
  show "list_all wire_ok sample_filters"
    by (simp add: sample_filters_def Let_def wire_ok_column_def wire_ok_literal_def wf_literal_def
        value_fits_def known_op_def known_unit_def f64_mag_def f64_inf_mag_def)
qed (simp_all add: parse_exact_fmt32 parse_exact_fmt64)

end
