(* ===== verification/Wire_Invariants.thy ===== *)
theory Wire_Invariants
  imports Wire_Roundtrip
begin

text \<open>
  What \<open>decodeFilters\<close> guarantees of every document it accepts, whoever wrote it: the
  shape of the decoded expressions, the exactness of decoded integers, and what a
  \<open>null\<close> literal value turns into.
\<close>

section \<open>Walking an object keeps an invariant\<close>

lemma dec_fields_inv:
  assumes step: "\<And>k j s ok s'. f k j s = Inr (ok, s') \<Longrightarrow> P s \<Longrightarrow> P s'"
  shows "dec_fields f kvs (ok, s) = Inr (ok', s') \<Longrightarrow> P s \<Longrightarrow> P s'"
proof (induction kvs arbitrary: ok s)
  case (Cons kv kvs)
  obtain k j where kv: "kv = (k, j)" by (cases kv)
  from Cons.prems(1) kv obtain ok1 s1 where f: "f k j s = Inr (ok1, s1)"
    and rest: "dec_fields f kvs (ok \<and> ok1, s1) = Inr (ok', s')"
    by (auto simp: sbind_eq_Inr)
  show ?case using rest step [OF f Cons.prems(2)] by (rule Cons.IH)
qed simp

lemma unmarshal_struct_inv:
  assumes "unmarshal_struct f j s = Inr s'" and "P s"
    and step: "\<And>k j s ok s'. f k j s = Inr (ok, s') \<Longrightarrow> P s \<Longrightarrow> P s'"
  shows "P s'"
  using assms(1,2) dec_fields_inv [of f P, OF step]
  by (auto simp: unmarshal_struct_def sbind_eq_Inr dec_struct_def split: json.splits if_splits)

section \<open>The shape of decoded expressions\<close>

text \<open>
  A literal of an accepted document is well-formed, or the zero \<open>Literal\<close> where the
  document has no such field (\<open>encoding/json\<close> does not require one).
\<close>

definition decoded_literal :: "Literal \<Rightarrow> bool" where
  "decoded_literal l \<longleftrightarrow> l = zero_literal \<or> wf_literal l"

fun decoded_expr :: "Expr \<Rightarrow> bool" where
  "decoded_expr (Compare c op l) \<longleftrightarrow> known_op op \<and> decoded_literal l"
| "decoded_expr (IsNull c n) \<longleftrightarrow> True"
| "decoded_expr (Between c n lo hi) \<longleftrightarrow> decoded_literal lo \<and> decoded_literal hi"
| "decoded_expr (InList c n ls) \<longleftrightarrow> list_all wf_literal ls"
| "decoded_expr (And a b) \<longleftrightarrow> decoded_expr a \<and> decoded_expr b"
| "decoded_expr (Or a b) \<longleftrightarrow> decoded_expr a \<and> decoded_expr b"
| "decoded_expr (NotE e) \<longleftrightarrow> decoded_expr e"
| "decoded_expr NilExpr \<longleftrightarrow> False"

lemma unmarshal_value_fits:
  "unmarshal_value r j = Inr v \<Longrightarrow>
   value_fits (literalType_of_string (raw_type r)) v \<and>
   (literalType_of_string (raw_type r) = LiteralTimestamp \<longrightarrow>
      known_unit (timeUnit_of_string (raw_unit r)))"
  by (cases "literalType_of_string (raw_type r)")
    (auto simp: unmarshal_value_def Let_def sbind_eq_Inr value_fits_def
      split: if_splits option.splits)

lemma unmarshal_literal_wf:
  assumes "unmarshal_literal j l = Inr l'"
  shows "wf_literal l'"
proof -
  from assms obtain r jv v where r: "unmarshal_struct raw_literal_field j zero_raw = Inr r"
    "raw_value r = Some jv" and v: "unmarshal_value r jv = Inr v"
    by (auto simp: unmarshal_literal_def sbind_eq_Inr split: sum.splits option.splits)
  show ?thesis
    using assms r v unmarshal_value_fits [OF v]
    by (cases "literalType_of_string (raw_type r) = LiteralTimestamp")
      (auto simp: unmarshal_literal_def Let_def wf_literal_def)
qed

lemma dec_literals_wf: "dec_literals js old = Inr ls \<Longrightarrow> list_all wf_literal ls"
  by (induction js arbitrary: old ls) (auto simp: sbind_eq_Inr dest: unmarshal_literal_wf)

definition raw_expr_inv :: "RawExpr \<Rightarrow> bool" where
  "raw_expr_inv r \<longleftrightarrow>
     decoded_literal (re_literal r) \<and> decoded_literal (re_low r) \<and>
     decoded_literal (re_high r) \<and> list_all wf_literal (re_list r)"

lemma raw_expr_inv_zero [simp]: "raw_expr_inv zero_raw_expr"
  by (simp add: raw_expr_inv_def zero_raw_expr_def decoded_literal_def)

lemma set_field_inv:
  "set_column j r = Inr (ok, r') \<Longrightarrow> raw_expr_inv r \<Longrightarrow> raw_expr_inv r'"
  "set_negated j r = Inr (ok, r') \<Longrightarrow> raw_expr_inv r \<Longrightarrow> raw_expr_inv r'"
  by (auto simp: set_column_def set_negated_def sbind_eq_Inr raw_expr_inv_def split: prod.splits)

lemma unmarshal_literal_inv:
  "unmarshal_literal j l = Inr l' \<Longrightarrow> raw_expr_inv r \<Longrightarrow> raw_expr_inv (r\<lparr>re_literal := l'\<rparr>)"
  "unmarshal_literal j l = Inr l' \<Longrightarrow> raw_expr_inv r \<Longrightarrow> raw_expr_inv (r\<lparr>re_low := l'\<rparr>)"
  "unmarshal_literal j l = Inr l' \<Longrightarrow> raw_expr_inv r \<Longrightarrow> raw_expr_inv (r\<lparr>re_high := l'\<rparr>)"
  by (auto simp: raw_expr_inv_def decoded_literal_def dest: unmarshal_literal_wf)

lemma literal_list_inv:
  "dec_literals js old = Inr ls \<Longrightarrow> raw_expr_inv r \<Longrightarrow> raw_expr_inv (r\<lparr>re_list := ls\<rparr>)"
  "raw_expr_inv r \<Longrightarrow> raw_expr_inv (r\<lparr>re_list := []\<rparr>)"
  by (auto simp: raw_expr_inv_def dest: dec_literals_wf)

lemma re_op_inv: "raw_expr_inv (r\<lparr>re_op := s\<rparr>) = raw_expr_inv r"
  by (simp add: raw_expr_inv_def)

lemma expr_fields_inv:
  "compare_field k j r = Inr (ok, r') \<Longrightarrow> raw_expr_inv r \<Longrightarrow> raw_expr_inv r'"
  "is_null_field k j r = Inr (ok, r') \<Longrightarrow> raw_expr_inv r \<Longrightarrow> raw_expr_inv r'"
  "between_field k j r = Inr (ok, r') \<Longrightarrow> raw_expr_inv r \<Longrightarrow> raw_expr_inv r'"
  "in_list_field k j r = Inr (ok, r') \<Longrightarrow> raw_expr_inv r \<Longrightarrow> raw_expr_inv r'"
  unfolding compare_field_def is_null_field_def between_field_def in_list_field_def
    dec_literal_list_def sbind_eq_Inr
  by (auto split: if_split_asm prod.split_asm json.split_asm simp: sbind_eq_Inr re_op_inv
      dest: set_field_inv unmarshal_literal_inv literal_list_inv)

lemma unmarshal_raw_inv:
  "unmarshal_struct compare_field j zero_raw_expr = Inr r \<Longrightarrow> raw_expr_inv r"
  "unmarshal_struct between_field j zero_raw_expr = Inr r \<Longrightarrow> raw_expr_inv r"
  "unmarshal_struct in_list_field j zero_raw_expr = Inr r \<Longrightarrow> raw_expr_inv r"
  by (rule unmarshal_struct_inv, assumption, rule raw_expr_inv_zero, erule expr_fields_inv, assumption)+

lemma decodeExpr_and_or:
  assumes "unmarshal_struct kind_field j [] = Inr kind" and "kind = ''and'' \<or> kind = ''or''"
  shows "decodeExpr (Some j) =
    sbind (decodeExpr (raw_message ''left'' j)) (\<lambda>l.
      sbind (decodeExpr (raw_message ''right'' j)) (\<lambda>r.
        Inr (if kind = ''and'' then And l r else Or l r)))"
  using assms(2) unfolding decodeExpr.simps(2) [of j] assms(1) sbind_simps by (elim disjE) simp_all

lemma decodeExpr_not:
  assumes "unmarshal_struct kind_field j [] = Inr ''not''"
  shows "decodeExpr (Some j) =
    sbind (decodeExpr (raw_message ''expr'' j)) (\<lambda>e. Inr (NotE e))"
  unfolding decodeExpr.simps(2) [of j] assms(1) sbind_simps by simp

lemma decodeExpr_decoded: "decodeExpr m = Inr e \<Longrightarrow> decoded_expr e"
proof (induction m arbitrary: e rule: decodeExpr.induct)
  case 1
  then show ?case by (simp add: decodeExpr.simps)
next
  case (2 j)
  obtain kind where kind: "unmarshal_struct kind_field j [] = Inr kind"
    using 2(4) by (auto simp: decodeExpr.simps sbind_eq_Inr)
  consider "kind = ''compare''" | "kind = ''is_null''" | "kind = ''between''" | "kind = ''in_list''"
    | "kind = ''and'' \<or> kind = ''or''" | "kind = ''not''"
    using 2(4) kind by (auto simp: decodeExpr.simps split: if_splits)
  then show ?case
  proof cases
    case 1
    with 2(4) kind show ?thesis
      by (auto simp: decodeExpr.simps sbind_eq_Inr Let_def raw_expr_inv_def
          split: if_splits dest!: unmarshal_raw_inv)
  next
    case 2
    with "2.prems" kind show ?thesis by (auto simp: decodeExpr.simps sbind_eq_Inr)
  next
    case 3
    with 2(4) kind show ?thesis
      by (auto simp: decodeExpr.simps sbind_eq_Inr raw_expr_inv_def dest!: unmarshal_raw_inv)
  next
    case 4
    with 2(4) kind show ?thesis
      by (auto simp: decodeExpr.simps sbind_eq_Inr raw_expr_inv_def dest!: unmarshal_raw_inv)
  next
    case 5
    then have k: "kind \<noteq> ''compare''" "kind \<noteq> ''is_null''" "kind \<noteq> ''between''" "kind \<noteq> ''in_list''"
      by auto
    have "decodeExpr (Some j) = Inr e" using "2.prems" .
    then obtain l r where l: "decodeExpr (raw_message ''left'' j) = Inr l"
      and r: "decodeExpr (raw_message ''right'' j) = Inr r"
      and e: "e = (if kind = ''and'' then And l r else Or l r)"
      unfolding decodeExpr_and_or [OF kind 5] sbind_eq_Inr by blast
    show ?thesis using "2.IH"(1) [OF kind k 5 l] "2.IH"(2) [OF kind k 5 l r] e by simp
  next
    case 6
    have "decodeExpr (Some j) = Inr e" using "2.prems" .
    then obtain x where x: "decodeExpr (raw_message ''expr'' j) = Inr x" "e = NotE x"
      unfolding decodeExpr_not [OF kind [unfolded 6]] sbind_eq_Inr by blast
    show ?thesis using "2.IH"(3) [OF kind _ _ _ _ _ 6 x(1)] 6 x(2) by simp
  qed
qed

lemma decode_from_decoded: "decode_from i js = Inr es \<Longrightarrow> list_all decoded_expr es"
  by (induction js arbitrary: i es)
    (auto simp: sbind_eq_Inr split: sum.splits dest: decodeExpr_decoded)

text \<open>C5: Every expression \<open>decodeFilters\<close> returns has a known comparison operator, and its
  literals carry a Go value of the type their tag names (a timestamp also a known unit); the
  only other literal is the zero one of an absent field, which has an empty type and no value.\<close>

theorem decodeFilters_decoded:
  assumes "decodeFilters doc = Inr es"
  shows "list_all decoded_expr es"
  using assms
  by (auto simp: decodeFilters_def split: option.splits json.splits dest: decode_from_decoded)

theorem decodeFilters_decoded_witness:
  "list_all decoded_expr
     [Compare zero_column CompareEq
        \<lparr>lit_type = LiteralBool, lit_value = BoolV True, lit_unit = OtherUnit [], lit_tz = []\<rparr>]"
proof (rule decodeFilters_decoded)
  show "decodeFilters (Some (JArray [JObject [(''kind'', JString ''compare''),
      (''op'', JString ''eq''),
      (''literal'', JObject [(''type'', JString ''bool''), (''value'', JBool True)])]])) =
    Inr [Compare zero_column CompareEq
        \<lparr>lit_type = LiteralBool, lit_value = BoolV True, lit_unit = OtherUnit [], lit_tz = []\<rparr>]"
    by (simp add: decodeFilters_def decodeExpr.simps kind_field_def compare_field_def decode_simps
        zero_raw_expr_def unmarshal_literal_def raw_literal_field_def zero_raw_def
        unmarshal_value_def literalType_of_string_def zero_literal_def compareOp_of_string_def
        known_op_def)
qed

section \<open>Decoded integers are exact\<close>

text \<open>The number an integer-valued Go value holds, read at its own width and signedness.\<close>

definition go_number :: "GoValue \<Rightarrow> int option" where
  "go_number v =
     (case v of
        Int8V w \<Rightarrow> Some (sint w) | Int16V w \<Rightarrow> Some (sint w)
      | Int32V w \<Rightarrow> Some (sint w) | Int64V w \<Rightarrow> Some (sint w)
      | Uint8V w \<Rightarrow> Some (uint w) | Uint16V w \<Rightarrow> Some (uint w)
      | Uint32V w \<Rightarrow> Some (uint w) | Uint64V w \<Rightarrow> Some (uint w)
      | _ \<Rightarrow> None)"

text \<open>The number a JSON number text denotes as an integer.\<close>

definition text_number :: "string \<Rightarrow> int option" where
  "text_number t =
     (case parse_int64 t of Some n \<Rightarrow> Some n | None \<Rightarrow> map_option int (parse_uint64 t))"

lemma dec_int_number: "dec_int w (JNumber t) v = (True, n) \<Longrightarrow>
    parse_int64 t = Some n \<and> - (2 ^ (w - 1)) \<le> n \<and> n < 2 ^ (w - 1)"
  by (auto simp: dec_int_def split: option.splits if_splits)

lemma dec_uint_number: "dec_uint w (JNumber t) v = (True, n) \<Longrightarrow>
    parse_uint64 t = Some n \<and> n < 2 ^ w"
  by (auto simp: dec_uint_def split: option.splits if_splits)

lemma sint_of_int_small:
  "1 \<le> LENGTH('a) \<Longrightarrow> - (2 ^ (LENGTH('a::len) - 1)) \<le> n \<Longrightarrow> n < 2 ^ (LENGTH('a) - 1) \<Longrightarrow>
   sint (of_int n :: 'a word) = n"
  by (simp add: signed_of_int signed_take_bit_int_eq_self)

lemma uint_of_nat_small: "n < 2 ^ LENGTH('a::len) \<Longrightarrow> uint (of_nat n :: 'a word) = int n"
  by (simp add: unsigned_of_nat take_bit_nat_eq_self)

lemma parse_uint_text_number: "parse_uint64 t = Some n \<Longrightarrow> text_number t = Some (int n)"
proof -
  assume h: "parse_uint64 t = Some n"
  then have d: "parse_digits t = Some n" by (auto simp: parse_uint64_def split: option.splits if_splits)
  then have "t \<noteq> []" "list_all is_digit t" by (auto simp: parse_digits_def split: if_splits)
  then have "split_sign t = (False, t)" by (cases t) (auto simp: is_digit_def)
  then show ?thesis using h d by (auto simp: text_number_def parse_int64_def Let_def)
qed

lemma dec_number_words:
  "fst (dec_int 8 (JNumber t) 0) \<Longrightarrow>
     sint (of_int (snd (dec_int 8 (JNumber t) 0)) :: i8) = snd (dec_int 8 (JNumber t) 0)"
  "fst (dec_int 16 (JNumber t) 0) \<Longrightarrow>
     sint (of_int (snd (dec_int 16 (JNumber t) 0)) :: i16) = snd (dec_int 16 (JNumber t) 0)"
  "fst (dec_int 32 (JNumber t) 0) \<Longrightarrow>
     sint (of_int (snd (dec_int 32 (JNumber t) 0)) :: i32) = snd (dec_int 32 (JNumber t) 0)"
  "fst (dec_int 64 (JNumber t) 0) \<Longrightarrow>
     sint (of_int (snd (dec_int 64 (JNumber t) 0)) :: i64) = snd (dec_int 64 (JNumber t) 0)"
  "fst (dec_uint 8 (JNumber t) 0) \<Longrightarrow>
     uint (of_nat (snd (dec_uint 8 (JNumber t) 0)) :: u8) = int (snd (dec_uint 8 (JNumber t) 0))"
  "fst (dec_uint 16 (JNumber t) 0) \<Longrightarrow>
     uint (of_nat (snd (dec_uint 16 (JNumber t) 0)) :: u16) = int (snd (dec_uint 16 (JNumber t) 0))"
  "fst (dec_uint 32 (JNumber t) 0) \<Longrightarrow>
     uint (of_nat (snd (dec_uint 32 (JNumber t) 0)) :: u32) = int (snd (dec_uint 32 (JNumber t) 0))"
  "fst (dec_uint 64 (JNumber t) 0) \<Longrightarrow>
     uint (of_nat (snd (dec_uint 64 (JNumber t) 0)) :: u64) = int (snd (dec_uint 64 (JNumber t) 0))"
  using dec_int_number [of 8 t 0] dec_int_number [of 16 t 0] dec_int_number [of 32 t 0]
    dec_int_number [of 64 t 0] dec_uint_number [of 8 t 0] dec_uint_number [of 16 t 0]
    dec_uint_number [of 32 t 0] dec_uint_number [of 64 t 0]
  by (auto simp: prod_eq_iff intro!: sint_of_int_small uint_of_nat_small)

text \<open>C6: A JSON integer is decoded exactly or refused: the number the decoded Go value holds
  at its width is the number the text denotes, never a wrapped one.\<close>

theorem unmarshal_value_integer_exact:
  assumes "unmarshal_value r (JNumber t) = Inr v" and "go_number v = Some n"
  shows "text_number t = Some n"
proof -
  have signed: "text_number t = Some m" if "dec_int w (JNumber t) 0 = (True, m)" for w m
    using dec_int_number [OF that] by (simp add: text_number_def)
  have unsigned: "text_number t = Some (int m)" if "dec_uint w (JNumber t) 0 = (True, m)" for w m
    using dec_uint_number [OF that] by (simp add: parse_uint_text_number)
  show ?thesis
    using assms
    by (cases "literalType_of_string (raw_type r)")
      (auto simp: unmarshal_value_def Let_def sbind_eq_Inr unmarshal_scalar_def go_number_def
        dec_string_def dec_bool_def signed unsigned prod_eq_iff dec_number_words
        split: if_splits option.splits)
qed

theorem unmarshal_value_integer_exact_witness:
  "text_number ''-42'' = Some (- 42)"
  by (rule unmarshal_value_integer_exact [where v = "Int8V (- 42)" and r = "zero_raw\<lparr>raw_type := ''int8''\<rparr>"])
    (simp_all add: unmarshal_value_def literalType_of_string_def zero_raw_def dec_int_def
      unmarshal_scalar_def go_number_def int_text_simps is_digit_def digit_val_def)

section \<open>Infinities and NaN do not survive the wire\<close>

text \<open>
  The engine's serializer writes \<open>null\<close> for a float that is not finite, and
  \<open>encoding/json\<close> lets \<open>null\<close> leave the fresh variable at 0.
\<close>

text \<open>C37: A comparison with an infinite or NaN float64 literal is decoded, without an error, as
  the comparison with 0: \<open>x < Infinity\<close> arrives as \<open>x < 0\<close>.\<close>

theorem infinite_literal_decodes_to_zero:
  assumes "wire_ok_column c" and "known_op op" and "f64_inf_mag \<le> f64_mag x"
  shows "decodeFilters (Some (JArray [wire_expr f g (Compare c op
      \<lparr>lit_type = LiteralFloat64, lit_value = Float64V x, lit_unit = OtherUnit [], lit_tz = []\<rparr>)])) =
    Inr [Compare c op
      \<lparr>lit_type = LiteralFloat64, lit_value = Float64V (F64 0), lit_unit = OtherUnit [], lit_tz = []\<rparr>]"
proof -
  let ?l = "\<lambda>x. \<lparr>lit_type = LiteralFloat64, lit_value = Float64V x, lit_unit = OtherUnit [], lit_tz = []\<rparr>"
  have l: "unmarshal_literal (wire_literal f g (?l x)) zero_literal = Inr (?l (F64 0))"
    using assms(3) by (simp add: unmarshal_literal_def raw_literal_wire unmarshal_value_def
        wire_value_def dec_float64_def unmarshal_scalar_def zero_literal_def)
  then have "unmarshal_struct compare_field (wire_expr f g (Compare c op (?l x))) zero_raw_expr =
      Inr (zero_raw_expr\<lparr>re_column := c, re_op := string_of_compareOp op, re_literal := ?l (F64 0)\<rparr>)"
    using assms(1) by (simp add: compare_field_def zero_raw_expr_def decode_simps)
  then have "decodeExpr (Some (wire_expr f g (Compare c op (?l x)))) = Inr (Compare c op (?l (F64 0)))"
    using assms(2) by (simp add: decodeExpr.simps kind_wire del: wire_expr.simps)
  then show ?thesis by (simp add: decodeFilters_def)
qed

theorem infinite_literal_decodes_to_zero_witness:
  "decodeFilters (Some (JArray [wire_expr (\<lambda>_. []) (\<lambda>_. []) (Compare \<lparr>col_name = ''x'', col_index = 0\<rparr> CompareLt
      \<lparr>lit_type = LiteralFloat64, lit_value = Float64V (F64 0x7FF0000000000000), lit_unit = OtherUnit [],
       lit_tz = []\<rparr>)])) =
    Inr [Compare \<lparr>col_name = ''x'', col_index = 0\<rparr> CompareLt
      \<lparr>lit_type = LiteralFloat64, lit_value = Float64V (F64 0), lit_unit = OtherUnit [], lit_tz = []\<rparr>]"
  by (rule infinite_literal_decodes_to_zero)
    (simp_all add: wire_ok_column_def known_op_def f64_inf_mag_def f64_mag_def)

end
