(* ===== verification/Arrow_Types.thy ===== *)
theory Arrow_Types
  imports Filter_Expr
begin

text \<open>
  The Arrow types the providers distinguish, schemas, and the cells of a column. A
  type the code never tells apart from others is \<open>OtherDT\<close>.
\<close>

section \<open>Types, fields, schemas\<close>

datatype ArrowUnit = Second | Millisecond | Microsecond | Nanosecond

datatype dtype =
    BoolDT
  | Int8DT | Int16DT | Int32DT | Int64DT
  | Uint8DT | Uint16DT | Uint32DT | Uint64DT
  | Float32DT | Float64DT
  | StringDT | LargeStringDT
  | BinaryDT | LargeBinaryDT | FixedSizeBinaryDT int
  | Date32DT | Date64DT
  | TimestampDT ArrowUnit string
  | OtherDT string

record Field =
  field_name :: string
  field_type :: dtype
  field_nullable :: bool
  field_metadata :: "(string \<times> string) list"

record Schema =
  schema_fields :: "Field list"
  schema_metadata :: "(string \<times> string) list"

definition NumFields :: "Schema \<Rightarrow> int" where
  "NumFields sc = int (length (schema_fields sc))"

text \<open>
  Type identifiers (\<open>dt.ID()\<close>) as predicates of the groups the code switches over.
\<close>

definition signed_dt :: "dtype \<Rightarrow> bool" where
  "signed_dt dt \<longleftrightarrow> dt \<in> {Int8DT, Int16DT, Int32DT, Int64DT}"

definition unsigned_dt :: "dtype \<Rightarrow> bool" where
  "unsigned_dt dt \<longleftrightarrow> dt \<in> {Uint8DT, Uint16DT, Uint32DT, Uint64DT}"

section \<open>Cells\<close>

text \<open>
  A non-null cell as a 64-bit view of what an Arrow array stores: narrow integers
  sign- or zero-extended, temporal values as their integer count.
\<close>

datatype cell =
    BoolCell bool
  | IntCell i64
  | UintCell u64
  | Float32Cell float32
  | Float64Cell float64
  | BytesCell "byte list"
  | OtherCell string

text \<open>Which cells a column of a type can hold.\<close>

definition cell_ok :: "dtype \<Rightarrow> cell \<Rightarrow> bool" where
  "cell_ok dt c =
     (case dt of
        BoolDT \<Rightarrow> (case c of BoolCell _ \<Rightarrow> True | _ \<Rightarrow> False)
      | Int8DT \<Rightarrow> (case c of IntCell w \<Rightarrow> - 128 \<le> sint w \<and> sint w < 128 | _ \<Rightarrow> False)
      | Int16DT \<Rightarrow> (case c of IntCell w \<Rightarrow> - 32768 \<le> sint w \<and> sint w < 32768 | _ \<Rightarrow> False)
      | Int32DT \<Rightarrow> (case c of IntCell w \<Rightarrow> - 2147483648 \<le> sint w \<and> sint w < 2147483648 | _ \<Rightarrow> False)
      | Int64DT \<Rightarrow> (case c of IntCell _ \<Rightarrow> True | _ \<Rightarrow> False)
      | Uint8DT \<Rightarrow> (case c of UintCell w \<Rightarrow> uint w < 256 | _ \<Rightarrow> False)
      | Uint16DT \<Rightarrow> (case c of UintCell w \<Rightarrow> uint w < 65536 | _ \<Rightarrow> False)
      | Uint32DT \<Rightarrow> (case c of UintCell w \<Rightarrow> uint w < 4294967296 | _ \<Rightarrow> False)
      | Uint64DT \<Rightarrow> (case c of UintCell _ \<Rightarrow> True | _ \<Rightarrow> False)
      | Float32DT \<Rightarrow> (case c of Float32Cell _ \<Rightarrow> True | _ \<Rightarrow> False)
      | Float64DT \<Rightarrow> (case c of Float64Cell _ \<Rightarrow> True | _ \<Rightarrow> False)
      | StringDT \<Rightarrow> (case c of BytesCell _ \<Rightarrow> True | _ \<Rightarrow> False)
      | LargeStringDT \<Rightarrow> (case c of BytesCell _ \<Rightarrow> True | _ \<Rightarrow> False)
      | BinaryDT \<Rightarrow> (case c of BytesCell _ \<Rightarrow> True | _ \<Rightarrow> False)
      | LargeBinaryDT \<Rightarrow> (case c of BytesCell _ \<Rightarrow> True | _ \<Rightarrow> False)
      | FixedSizeBinaryDT n \<Rightarrow> (case c of BytesCell b \<Rightarrow> int (length b) = n | _ \<Rightarrow> False)
      | Date32DT \<Rightarrow> (case c of IntCell w \<Rightarrow> - 2147483648 \<le> sint w \<and> sint w < 2147483648 | _ \<Rightarrow> False)
      | Date64DT \<Rightarrow> (case c of IntCell _ \<Rightarrow> True | _ \<Rightarrow> False)
      | TimestampDT _ _ \<Rightarrow> (case c of IntCell _ \<Rightarrow> True | _ \<Rightarrow> False)
      | OtherDT _ \<Rightarrow> (case c of OtherCell _ \<Rightarrow> True | _ \<Rightarrow> False))"

definition cell_nan :: "cell \<Rightarrow> bool" where
  "cell_nan c =
     (case c of Float32Cell f \<Rightarrow> f32_is_nan f | Float64Cell f \<Rightarrow> f64_is_nan f | _ \<Rightarrow> False)"

text \<open>A row: each top-level field's cell, \<open>None\<close> for NULL.\<close>

type_synonym row = "int \<Rightarrow> cell option"

end
