(* ===== verification/Sql_Semantics.thy ===== *)
theory Sql_Semantics
  imports Arrow_Types
begin

text \<open>
  The specification side of filter pushdown: what a pushed predicate means. Values
  are the mathematical ones (an integer, an instant in nanoseconds, a number), and a
  predicate evaluates in SQL's three-valued logic. Comparing values of different
  kinds, or with a NaN, is left to a parameter: the code must be right whatever
  the engine's coercions make of it.
\<close>

section \<open>Values\<close>

datatype sqlval =
    QBool bool
  | QInt int
  | QFloat float64
  | QText "byte list"
  | QBinary "byte list"
  | QDate int
  | QTime int
  | QOther string

definition nanos_per :: "ArrowUnit \<Rightarrow> int" where
  "nanos_per u = (case u of Second \<Rightarrow> 10 ^ 9 | Millisecond \<Rightarrow> 10 ^ 6 | Microsecond \<Rightarrow> 10 ^ 3 | Nanosecond \<Rightarrow> 1)"

definition lit_nanos_per :: "TimeUnit \<Rightarrow> int" where
  "lit_nanos_per u =
     (case u of TimeUnitSecond \<Rightarrow> 10 ^ 9 | TimeUnitMillisecond \<Rightarrow> 10 ^ 6
      | TimeUnitMicrosecond \<Rightarrow> 10 ^ 3 | TimeUnitNanosecond \<Rightarrow> 1 | OtherUnit _ \<Rightarrow> 0)"

definition cell_value :: "dtype \<Rightarrow> cell \<Rightarrow> sqlval" where
  "cell_value dt c =
     (case c of
        BoolCell b \<Rightarrow> QBool b
      | IntCell w \<Rightarrow>
          (case dt of Date32DT \<Rightarrow> QDate (sint w) | Date64DT \<Rightarrow> QTime (sint w * 10 ^ 6)
           | TimestampDT u _ \<Rightarrow> QTime (sint w * nanos_per u) | _ \<Rightarrow> QInt (sint w))
      | UintCell w \<Rightarrow> QInt (uint w)
      | Float32Cell f \<Rightarrow> QFloat (f64_of_f32 f)
      | Float64Cell f \<Rightarrow> QFloat f
      | BytesCell b \<Rightarrow>
          (case dt of StringDT \<Rightarrow> QText b | LargeStringDT \<Rightarrow> QText b | _ \<Rightarrow> QBinary b)
      | OtherCell s \<Rightarrow> QOther s)"

text \<open>A literal whose value does not fit its type has no meaning of its own.\<close>

definition literal_meaning :: "Literal \<Rightarrow> sqlval" where
  "literal_meaning l =
     (case lit_value l of
        NilV \<Rightarrow> QOther []
      | BoolV b \<Rightarrow> QBool b
      | Int8V w \<Rightarrow> QInt (sint w) | Int16V w \<Rightarrow> QInt (sint w)
      | Int32V w \<Rightarrow> (if lit_type l = LiteralDate32 then QDate (sint w) else QInt (sint w))
      | Int64V w \<Rightarrow>
          (if lit_type l = LiteralTimestamp then QTime (sint w * lit_nanos_per (lit_unit l))
           else if lit_type l = LiteralDate64 then QTime (sint w * 10 ^ 6)
           else QInt (sint w))
      | Uint8V w \<Rightarrow> QInt (uint w) | Uint16V w \<Rightarrow> QInt (uint w)
      | Uint32V w \<Rightarrow> QInt (uint w) | Uint64V w \<Rightarrow> QInt (uint w)
      | Float32V f \<Rightarrow> QFloat (f64_of_f32 f)
      | Float64V f \<Rightarrow> QFloat f
      | StringV s \<Rightarrow> QText (bytes_of_string s)
      | BytesV b \<Rightarrow> QBinary b)"

section \<open>Comparison\<close>

type_synonym foreign = "sqlval \<Rightarrow> sqlval \<Rightarrow> int option"

definition sql_compare :: "foreign \<Rightarrow> sqlval \<Rightarrow> sqlval \<Rightarrow> int option" where
  "sql_compare fo a b =
     (case (a, b) of
        (QBool x, QBool y) \<Rightarrow> Some (order_int (\<not> x \<and> y) (x \<and> \<not> y))
      | (QInt x, QInt y) \<Rightarrow> Some (order_int (x < y) (y < x))
      | (QFloat x, QFloat y) \<Rightarrow>
          if f64_is_nan x \<or> f64_is_nan y then fo a b
          else Some (order_int (f64_units x < f64_units y) (f64_units y < f64_units x))
      | (QText x, QText y) \<Rightarrow> Some (bytes_compare x y)
      | (QBinary x, QBinary y) \<Rightarrow> Some (bytes_compare x y)
      | (QDate x, QDate y) \<Rightarrow> Some (order_int (x < y) (y < x))
      | (QTime x, QTime y) \<Rightarrow> Some (order_int (x < y) (y < x))
      | _ \<Rightarrow> fo a b)"

definition op_holds :: "CompareOp \<Rightarrow> int \<Rightarrow> bool" where
  "op_holds op n =
     (case op of
        CompareEq \<Rightarrow> n = 0 | CompareNeq \<Rightarrow> n \<noteq> 0 | CompareLt \<Rightarrow> n < 0 | CompareLtEq \<Rightarrow> n \<le> 0
      | CompareGt \<Rightarrow> 0 < n | CompareGtEq \<Rightarrow> 0 \<le> n | OtherOp _ \<Rightarrow> False)"

section \<open>Three-valued logic\<close>

definition not3 :: "bool option \<Rightarrow> bool option" where
  "not3 a = map_option Not a"

fun and3 :: "bool option \<Rightarrow> bool option \<Rightarrow> bool option" where
  "and3 (Some False) b = Some False"
| "and3 a (Some False) = Some False"
| "and3 (Some True) b = b"
| "and3 a (Some True) = a"
| "and3 None None = None"

definition or3 :: "bool option \<Rightarrow> bool option \<Rightarrow> bool option" where
  "or3 a b = not3 (and3 (not3 a) (not3 b))"

lemma not3_simps [simp]:
  "not3 None = None" "not3 (Some b) = Some (\<not> b)" "not3 (not3 a) = a"
  by (cases a; simp add: not3_def)+

lemma and3_True [simp]: "and3 a b = Some True \<longleftrightarrow> a = Some True \<and> b = Some True"
  by (cases "(a, b)" rule: and3.cases) auto

lemma and3_False [simp]: "and3 a b = Some False \<longleftrightarrow> a = Some False \<or> b = Some False"
  by (cases "(a, b)" rule: and3.cases) auto

lemma not3_iff [simp]:
  "not3 a = Some b \<longleftrightarrow> a = Some (\<not> b)" "not3 a = None \<longleftrightarrow> a = None"
  by (cases a; auto)+

lemma or3_True [simp]: "or3 a b = Some True \<longleftrightarrow> a = Some True \<or> b = Some True"
  by (simp add: or3_def)

lemma or3_False [simp]: "or3 a b = Some False \<longleftrightarrow> a = Some False \<and> b = Some False"
  by (simp add: or3_def)

lemma not3_and3: "not3 (and3 a b) = or3 (not3 a) (not3 b)"
  and not3_or3: "not3 (or3 a b) = and3 (not3 a) (not3 b)"
  by (simp_all add: or3_def)

section \<open>Evaluation\<close>

text \<open>
  \<open>column op literal\<close> on one row: NULL when the cell is NULL, when the engine's own
  comparison of foreign values is NULL, or when the operator is none it knows.
\<close>

definition eval_compare :: "foreign \<Rightarrow> (int \<Rightarrow> dtype) \<Rightarrow> row \<Rightarrow> Column \<Rightarrow> CompareOp \<Rightarrow> Literal \<Rightarrow> bool option" where
  "eval_compare fo dts r c op l =
     (case r (col_index c) of
        None \<Rightarrow> None
      | Some x \<Rightarrow>
          if known_op op then
            map_option (op_holds op)
              (sql_compare fo (cell_value (dts (col_index c)) x) (literal_meaning l))
          else None)"

definition eval_in :: "foreign \<Rightarrow> (int \<Rightarrow> dtype) \<Rightarrow> row \<Rightarrow> Column \<Rightarrow> Literal list \<Rightarrow> bool option" where
  "eval_in fo dts r c ls =
     (if r (col_index c) = None then None
      else foldr (\<lambda>l acc. or3 (eval_compare fo dts r c CompareEq l) acc) ls (Some False))"

definition negate_if :: "bool \<Rightarrow> bool option \<Rightarrow> bool option" where
  "negate_if n a = (if n then not3 a else a)"

fun eval :: "foreign \<Rightarrow> (int \<Rightarrow> dtype) \<Rightarrow> row \<Rightarrow> Expr \<Rightarrow> bool option" where
  "eval fo dts r (Compare c op l) = eval_compare fo dts r c op l"
| "eval fo dts r (IsNull c n) = negate_if n (Some (r (col_index c) = None))"
| "eval fo dts r (Between c n lo hi) =
     negate_if n (and3 (eval_compare fo dts r c CompareGtEq lo) (eval_compare fo dts r c CompareLtEq hi))"
| "eval fo dts r (InList c n ls) = negate_if n (eval_in fo dts r c ls)"
| "eval fo dts r (And a b) = and3 (eval fo dts r a) (eval fo dts r b)"
| "eval fo dts r (Or a b) = or3 (eval fo dts r a) (eval fo dts r b)"
| "eval fo dts r (NotE e) = not3 (eval fo dts r e)"
| "eval fo dts r NilExpr = None"

lemma eval_null_cell:
  assumes "r (col_index c) = None"
  shows "eval_compare fo dts r c op l = None" "eval_in fo dts r c ls = None"
  using assms by (simp_all add: eval_compare_def eval_in_def)

lemma eval_in_True:
  "eval_in fo dts r c ls = Some True \<longleftrightarrow>
     (\<exists>l \<in> set ls. eval_compare fo dts r c CompareEq l = Some True)"
proof (cases "r (col_index c)")
  case None
  then show ?thesis by (simp add: eval_null_cell)
next
  case (Some x)
  then show ?thesis by (induction ls) (auto simp: eval_in_def)
qed

lemma eval_in_False:
  "eval_in fo dts r c ls = Some False \<longleftrightarrow>
     r (col_index c) \<noteq> None \<and> (\<forall>l \<in> set ls. eval_compare fo dts r c CompareEq l = Some False)"
  by (induction ls) (auto simp: eval_in_def)

text \<open>The rows a conjunction of pushed filters keeps: exactly those where each one is TRUE.\<close>

definition satisfies :: "foreign \<Rightarrow> (int \<Rightarrow> dtype) \<Rightarrow> Expr list \<Rightarrow> row \<Rightarrow> bool" where
  "satisfies fo dts fs r \<longleftrightarrow> (\<forall>e \<in> set fs. eval fo dts r e = Some True)"

end
