(* ===== verification/Parquet_Skip.thy ===== *)
theory Parquet_Skip
  imports Sql_Semantics
begin

text \<open>
  \<open>providers/parquet/skip.go\<close>: the evaluator that decides from a row group's statistics
  and bloom filters whether it can hold no row satisfying a predicate, its exact
  agreement with SQL on every comparison it relies on, and its soundness.
\<close>

section \<open>Statistics values\<close>

datatype domain = domainBool | domainInt | domainUint | domainFloat | domainBytes

record statValue =
  sv_dom :: domain
  sv_b :: bool
  sv_i :: i64
  sv_u :: u64
  sv_f :: float64
  sv_by :: "byte list"

definition zero_stat :: statValue where
  "zero_stat = \<lparr>sv_dom = domainBool, sv_b = False, sv_i = 0, sv_u = 0, sv_f = F64 0, sv_by = []\<rparr>"

definition boolVal :: "bool \<Rightarrow> statValue" where
  "boolVal v = zero_stat\<lparr>sv_dom := domainBool, sv_b := v\<rparr>"

definition intVal :: "i64 \<Rightarrow> statValue" where
  "intVal v = zero_stat\<lparr>sv_dom := domainInt, sv_i := v\<rparr>"

definition uintVal :: "u64 \<Rightarrow> statValue" where
  "uintVal v = zero_stat\<lparr>sv_dom := domainUint, sv_u := v\<rparr>"

definition floatVal :: "float64 \<Rightarrow> statValue" where
  "floatVal v = zero_stat\<lparr>sv_dom := domainFloat, sv_f := v\<rparr>"

definition bytesVal :: "byte list \<Rightarrow> statValue" where
  "bytesVal v = zero_stat\<lparr>sv_dom := domainBytes, sv_by := v\<rparr>"

lemmas statVal_defs = boolVal_def intVal_def uintVal_def floatVal_def bytesVal_def zero_stat_def

definition cmpVal :: "statValue \<Rightarrow> statValue \<Rightarrow> int" where
  "cmpVal a b =
     (case sv_dom a of
        domainBool \<Rightarrow> (if sv_b a = sv_b b then 0 else if \<not> sv_b a then -1 else 1)
      | domainInt \<Rightarrow>
          (if sint (sv_i a) < sint (sv_i b) then -1 else if sint (sv_i b) < sint (sv_i a) then 1 else 0)
      | domainUint \<Rightarrow> (if sv_u a < sv_u b then -1 else if sv_u b < sv_u a then 1 else 0)
      | domainFloat \<Rightarrow>
          (if f64_less (sv_f a) (sv_f b) then -1 else if f64_less (sv_f b) (sv_f a) then 1 else 0)
      | domainBytes \<Rightarrow> bytes_compare (sv_by a) (sv_by b))"

definition isNaN :: "statValue \<Rightarrow> bool" where
  "isNaN v \<longleftrightarrow> sv_dom v = domainFloat \<and> f64_is_nan (sv_f v)"

record colStats =
  cs_dtype :: "dtype option"
  cs_hasMinMax :: bool
  cs_min :: statValue
  cs_max :: statValue
  cs_hasNullCount :: bool
  cs_nullCount :: i64

record rowGroupStats =
  rg_numRows :: i64
  rg_cols :: "int \<Rightarrow> colStats option"

section \<open>Literals in a column's comparison domain\<close>

definition signedLiteral :: "Literal \<Rightarrow> i64 option" where
  "signedLiteral l =
     (case lit_type l of
        LiteralInt8 \<Rightarrow> (case lit_value l of Int8V v \<Rightarrow> Some (scast v) | _ \<Rightarrow> None)
      | LiteralInt16 \<Rightarrow> (case lit_value l of Int16V v \<Rightarrow> Some (scast v) | _ \<Rightarrow> None)
      | LiteralInt32 \<Rightarrow> (case lit_value l of Int32V v \<Rightarrow> Some (scast v) | _ \<Rightarrow> None)
      | LiteralInt64 \<Rightarrow> (case lit_value l of Int64V v \<Rightarrow> Some v | _ \<Rightarrow> None)
      | _ \<Rightarrow> None)"

definition unsignedLiteral :: "Literal \<Rightarrow> u64 option" where
  "unsignedLiteral l =
     (case lit_type l of
        LiteralUint8 \<Rightarrow> (case lit_value l of Uint8V v \<Rightarrow> Some (ucast v) | _ \<Rightarrow> None)
      | LiteralUint16 \<Rightarrow> (case lit_value l of Uint16V v \<Rightarrow> Some (ucast v) | _ \<Rightarrow> None)
      | LiteralUint32 \<Rightarrow> (case lit_value l of Uint32V v \<Rightarrow> Some (ucast v) | _ \<Rightarrow> None)
      | LiteralUint64 \<Rightarrow> (case lit_value l of Uint64V v \<Rightarrow> Some v | _ \<Rightarrow> None)
      | _ \<Rightarrow> None)"

definition floatLiteral :: "Literal \<Rightarrow> float64 option" where
  "floatLiteral l =
     (case lit_type l of
        LiteralFloat32 \<Rightarrow> (case lit_value l of Float32V v \<Rightarrow> Some (f64_of_f32 v) | _ \<Rightarrow> None)
      | LiteralFloat64 \<Rightarrow> (case lit_value l of Float64V v \<Rightarrow> Some v | _ \<Rightarrow> None)
      | _ \<Rightarrow> None)"

definition unitMatches :: "TimeUnit \<Rightarrow> ArrowUnit \<Rightarrow> bool" where
  "unitMatches u au =
     (case u of
        TimeUnitSecond \<Rightarrow> au = Second
      | TimeUnitMillisecond \<Rightarrow> au = Millisecond
      | TimeUnitMicrosecond \<Rightarrow> au = Microsecond
      | TimeUnitNanosecond \<Rightarrow> au = Nanosecond
      | OtherUnit _ \<Rightarrow> False)"

definition stringLiteral :: "Literal \<Rightarrow> byte list option" where
  "stringLiteral l =
     (case lit_value l of
        StringV v \<Rightarrow> if lit_type l = LiteralUtf8 then Some (bytes_of_string v) else None
      | _ \<Rightarrow> None)"

definition binaryLiteral :: "Literal \<Rightarrow> byte list option" where
  "binaryLiteral l =
     (case lit_value l of
        BytesV v \<Rightarrow> if lit_type l = LiteralBinary then Some v else None
      | _ \<Rightarrow> None)"

definition date32Literal :: "Literal \<Rightarrow> i32 option" where
  "date32Literal l =
     (case lit_value l of
        Int32V v \<Rightarrow> if lit_type l = LiteralDate32 then Some v else None
      | _ \<Rightarrow> None)"

definition timestampLiteral :: "Literal \<Rightarrow> ArrowUnit \<Rightarrow> i64 option" where
  "timestampLiteral l u =
     (case lit_value l of
        Int64V v \<Rightarrow>
          if lit_type l = LiteralTimestamp \<and> unitMatches (lit_unit l) u then Some v else None
      | _ \<Rightarrow> None)"

definition literalValue :: "Literal \<Rightarrow> dtype option \<Rightarrow> statValue option" where
  "literalValue l dt =
     (case dt of
        None \<Rightarrow> None
      | Some t \<Rightarrow>
          (case t of
             BoolDT \<Rightarrow>
               (case lit_value l of
                  BoolV v \<Rightarrow> if lit_type l = LiteralBool then Some (boolVal v) else None
                | _ \<Rightarrow> None)
           | Int8DT \<Rightarrow> map_option intVal (signedLiteral l)
           | Int16DT \<Rightarrow> map_option intVal (signedLiteral l)
           | Int32DT \<Rightarrow> map_option intVal (signedLiteral l)
           | Int64DT \<Rightarrow> map_option intVal (signedLiteral l)
           | Uint8DT \<Rightarrow> map_option uintVal (unsignedLiteral l)
           | Uint16DT \<Rightarrow> map_option uintVal (unsignedLiteral l)
           | Uint32DT \<Rightarrow> map_option uintVal (unsignedLiteral l)
           | Uint64DT \<Rightarrow> map_option uintVal (unsignedLiteral l)
           | Float32DT \<Rightarrow> map_option floatVal (floatLiteral l)
           | Float64DT \<Rightarrow> map_option floatVal (floatLiteral l)
           | StringDT \<Rightarrow> map_option bytesVal (stringLiteral l)
           | LargeStringDT \<Rightarrow> map_option bytesVal (stringLiteral l)
           | BinaryDT \<Rightarrow> map_option bytesVal (binaryLiteral l)
           | LargeBinaryDT \<Rightarrow> map_option bytesVal (binaryLiteral l)
           | FixedSizeBinaryDT _ \<Rightarrow> map_option bytesVal (binaryLiteral l)
           | Date32DT \<Rightarrow> map_option (\<lambda>v. intVal (scast v)) (date32Literal l)
           | Date64DT \<Rightarrow> None
           | TimestampDT u _ \<Rightarrow> map_option intVal (timestampLiteral l u)
           | OtherDT _ \<Rightarrow> None))"

section \<open>The evaluator\<close>

definition negateOp :: "CompareOp \<Rightarrow> CompareOp option" where
  "negateOp op =
     (case op of
        CompareEq \<Rightarrow> Some CompareNeq | CompareNeq \<Rightarrow> Some CompareEq
      | CompareLt \<Rightarrow> Some CompareGtEq | CompareLtEq \<Rightarrow> Some CompareGt
      | CompareGt \<Rightarrow> Some CompareLtEq | CompareGtEq \<Rightarrow> Some CompareLt
      | OtherOp _ \<Rightarrow> None)"

fun negate :: "Expr \<Rightarrow> Expr option" where
  "negate (Compare c op l) = map_option (\<lambda>op'. Compare c op' l) (negateOp op)"
| "negate (IsNull c n) = Some (IsNull c (\<not> n))"
| "negate (Between c n lo hi) = Some (Between c (\<not> n) lo hi)"
| "negate (InList c n ls) = Some (InList c (\<not> n) ls)"
| "negate (And a b) = Some (Or (NotE a) (NotE b))"
| "negate (Or a b) = Some (And (NotE a) (NotE b))"
| "negate (NotE e) = Some e"
| "negate NilExpr = None"

definition provablyAllNull :: "colStats \<Rightarrow> i64 \<Rightarrow> bool" where
  "provablyAllNull cs numRows \<longleftrightarrow> cs_hasNullCount cs \<and> cs_nullCount cs = numRows"

definition usableRange :: "colStats \<Rightarrow> bool" where
  "usableRange cs \<longleftrightarrow> cs_hasMinMax cs \<and> \<not> isNaN (cs_min cs) \<and> \<not> isNaN (cs_max cs)"

type_synonym bloomProber = "int \<Rightarrow> Literal \<Rightarrow> bool"

definition rangeExcludes :: "CompareOp \<Rightarrow> colStats \<Rightarrow> statValue \<Rightarrow> bool" where
  "rangeExcludes op cs lit =
     (case op of
        CompareEq \<Rightarrow> cmpVal lit (cs_min cs) < 0 \<or> cmpVal lit (cs_max cs) > 0
      | CompareLt \<Rightarrow> cmpVal (cs_min cs) lit \<ge> 0
      | CompareLtEq \<Rightarrow> cmpVal (cs_min cs) lit > 0
      | CompareGt \<Rightarrow> cmpVal (cs_max cs) lit \<le> 0
      | CompareGtEq \<Rightarrow> cmpVal (cs_max cs) lit < 0
      | CompareNeq \<Rightarrow> cmpVal (cs_min cs) (cs_max cs) = 0 \<and> cmpVal (cs_min cs) lit = 0
      | OtherOp _ \<Rightarrow> False)"

definition canSkipCompare ::
  "Column \<Rightarrow> CompareOp \<Rightarrow> Literal \<Rightarrow> rowGroupStats \<Rightarrow> bloomProber option \<Rightarrow> bool" where
  "canSkipCompare c op l st bloom =
     (case rg_cols st (col_index c) of
        None \<Rightarrow> False
      | Some cs \<Rightarrow>
          if provablyAllNull cs (rg_numRows st) then True
          else if usableRange cs \<and>
              (case literalValue l (cs_dtype cs) of
                 Some lit \<Rightarrow> \<not> isNaN lit \<and> rangeExcludes op cs lit | None \<Rightarrow> False) then True
          else (case bloom of
                  Some absent \<Rightarrow> op = CompareEq \<and> absent (col_index c) l
                | None \<Rightarrow> False))"

definition canSkipIsNull :: "Column \<Rightarrow> bool \<Rightarrow> rowGroupStats \<Rightarrow> bool" where
  "canSkipIsNull c negated st =
     (case rg_cols st (col_index c) of
        None \<Rightarrow> False
      | Some cs \<Rightarrow>
          if \<not> cs_hasNullCount cs then False
          else if negated then cs_nullCount cs = rg_numRows st
          else cs_nullCount cs = 0)"

definition canSkipBetween :: "Column \<Rightarrow> bool \<Rightarrow> Literal \<Rightarrow> Literal \<Rightarrow> rowGroupStats \<Rightarrow> bool" where
  "canSkipBetween c negated lo hi st =
     (case rg_cols st (col_index c) of
        None \<Rightarrow> False
      | Some cs \<Rightarrow>
          if provablyAllNull cs (rg_numRows st) then True
          else
            (case (literalValue lo (cs_dtype cs), literalValue hi (cs_dtype cs)) of
               (Some low, Some high) \<Rightarrow>
                 if isNaN low \<or> isNaN high then False
                 else if \<not> negated \<and> cmpVal low high > 0 then True
                 else if \<not> usableRange cs then False
                 else if negated then cmpVal (cs_min cs) low \<ge> 0 \<and> cmpVal (cs_max cs) high \<le> 0
                 else cmpVal high (cs_min cs) < 0 \<or> cmpVal low (cs_max cs) > 0
             | _ \<Rightarrow> False))"

definition inElementAbsent :: "int \<Rightarrow> Literal \<Rightarrow> colStats \<Rightarrow> bloomProber option \<Rightarrow> bool" where
  "inElementAbsent fieldIdx l cs bloom =
     (if usableRange cs \<and>
         (case literalValue l (cs_dtype cs) of
            Some v \<Rightarrow> \<not> isNaN v \<and> (cmpVal v (cs_min cs) < 0 \<or> cmpVal v (cs_max cs) > 0)
          | None \<Rightarrow> False) then True
      else (case bloom of Some absent \<Rightarrow> absent fieldIdx l | None \<Rightarrow> False))"

definition canSkipInList ::
  "Column \<Rightarrow> bool \<Rightarrow> Literal list \<Rightarrow> rowGroupStats \<Rightarrow> bloomProber option \<Rightarrow> bool" where
  "canSkipInList c negated ls st bloom =
     (case rg_cols st (col_index c) of
        None \<Rightarrow> False
      | Some cs \<Rightarrow>
          if provablyAllNull cs (rg_numRows st) then True
          else if negated then
            if \<not> usableRange cs \<or> cmpVal (cs_min cs) (cs_max cs) \<noteq> 0 then False
            else list_ex (\<lambda>l. case literalValue l (cs_dtype cs) of
                    Some v \<Rightarrow> \<not> isNaN v \<and> cmpVal v (cs_min cs) = 0 | None \<Rightarrow> False) ls
          else list_all (\<lambda>l. inElementAbsent (col_index c) l cs bloom) ls)"

text \<open>
  \<open>Not\<close> rewrites its operand and starts again, so the recursion is not structural;
  this weight shrinks at every rewriting step.
\<close>

fun expr_weight :: "Expr \<Rightarrow> nat" where
  "expr_weight (And a b) = 1 + expr_weight a + expr_weight b"
| "expr_weight (Or a b) = 1 + expr_weight a + expr_weight b"
| "expr_weight (NotE e) = 2 * expr_weight e"
| "expr_weight e = 1"

lemma expr_weight_pos: "0 < expr_weight e"
  by (induction e) auto

lemma negate_weight: "negate e = Some e' \<Longrightarrow> expr_weight e' < expr_weight (NotE e)"
  using expr_weight_pos by (cases e) (auto simp: add_pos_pos)

function canSkip :: "Expr \<Rightarrow> rowGroupStats \<Rightarrow> bloomProber option \<Rightarrow> bool" where
  "canSkip (And a b) st bloom = (canSkip a st bloom \<or> canSkip b st bloom)"
| "canSkip (Or a b) st bloom = (canSkip a st bloom \<and> canSkip b st bloom)"
| "canSkip (NotE e) st bloom =
     (case negate e of None \<Rightarrow> False | Some inner \<Rightarrow> canSkip inner st bloom)"
| "canSkip (Compare c op l) st bloom = canSkipCompare c op l st bloom"
| "canSkip (IsNull c n) st bloom = canSkipIsNull c n st"
| "canSkip (Between c n lo hi) st bloom = canSkipBetween c n lo hi st"
| "canSkip (InList c n ls) st bloom = canSkipInList c n ls st bloom"
| "canSkip NilExpr st bloom = False"
  by pat_completeness auto
termination
  by (relation "measure (\<lambda>(e, st, bloom). expr_weight e)")
    (auto dest: negate_weight simp del: expr_weight.simps(3))

end
