(* ===== verification/Skip_Soundness.thy ===== *)
theory Skip_Soundness
  imports Parquet_Skip
begin

text \<open>
  The row-group skip evaluator is right: its negation is SQL's, its comparisons are
  SQL's wherever it makes one, and it skips only row groups without a matching row.
\<close>

section \<open>Negation\<close>

lemma op_holds_negate: "negateOp op = Some op' \<Longrightarrow> op_holds op' n = (\<not> op_holds op n)"
  by (cases op) (auto simp: negateOp_def op_holds_def)

lemma negateOp_known: "negateOp op = Some op' \<Longrightarrow> known_op op \<and> known_op op'"
  by (cases op) (auto simp: negateOp_def known_op_def)

lemma eval_compare_negate:
  assumes "negateOp op = Some op'"
  shows "eval_compare fo dts r c op' l = not3 (eval_compare fo dts r c op l)"
proof -
  have "op_holds op' = (\<lambda>n. \<not> op_holds op n)" using op_holds_negate [OF assms] by blast
  then show ?thesis
    using negateOp_known [OF assms]
    by (simp add: eval_compare_def not3_def option.map_comp comp_def split: option.split)
qed

lemma negate_if_not: "negate_if (\<not> n) a = not3 (negate_if n a)"
  by (simp add: negate_if_def)

lemma negate_eval:
  assumes "negate e = Some e'"
  shows "eval fo dts r e' = eval fo dts r (NotE e)"
  using assms
  by (cases e) (auto simp: eval_compare_negate negate_if_not or3_def)

text \<open>The rewriting of \<open>NOT e\<close> into a positive form is an equivalence of SQL's
  three-valued logic on every row, NULLs and foreign comparisons included.\<close>

theorem negate_equivalent:
  assumes "negate e = Some e'"
  shows "eval fo dts r e' = eval fo dts r (NotE e)"
  using assms by (rule negate_eval)

section \<open>Comparing statistics values\<close>

text \<open>The integer a non-bytes value is ordered by.\<close>

definition stat_key :: "statValue \<Rightarrow> int" where
  "stat_key v =
     (case sv_dom v of
        domainBool \<Rightarrow> (if sv_b v then 1 else 0)
      | domainInt \<Rightarrow> sint (sv_i v)
      | domainUint \<Rightarrow> uint (sv_u v)
      | domainFloat \<Rightarrow> f64_key (sv_f v)
      | domainBytes \<Rightarrow> 0)"

lemma cmpVal_key:
  assumes "sv_dom a = sv_dom b" "sv_dom a \<noteq> domainBytes" "\<not> isNaN a" "\<not> isNaN b"
  shows "cmpVal a b = order_int (stat_key a < stat_key b) (stat_key b < stat_key a)"
  using assms
  by (cases "sv_dom a")
    (auto simp: cmpVal_def stat_key_def isNaN_def f64_less_def order_int_def word_less_def)

lemma cmpVal_bytes:
  "sv_dom a = domainBytes \<Longrightarrow> cmpVal a b = bytes_compare (sv_by a) (sv_by b)"
  by (simp add: cmpVal_def)

lemma cmpVal_refl [simp]: "cmpVal a a = 0"
  by (cases "sv_dom a") (simp_all add: cmpVal_def f64_less_def)

lemma cmpVal_swap:
  assumes "sv_dom a = sv_dom b" "\<not> isNaN a" "\<not> isNaN b"
  shows "cmpVal b a = - cmpVal a b"
proof (cases "sv_dom a = domainBytes")
  case True
  then show ?thesis
    using assms bytes_compare_swap [of "sv_by b" "sv_by a"] by (simp add: cmpVal_bytes)
next
  case False
  then show ?thesis using assms by (simp add: cmpVal_key order_int_def)
qed

lemma cmpVal_trans:
  assumes "sv_dom a = sv_dom b" "sv_dom b = sv_dom c" "\<not> isNaN a" "\<not> isNaN b" "\<not> isNaN c"
    and "cmpVal a b \<le> 0" "cmpVal b c \<le> 0"
  shows "cmpVal a c \<le> 0"
proof (cases "sv_dom a = domainBytes")
  case True
  then show ?thesis using assms bytes_compare_trans by (auto simp: cmpVal_bytes)
next
  case False
  then show ?thesis using assms by (auto simp: cmpVal_key order_int_def split: if_splits)
qed

section \<open>Cells in the comparison domain\<close>

definition stat_domain :: "dtype \<Rightarrow> domain" where
  "stat_domain dt =
     (if dt = BoolDT then domainBool
      else if signed_dt dt \<or> dt = Date32DT \<or> (\<exists>u tz. dt = TimestampDT u tz) then domainInt
      else if unsigned_dt dt then domainUint
      else if dt = Float32DT \<or> dt = Float64DT then domainFloat
      else domainBytes)"

definition stat_of_cell :: "cell \<Rightarrow> statValue" where
  "stat_of_cell c =
     (case c of
        BoolCell b \<Rightarrow> boolVal b
      | IntCell w \<Rightarrow> intVal w
      | UintCell w \<Rightarrow> uintVal w
      | Float32Cell f \<Rightarrow> floatVal (f64_of_f32 f)
      | Float64Cell f \<Rightarrow> floatVal f
      | BytesCell b \<Rightarrow> bytesVal b
      | OtherCell s \<Rightarrow> bytesVal [])"

lemma isNaN_stat_of_cell [simp]: "isNaN (stat_of_cell c) = cell_nan c"
  by (cases c) (simp_all add: stat_of_cell_def cell_nan_def isNaN_def statVal_defs)

lemma stat_domain_simps [simp]:
  "stat_domain BoolDT = domainBool" "stat_domain Int8DT = domainInt" "stat_domain Int16DT = domainInt"
  "stat_domain Int32DT = domainInt" "stat_domain Int64DT = domainInt"
  "stat_domain Uint8DT = domainUint" "stat_domain Uint16DT = domainUint"
  "stat_domain Uint32DT = domainUint" "stat_domain Uint64DT = domainUint"
  "stat_domain Float32DT = domainFloat" "stat_domain Float64DT = domainFloat"
  "stat_domain StringDT = domainBytes" "stat_domain LargeStringDT = domainBytes"
  "stat_domain BinaryDT = domainBytes" "stat_domain LargeBinaryDT = domainBytes"
  "stat_domain (FixedSizeBinaryDT n) = domainBytes" "stat_domain Date32DT = domainInt"
  "stat_domain (TimestampDT u tz) = domainInt"
  by (simp_all add: stat_domain_def signed_dt_def unsigned_dt_def)

lemma literalValue_domain:
  "literalValue l (Some dt) = Some v \<Longrightarrow> sv_dom v = stat_domain dt"
  by (cases dt)
    (auto simp: literalValue_def statVal_defs stat_domain_def signed_dt_def unsigned_dt_def
      split: GoValue.splits if_splits)

lemma unitMatches_nanos: "unitMatches u au \<Longrightarrow> lit_nanos_per u = nanos_per au \<and> 0 < nanos_per au"
  by (cases u) (simp_all add: unitMatches_def lit_nanos_per_def nanos_per_def)

lemma signedLiteral_meaning:
  "signedLiteral l = Some v \<Longrightarrow> literal_meaning l = QInt (sint v)"
  by (auto simp: signedLiteral_def literal_meaning_def sint_scast_up
      split: LiteralType.splits GoValue.splits)

lemma unsignedLiteral_meaning:
  "unsignedLiteral l = Some v \<Longrightarrow> literal_meaning l = QInt (uint v)"
  by (auto simp: unsignedLiteral_def literal_meaning_def uint_ucast_up
      split: LiteralType.splits GoValue.splits)

lemma floatLiteral_meaning:
  "floatLiteral l = Some v \<Longrightarrow> literal_meaning l = QFloat v"
  by (auto simp: floatLiteral_def literal_meaning_def split: LiteralType.splits GoValue.splits)

lemma bytesLiteral_meaning:
  "stringLiteral l = Some v \<Longrightarrow> literal_meaning l = QText v"
  "binaryLiteral l = Some v \<Longrightarrow> literal_meaning l = QBinary v"
  by (auto simp: stringLiteral_def binaryLiteral_def literal_meaning_def
      split: GoValue.splits if_splits)

lemma date32Literal_meaning:
  "date32Literal l = Some v \<Longrightarrow> literal_meaning l = QDate (sint v)"
  by (auto simp: date32Literal_def literal_meaning_def split: GoValue.splits if_splits)

lemma timestampLiteral_meaning:
  "timestampLiteral l u = Some v \<Longrightarrow> literal_meaning l = QTime (sint v * nanos_per u)"
  by (auto simp: timestampLiteral_def literal_meaning_def unitMatches_nanos
      split: GoValue.splits if_splits)

lemmas literal_meanings = signedLiteral_meaning unsignedLiteral_meaning floatLiteral_meaning
  bytesLiteral_meaning date32Literal_meaning timestampLiteral_meaning

lemma boolLiteral_meaning: "lit_value l = BoolV v \<Longrightarrow> literal_meaning l = QBool v"
  by (simp add: literal_meaning_def)

lemma nanos_per_pos: "0 < nanos_per u"
  by (simp add: nanos_per_def split: ArrowUnit.split)

text \<open>SQL's comparison of two values of one kind, as the comparison of statistics values.\<close>

lemma compare_as_stats:
  "sql_compare fo (QBool x) (QBool y) = Some (cmpVal (boolVal x) (boolVal y))"
  "sql_compare fo (QInt (sint v)) (QInt (sint w)) = Some (cmpVal (intVal v) (intVal w))"
  "sql_compare fo (QInt (uint v)) (QInt (uint w)) = Some (cmpVal (uintVal v) (uintVal w))"
  "\<not> f64_is_nan f \<Longrightarrow> \<not> isNaN (floatVal g) \<Longrightarrow>
     sql_compare fo (QFloat f) (QFloat g) = Some (cmpVal (floatVal f) (floatVal g))"
  "sql_compare fo (QText b) (QText b') = Some (cmpVal (bytesVal b) (bytesVal b'))"
  "sql_compare fo (QBinary b) (QBinary b') = Some (cmpVal (bytesVal b) (bytesVal b'))"
  "sql_compare fo (QDate (sint v)) (QDate (sint w32)) = Some (cmpVal (intVal v) (intVal (scast (w32 :: i32))))"
  "sql_compare fo (QTime (sint v * nanos_per u)) (QTime (sint w * nanos_per u)) =
     Some (cmpVal (intVal v) (intVal w))"
  by (auto simp: sql_compare_def cmpVal_def statVal_defs order_int_def isNaN_def f64_less_def
      f64_key_less_iff word_less_def sint_scast_up nanos_per_pos)

lemma literal_compare:
  assumes "literalValue l (Some dt) = Some v" and "\<not> isNaN v"
    and "cell_ok dt c" and "\<not> cell_nan c"
  shows "sql_compare fo (cell_value dt c) (literal_meaning l) = Some (cmpVal (stat_of_cell c) v)"
  using assms
  by (cases dt)
    (auto simp: literalValue_def cell_ok_def cell_value_def stat_of_cell_def cell_nan_def
      compare_as_stats boolLiteral_meaning dest!: literal_meanings
      split: cell.split_asm GoValue.split_asm if_split_asm)

text \<open>Wherever the evaluator converts a literal, comparing the converted literal with a
  column value is SQL's comparison of the two, sign included.\<close>

theorem literalValue_exact:
  assumes "literalValue l (Some dt) = Some v" and "\<not> isNaN v"
    and "cell_ok dt c" and "\<not> cell_nan c"
  shows "sql_compare fo (cell_value dt c) (literal_meaning l) = Some (cmpVal (stat_of_cell c) v)"
  using assms by (rule literal_compare)

theorem literalValue_exact_witness:
  "sql_compare (\<lambda>_ _. None) (QTime (5 * 10 ^ 9))
     (literal_meaning \<lparr>lit_type = LiteralTimestamp, lit_value = Int64V 7, lit_unit = TimeUnitSecond, lit_tz = []\<rparr>) =
   Some (cmpVal (intVal 5) (intVal 7))"
  using literalValue_exact [where dt = "TimestampDT Second []" and c = "IntCell 5" and v = "intVal 7"
      and fo = "\<lambda>_ _. None" and
      l = "\<lparr>lit_type = LiteralTimestamp, lit_value = Int64V 7, lit_unit = TimeUnitSecond, lit_tz = []\<rparr>"]
  by (simp add: literalValue_def timestampLiteral_def unitMatches_def isNaN_def statVal_defs
      cell_ok_def cell_nan_def cell_value_def nanos_per_def stat_of_cell_def)

section \<open>What the statistics promise\<close>

definition null_count :: "row list \<Rightarrow> int \<Rightarrow> nat" where
  "null_count rows i = length (filter (\<lambda>r. r i = None) rows)"

definition col_ok :: "dtype \<Rightarrow> row list \<Rightarrow> int \<Rightarrow> colStats \<Rightarrow> bool" where
  "col_ok dt rows i cs \<longleftrightarrow>
     cs_dtype cs = Some dt \<and>
     (cs_hasNullCount cs \<longrightarrow> sint (cs_nullCount cs) = int (null_count rows i)) \<and>
     (cs_hasMinMax cs \<longrightarrow>
        sv_dom (cs_min cs) = stat_domain dt \<and> sv_dom (cs_max cs) = stat_domain dt \<and>
        (\<forall>r \<in> set rows. \<forall>c. r i = Some c \<longrightarrow>
           cmpVal (cs_min cs) (stat_of_cell c) \<le> 0 \<and> cmpVal (stat_of_cell c) (cs_max cs) \<le> 0))"

definition group_ok :: "(int \<Rightarrow> dtype) \<Rightarrow> row list \<Rightarrow> rowGroupStats \<Rightarrow> bool" where
  "group_ok dts rows st \<longleftrightarrow>
     sint (rg_numRows st) = int (length rows) \<and>
     (\<forall>i cs. rg_cols st i = Some cs \<longrightarrow> col_ok (dts i) rows i cs)"

text \<open>
  The rows of a group: cells of their column's type. Parquet's min and max leave NaN
  out, so a NaN cell is one the statistics say nothing about.
\<close>

definition rows_ok :: "(int \<Rightarrow> dtype) \<Rightarrow> row list \<Rightarrow> bool" where
  "rows_ok dts rows \<longleftrightarrow> (\<forall>r \<in> set rows. \<forall>i c. r i = Some c \<longrightarrow> cell_ok (dts i) c)"

definition rows_no_nan :: "row list \<Rightarrow> bool" where
  "rows_no_nan rows \<longleftrightarrow> (\<forall>r \<in> set rows. \<forall>i c. r i = Some c \<longrightarrow> \<not> cell_nan c)"

lemma null_count_all: "null_count rows i = length rows \<longleftrightarrow> (\<forall>r \<in> set rows. r i = None)"
proof (induction rows)
  case (Cons a rows)
  have "null_count rows i \<noteq> Suc (length rows)"
    unfolding null_count_def by (metis length_filter_le Suc_n_not_le_n)
  then show ?case using Cons by (cases "a i") (auto simp: null_count_def)
qed (simp add: null_count_def)

lemma null_count_none: "null_count rows i = 0 \<longleftrightarrow> (\<forall>r \<in> set rows. r i \<noteq> None)"
  by (auto simp: null_count_def filter_empty_conv)

lemma group_col: "group_ok dts rows st \<Longrightarrow> rg_cols st i = Some cs \<Longrightarrow> col_ok (dts i) rows i cs"
  by (simp add: group_ok_def)

lemma allNull_count:
  assumes "group_ok dts rows st" "col_ok dt rows i cs" "cs_hasNullCount cs"
    and "cs_nullCount cs = rg_numRows st" and "r \<in> set rows"
  shows "r i = None"
proof -
  have "int (null_count rows i) = int (length rows)"
    using assms(1-4) unfolding group_ok_def col_ok_def by metis
  then show ?thesis using assms(5) null_count_all [of rows i] by auto
qed

lemma allNull_rows:
  assumes "group_ok dts rows st" "rg_cols st i = Some cs" "provablyAllNull cs (rg_numRows st)"
    and "r \<in> set rows"
  shows "r i = None"
  using assms allNull_count group_col unfolding provablyAllNull_def by blast

lemma range_bounds:
  assumes "group_ok dts rows st" "rows_ok dts rows" "rg_cols st i = Some cs" "usableRange cs"
    and "r \<in> set rows" "r i = Some c"
  shows "cs_dtype cs = Some (dts i)" "sv_dom (cs_min cs) = stat_domain (dts i)"
    "sv_dom (cs_max cs) = stat_domain (dts i)" "cell_ok (dts i) c"
    "cmpVal (cs_min cs) (stat_of_cell c) \<le> 0" "cmpVal (stat_of_cell c) (cs_max cs) \<le> 0"
    "\<not> isNaN (cs_min cs)" "\<not> isNaN (cs_max cs)"
  using assms unfolding group_ok_def col_ok_def rows_ok_def usableRange_def by blast+

text \<open>One comparison against a range: no value between min and max passes it.\<close>

lemma rangeExcludes_sound:
  assumes ex: "rangeExcludes op cs v"
    and dom: "sv_dom (cs_min cs) = d" "sv_dom (cs_max cs) = d" "sv_dom v = d" "sv_dom x = d"
    and nan: "\<not> isNaN (cs_min cs)" "\<not> isNaN (cs_max cs)" "\<not> isNaN v" "\<not> isNaN x"
    and lo: "cmpVal (cs_min cs) x \<le> 0" and hi: "cmpVal x (cs_max cs) \<le> 0"
  shows "\<not> op_holds op (cmpVal x v)"
proof -
  have trans: "cmpVal a b \<le> 0 \<Longrightarrow> cmpVal b c \<le> 0 \<Longrightarrow> cmpVal a c \<le> 0"
    if "a \<in> {cs_min cs, cs_max cs, v, x}" "b \<in> {cs_min cs, cs_max cs, v, x}"
      "c \<in> {cs_min cs, cs_max cs, v, x}" for a b c
    using that dom nan by (intro cmpVal_trans [of a b c]) auto
  have swap: "cmpVal v x = - cmpVal x v" "cmpVal v (cs_min cs) = - cmpVal (cs_min cs) v"
    "cmpVal v (cs_max cs) = - cmpVal (cs_max cs) v"
    "cmpVal (cs_max cs) (cs_min cs) = - cmpVal (cs_min cs) (cs_max cs)"
    by (rule cmpVal_swap; use dom nan in simp)+
  have "cmpVal x v \<le> 0 \<Longrightarrow> cmpVal (cs_min cs) v \<le> 0" using trans [of "cs_min cs" x v] lo by simp
  moreover have "cmpVal v x \<le> 0 \<Longrightarrow> cmpVal v (cs_max cs) \<le> 0"
    using trans [of v x "cs_max cs"] hi by simp
  moreover have "cmpVal v (cs_min cs) \<le> 0 \<Longrightarrow> cmpVal v x \<le> 0"
    using trans [of v "cs_min cs" x] lo by simp
  moreover have "cmpVal (cs_max cs) v \<le> 0 \<Longrightarrow> cmpVal x v \<le> 0"
    using trans [of x "cs_max cs" v] hi by simp
  moreover have "cmpVal (cs_max cs) (cs_min cs) \<le> 0 \<Longrightarrow> cmpVal (cs_min cs) v \<le> 0 \<Longrightarrow> cmpVal (cs_max cs) v \<le> 0"
    using trans [of "cs_max cs" "cs_min cs" v] by simp
  ultimately show ?thesis
    using ex by (cases op) (auto simp: rangeExcludes_def op_holds_def swap)
qed

lemma stat_of_cell_domain:
  "cell_ok dt x \<Longrightarrow> literalValue l (Some dt) = Some v \<Longrightarrow> sv_dom (stat_of_cell x) = stat_domain dt"
  by (cases dt)
    (auto simp: cell_ok_def stat_of_cell_def statVal_defs literalValue_def split: cell.split_asm)

lemma eval_compare_stat:
  assumes "r (col_index c) = Some x" "cell_ok (dts (col_index c)) x" "\<not> cell_nan x"
    and "literalValue l (Some (dts (col_index c))) = Some v" "\<not> isNaN v" "known_op op"
  shows "eval_compare fo dts r c op l = Some (op_holds op (cmpVal (stat_of_cell x) v))"
  using assms literal_compare [OF assms(4,5,2,3), of fo] by (simp add: eval_compare_def)

text \<open>What that means for a row of the group.\<close>

lemma compare_excluded [skip_rules]:
  assumes grp: "group_ok dts rows st" "rows_ok dts rows" "rows_no_nan rows"
    and cs: "rg_cols st (col_index c) = Some cs" "usableRange cs"
    and v: "literalValue l (cs_dtype cs) = Some v" "\<not> isNaN v"
    and ex: "rangeExcludes op cs v" and r: "r \<in> set rows"
  shows "eval_compare fo dts r c op l \<noteq> Some True"
proof (cases "r (col_index c)")
  case None
  then show ?thesis by (simp add: eval_null_cell)
next
  case (Some x)
  note b = range_bounds [OF grp(1,2) cs r Some]
  have nan: "\<not> cell_nan x" using grp(3) r Some by (auto simp: rows_no_nan_def)
  have v': "literalValue l (Some (dts (col_index c))) = Some v" using v(1) b(1) by simp
  note dom = stat_of_cell_domain [OF b(4) v']
  have "\<not> op_holds op (cmpVal (stat_of_cell x) v)"
    using rangeExcludes_sound [OF ex b(2,3) literalValue_domain [OF v'] dom b(7,8) v(2) _ b(5,6)] nan
    by simp
  then show ?thesis
    using literal_compare [OF v' v(2) b(4) nan] Some by (auto simp: eval_compare_def)
qed

section \<open>The interface to the bloom prober\<close>

text \<open>
  \<open>bloomProber\<close> promises that a \<open>true\<close> is a definite absence. \<open>holds w dts rows\<close>: the
  prober's state \<open>w\<close> belongs to a row group with these rows.
\<close>

locale row_group_prober =
  fixes absent :: "'w \<Rightarrow> int \<Rightarrow> Literal \<Rightarrow> bool"
    and holds :: "'w \<Rightarrow> (int \<Rightarrow> dtype) \<Rightarrow> row list \<Rightarrow> bool"
  assumes absent_sound: "holds w dts rows \<Longrightarrow> absent w i l \<Longrightarrow> r \<in> set rows \<Longrightarrow> r i = Some c \<Longrightarrow>
    sql_compare fo (cell_value (dts i) c) (literal_meaning l) \<noteq> Some 0"
begin

lemma absent_not_equal [skip_rules]:
  assumes "holds w dts rows" "absent w (col_index c) l" "r \<in> set rows"
  shows "eval_compare fo dts r c CompareEq l \<noteq> Some True"
  using absent_sound [OF assms, of _ fo]
  by (auto simp: eval_compare_def op_holds_def split: option.splits)

lemma canSkipCompare_sound:
  assumes grp: "group_ok dts rows st" "rows_ok dts rows" "rows_no_nan rows" "holds w dts rows"
    and skip: "canSkipCompare c op l st (Some (absent w))" and r: "r \<in> set rows"
  shows "eval_compare fo dts r c op l \<noteq> Some True"
proof -
  from skip obtain cs where cs: "rg_cols st (col_index c) = Some cs"
    by (auto simp: canSkipCompare_def split: option.splits)
  consider (null) "provablyAllNull cs (rg_numRows st)"
    | (range) v where "usableRange cs" "literalValue l (cs_dtype cs) = Some v" "\<not> isNaN v"
      "rangeExcludes op cs v"
    | (bloom) "op = CompareEq" "absent w (col_index c) l"
    using skip cs by (auto simp: canSkipCompare_def split: if_splits option.splits)
  then show ?thesis
  proof cases
    case null
    then show ?thesis using allNull_rows [OF grp(1) cs] r by (simp add: eval_null_cell)
  next
    case range
    then show ?thesis using compare_excluded [OF grp(1-3) cs] r by blast
  next
    case bloom
    then show ?thesis using absent_not_equal [OF grp(4)] r by blast
  qed
qed

lemma canSkipIsNull_sound:
  assumes grp: "group_ok dts rows st" and skip: "canSkipIsNull c n st" and r: "r \<in> set rows"
  shows "eval fo dts r (IsNull c n) \<noteq> Some True"
proof -
  from skip obtain cs where cs: "rg_cols st (col_index c) = Some cs" "cs_hasNullCount cs"
    "if n then cs_nullCount cs = rg_numRows st else cs_nullCount cs = 0"
    by (auto simp: canSkipIsNull_def split: option.splits if_splits)
  note ok = group_col [OF grp cs(1)]
  show ?thesis
  proof (cases n)
    case True
    then have "r (col_index c) = None" using allNull_count [OF grp ok cs(2)] cs(3) r by simp
    then show ?thesis using True by (simp add: negate_if_def)
  next
    case False
    then have "null_count rows (col_index c) = 0" using ok cs(2,3) by (simp add: col_ok_def)
    then show ?thesis using False r by (simp add: negate_if_def null_count_none)
  qed
qed

lemma inElementAbsent_sound:
  assumes grp: "group_ok dts rows st" "rows_ok dts rows" "rows_no_nan rows" "holds w dts rows"
    and cs: "rg_cols st (col_index c) = Some cs"
    and skip: "inElementAbsent (col_index c) l cs (Some (absent w))" and r: "r \<in> set rows"
  shows "eval_compare fo dts r c CompareEq l \<noteq> Some True"
proof -
  consider (range) v where "usableRange cs" "literalValue l (cs_dtype cs) = Some v" "\<not> isNaN v"
      "rangeExcludes CompareEq cs v"
    | (bloom) "absent w (col_index c) l"
    using skip by (auto simp: inElementAbsent_def rangeExcludes_def split: if_splits option.splits)
  then show ?thesis
    using compare_excluded [OF grp(1-3) cs _ _ _ _ r] absent_not_equal [OF grp(4) _ r] by cases blast+
qed

lemma canSkipInList_sound:
  assumes grp: "group_ok dts rows st" "rows_ok dts rows" "rows_no_nan rows" "holds w dts rows"
    and skip: "canSkipInList c n ls st (Some (absent w))" and r: "r \<in> set rows"
  shows "eval fo dts r (InList c n ls) \<noteq> Some True"
proof -
  from skip obtain cs where cs: "rg_cols st (col_index c) = Some cs"
    by (auto simp: canSkipInList_def split: option.splits)
  consider (null) "provablyAllNull cs (rg_numRows st)"
    | (not_in) l v where "n" "l \<in> set ls" "usableRange cs" "literalValue l (cs_dtype cs) = Some v"
      "\<not> isNaN v" "cmpVal (cs_min cs) (cs_max cs) = 0" "cmpVal v (cs_min cs) = 0"
    | (in_list) "\<not> n" "\<forall>l \<in> set ls. inElementAbsent (col_index c) l cs (Some (absent w))"
    using skip cs by (auto simp: canSkipInList_def list_ex_iff list_all_iff split: if_splits option.splits)
  then show ?thesis
  proof cases
    case null
    then show ?thesis using allNull_rows [OF grp(1) cs] r by (auto simp: eval_null_cell negate_if_def)
  next
    case not_in
    have dt: "cs_dtype cs = Some (dts (col_index c))" and
      dom: "sv_dom (cs_min cs) = stat_domain (dts (col_index c))"
      using group_col [OF grp(1) cs] not_in(3) by (simp_all add: col_ok_def usableRange_def)
    have "cmpVal (cs_min cs) v = - cmpVal v (cs_min cs)"
      using not_in(3-5) dom literalValue_domain [OF not_in(4) [unfolded dt]]
      by (intro cmpVal_swap) (auto simp: usableRange_def)
    then have "rangeExcludes CompareNeq cs v" using not_in(6,7) by (simp add: rangeExcludes_def)
    then have "eval_compare fo dts r c CompareNeq l \<noteq> Some True"
      using compare_excluded [OF grp(1-3) cs not_in(3-5) _ r] by blast
    then have "eval_compare fo dts r c CompareEq l \<noteq> Some False"
      using eval_compare_negate [of CompareEq CompareNeq fo dts r c l] by (simp add: negateOp_def)
    then show ?thesis using not_in(1,2) by (auto simp: negate_if_def eval_in_False)
  next
    case in_list
    then show ?thesis using inElementAbsent_sound [OF grp cs _ r] by (auto simp: negate_if_def eval_in_True)
  qed
qed

lemma canSkipBetween_sound:
  assumes grp: "group_ok dts rows st" "rows_ok dts rows" "rows_no_nan rows"
    and skip: "canSkipBetween c n lo hi st" and r: "r \<in> set rows"
  shows "eval fo dts r (Between c n lo hi) \<noteq> Some True"
proof (cases "r (col_index c)")
  case None
  then show ?thesis by (simp add: eval_null_cell negate_if_def)
next
  case (Some x)
  from skip obtain cs where cs: "rg_cols st (col_index c) = Some cs"
    by (auto simp: canSkipBetween_def split: option.splits)
  have "\<not> provablyAllNull cs (rg_numRows st)" using allNull_rows [OF grp(1) cs _ r] Some by auto
  then obtain low high where lit: "literalValue lo (cs_dtype cs) = Some low" "\<not> isNaN low"
    "literalValue hi (cs_dtype cs) = Some high" "\<not> isNaN high"
    and why: "\<not> n \<and> cmpVal low high > 0 \<or> usableRange cs \<and>
      (if n then cmpVal (cs_min cs) low \<ge> 0 \<and> cmpVal (cs_max cs) high \<le> 0
       else cmpVal high (cs_min cs) < 0 \<or> cmpVal low (cs_max cs) > 0)"
    using skip cs by (auto simp: canSkipBetween_def split: option.splits if_splits)
  have dt: "cs_dtype cs = Some (dts (col_index c))" using group_col [OF grp(1) cs] by (simp add: col_ok_def)
  have cell: "cell_ok (dts (col_index c)) x" "\<not> cell_nan x"
    using grp(2,3) r Some by (auto simp: rows_ok_def rows_no_nan_def)
  note lits = lit [unfolded dt]
  note doms = literalValue_domain [OF lits(1)] literalValue_domain [OF lits(3)]
    stat_of_cell_domain [OF cell(1) lits(1)]
  have eval: "eval_compare fo dts r c op lo = Some (op_holds op (cmpVal (stat_of_cell x) low))"
    "eval_compare fo dts r c op hi = Some (op_holds op (cmpVal (stat_of_cell x) high))"
    if "known_op op" for op
    using that eval_compare_stat [of r c x dts _ _ op fo] Some cell lits by blast+
  have excl: "rangeExcludes op cs low \<Longrightarrow> \<not> op_holds op (cmpVal (stat_of_cell x) low)"
    "rangeExcludes op cs high \<Longrightarrow> \<not> op_holds op (cmpVal (stat_of_cell x) high)"
    if "known_op op" "usableRange cs" for op
    using compare_excluded [OF grp cs that(2) lit(1,2) _ r, of op fo]
      compare_excluded [OF grp cs that(2) lit(3,4) _ r, of op fo] eval [OF that(1)] by auto
  show ?thesis
  proof (cases "\<not> n \<and> cmpVal low high > 0")
    case True
    have "cmpVal low (stat_of_cell x) = - cmpVal (stat_of_cell x) low"
      using doms lits(2) cell by (intro cmpVal_swap) auto
    moreover have "cmpVal low (stat_of_cell x) \<le> 0 \<Longrightarrow> cmpVal (stat_of_cell x) high \<le> 0 \<Longrightarrow> cmpVal low high \<le> 0"
      using doms lits(2,4) cell by (intro cmpVal_trans [of low "stat_of_cell x" high]) auto
    ultimately show ?thesis
      using True by (auto simp: negate_if_def eval known_op_def op_holds_def)
  next
    case False
    then have u: "usableRange cs" using why by blast
    have min_max: "sv_dom (cs_min cs) = stat_domain (dts (col_index c))" "\<not> isNaN (cs_min cs)"
      "sv_dom (cs_max cs) = stat_domain (dts (col_index c))" "\<not> isNaN (cs_max cs)"
      using range_bounds [OF grp(1,2) cs u r Some] by auto
    have swap: "cmpVal high (cs_min cs) = - cmpVal (cs_min cs) high"
      "cmpVal low (cs_max cs) = - cmpVal (cs_max cs) low"
      using doms min_max lits by (auto intro!: cmpVal_swap)
    show ?thesis
      using False why excl [OF _ u, of CompareLt] excl [OF _ u, of CompareGt]
        excl [OF _ u, of CompareGtEq] excl [OF _ u, of CompareLtEq]
      by (auto simp: negate_if_def eval known_op_def op_holds_def rangeExcludes_def swap split: if_splits)
  qed
qed

lemmas leaf_rules = canSkipCompare_sound canSkipIsNull_sound [unfolded eval.simps]
  canSkipBetween_sound [unfolded eval.simps] canSkipInList_sound [unfolded eval.simps]

lemma canSkip_prober_sound:
  assumes "canSkip e st (Some (absent w))" "group_ok dts rows st" "rows_ok dts rows"
    and "rows_no_nan rows" "holds w dts rows" "r \<in> set rows"
  shows "eval fo dts r e \<noteq> Some True"
  using assms
proof (induction e st "Some (absent w)" rule: canSkip.induct)
  case (3 e st)
  then obtain inner where i: "negate e = Some inner" "canSkip inner st (Some (absent w))"
    by (auto split: option.splits)
  then have "eval fo dts r inner \<noteq> Some True" using 3 by blast
  then show ?case using negate_eval [OF i(1), of fo dts r] by simp
qed (auto dest: leaf_rules)

end

section \<open>Any prober, or none\<close>

text \<open>Whatever the prober calls absent equals no cell of the rows, in any order of floats.\<close>

definition prober_sound :: "bloomProber \<Rightarrow> (int \<Rightarrow> dtype) \<Rightarrow> row list \<Rightarrow> bool" where
  "prober_sound absent dts rows \<longleftrightarrow>
     (\<forall>fo i l c. \<forall>r \<in> set rows. absent i l \<and> r i = Some c \<longrightarrow>
        sql_compare fo (cell_value (dts i) c) (literal_meaning l) \<noteq> Some 0)"

interpretation any_prober: row_group_prober "\<lambda>p. p" prober_sound
  by unfold_locales (unfold prober_sound_def, blast)

text \<open>A scan without bloom filters passes a nil prober: one that never proves an absence.\<close>

lemma canSkip_no_bloom: "canSkip e st None = canSkip e st (Some (\<lambda>i l. False))"
proof (induction e st "None :: bloomProber option" rule: canSkip.induct)
  case (7 c n ls st)
  then show ?case by (simp add: canSkipInList_def inElementAbsent_def split: option.split)
qed (auto simp: canSkipCompare_def split: option.split)

lemma never_absent_sound: "prober_sound (\<lambda>i l. False) dts rows"
  by (simp add: prober_sound_def)

text \<open>C7: If the evaluator decides from a row group's statistics and its bloom filters, or without
  filters, that the group can be skipped, no row of the group satisfies the predicate: it evaluates to
  FALSE or NULL on every one. The statistics are exact about nulls and bound every value from both
  sides where they have bounds, what the prober calls absent is in no row, and no cell of the group is
  a NaN, which Parquet's bounds leave out.\<close>

theorem canSkip_sound:
  assumes "canSkip e st prober" and "group_ok dts rows st" and "rows_ok dts rows"
    and "rows_no_nan rows" and "pred_option (\<lambda>p. prober_sound p dts rows) prober" and "r \<in> set rows"
  shows "eval fo dts r e \<noteq> Some True"
proof (cases prober)
  case None
  then show ?thesis
    using assms any_prober.canSkip_prober_sound [OF _ assms(2-4) never_absent_sound assms(6)] by (simp add: canSkip_no_bloom)
next
  case (Some p)
  then show ?thesis using assms any_prober.canSkip_prober_sound [OF _ assms(2-4) _ assms(6)] by simp
qed

text \<open>A group of two int64 rows, a null and 7, whose statistics say so.\<close>

definition sample_rows :: "row list" where
  "sample_rows = [\<lambda>i. None, \<lambda>i. if i = 0 then Some (IntCell 7) else None]"

definition sample_stats :: rowGroupStats where
  "sample_stats =
     \<lparr>rg_numRows = 2, rg_cols = (\<lambda>i. if i = 0 then Some \<lparr>cs_dtype = Some Int64DT, cs_hasMinMax = True,
        cs_min = intVal 7, cs_max = intVal 7, cs_hasNullCount = True, cs_nullCount = 1\<rparr> else None)\<rparr>"

definition sample_dts :: "int \<Rightarrow> dtype" where
  "sample_dts i = Int64DT"

lemmas sample_defs = sample_rows_def sample_stats_def sample_dts_def

lemma sample_ok:
  "group_ok sample_dts sample_rows sample_stats" "rows_ok sample_dts sample_rows"
  "rows_no_nan sample_rows"
  by (auto simp: sample_defs group_ok_def rows_ok_def rows_no_nan_def col_ok_def cell_ok_def
      null_count_def cell_nan_def stat_of_cell_def statVal_defs cmpVal_def split: if_splits)

definition int64_lit :: "i64 \<Rightarrow> Literal" where
  "int64_lit v = \<lparr>lit_type = LiteralInt64, lit_value = Int64V v, lit_unit = OtherUnit [], lit_tz = []\<rparr>"

definition col0 :: Column where
  "col0 = \<lparr>col_name = ''x'', col_index = 0\<rparr>"

text \<open>By statistics alone, and by a filter that knows that 8 is not stored.\<close>

theorem canSkip_sound_witness:
  "eval (\<lambda>_ _. None) sample_dts (sample_rows ! 1)
     (NotE (Or (Compare col0 CompareGt (int64_lit 5)) (IsNull col0 False))) \<noteq> Some True \<and>
   eval (\<lambda>_ _. None) sample_dts (sample_rows ! 1)
     (And (Compare col0 CompareEq (int64_lit 8)) (IsNull col0 True)) \<noteq> Some True"
proof -
  let ?p = "\<lambda>i l. i = 0 \<and> l = int64_lit 8"
  let ?st = "sample_stats\<lparr>rg_cols := (\<lambda>i. if i = 0 then Some \<lparr>cs_dtype = Some Int64DT, cs_hasMinMax = False,
    cs_min = zero_stat, cs_max = zero_stat, cs_hasNullCount = False, cs_nullCount = 0\<rparr> else None)\<rparr>"
  have "canSkip (NotE (Or (Compare col0 CompareGt (int64_lit 5)) (IsNull col0 False))) sample_stats None"
    by (simp add: sample_stats_def canSkipCompare_def canSkipIsNull_def negateOp_def col0_def int64_lit_def
        provablyAllNull_def usableRange_def literalValue_def signedLiteral_def isNaN_def statVal_defs
        rangeExcludes_def cmpVal_def)
  note first = canSkip_sound [OF this sample_ok]
  have skip: "canSkip (And (Compare col0 CompareEq (int64_lit 8)) (IsNull col0 True)) ?st (Some ?p)"
    by (simp add: sample_stats_def canSkipCompare_def canSkipIsNull_def col0_def int64_lit_def
        provablyAllNull_def usableRange_def literalValue_def signedLiteral_def isNaN_def statVal_defs)
  have grp: "group_ok sample_dts sample_rows ?st"
    by (simp add: sample_defs group_ok_def col_ok_def)
  have "prober_sound ?p sample_dts sample_rows"
    by (auto simp: prober_sound_def sample_defs sql_compare_def cell_value_def literal_meaning_def int64_lit_def order_int_def
        split: if_splits)
  moreover have "sample_rows ! 1 \<in> set sample_rows" by (simp add: sample_rows_def)
  ultimately show ?thesis using first canSkip_sound [OF skip grp sample_ok(2,3)] by (intro conjI) simp_all
qed

text \<open>
  The NaN hypothesis cannot be dropped. Parquet statistics leave NaN values out, so
  min = max does not say that every value is equal.
\<close>

definition f64_nan :: float64 where "f64_nan = F64 0x7FF8000000000000"
definition f64_five :: float64 where "f64_five = F64 0x4014000000000000"

definition nan_rows :: "row list" where
  "nan_rows = [\<lambda>i. if i = 0 then Some (Float64Cell f64_five) else None,
     \<lambda>i. if i = 0 then Some (Float64Cell f64_nan) else None]"

definition nan_stats :: rowGroupStats where
  "nan_stats =
     \<lparr>rg_numRows = 2, rg_cols = (\<lambda>i. if i = 0 then Some \<lparr>cs_dtype = Some Float64DT, cs_hasMinMax = True,
        cs_min = floatVal f64_five, cs_max = floatVal f64_five, cs_hasNullCount = False,
        cs_nullCount = 0\<rparr> else None)\<rparr>"

definition float64_lit :: "float64 \<Rightarrow> Literal" where
  "float64_lit v = \<lparr>lit_type = LiteralFloat64, lit_value = Float64V v, lit_unit = OtherUnit [], lit_tz = []\<rparr>"

lemmas nan_defs = nan_rows_def nan_stats_def float64_lit_def f64_nan_def f64_five_def col0_def
  f64_is_nan_def f64_mag_def f64_inf_mag_def

text \<open>C38: A float row group with the rows 5.0 and NaN and correct statistics (min = max = 5.0) is
  skipped for \<open>x <> 5.0\<close>, although the NaN row satisfies the predicate in every engine
  where NaN and 5.0 are unequal.\<close>

theorem canSkip_drops_nan_row:
  assumes "fo (QFloat f64_nan) (QFloat f64_five) = Some n" and "n \<noteq> 0"
  shows "group_ok (\<lambda>i. Float64DT) nan_rows nan_stats \<and>
    rows_ok (\<lambda>i. Float64DT) nan_rows \<and>
    canSkip (Compare col0 CompareNeq (float64_lit f64_five)) nan_stats None \<and>
    (\<exists>r \<in> set nan_rows. eval fo (\<lambda>i. Float64DT) r (Compare col0 CompareNeq (float64_lit f64_five)) = Some True)"
proof (intro conjI)
  show "group_ok (\<lambda>i. Float64DT) nan_rows nan_stats"
    by (auto simp: nan_defs group_ok_def col_ok_def stat_of_cell_def statVal_defs cmpVal_def
        f64_less_def split: if_splits)
  show "rows_ok (\<lambda>i. Float64DT) nan_rows"
    by (auto simp: nan_rows_def rows_ok_def cell_ok_def split: if_splits)
  show "canSkip (Compare col0 CompareNeq (float64_lit f64_five)) nan_stats None"
    by (simp add: nan_defs canSkipCompare_def provablyAllNull_def usableRange_def isNaN_def
        statVal_defs literalValue_def floatLiteral_def rangeExcludes_def cmpVal_def f64_less_def)
  have "sql_compare fo (QFloat f64_nan) (QFloat f64_five) = Some n"
    using assms(1) by (simp add: sql_compare_def nan_defs)
  then show "\<exists>r \<in> set nan_rows. eval fo (\<lambda>i. Float64DT) r (Compare col0 CompareNeq (float64_lit f64_five)) = Some True"
    using assms(2) by (simp add: nan_rows_def eval_compare_def col0_def known_op_def cell_value_def
        float64_lit_def literal_meaning_def op_holds_def)
qed

theorem canSkip_drops_nan_row_witness:
  "canSkip (Compare col0 CompareNeq (float64_lit f64_five)) nan_stats None \<and>
   (\<exists>r \<in> set nan_rows. eval (\<lambda>_ _. Some 1) (\<lambda>i. Float64DT) r
      (Compare col0 CompareNeq (float64_lit f64_five)) = Some True)"
  using canSkip_drops_nan_row [of "\<lambda>_ _. Some 1" 1] by simp

theorem negate_equivalent_witness:
  "eval (\<lambda>_ _. None) sample_dts (\<lambda>i. Some (IntCell 4)) (Compare col0 CompareLt (int64_lit 5)) =
   eval (\<lambda>_ _. None) sample_dts (\<lambda>i. Some (IntCell 4)) (NotE (Compare col0 CompareGtEq (int64_lit 5)))"
  by (rule negate_equivalent) (simp add: negateOp_def)

end
