(* ===== verification/Parquet_Stats.thy ===== *)
theory Parquet_Stats
  imports Skip_Soundness
begin

text \<open>
  \<open>providers/parquet/stats.go\<close>: turning a Parquet file's column statistics into the
  evaluator's view. The Parquet library (metadata, statistics, schema manifest) is
  not under \<open>src/\<close>: its objects are records of what the code reads of them.
\<close>

section \<open>The library's objects\<close>

text \<open>The concrete statistics types \<open>statsMinMax\<close> tells apart, each with its Min and Max.\<close>

datatype TypedBounds =
    BooleanStatistics bool bool
  | Int32Statistics i32 i32
  | Int64Statistics i64 i64
  | Float32Statistics float32 float32
  | Float64Statistics float64 float64
  | ByteArrayStatistics "byte list" "byte list"
  | FixedLenByteArrayStatistics "byte list" "byte list"
  | OtherStatistics

record TypedStatistics =
  ts_HasNullCount :: bool
  ts_NullCount :: i64
  ts_HasMinMax :: bool
  ts_bounds :: TypedBounds

text \<open>A column chunk: \<open>None\<close> statistics stand for an error or a nil result.\<close>

record ColumnChunk =
  cc_Statistics :: "TypedStatistics option"
  cc_TotalCompressedSize :: i64

record RowGroupMeta =
  rgm_NumRows :: i64
  rgm_ColumnChunk :: "int \<Rightarrow> ColumnChunk option"

datatype SchemaField = LeafField int | GroupField "SchemaField list"

section \<open>Conversion\<close>

definition statsMinMax :: "TypedBounds \<Rightarrow> dtype \<Rightarrow> (statValue \<times> statValue) option" where
  "statsMinMax s dt =
     (let int32 = (case s of Int32Statistics mn mx \<Rightarrow> Some (intVal (scast mn), intVal (scast mx)) | _ \<Rightarrow> None);
          int64 = (case s of Int64Statistics mn mx \<Rightarrow> Some (intVal mn, intVal mx) | _ \<Rightarrow> None);
          uint32 = (case s of Int32Statistics mn mx \<Rightarrow> Some (uintVal (ucast mn), uintVal (ucast mx)) | _ \<Rightarrow> None);
          bytes = (case s of ByteArrayStatistics mn mx \<Rightarrow> Some (bytesVal mn, bytesVal mx) | _ \<Rightarrow> None)
      in case dt of
        BoolDT \<Rightarrow> (case s of BooleanStatistics mn mx \<Rightarrow> Some (boolVal mn, boolVal mx) | _ \<Rightarrow> None)
      | Int8DT \<Rightarrow> int32 | Int16DT \<Rightarrow> int32 | Int32DT \<Rightarrow> int32
      | Int64DT \<Rightarrow> int64
      | Uint8DT \<Rightarrow> uint32 | Uint16DT \<Rightarrow> uint32 | Uint32DT \<Rightarrow> uint32
      | Uint64DT \<Rightarrow> (case s of Int64Statistics mn mx \<Rightarrow> Some (uintVal mn, uintVal mx) | _ \<Rightarrow> None)
      | Float32DT \<Rightarrow>
          (case s of
             Float32Statistics mn mx \<Rightarrow> Some (floatVal (f64_of_f32 mn), floatVal (f64_of_f32 mx))
           | _ \<Rightarrow> None)
      | Float64DT \<Rightarrow> (case s of Float64Statistics mn mx \<Rightarrow> Some (floatVal mn, floatVal mx) | _ \<Rightarrow> None)
      | StringDT \<Rightarrow> bytes | LargeStringDT \<Rightarrow> bytes | BinaryDT \<Rightarrow> bytes | LargeBinaryDT \<Rightarrow> bytes
      | FixedSizeBinaryDT _ \<Rightarrow>
          (case s of FixedLenByteArrayStatistics mn mx \<Rightarrow> Some (bytesVal mn, bytesVal mx) | _ \<Rightarrow> None)
      | Date32DT \<Rightarrow> int32
      | Date64DT \<Rightarrow> None
      | TimestampDT _ _ \<Rightarrow> int64
      | OtherDT _ \<Rightarrow> None)"

definition colStatsFromTyped :: "TypedStatistics \<Rightarrow> dtype \<Rightarrow> colStats \<times> bool" where
  "colStatsFromTyped ts dt =
     (let cs0 = \<lparr>cs_dtype = Some dt, cs_hasMinMax = False, cs_min = zero_stat, cs_max = zero_stat,
                 cs_hasNullCount = False, cs_nullCount = 0\<rparr>;
          cs1 = (if ts_HasNullCount ts \<and> 0 < sint (ts_NullCount ts)
                 then cs0\<lparr>cs_hasNullCount := True, cs_nullCount := ts_NullCount ts\<rparr> else cs0);
          cs2 = (if ts_HasMinMax ts then
                   (case statsMinMax (ts_bounds ts) dt of
                      Some (minV, maxV) \<Rightarrow>
                        if \<not> isNaN minV \<and> \<not> isNaN maxV \<and> cmpVal minV maxV \<le> 0
                        then cs1\<lparr>cs_hasMinMax := True, cs_min := minV, cs_max := maxV\<rparr> else cs1
                    | None \<Rightarrow> cs1)
                 else cs1)
      in (cs2, cs_hasMinMax cs2 \<or> cs_hasNullCount cs2))"

text \<open>
  The loop over the set of fields writes each entry once, so its order does not
  matter: the entry of a field is given directly.
\<close>

definition fieldStats :: "RowGroupMeta \<Rightarrow> SchemaField list \<Rightarrow> Schema \<Rightarrow> int \<Rightarrow> colStats option" where
  "fieldStats rg manifest sc idx =
     (if idx < 0 \<or> int (length manifest) \<le> idx \<or> NumFields sc \<le> idx then None
      else
        (case manifest ! nat idx of
           GroupField _ \<Rightarrow> None
         | LeafField colIndex \<Rightarrow>
             (case rgm_ColumnChunk rg colIndex of
                None \<Rightarrow> None
              | Some cc \<Rightarrow>
                  (case cc_Statistics cc of
                     None \<Rightarrow> None
                   | Some typed \<Rightarrow>
                       (case colStatsFromTyped typed (field_type (schema_fields sc ! nat idx)) of
                          (cs, ok) \<Rightarrow> if ok then Some cs else None)))))"

definition buildRowGroupStats ::
  "RowGroupMeta \<Rightarrow> SchemaField list \<Rightarrow> Schema \<Rightarrow> int set \<Rightarrow> rowGroupStats" where
  "buildRowGroupStats rg manifest sc refs =
     \<lparr>rg_numRows = rgm_NumRows rg,
      rg_cols = (\<lambda>idx. if idx \<in> refs then fieldStats rg manifest sc idx else None)\<rparr>"

section \<open>What Parquet statistics promise\<close>

text \<open>
  How an Arrow cell is stored: its Parquet physical value. Unsigned types keep their
  bit pattern in the signed physical type.
\<close>

datatype physval =
    PBool bool | PInt32 i32 | PInt64 i64 | PFloat32 float32 | PFloat64 float64
  | PByteArray "byte list" | PFixedLenByteArray "byte list"

definition physical :: "dtype \<Rightarrow> cell \<Rightarrow> physval" where
  "physical dt c =
     (case c of
        BoolCell b \<Rightarrow> PBool b
      | IntCell w \<Rightarrow> (if dt = Int8DT \<or> dt = Int16DT \<or> dt = Int32DT \<or> dt = Date32DT then PInt32 (ucast w) else PInt64 w)
      | UintCell w \<Rightarrow> (if dt = Uint64DT then PInt64 w else PInt32 (ucast w))
      | Float32Cell f \<Rightarrow> PFloat32 f
      | Float64Cell f \<Rightarrow> PFloat64 f
      | BytesCell b \<Rightarrow> (case dt of FixedSizeBinaryDT _ \<Rightarrow> PFixedLenByteArray b | _ \<Rightarrow> PByteArray b)
      | OtherCell s \<Rightarrow> PByteArray [])"

text \<open>
  The sort order of a logical type on its physical values: unsigned for the unsigned
  types, bytewise unsigned for byte arrays, numeric with NaN unordered for floats.
\<close>

definition phys_le :: "dtype \<Rightarrow> physval \<Rightarrow> physval \<Rightarrow> bool" where
  "phys_le dt p q =
     (case (p, q) of
        (PBool a, PBool b) \<Rightarrow> a \<longrightarrow> b
      | (PInt32 a, PInt32 b) \<Rightarrow> (if unsigned_dt dt then a \<le> b else sint a \<le> sint b)
      | (PInt64 a, PInt64 b) \<Rightarrow> (if unsigned_dt dt then a \<le> b else sint a \<le> sint b)
      | (PFloat32 a, PFloat32 b) \<Rightarrow> f32_is_nan a \<or> f32_is_nan b \<or> f32_key a \<le> f32_key b
      | (PFloat64 a, PFloat64 b) \<Rightarrow> f64_is_nan a \<or> f64_is_nan b \<or> f64_key a \<le> f64_key b
      | (PByteArray a, PByteArray b) \<Rightarrow> bytes_compare a b \<le> 0
      | (PFixedLenByteArray a, PFixedLenByteArray b) \<Rightarrow> bytes_compare a b \<le> 0
      | _ \<Rightarrow> True)"

definition bounds_physical :: "TypedBounds \<Rightarrow> (physval \<times> physval) option" where
  "bounds_physical s =
     (case s of
        BooleanStatistics a b \<Rightarrow> Some (PBool a, PBool b)
      | Int32Statistics a b \<Rightarrow> Some (PInt32 a, PInt32 b)
      | Int64Statistics a b \<Rightarrow> Some (PInt64 a, PInt64 b)
      | Float32Statistics a b \<Rightarrow> Some (PFloat32 a, PFloat32 b)
      | Float64Statistics a b \<Rightarrow> Some (PFloat64 a, PFloat64 b)
      | ByteArrayStatistics a b \<Rightarrow> Some (PByteArray a, PByteArray b)
      | FixedLenByteArrayStatistics a b \<Rightarrow> Some (PFixedLenByteArray a, PFixedLenByteArray b)
      | OtherStatistics \<Rightarrow> None)"

definition typed_ok :: "dtype \<Rightarrow> row list \<Rightarrow> int \<Rightarrow> TypedStatistics \<Rightarrow> bool" where
  "typed_ok dt rows i ts \<longleftrightarrow>
     (ts_HasNullCount ts \<and> 0 < sint (ts_NullCount ts) \<longrightarrow>
        sint (ts_NullCount ts) = int (null_count rows i)) \<and>
     (ts_HasMinMax ts \<longrightarrow>
        (\<forall>mn mx. bounds_physical (ts_bounds ts) = Some (mn, mx) \<longrightarrow>
           (\<forall>r \<in> set rows. \<forall>c. r i = Some c \<longrightarrow>
              phys_le dt mn (physical dt c) \<and> phys_le dt (physical dt c) mx)))"

section \<open>The conversion keeps the promise\<close>

lemma narrow_signed: "- 2147483648 \<le> sint w \<Longrightarrow> sint w < 2147483648 \<Longrightarrow> sint (ucast (w :: i64) :: i32) = sint w"
proof -
  assume h: "- 2147483648 \<le> sint w" "sint w < 2147483648"
  have "(ucast w :: i32) = of_int (sint w)" by (simp add: down_cast_same is_down)
  then have "sint (ucast w :: i32) = signed_take_bit 31 (sint w)" by (simp add: signed_of_int del: of_int_sint)
  also have "\<dots> = sint w" using h by (intro signed_take_bit_int_eq_self) simp_all
  finally show ?thesis .
qed

lemma narrow_unsigned: "uint w < 4294967296 \<Longrightarrow> uint (ucast (w :: u64) :: u32) = uint w"
  by (simp add: unsigned_ucast_eq take_bit_int_eq_self)

lemma narrow_order:
  "- 2147483648 \<le> sint w \<Longrightarrow> sint w < 2147483648 \<Longrightarrow>
     sint (ucast (w :: i64) :: i32) = sint w"
  "uint u < 4294967296 \<Longrightarrow> (ucast (u :: u64) :: u32) \<le> m \<longleftrightarrow> u \<le> ucast m"
  "uint u < 4294967296 \<Longrightarrow> m \<le> (ucast (u :: u64) :: u32) \<longleftrightarrow> ucast m \<le> u"
  using narrow_unsigned [of u]
  by (simp_all add: narrow_signed word_le_def uint_ucast_up)

lemma cmpVal_le:
  "cmpVal (boolVal x) (boolVal y) \<le> 0 \<longleftrightarrow> (x \<longrightarrow> y)"
  "cmpVal (intVal v) (intVal w) \<le> 0 \<longleftrightarrow> sint v \<le> sint w"
  "cmpVal (uintVal v) (uintVal w) \<le> 0 \<longleftrightarrow> v \<le> w"
  "cmpVal (floatVal f) (floatVal g) \<le> 0 \<longleftrightarrow> \<not> f64_less g f"
  "cmpVal (bytesVal b) (bytesVal b') \<le> 0 \<longleftrightarrow> bytes_compare b b' \<le> 0"
  by (auto simp: cmpVal_def statVal_defs f64_less_def)

lemma widened_not_less:
  "f32_is_nan a \<or> f32_is_nan b \<or> f32_key a \<le> f32_key b \<Longrightarrow> \<not> f64_less (f64_of_f32 b) (f64_of_f32 a)"
  using f64_of_f32_less [of b a] by (cases "f32_is_nan a \<or> f32_is_nan b") (auto simp: f64_less_def)

lemma not_less_key:
  "f64_is_nan a \<or> f64_is_nan b \<or> f64_key a \<le> f64_key b \<Longrightarrow> \<not> f64_less b a"
  by (auto simp: f64_less_def)

text \<open>One bound, converted: the physical order is the evaluator's.\<close>

lemma statsMinMax_bounds:
  assumes "statsMinMax s dt = Some (mn, mx)" and "bounds_physical s = Some (p, q)"
    and "cell_ok dt c" and "phys_le dt p (physical dt c)" "phys_le dt (physical dt c) q"
  shows "cmpVal mn (stat_of_cell c) \<le> 0 \<and> cmpVal (stat_of_cell c) mx \<le> 0"
proof -
  note convert = statsMinMax_def Let_def bounds_physical_def
  note cell = cell_ok_def physical_def phys_le_def stat_of_cell_def unsigned_dt_def
  show ?thesis
    using assms
    by (cases dt)
      (auto simp: convert cell cmpVal_le narrow_order sint_scast_up widened_not_less not_less_key
        split: cell.split_asm TypedBounds.split_asm)
qed

lemma statsMinMax_domain:
  "statsMinMax s dt = Some (mn, mx) \<Longrightarrow> sv_dom mn = stat_domain dt \<and> sv_dom mx = stat_domain dt"
  by (cases dt; cases s) (auto simp: statsMinMax_def Let_def statVal_defs)

lemma statsMinMax_physical: "statsMinMax s dt = Some m \<Longrightarrow> \<exists>p q. bounds_physical s = Some (p, q)"
  by (cases s) (auto simp: bounds_physical_def statsMinMax_def split: dtype.splits)

lemma colStats_col_ok:
  assumes "colStatsFromTyped ts dt = (cs, True)" and "typed_ok dt rows i ts"
    and "\<forall>r \<in> set rows. \<forall>c. r i = Some c \<longrightarrow> cell_ok dt c"
  shows "col_ok dt rows i cs"
proof -
  have dtype: "cs_dtype cs = Some dt"
    using assms(1) by (auto simp: colStatsFromTyped_def Let_def split: if_splits option.splits)
  have nulls: "cs_hasNullCount cs \<Longrightarrow> ts_HasNullCount ts \<and> 0 < sint (ts_NullCount ts) \<and> cs_nullCount cs = ts_NullCount ts"
    using assms(1) by (auto simp: colStatsFromTyped_def Let_def split: if_splits option.splits)
  have range: "cs_hasMinMax cs \<Longrightarrow> ts_HasMinMax ts \<and> statsMinMax (ts_bounds ts) dt = Some (cs_min cs, cs_max cs)"
    using assms(1) by (auto simp: colStatsFromTyped_def Let_def split: if_splits option.splits)
  have bounds: "cmpVal (cs_min cs) (stat_of_cell c) \<le> 0 \<and> cmpVal (stat_of_cell c) (cs_max cs) \<le> 0"
    if h: "cs_hasMinMax cs" "r \<in> set rows" "r i = Some c" for r c
  proof -
    from range [OF h(1)] obtain p q where "bounds_physical (ts_bounds ts) = Some (p, q)"
      using statsMinMax_physical by blast
    with assms(2,3) range [OF h(1)] h(2,3) show ?thesis
      by (intro statsMinMax_bounds) (auto simp: typed_ok_def)
  qed
  show ?thesis
    using dtype nulls range statsMinMax_domain bounds assms(2) by (auto simp: col_ok_def typed_ok_def)
qed

text \<open>From column statistics that keep Parquet's promise, the evaluator's view is correct:
  its null count and its bounds hold of every row, unsigned types and narrow widths included.\<close>

theorem colStatsFromTyped_ok:
  assumes "colStatsFromTyped ts dt = (cs, True)" and "typed_ok dt rows i ts"
    and "\<forall>r \<in> set rows. \<forall>c. r i = Some c \<longrightarrow> cell_ok dt c"
  shows "col_ok dt rows i cs"
  using assms by (rule colStats_col_ok)

definition sample_typed :: TypedStatistics where
  "sample_typed = \<lparr>ts_HasNullCount = True, ts_NullCount = 1, ts_HasMinMax = True,
     ts_bounds = Int32Statistics 5 (- 2)\<rparr>"

text \<open>A uint32 column with the rows NULL, 5 and 4294967294.\<close>

definition uint_rows :: "row list" where
  "uint_rows = [\<lambda>i. None, \<lambda>i. Some (UintCell 5), \<lambda>i. Some (UintCell 4294967294)]"

theorem colStatsFromTyped_ok_witness:
  "col_ok Uint32DT uint_rows 0 (fst (colStatsFromTyped sample_typed Uint32DT)) \<and>
   cs_hasMinMax (fst (colStatsFromTyped sample_typed Uint32DT))"
proof
  show "cs_hasMinMax (fst (colStatsFromTyped sample_typed Uint32DT))"
    by (simp add: colStatsFromTyped_def sample_typed_def statsMinMax_def Let_def isNaN_def statVal_defs
        cmpVal_def)
  then have "snd (colStatsFromTyped sample_typed Uint32DT)" by (simp add: colStatsFromTyped_def Let_def)
  then have "colStatsFromTyped sample_typed Uint32DT = (fst (colStatsFromTyped sample_typed Uint32DT), True)"
    by (metis prod.collapse)
  then show "col_ok Uint32DT uint_rows 0 (fst (colStatsFromTyped sample_typed Uint32DT))"
    by (rule colStatsFromTyped_ok)
      (auto simp: typed_ok_def sample_typed_def uint_rows_def null_count_def bounds_physical_def
        physical_def phys_le_def unsigned_dt_def cell_ok_def)
qed

section \<open>The whole row group\<close>

definition schema_dts :: "Schema \<Rightarrow> int \<Rightarrow> dtype" where
  "schema_dts sc i = (if 0 \<le> i \<and> i < NumFields sc then field_type (schema_fields sc ! nat i) else OtherDT [])"

text \<open>The promise of a row group's metadata: its row count and every leaf column's statistics.\<close>

definition meta_ok :: "RowGroupMeta \<Rightarrow> SchemaField list \<Rightarrow> Schema \<Rightarrow> row list \<Rightarrow> bool" where
  "meta_ok rg manifest sc rows \<longleftrightarrow>
     sint (rgm_NumRows rg) = int (length rows) \<and>
     (\<forall>i leaf cc ts. 0 \<le> i \<and> i < int (length manifest) \<and> manifest ! nat i = LeafField leaf \<and>
        rgm_ColumnChunk rg leaf = Some cc \<and> cc_Statistics cc = Some ts \<longrightarrow>
        typed_ok (schema_dts sc i) rows i ts)"

lemma fieldStats_ok:
  assumes "fieldStats rg manifest sc i = Some cs" "meta_ok rg manifest sc rows"
    and "rows_ok (schema_dts sc) rows"
  shows "col_ok (schema_dts sc i) rows i cs"
proof -
  from assms(1) obtain leaf cc ts where i: "0 \<le> i" "i < int (length manifest)" "i < NumFields sc"
    and f: "manifest ! nat i = LeafField leaf" "rgm_ColumnChunk rg leaf = Some cc"
      "cc_Statistics cc = Some ts"
    and cs: "colStatsFromTyped ts (schema_dts sc i) = (cs, True)"
    by (auto simp: fieldStats_def schema_dts_def split: if_splits option.splits SchemaField.splits prod.splits)
  have ts: "typed_ok (schema_dts sc i) rows i ts" using assms(2) i f unfolding meta_ok_def by blast
  show ?thesis using colStats_col_ok [OF cs ts] assms(3) by (auto simp: rows_ok_def)
qed

lemma buildRowGroupStats_group_ok:
  assumes "meta_ok rg manifest sc rows" and "rows_ok (schema_dts sc) rows"
  shows "group_ok (schema_dts sc) rows (buildRowGroupStats rg manifest sc refs)"
  using assms fieldStats_ok
  by (auto simp: group_ok_def buildRowGroupStats_def meta_ok_def split: if_splits)

section \<open>Statistics with one bound\<close>

text \<open>
  The optional min and max of a file, as the comment on \<open>colStatsFromTyped\<close> says the
  library decodes them: HasMinMax is true when either was written, and a missing
  bound is 0.
\<close>

definition decoded_int64_stats :: "i64 option \<Rightarrow> i64 option \<Rightarrow> TypedStatistics" where
  "decoded_int64_stats mn mx =
     \<lparr>ts_HasNullCount = True, ts_NullCount = 0, ts_HasMinMax = (mn \<noteq> None \<or> mx \<noteq> None),
      ts_bounds = Int64Statistics (case mn of Some v \<Rightarrow> v | None \<Rightarrow> 0) (case mx of Some v \<Rightarrow> v | None \<Rightarrow> 0)\<rparr>"

text \<open>The guard against one-sided statistics catches a missing min only when max is
  negative: with a written max of zero or more, the zero that stands for the missing min is
  taken for the column's minimum, and a row group with negative values is skipped for
  \<open>x < 0\<close>.\<close>

theorem one_sided_stats_skip:
  assumes "0 \<le> sint mx" and "colStatsFromTyped (decoded_int64_stats None (Some mx)) Int64DT = (cs, ok)"
  shows "ok \<and> canSkip (Compare col0 CompareLt (int64_lit 0))
      \<lparr>rg_numRows = n, rg_cols = (\<lambda>i. if i = 0 then Some cs else None)\<rparr> None \<and>
    eval fo (\<lambda>i. Int64DT) (\<lambda>i. Some (IntCell (- 5))) (Compare col0 CompareLt (int64_lit 0)) = Some True"
proof -
  have "cs = \<lparr>cs_dtype = Some Int64DT, cs_hasMinMax = True, cs_min = intVal 0, cs_max = intVal mx,
      cs_hasNullCount = False, cs_nullCount = 0\<rparr> \<and> ok"
    using assms by (auto simp: colStatsFromTyped_def decoded_int64_stats_def statsMinMax_def Let_def
        isNaN_def cmpVal_le) (auto simp: statVal_defs)
  then show ?thesis
    by (simp add: canSkipCompare_def col0_def provablyAllNull_def usableRange_def literalValue_def
        int64_lit_def signedLiteral_def rangeExcludes_def isNaN_def statVal_defs cmpVal_def
        eval_compare_def known_op_def cell_value_def literal_meaning_def sql_compare_def op_holds_def)
qed

theorem one_sided_stats_skip_witness:
  "canSkip (Compare col0 CompareLt (int64_lit 0))
      \<lparr>rg_numRows = 2, rg_cols = (\<lambda>i. if i = 0 then
         Some (fst (colStatsFromTyped (decoded_int64_stats None (Some 3)) Int64DT)) else None)\<rparr> None"
  using one_sided_stats_skip [of 3 "fst (colStatsFromTyped (decoded_int64_stats None (Some 3)) Int64DT)"
      "snd (colStatsFromTyped (decoded_int64_stats None (Some 3)) Int64DT)" 2]
  by simp

end
