(* ===== verification/Parquet_Bloom.thy ===== *)
theory Parquet_Bloom
  imports Parquet_Stats
begin

text \<open>
  \<open>providers/parquet/bloom.go\<close>: the lazy bloom-filter prober. The filters themselves
  are the Parquet library's: opening a row group's filters, reading one and checking
  a value are parameters.
\<close>

section \<open>State and operations\<close>

text \<open>
  What the prober reads of the library: \<open>open_rg\<close> the row group's filter reader (\<open>None\<close>
  for an error or nil), \<open>get_filter\<close> one column's filter (\<open>None\<close> for none or an error),
  \<open>check\<close> the membership test of a physical value.
\<close>

record ('r, 'bf) bloom_source =
  open_rg :: "'r option"
  get_filter :: "'r \<Rightarrow> int \<Rightarrow> 'bf option"
  check :: "'bf \<Rightarrow> physval \<Rightarrow> bool"

record ('r, 'bf) rowGroupBloomProber =
  bp_source :: "('r, 'bf) bloom_source"
  bp_manifest :: "SchemaField list"
  bp_schema :: Schema
  bp_rgReader :: "'r option"
  bp_rgReaderErr :: bool
  bp_cache :: "int \<Rightarrow> 'bf option option"

definition new_prober ::
  "('r, 'bf) bloom_source \<Rightarrow> SchemaField list \<Rightarrow> Schema \<Rightarrow> ('r, 'bf) rowGroupBloomProber" where
  "new_prober src manifest sc =
     \<lparr>bp_source = src, bp_manifest = manifest, bp_schema = sc, bp_rgReader = None,
      bp_rgReaderErr = False, bp_cache = (\<lambda>_. None)\<rparr>"

definition filterFor ::
  "('r, 'bf) rowGroupBloomProber \<Rightarrow> int \<Rightarrow> 'bf option \<times> ('r, 'bf) rowGroupBloomProber" where
  "filterFor p leafIdx =
     (case bp_cache p leafIdx of
        Some bf \<Rightarrow> (bf, p)
      | None \<Rightarrow>
          (let p1 = (if bp_rgReader p = None \<and> \<not> bp_rgReaderErr p then
                       (case open_rg (bp_source p) of
                          None \<Rightarrow> p\<lparr>bp_rgReaderErr := True\<rparr>
                        | Some rg \<Rightarrow> p\<lparr>bp_rgReader := Some rg\<rparr>)
                     else p)
           in case bp_rgReader p1 of
                None \<Rightarrow> (None, p1)
              | Some rg \<Rightarrow>
                  (let bf = get_filter (bp_source p1) rg leafIdx
                   in (bf, p1\<lparr>bp_cache := (bp_cache p1)(leafIdx \<mapsto> bf)\<rparr>))))"

text \<open>The value whose membership is checked, as the writer hashed it.\<close>

definition bloomProbe :: "Literal \<Rightarrow> dtype \<Rightarrow> physval option" where
  "bloomProbe l dt =
     (let int32 = (case signedLiteral l of
            Some v \<Rightarrow> if - (2 ^ 31) \<le> sint v \<and> sint v \<le> 2 ^ 31 - 1 then Some (PInt32 (ucast v)) else None
          | None \<Rightarrow> None);
          uint32 = (case unsignedLiteral l of
            Some v \<Rightarrow> if uint v \<le> 2 ^ 32 - 1 then Some (PInt32 (ucast v)) else None
          | None \<Rightarrow> None)
      in case dt of
        StringDT \<Rightarrow> map_option PByteArray (stringLiteral l)
      | LargeStringDT \<Rightarrow> map_option PByteArray (stringLiteral l)
      | BinaryDT \<Rightarrow> map_option PByteArray (binaryLiteral l)
      | LargeBinaryDT \<Rightarrow> map_option PByteArray (binaryLiteral l)
      | FixedSizeBinaryDT _ \<Rightarrow> map_option PFixedLenByteArray (binaryLiteral l)
      | Int8DT \<Rightarrow> int32 | Int16DT \<Rightarrow> int32 | Int32DT \<Rightarrow> int32
      | Uint8DT \<Rightarrow> uint32 | Uint16DT \<Rightarrow> uint32 | Uint32DT \<Rightarrow> uint32
      | Int64DT \<Rightarrow> map_option PInt64 (signedLiteral l)
      | Uint64DT \<Rightarrow> map_option PInt64 (unsignedLiteral l)
      | Date32DT \<Rightarrow> map_option PInt32 (date32Literal l)
      | TimestampDT u _ \<Rightarrow> map_option PInt64 (timestampLiteral l u)
      | _ \<Rightarrow> None)"

definition absent ::
  "('r, 'bf) rowGroupBloomProber \<Rightarrow> int \<Rightarrow> Literal \<Rightarrow> bool \<times> ('r, 'bf) rowGroupBloomProber" where
  "absent p fieldIdx l =
     (if fieldIdx < 0 \<or> int (length (bp_manifest p)) \<le> fieldIdx \<or> NumFields (bp_schema p) \<le> fieldIdx
      then (False, p)
      else
        (case bp_manifest p ! nat fieldIdx of
           GroupField _ \<Rightarrow> (False, p)
         | LeafField colIndex \<Rightarrow>
             (case bloomProbe l (field_type (schema_fields (bp_schema p) ! nat fieldIdx)) of
                None \<Rightarrow> (False, p)
              | Some v \<Rightarrow>
                  (case filterFor p colIndex of
                     (None, p') \<Rightarrow> (False, p')
                   | (Some bf, p') \<Rightarrow> (\<not> check (bp_source p') bf v, p')))))"

section \<open>The cache does not change the answer\<close>

text \<open>What the filter of a leaf is, however the prober got there.\<close>

definition source_filter :: "('r, 'bf) bloom_source \<Rightarrow> int \<Rightarrow> 'bf option" where
  "source_filter src leaf =
     (case open_rg src of None \<Rightarrow> None | Some rg \<Rightarrow> get_filter src rg leaf)"

definition prober_inv :: "('r, 'bf) rowGroupBloomProber \<Rightarrow> bool" where
  "prober_inv p \<longleftrightarrow>
     (\<forall>rg. bp_rgReader p = Some rg \<longrightarrow> open_rg (bp_source p) = Some rg) \<and>
     (bp_rgReaderErr p \<longrightarrow> open_rg (bp_source p) = None) \<and>
     (\<forall>leaf bf. bp_cache p leaf = Some bf \<longrightarrow> bf = source_filter (bp_source p) leaf)"

definition same_config :: "('r, 'bf) rowGroupBloomProber \<Rightarrow> ('r, 'bf) rowGroupBloomProber \<Rightarrow> bool" where
  "same_config p q \<longleftrightarrow>
     bp_source p = bp_source q \<and> bp_manifest p = bp_manifest q \<and> bp_schema p = bp_schema q"

lemma new_prober_inv: "prober_inv (new_prober src manifest sc)"
  by (simp add: new_prober_def prober_inv_def)

lemma filterFor_inv:
  assumes "prober_inv p" and "filterFor p leaf = (bf, p')"
  shows "prober_inv p' \<and> same_config p p' \<and> bf = source_filter (bp_source p) leaf"
proof (cases "bp_cache p leaf")
  case (Some x)
  then show ?thesis using assms by (auto simp: filterFor_def prober_inv_def same_config_def)
next
  case None
  show ?thesis
  proof (cases "bp_rgReader p")
    case None
    then show ?thesis using assms \<open>bp_cache p leaf = None\<close>
      by (cases "open_rg (bp_source p)")
        (auto simp: filterFor_def prober_inv_def same_config_def source_filter_def Let_def split: if_splits)
  next
    case (Some rg)
    then show ?thesis using assms \<open>bp_cache p leaf = None\<close>
      by (auto simp: filterFor_def prober_inv_def same_config_def source_filter_def Let_def
          split: if_split_asm)
  qed
qed

lemma new_prober_sel [simp]:
  "bp_source (new_prober src manifest sc) = src" "bp_manifest (new_prober src manifest sc) = manifest"
  "bp_schema (new_prober src manifest sc) = sc"
  by (simp_all add: new_prober_def)

text \<open>The answer the prober gives in every state: a function of its source alone.\<close>

definition absent_spec ::
  "('r, 'bf) bloom_source \<Rightarrow> SchemaField list \<Rightarrow> Schema \<Rightarrow> int \<Rightarrow> Literal \<Rightarrow> bool" where
  "absent_spec src manifest sc i l = fst (absent (new_prober src manifest sc) i l)"

definition absent_answer ::
  "('r, 'bf) bloom_source \<Rightarrow> SchemaField list \<Rightarrow> Schema \<Rightarrow> int \<Rightarrow> Literal \<Rightarrow> bool" where
  "absent_answer src manifest sc i l \<longleftrightarrow>
     0 \<le> i \<and> i < int (length manifest) \<and> i < NumFields sc \<and>
     (case manifest ! nat i of
        GroupField _ \<Rightarrow> False
      | LeafField leaf \<Rightarrow>
          (case (bloomProbe l (schema_dts sc i), source_filter src leaf) of
             (Some v, Some bf) \<Rightarrow> \<not> check src bf v | _ \<Rightarrow> False))"

lemma absent_state:
  assumes "prober_inv p" and "absent p i l = (b, p')"
  shows "prober_inv p' \<and> same_config p p' \<and>
    b = absent_answer (bp_source p) (bp_manifest p) (bp_schema p) i l"
proof (cases "0 \<le> i \<and> i < int (length (bp_manifest p)) \<and> i < NumFields (bp_schema p)")
  case False
  then show ?thesis using assms by (auto simp: absent_answer_def absent_def same_config_def)
next
  case True
  show ?thesis
  proof (cases "bp_manifest p ! nat i")
    case (LeafField leaf)
    obtain bf p1 where f: "filterFor p leaf = (bf, p1)" by fastforce
    note inv = filterFor_inv [OF assms(1) f]
    show ?thesis
    proof (cases "bloomProbe l (schema_dts (bp_schema p) i)")
      case None
      then show ?thesis using True LeafField assms by (auto simp: absent_answer_def absent_def schema_dts_def same_config_def)
    next
      case (Some v)
      then show ?thesis using True LeafField assms(2) f inv
        by (cases "source_filter (bp_source p) leaf") (auto simp: absent_answer_def absent_def schema_dts_def same_config_def)
    qed
  qed (use True assms in \<open>auto simp: absent_answer_def absent_def same_config_def\<close>)
qed

lemma absent_spec_answer: "absent_spec src manifest sc i l = absent_answer src manifest sc i l"
proof -
  obtain b q where "absent (new_prober src manifest sc) i l = (b, q)" by fastforce
  then show ?thesis using absent_state [OF new_prober_inv, of src manifest sc i l b q]
    by (simp add: absent_spec_def)
qed

text \<open>In every state the prober can reach, \<open>absent\<close> keeps the state consistent with the
  file and answers what a fresh prober would: caching and lazy opening are invisible.\<close>

theorem absent_cache_transparent:
  assumes "prober_inv p" and "absent p i l = (b, p')"
  shows "prober_inv p' \<and> same_config p p' \<and>
    b = absent_spec (bp_source p) (bp_manifest p) (bp_schema p) i l"
  using absent_state [OF assms] by (simp add: absent_spec_answer)

section \<open>Soundness\<close>

text \<open>
  No false negatives: every stored value of a column passes its filter's check. This is
  what the Parquet format documents of bloom filters.
\<close>

definition bloom_ok :: "('r, 'bf) bloom_source \<Rightarrow> SchemaField list \<Rightarrow> Schema \<Rightarrow> row list \<Rightarrow> bool" where
  "bloom_ok src manifest sc rows \<longleftrightarrow>
     (\<forall>i leaf bf. 0 \<le> i \<and> i < int (length manifest) \<and> manifest ! nat i = LeafField leaf \<and>
        source_filter src leaf = Some bf \<longrightarrow>
        (\<forall>r \<in> set rows. \<forall>c. r i = Some c \<longrightarrow> check src bf (physical (schema_dts sc i) c)))"

lemma sql_equal_int: "sql_compare fo (QInt x) (QInt y) = Some 0 \<longleftrightarrow> x = y"
  by (auto simp: sql_compare_def order_int_def)

lemma sql_equal_bytes:
  "sql_compare fo (QText x) (QText y) = Some 0 \<longleftrightarrow> x = y"
  "sql_compare fo (QBinary x) (QBinary y) = Some 0 \<longleftrightarrow> x = y"
  by (simp_all add: sql_compare_def bytes_compare_eq_0_iff)

lemma sql_equal_time:
  "sql_compare fo (QDate x) (QDate y) = Some 0 \<longleftrightarrow> x = y"
  "sql_compare fo (QTime (x * nanos_per u)) (QTime (y * nanos_per u)) = Some 0 \<longleftrightarrow> x = y"
  using nanos_per_pos [of u] by (auto simp: sql_compare_def order_int_def)

lemma date_cell: "sint (w :: i64) = sint (v :: i32) \<Longrightarrow> ucast w = v"
proof (rule signed_word_eqI)
  assume h: "sint w = sint v"
  then have "sint (ucast w :: i32) = sint w"
    using sint_range_32 [of v] by (intro narrow_signed) simp_all
  then show "sint (ucast w :: i32) = sint v" using h by simp
qed

lemma int64_cell: "sint (w :: i64) = sint (v :: i64) \<Longrightarrow> w = v"
  by (rule signed_word_eqI)

lemma uint_cell: "uint (w :: u64) = uint (v :: u64) \<Longrightarrow> w = v"
  by (rule unsigned_word_eqI)

text \<open>
  The probe of a literal is the stored form of every cell equal to it, so a filter
  without the probe has no equal cell.
\<close>

lemma probe_physical:
  assumes "bloomProbe l dt = Some p" and "cell_ok dt c"
    and "sql_compare fo (cell_value dt c) (literal_meaning l) = Some 0"
  shows "physical dt c = p"
proof -
  note equal = sql_equal_int sql_equal_bytes sql_equal_time
  show ?thesis
    using assms
    by (cases dt)
      (auto simp: bloomProbe_def Let_def cell_ok_def physical_def cell_value_def equal
        dest!: literal_meanings dest: date_cell int64_cell uint_cell
        split: cell.split_asm option.split_asm if_split_asm)
qed

text \<open>C26: A literal's probe is bit for bit what the writer stored for any cell equal to it in
  SQL: narrow and unsigned columns, dates and matching timestamp units included.\<close>

theorem bloomProbe_exact:
  assumes "bloomProbe l dt = Some p" and "cell_ok dt c"
    and "sql_compare fo (cell_value dt c) (literal_meaning l) = Some 0"
  shows "physical dt c = p"
  using assms by (rule probe_physical)

theorem bloomProbe_exact_witness:
  "physical Uint32DT (UintCell 4294967295) = PInt32 (- 1)"
  by (rule bloomProbe_exact [where fo = "\<lambda>_ _. None" and
        l = "\<lparr>lit_type = LiteralUint32, lit_value = Uint32V 4294967295, lit_unit = OtherUnit [], lit_tz = []\<rparr>"])
    (simp_all add: bloomProbe_def unsignedLiteral_def Let_def cell_ok_def cell_value_def
      literal_meaning_def sql_compare_def order_int_def)

text \<open>A source with one bloom filter (of leaf 3), holding the single value 7.\<close>

definition sample_source :: "(unit, i64) bloom_source" where
  "sample_source = \<lparr>open_rg = Some (), get_filter = (\<lambda>_ leaf. if leaf = 3 then Some 7 else None),
     check = (\<lambda>bf v. v = PInt64 bf)\<rparr>"

definition int64_field :: Field where
  "int64_field = \<lparr>field_name = ''x'', field_type = Int64DT, field_nullable = True, field_metadata = []\<rparr>"

definition sample_schema :: Schema where
  "sample_schema = \<lparr>schema_fields = [int64_field], schema_metadata = []\<rparr>"

lemmas sample_bloom_defs = sample_source_def int64_field_def sample_schema_def

theorem absent_cache_transparent_witness:
  "absent_spec sample_source [LeafField 3] sample_schema 0 (int64_lit 8) \<and>
   prober_inv (snd (absent (new_prober sample_source [LeafField 3] sample_schema) 0 (int64_lit 8)))"
proof -
  let ?p = "new_prober sample_source [LeafField 3] sample_schema"
  have "absent ?p 0 (int64_lit 8) = (True, snd (absent ?p 0 (int64_lit 8)))"
    by (simp add: absent_def filterFor_def new_prober_def sample_bloom_defs NumFields_def bloomProbe_def
        int64_lit_def signedLiteral_def Let_def)
  from absent_cache_transparent [OF new_prober_inv this] show ?thesis by simp
qed

section \<open>The prober implements the evaluator's interface\<close>

lemma absent_spec_sound:
  assumes "rows_ok (schema_dts sc) rows" "bloom_ok src manifest sc rows"
    and "absent_spec src manifest sc i l" and "r \<in> set rows" "r i = Some c"
  shows "sql_compare fo (cell_value (schema_dts sc i) c) (literal_meaning l) \<noteq> Some 0"
proof
  assume eq: "sql_compare fo (cell_value (schema_dts sc i) c) (literal_meaning l) = Some 0"
  from assms(3) obtain leaf v bf where i: "0 \<le> i" "i < int (length manifest)"
    "manifest ! nat i = LeafField leaf"
    and v: "bloomProbe l (schema_dts sc i) = Some v" "source_filter src leaf = Some bf" "\<not> check src bf v"
    by (auto simp: absent_spec_answer absent_answer_def split: SchemaField.splits option.splits)
  have "cell_ok (schema_dts sc i) c" using assms(1,4,5) by (auto simp: rows_ok_def)
  then have "physical (schema_dts sc i) c = v" using probe_physical [OF v(1) _ eq] by simp
  moreover have "check src bf (physical (schema_dts sc i) c)"
    using assms(2,4,5) i v(2) unfolding bloom_ok_def by blast
  ultimately show False using v(3) by simp
qed

interpretation parquet_prober: row_group_prober
  "\<lambda>(src, manifest, sc). absent_spec src manifest sc"
  "\<lambda>(src, manifest, sc) dts rows. dts = schema_dts sc \<and> rows_ok dts rows \<and> bloom_ok src manifest sc rows"
  by unfold_locales (auto split: prod.splits dest: absent_spec_sound)

end
