(* ===== verification/Readers.thy ===== *)
theory Readers
  imports Arrow_Types
begin

text \<open>
  Record readers: the library's own reader and every wrapper the repository puts around
  one (\<open>datafusion/table.go\<close> projectedReader, \<open>closingreader.Reader\<close> and the Parquet
  provider's closingRecordReader, limitReader, the Iceberg provider's
  fieldIDStrippingReader). A wrapper holds its inner reader, so a reader is a tree and
  a method call is a recursion over it. Reference counts of batches and columns are
  memory management and not modelled.
\<close>

section \<open>Batches\<close>

type_synonym column = "cell option list"

record Batch =
  b_fields :: "Field list"
  b_columns :: "column list"
  b_numRows :: i64

definition project_batch :: "Field list \<Rightarrow> int list \<Rightarrow> Batch \<Rightarrow> Batch" where
  "project_batch fs indices b =
     \<lparr>b_fields = fs, b_columns = map (\<lambda>i. b_columns b ! nat i) indices, b_numRows = b_numRows b\<rparr>"

definition rebindSchema :: "Batch \<Rightarrow> Field list \<Rightarrow> Batch" where
  "rebindSchema b fs = \<lparr>b_fields = fs, b_columns = b_columns b, b_numRows = b_numRows b\<rparr>"

section \<open>Readers\<close>

text \<open>
  \<open>LibReader\<close> is a reader of the Arrow or Parquet library: its schema, the batches it
  will still produce, the current one, the error it ends with and its reference count.
  \<open>ClosingReader\<close> also counts the \<open>Close\<close> calls its file received.
\<close>

datatype RecordReader =
    LibReader "Field list" "Batch list" "Batch option" "string option" int
  | ClosingReader RecordReader bool nat
  | ProjectedReader RecordReader "Field list" "int list" "Batch option"
  | LimitReader RecordReader i64
  | StrippingReader RecordReader "Field list" "Batch option" "Batch option" u64

fun rd_Schema :: "RecordReader \<Rightarrow> Field list" where
  "rd_Schema (LibReader fs bs cur e n) = fs"
| "rd_Schema (ClosingReader r cl k) = rd_Schema r"
| "rd_Schema (ProjectedReader r fs idx cur) = fs"
| "rd_Schema (LimitReader r m) = rd_Schema r"
| "rd_Schema (StrippingReader r fs first cur m) = fs"

fun rd_RecordBatch :: "RecordReader \<Rightarrow> Batch option" where
  "rd_RecordBatch (LibReader fs bs cur e n) = cur"
| "rd_RecordBatch (ClosingReader r cl k) = rd_RecordBatch r"
| "rd_RecordBatch (ProjectedReader r fs idx cur) = cur"
| "rd_RecordBatch (LimitReader r m) = rd_RecordBatch r"
| "rd_RecordBatch (StrippingReader r fs first cur m) = cur"

fun rd_Err :: "RecordReader \<Rightarrow> string option" where
  "rd_Err (LibReader fs bs cur e n) = (if bs = [] then e else None)"
| "rd_Err (ClosingReader r cl k) = rd_Err r"
| "rd_Err (ProjectedReader r fs idx cur) = rd_Err r"
| "rd_Err (LimitReader r m) = rd_Err r"
| "rd_Err (StrippingReader r fs first cur m) = rd_Err r"

text \<open>\<open>close\<close> of a closing reader: once.\<close>

definition close_once :: "RecordReader \<Rightarrow> bool \<Rightarrow> nat \<Rightarrow> RecordReader" where
  "close_once r cl k = (if cl then ClosingReader r True k else ClosingReader r True (Suc k))"

text \<open>
  Each wrapper's \<open>Next\<close>, given what its inner reader's \<open>Next\<close> would return (and would
  have become), which the wrapper may ignore.
\<close>

definition closing_Next :: "bool \<times> RecordReader \<Rightarrow> bool \<Rightarrow> nat \<Rightarrow> bool \<times> RecordReader" where
  "closing_Next res cl k =
     (case res of
        (True, r') \<Rightarrow> (True, ClosingReader r' cl k)
      | (False, r') \<Rightarrow> (False, close_once r' cl k))"

definition projected_Next :: "bool \<times> RecordReader \<Rightarrow> Field list \<Rightarrow> int list \<Rightarrow> bool \<times> RecordReader" where
  "projected_Next res fs idx =
     (case res of
        (False, r') \<Rightarrow> (False, ProjectedReader r' fs idx None)
      | (True, r') \<Rightarrow> (True, ProjectedReader r' fs idx (map_option (project_batch fs idx) (rd_RecordBatch r'))))"

definition limit_Next :: "RecordReader \<Rightarrow> bool \<times> RecordReader \<Rightarrow> i64 \<Rightarrow> bool \<times> RecordReader" where
  "limit_Next r res remaining =
     (if sint remaining \<le> 0 then (False, LimitReader r remaining)
      else
        (case res of
           (False, r') \<Rightarrow> (False, LimitReader r' remaining)
         | (True, r') \<Rightarrow>
             (True, LimitReader r'
                (case rd_RecordBatch r' of Some b \<Rightarrow> remaining - b_numRows b | None \<Rightarrow> remaining))))"

definition stripping_Next ::
  "RecordReader \<Rightarrow> bool \<times> RecordReader \<Rightarrow> Field list \<Rightarrow> Batch option \<Rightarrow> u64 \<Rightarrow> bool \<times> RecordReader" where
  "stripping_Next r res fs first m =
     (case first of
        Some b \<Rightarrow> (True, StrippingReader r fs None (Some (rebindSchema b fs)) (m + b_numRows b))
      | None \<Rightarrow>
          (case res of
             (False, r') \<Rightarrow> (False, StrippingReader r' fs None None m)
           | (True, r') \<Rightarrow>
               (case rd_RecordBatch r' of
                  Some b \<Rightarrow> (True, StrippingReader r' fs None (Some (rebindSchema b fs)) (m + b_numRows b))
                | None \<Rightarrow> (True, StrippingReader r' fs None None m))))"

fun rd_Next :: "RecordReader \<Rightarrow> bool \<times> RecordReader" where
  "rd_Next (LibReader fs [] cur e n) = (False, LibReader fs [] None e n)"
| "rd_Next (LibReader fs (b # bs) cur e n) = (True, LibReader fs bs (Some b) e n)"
| "rd_Next (ClosingReader r cl k) = closing_Next (rd_Next r) cl k"
| "rd_Next (ProjectedReader r fs idx cur) = projected_Next (rd_Next r) fs idx"
| "rd_Next (LimitReader r remaining) = limit_Next r (rd_Next r) remaining"
| "rd_Next (StrippingReader r fs first cur m) = stripping_Next r (rd_Next r) fs first m"

declare closing_Next_def [simp] projected_Next_def [simp] limit_Next_def [simp] stripping_Next_def [simp]

fun rd_Release :: "RecordReader \<Rightarrow> RecordReader" where
  "rd_Release (LibReader fs bs cur e n) = LibReader fs bs cur e (n - 1)"
| "rd_Release (ClosingReader r cl k) = close_once (rd_Release r) cl k"
| "rd_Release (ProjectedReader r fs idx cur) = ProjectedReader (rd_Release r) fs idx None"
| "rd_Release (LimitReader r m) = LimitReader (rd_Release r) m"
| "rd_Release (StrippingReader r fs first cur m) = StrippingReader (rd_Release r) fs None None m"

text \<open>
  \<open>ProjectReader\<close>: \<open>None\<close> is its panic on an index out of range.
\<close>

definition ProjectReader :: "RecordReader \<Rightarrow> int list \<Rightarrow> RecordReader option" where
  "ProjectReader r indices =
     map_option (\<lambda>fs. ProjectedReader r fs indices None)
       (omap (\<lambda>i. if i < 0 \<or> int (length (rd_Schema r)) \<le> i then None
                  else Some (rd_Schema r ! nat i)) indices)"

section \<open>What a reader will still produce\<close>

text \<open>The batches a limit lets through: until at least the hinted rows were produced.\<close>

fun limit_batches :: "int \<Rightarrow> Batch list \<Rightarrow> Batch list" where
  "limit_batches m [] = []"
| "limit_batches m (b # bs) = (if m \<le> 0 then [] else b # limit_batches (m - sint (b_numRows b)) bs)"

fun rd_pending :: "RecordReader \<Rightarrow> Batch list" where
  "rd_pending (LibReader fs bs cur e n) = bs"
| "rd_pending (ClosingReader r cl k) = rd_pending r"
| "rd_pending (ProjectedReader r fs idx cur) = map (project_batch fs idx) (rd_pending r)"
| "rd_pending (LimitReader r m) = limit_batches (sint m) (rd_pending r)"
| "rd_pending (StrippingReader r fs first cur m) =
     map (\<lambda>b. rebindSchema b fs) (case first of Some b \<Rightarrow> b # rd_pending r | None \<Rightarrow> rd_pending r)"

text \<open>Row counts are never negative; an Arrow invariant.\<close>

definition batch_ok :: "Batch \<Rightarrow> bool" where
  "batch_ok b \<longleftrightarrow> 0 \<le> sint (b_numRows b)"

fun rd_ok :: "RecordReader \<Rightarrow> bool" where
  "rd_ok (LibReader fs bs cur e n) \<longleftrightarrow> list_all batch_ok bs"
| "rd_ok (ClosingReader r cl k) \<longleftrightarrow> rd_ok r"
| "rd_ok (ProjectedReader r fs idx cur) \<longleftrightarrow> rd_ok r"
| "rd_ok (LimitReader r m) \<longleftrightarrow> rd_ok r"
| "rd_ok (StrippingReader r fs first cur m) \<longleftrightarrow>
     rd_ok r \<and> (case first of Some b \<Rightarrow> batch_ok b | None \<Rightarrow> True)"

lemma project_ok [simp]: "batch_ok (project_batch fs idx b) = batch_ok b"
  by (simp add: batch_ok_def project_batch_def)

lemma rebind_ok [simp]: "batch_ok (rebindSchema b fs) = batch_ok b"
  by (simp add: batch_ok_def rebindSchema_def)

lemma limit_ok: "list_all batch_ok bs \<Longrightarrow> list_all batch_ok (limit_batches m bs)"
  by (induction m bs rule: limit_batches.induct) auto

lemma pending_ok: "rd_ok r \<Longrightarrow> list_all batch_ok (rd_pending r)"
  by (induction r) (auto simp: list_all_iff limit_ok [unfolded list_all_iff] split: option.splits)

section \<open>The reader interface\<close>

text \<open>
  What a client of \<open>array.RecordReader\<close> relies on: while batches are pending, \<open>Next\<close>
  makes the first of them current; afterwards it keeps returning false.
\<close>

locale record_reader =
  fixes next_op :: "'r \<Rightarrow> bool \<times> 'r"
    and batch :: "'r \<Rightarrow> Batch option"
    and pending :: "'r \<Rightarrow> Batch list"
    and ok :: "'r \<Rightarrow> bool"
  assumes next_more: "ok r \<Longrightarrow> pending r = b # bs \<Longrightarrow>
      \<exists>r'. next_op r = (True, r') \<and> batch r' = Some b \<and> pending r' = bs \<and> ok r'"
    and next_end: "ok r \<Longrightarrow> pending r = [] \<Longrightarrow>
      \<exists>r'. next_op r = (False, r') \<and> pending r' = [] \<and> ok r'"
begin

text \<open>The loop \<open>for r.Next() { use(r.RecordBatch()) }\<close>, at most \<open>n\<close> calls of \<open>Next\<close>.\<close>

fun drain :: "nat \<Rightarrow> 'r \<Rightarrow> Batch list \<times> 'r" where
  "drain 0 r = ([], r)"
| "drain (Suc n) r =
     (case next_op r of
        (False, r') \<Rightarrow> ([], r')
      | (True, r') \<Rightarrow>
          (case batch r' of
             None \<Rightarrow> ([], r')
           | Some b \<Rightarrow> (case drain n r' of (bs, r'') \<Rightarrow> (b # bs, r''))))"

lemma drain_all [reader_laws]:
  "ok r \<Longrightarrow> length (pending r) < n \<Longrightarrow>
   fst (drain n r) = pending r \<and> pending (snd (drain n r)) = [] \<and> ok (snd (drain n r))"
proof (induction n arbitrary: r)
  case (Suc n)
  show ?case
  proof (cases "pending r")
    case Nil
    then show ?thesis using next_end Suc.prems by fastforce
  next
    case (Cons b bs)
    from next_more [OF Suc.prems(1) Cons] obtain r' where r': "next_op r = (True, r')"
      "batch r' = Some b" "pending r' = bs" "ok r'" by blast
    then have "fst (drain n r') = bs \<and> pending (snd (drain n r')) = [] \<and> ok (snd (drain n r'))"
      using Suc Cons by simp
    then show ?thesis using r' Cons by (auto split: prod.splits)
  qed
qed simp

end

section \<open>Every reader of the repository implements it\<close>

lemma Next_more:
  "rd_ok r \<Longrightarrow> rd_pending r = b # bs \<Longrightarrow>
   \<exists>r'. rd_Next r = (True, r') \<and> rd_RecordBatch r' = Some b \<and> rd_pending r' = bs \<and> rd_ok r'"
proof (induction r arbitrary: b bs)
  case (ClosingReader r cl k)
  then show ?case by fastforce
next
  case (ProjectedReader r fs idx cur)
  then show ?case by fastforce
next
  case (LimitReader r m)
  then obtain a as where a: "rd_pending r = a # as" by (cases "rd_pending r") auto
  with LimitReader.prems have m: "0 < sint m" "b = a" "bs = limit_batches (sint m - sint (b_numRows a)) as"
    by (auto split: if_splits)
  have "batch_ok a" using pending_ok [of r] LimitReader.prems(1) a by simp
  then have "sint (m - b_numRows a) = sint m - sint (b_numRows a)"
    using m(1) sint_range_64 [of m] sint_range_64 [of "b_numRows a"]
    by (simp add: batch_ok_def sint_word_ariths signed_take_bit_int_eq_self)
  then show ?case using LimitReader.IH [of a as] LimitReader.prems(1) a m by fastforce
next
  case (StrippingReader r fs first cur m)
  then show ?case by (cases first) fastforce+
qed auto

lemma Next_end:
  "rd_ok r \<Longrightarrow> rd_pending r = [] \<Longrightarrow> \<exists>r'. rd_Next r = (False, r') \<and> rd_pending r' = [] \<and> rd_ok r'"
proof (induction r)
  case (ClosingReader r cl k)
  then show ?case by (fastforce simp: close_once_def)
next
  case (LimitReader r m)
  show ?case
  proof (cases "sint m \<le> 0")
    case True
    then show ?thesis using LimitReader.prems by simp
  next
    case False
    then have "rd_pending r = []" using LimitReader.prems(2) by (cases "rd_pending r") auto
    then show ?thesis using LimitReader False by fastforce
  qed
next
  case (StrippingReader r fs first cur m)
  then show ?case by (cases first) fastforce+
qed fastforce+

interpretation readers: record_reader rd_Next rd_RecordBatch rd_pending rd_ok
  by unfold_locales (use Next_more Next_end in blast)+

lemmas read_all = readers.drain_all

section \<open>Projection\<close>

lemma ProjectReader_fields:
  assumes "ProjectReader r indices = Some p"
  shows "\<forall>i \<in> set indices. 0 \<le> i \<and> i < int (length (rd_Schema r))"
    and "p = ProjectedReader r (map (\<lambda>i. rd_Schema r ! nat i) indices) indices None"
proof -
  have ok: "(\<forall>i \<in> set is. 0 \<le> i \<and> i < int (length (rd_Schema r))) \<and>
      fs = map (\<lambda>i. rd_Schema r ! nat i) is"
    if "omap (\<lambda>i. if i < 0 \<or> int (length (rd_Schema r)) \<le> i then None
        else Some (rd_Schema r ! nat i)) is = Some fs" for "is" fs
    using that by (induction "is" arbitrary: fs) (auto simp: bind_eq_Some_conv split: if_splits)
  show "\<forall>i \<in> set indices. 0 \<le> i \<and> i < int (length (rd_Schema r))"
    and "p = ProjectedReader r (map (\<lambda>i. rd_Schema r ! nat i) indices) indices None"
    using assms ok by (auto simp: ProjectReader_def)
qed

lemma ProjectReader_total:
  assumes "\<forall>i \<in> set indices. 0 \<le> i \<and> i < int (length (rd_Schema r))"
  shows "\<exists>p. ProjectReader r indices = Some p"
proof -
  have "\<exists>fs. omap (\<lambda>i. if i < 0 \<or> int (length (rd_Schema r)) \<le> i then None
      else Some (rd_Schema r ! nat i)) indices = Some fs"
    using assms by (induction indices) (auto simp: not_less not_le)
  then show ?thesis by (auto simp: ProjectReader_def)
qed

text \<open>A reader from \<open>ProjectReader\<close> has exactly the fields at the indices, in their order
  (repeats included), and reading it to the end gives every batch of the wrapped reader with
  exactly those columns and its row count.\<close>

theorem ProjectReader_exact:
  assumes "ProjectReader r indices = Some p" and "rd_ok r" and "length (rd_pending r) < n"
  shows "rd_Schema p = map (\<lambda>i. rd_Schema r ! nat i) indices \<and>
    fst (readers.drain n p) =
      map (\<lambda>b. \<lparr>b_fields = rd_Schema p, b_columns = map (\<lambda>i. b_columns b ! nat i) indices,
              b_numRows = b_numRows b\<rparr>) (rd_pending r)"
proof -
  note p = ProjectReader_fields(2) [OF assms(1)]
  have "fst (readers.drain n p) = rd_pending p"
    using assms(2,3) p by (intro read_all [THEN conjunct1]) simp_all
  then show ?thesis using p by (simp add: project_batch_def)
qed

definition int_field :: "string \<Rightarrow> Field" where
  "int_field s = \<lparr>field_name = s, field_type = Int64DT, field_nullable = True, field_metadata = []\<rparr>"

definition two_column_reader :: RecordReader where
  "two_column_reader = LibReader [int_field ''a'', int_field ''b'']
     [\<lparr>b_fields = [int_field ''a'', int_field ''b''], b_columns = [[Some (IntCell 1)], [None]], b_numRows = 1\<rparr>]
     None None 1"

theorem ProjectReader_exact_witness:
  "\<exists>p. ProjectReader two_column_reader [1, 0, 1] = Some p \<and>
     map b_columns (fst (readers.drain 2 p)) = [[[None], [Some (IntCell 1)], [None]]]"
proof -
  obtain p where p: "ProjectReader two_column_reader [1, 0, 1] = Some p"
    by (simp add: ProjectReader_def two_column_reader_def)
  have "rd_ok two_column_reader" "length (rd_pending two_column_reader) < 2"
    by (simp_all add: two_column_reader_def batch_ok_def)
  from ProjectReader_exact [OF p this] p show ?thesis by (simp add: two_column_reader_def)
qed

section \<open>Limit\<close>

definition total_rows :: "Batch list \<Rightarrow> int" where
  "total_rows bs = (\<Sum>b \<leftarrow> bs. sint (b_numRows b))"

lemma total_rows_simps [simp]:
  "total_rows [] = 0" "total_rows (b # bs) = sint (b_numRows b) + total_rows bs"
  "total_rows (bs @ cs) = total_rows bs + total_rows cs"
  by (simp_all add: total_rows_def)

lemma total_rows_nonneg: "list_all batch_ok bs \<Longrightarrow> 0 \<le> total_rows bs"
  by (induction bs) (auto simp: batch_ok_def)

lemma limit_prefix: "\<exists>rest. bs = limit_batches m bs @ rest"
  by (induction m bs rule: limit_batches.induct) auto

lemma limit_enough: "limit_batches m bs = bs \<or> m \<le> total_rows (limit_batches m bs)"
  by (induction m bs rule: limit_batches.induct) auto

lemma limit_tight:
  "list_all batch_ok bs \<Longrightarrow> limit_batches m bs \<noteq> [] \<Longrightarrow> total_rows (butlast (limit_batches m bs)) < m"
proof (induction m bs rule: limit_batches.induct)
  case (2 m b bs)
  then show ?case
    by (cases "limit_batches (m - sint (b_numRows b)) bs") (auto split: if_splits)
qed simp

text \<open>A limit reader produces a prefix of the inner reader's batches that is everything or
  has at least the hinted number of rows, and it stops as soon as it has: without its last batch
  it is below the hint.\<close>

theorem LimitReader_prefix:
  assumes "rd_ok r" and "length (rd_pending r) < n"
  shows "let out = fst (readers.drain n (LimitReader r m)) in
    (\<exists>rest. rd_pending r = out @ rest \<and> (rest \<noteq> [] \<longrightarrow> sint m \<le> total_rows out)) \<and>
    (out \<noteq> [] \<longrightarrow> total_rows (butlast out) < sint m)"
proof -
  have len: "length (limit_batches (sint m) (rd_pending r)) < n"
    using limit_prefix [of "rd_pending r" "sint m"] assms(2)
    by (metis length_append le_add1 order_le_less_trans)
  then have out: "fst (readers.drain n (LimitReader r m)) = limit_batches (sint m) (rd_pending r)"
    using read_all [of "LimitReader r m" n] assms(1) by simp
  from limit_prefix [of "rd_pending r" "sint m"]
  obtain rest where "rd_pending r = limit_batches (sint m) (rd_pending r) @ rest" by blast
  then show ?thesis
    using limit_enough [of "sint m" "rd_pending r"] limit_tight [OF pending_ok [OF assms(1)], of "sint m"]
    unfolding out Let_def by (metis append_self_conv)
qed

theorem LimitReader_prefix_witness:
  "fst (readers.drain 2 (LimitReader two_column_reader 5)) = rd_pending two_column_reader"
proof -
  let ?out = "fst (readers.drain 2 (LimitReader two_column_reader 5))"
  have "rd_ok two_column_reader" "length (rd_pending two_column_reader) < 2"
    by (simp_all add: two_column_reader_def batch_ok_def)
  from LimitReader_prefix [OF this, of 5] obtain rest where
    rest: "rd_pending two_column_reader = ?out @ rest" "rest \<noteq> [] \<longrightarrow> 5 \<le> total_rows ?out"
    unfolding Let_def by auto
  have "\<not> 5 \<le> total_rows ?out" if "rest \<noteq> []"
    using rest(1) that by (cases ?out) (auto simp: two_column_reader_def)
  then show ?thesis using rest by auto
qed

section \<open>Closing\<close>

text \<open>What a consumer can do with a reader, in any order and number.\<close>

inductive reader_step :: "RecordReader \<Rightarrow> RecordReader \<Rightarrow> bool" where
  step_next: "rd_Next r = (ok, r') \<Longrightarrow> reader_step r r'"
| step_release: "reader_step r (rd_Release r)"

inductive_cases reader_stepE: "reader_step r r'"

definition closes_ok :: "RecordReader \<Rightarrow> bool" where
  "closes_ok s = (case s of ClosingReader r cl k \<Rightarrow> k = (if cl then 1 else 0) | _ \<Rightarrow> False)"

lemma closes_ok_close [simp]: "closes_ok (close_once r cl (if cl then 1 else 0))"
  by (simp add: closes_ok_def close_once_def)

lemma closing_step: "reader_step s s' \<Longrightarrow> closes_ok s \<Longrightarrow> closes_ok s'"
proof (induction rule: reader_step.induct)
  case (step_next r ok r')
  then obtain i cl where r: "r = ClosingReader i cl (if cl then 1 else 0)"
    by (cases r) (auto simp: closes_ok_def)
  obtain ok' i' where "rd_Next i = (ok', i')" by fastforce
  then show ?case using step_next r by (cases ok') (auto simp: closes_ok_def close_once_def)
next
  case (step_release r)
  then show ?case by (cases r) (auto simp: closes_ok_def close_once_def)
qed

lemma closing_reachable:
  assumes "reader_step\<^sup>*\<^sup>* (ClosingReader r False 0) s"
  shows "closes_ok s"
  using assms by (induction rule: rtranclp_induct) (simp add: closes_ok_def, erule closing_step)

text \<open>Whatever the consumer does, in any order, the file behind a closing reader is closed at
  most once; and once \<open>Next\<close> has returned false or \<open>Release\<close> was called it is closed.\<close>

theorem ClosingReader_closes_once:
  assumes "reader_step\<^sup>*\<^sup>* (ClosingReader r False 0) s"
  shows "(\<exists>r' cl. s = ClosingReader r' cl (if cl then 1 else 0)) \<and>
    (\<exists>r'. rd_Release s = ClosingReader r' True 1) \<and>
    (\<not> fst (rd_Next s) \<longrightarrow> (\<exists>r'. snd (rd_Next s) = ClosingReader r' True 1))"
proof -
  from closing_reachable [OF assms] obtain r' cl where s: "s = ClosingReader r' cl (if cl then 1 else 0)"
    by (cases s) (simp_all add: closes_ok_def)
  obtain ok r'' where "rd_Next r' = (ok, r'')" by fastforce
  then show ?thesis using s by (cases ok; cases cl) (auto simp: close_once_def)
qed

theorem ClosingReader_closes_once_witness:
  "\<exists>r'. rd_Release (rd_Release (ClosingReader two_column_reader False 0)) = ClosingReader r' True 1"
proof -
  have "reader_step\<^sup>*\<^sup>* (ClosingReader two_column_reader False 0)
      (rd_Release (ClosingReader two_column_reader False 0))"
    by (intro r_into_rtranclp step_release)
  from ClosingReader_closes_once [OF this] show ?thesis by blast
qed

section \<open>Counting rows\<close>

fun rowsConsumed :: "RecordReader \<Rightarrow> u64" where
  "rowsConsumed (StrippingReader r fs first cur m) = m"
| "rowsConsumed _ = 0"

definition sum_rows :: "Batch list \<Rightarrow> u64" where
  "sum_rows bs = (\<Sum>b \<leftarrow> bs. b_numRows b)"

lemma sum_rows_simps [simp]: "sum_rows [] = 0" "sum_rows (b # bs) = b_numRows b + sum_rows bs"
  by (simp_all add: sum_rows_def)

lemma stripping_drain:
  "rd_ok r \<Longrightarrow> length (rd_pending r) < n \<Longrightarrow>
   rowsConsumed (snd (readers.drain n (StrippingReader r fs None cur m))) = m + sum_rows (rd_pending r)"
proof (induction n arbitrary: r cur m)
  case (Suc n)
  show ?case
  proof (cases "rd_pending r")
    case Nil
    with Next_end [OF Suc.prems(1)] obtain r' where "rd_Next r = (False, r')" by blast
    then show ?thesis using Nil by simp
  next
    case (Cons b bs)
    with Next_more [OF Suc.prems(1)] obtain r' where "rd_Next r = (True, r')"
      "rd_RecordBatch r' = Some b" "rd_pending r' = bs" "rd_ok r'" by blast
    then show ?thesis using Suc Cons by (simp add: add.assoc case_prod_beta)
  qed
qed simp

text \<open>The reader handed to the Iceberg library yields the insert's batches, the one already
  read first, under the table's own schema, and once drained it has counted exactly their rows.\<close>

theorem StrippingReader_counts:
  assumes "rd_ok r" and "batch_ok b" and "length (rd_pending r) < n"
  shows "fst (readers.drain (Suc n) (StrippingReader r fs (Some b) None 0)) =
      map (\<lambda>b. rebindSchema b fs) (b # rd_pending r) \<and>
    rowsConsumed (snd (readers.drain (Suc n) (StrippingReader r fs (Some b) None 0))) =
      sum_rows (b # rd_pending r)"
proof
  show "fst (readers.drain (Suc n) (StrippingReader r fs (Some b) None 0)) =
      map (\<lambda>b. rebindSchema b fs) (b # rd_pending r)"
    using assms read_all [of "StrippingReader r fs (Some b) None 0" "Suc n"] by simp
  show "rowsConsumed (snd (readers.drain (Suc n) (StrippingReader r fs (Some b) None 0))) =
      sum_rows (b # rd_pending r)"
    using stripping_drain [OF assms(1,3), of fs "Some (rebindSchema b fs)" "b_numRows b"]
    by (simp add: case_prod_beta)
qed

theorem StrippingReader_counts_witness:
  "rowsConsumed (snd (readers.drain 3 (StrippingReader two_column_reader []
     (Some \<lparr>b_fields = [], b_columns = [], b_numRows = 41\<rparr>) None 0))) = 42"
  using StrippingReader_counts [of two_column_reader "\<lparr>b_fields = [], b_columns = [], b_numRows = 41\<rparr>" 2 "[]"]
  by (simp add: two_column_reader_def batch_ok_def numeral_3_eq_3 numeral_2_eq_2)

end
