(* ===== verification/Parquet_Pushdown.thy ===== *)
theory Parquet_Pushdown
  imports Parquet_Bloom Readers
begin

text \<open>
  \<open>providers/parquet/pushdown.go\<close> and the scan side of \<open>parquet.go\<close>: choosing row groups,
  planning the projected read, the cheapest leaf of a count-only scan, and
  \<open>ScanWithOptions\<close> with every error path. The Parquet file reader is the library's.
\<close>

section \<open>The file\<close>

text \<open>
  What the provider uses of an opened file: its metadata and schema manifest, the bloom
  filters per row group, and \<open>GetRecordReader\<close> for leaf columns and row groups
  (\<open>None\<close> for nil: all).
\<close>

record ('r, 'bf) ParquetFile =
  pf_rowGroups :: "RowGroupMeta list"
  pf_numLeaves :: nat
  pf_manifest :: "SchemaField list"
  pf_bloom :: "int \<Rightarrow> ('r, 'bf) bloom_source"
  pf_GetRecordReader :: "int list option \<Rightarrow> int list option \<Rightarrow> string + RecordReader"

datatype scan_err =
    OpenError string
  | ReadError string
  | ScanError string
  | ProjectionOutOfRange int
  | ProjectReaderPanic

record ScanOptions =
  so_projection :: "int list option"
  so_filters :: "Expr list"
  so_limit :: i64

section \<open>Row-group selection\<close>

definition addCol :: "Schema \<Rightarrow> SchemaField list \<Rightarrow> Column \<Rightarrow> int list" where
  "addCol sc manifest c =
     (if 0 \<le> col_index c \<and> col_index c < NumFields sc \<and> col_index c < int (length manifest) \<and>
         field_name (schema_fields sc ! nat (col_index c)) = col_name c
      then [col_index c] else [])"

fun visit :: "Schema \<Rightarrow> SchemaField list \<Rightarrow> Expr \<Rightarrow> int list" where
  "visit sc m (And a b) = visit sc m a @ visit sc m b"
| "visit sc m (Or a b) = visit sc m a @ visit sc m b"
| "visit sc m (NotE e) = visit sc m e"
| "visit sc m (Compare c op l) = addCol sc m c"
| "visit sc m (IsNull c n) = addCol sc m c"
| "visit sc m (Between c n lo hi) = addCol sc m c"
| "visit sc m (InList c n ls) = addCol sc m c"
| "visit sc m NilExpr = []"

definition referencedFields :: "Expr list \<Rightarrow> Schema \<Rightarrow> SchemaField list \<Rightarrow> int set" where
  "referencedFields filters sc manifest = set (concat (map (visit sc manifest) filters))"

text \<open>
  The prober of a row group answers as a fresh one whatever the earlier filters made it
  cache, so the evaluator is given its answers as a function.
\<close>

definition groupSkipped ::
  "('r, 'bf) ParquetFile \<Rightarrow> Schema \<Rightarrow> int set \<Rightarrow> Expr list \<Rightarrow> nat \<Rightarrow> bool" where
  "groupSkipped f sc refs filters i =
     (let st = buildRowGroupStats (pf_rowGroups f ! i) (pf_manifest f) sc refs;
          bloom = absent_spec (pf_bloom f (int i)) (pf_manifest f) sc
      in list_ex (\<lambda>e. canSkip e st (Some bloom)) filters)"

definition selectRowGroups :: "('r, 'bf) ParquetFile \<Rightarrow> Schema \<Rightarrow> Expr list \<Rightarrow> int list option" where
  "selectRowGroups f sc filters =
     (if filters = [] then None
      else
        (let refs = referencedFields filters sc (pf_manifest f);
             n = length (pf_rowGroups f);
             survivors = map int (filter (\<lambda>i. \<not> groupSkipped f sc refs filters i) [0..<n])
         in if refs = {} then None
            else if length survivors = n then None else Some survivors))"

section \<open>Projection\<close>

fun fieldLeaves :: "SchemaField \<Rightarrow> int list" where
  "fieldLeaves (LeafField i) = [i]"
| "fieldLeaves (GroupField children) = concat (map fieldLeaves children)"

text \<open>The deduplicating loop: read order, positions in it, and leaves.\<close>

fun planLoop ::
  "SchemaField list \<Rightarrow> int list \<Rightarrow> int list \<times> (int \<rightharpoonup> int) \<times> int list \<Rightarrow>
   scan_err + (int list \<times> (int \<rightharpoonup> int) \<times> int list)" where
  "planLoop manifest [] st = Inr st"
| "planLoop manifest (idx # ps) (readOrder, posInRead, leaves) =
     (if idx < 0 \<or> int (length manifest) \<le> idx then Inl (ProjectionOutOfRange idx)
      else if posInRead idx \<noteq> None then planLoop manifest ps (readOrder, posInRead, leaves)
      else planLoop manifest ps
        (readOrder @ [idx], posInRead(idx \<mapsto> int (length readOrder)),
         leaves @ fieldLeaves (manifest ! nat idx)))"

text \<open>\<open>math.MaxInt64\<close>, and one leaf's compressed size; a chunk that cannot be read ends the sum.\<close>

definition max_int64 :: i64 where "max_int64 = 0x7FFFFFFFFFFFFFFF"

fun leafTotal :: "RowGroupMeta list \<Rightarrow> int \<Rightarrow> i64 \<Rightarrow> int list \<Rightarrow> i64" where
  "leafTotal groups leaf acc [] = acc"
| "leafTotal groups leaf acc (g # gs) =
     (case rgm_ColumnChunk (groups ! nat g) leaf of
        None \<Rightarrow> max_int64
      | Some cc \<Rightarrow> leafTotal groups leaf (acc + cc_TotalCompressedSize cc) gs)"

definition cheapestStep :: "RowGroupMeta list \<Rightarrow> int list \<Rightarrow> int \<Rightarrow> int \<times> i64 \<Rightarrow> int \<times> i64" where
  "cheapestStep groups gs leaf acc =
     (let size = leafTotal groups leaf 0 gs
      in if sint size < sint (snd acc) then (leaf, size) else acc)"

definition cheapestLeaf :: "('r, 'bf) ParquetFile \<Rightarrow> int list option \<Rightarrow> int" where
  "cheapestLeaf f rowGroups =
     (let gs = (case rowGroups of None \<Rightarrow> map int [0..<length (pf_rowGroups f)] | Some g \<Rightarrow> g)
      in fst (fold (cheapestStep (pf_rowGroups f) gs) (map int [0..<pf_numLeaves f]) (0, max_int64)))"

definition getRecordReader ::
  "('r, 'bf) ParquetFile \<Rightarrow> int list option \<Rightarrow> int list option \<Rightarrow> scan_err + RecordReader" where
  "getRecordReader f leaves rowGroups =
     (case pf_GetRecordReader f leaves rowGroups of
        Inl e \<Rightarrow> Inl (ScanError e) | Inr rr \<Rightarrow> Inr (ClosingReader rr False 0))"

definition projectWith :: "RecordReader \<Rightarrow> int list \<Rightarrow> scan_err + RecordReader" where
  "projectWith r perm = (case ProjectReader r perm of None \<Rightarrow> Inl ProjectReaderPanic | Some p \<Rightarrow> Inr p)"

definition openProjectedReader ::
  "('r, 'bf) ParquetFile \<Rightarrow> int list option \<Rightarrow> int list option \<Rightarrow> scan_err + RecordReader" where
  "openProjectedReader f projection rowGroups =
     (case projection of
        None \<Rightarrow> getRecordReader f None rowGroups
      | Some ps \<Rightarrow>
          if ps = [] then
            sbind (getRecordReader f (Some [cheapestLeaf f rowGroups]) rowGroups)
              (\<lambda>rr. projectWith rr [])
          else
            sbind (planLoop (pf_manifest f) ps ([], Map.empty, []))
              (\<lambda>(readOrder, posInRead, leaves).
                 sbind (getRecordReader f (Some leaves) rowGroups)
                   (\<lambda>rr. if length readOrder \<noteq> length ps
                          then projectWith rr (map (\<lambda>idx. case posInRead idx of Some p \<Rightarrow> p | None \<Rightarrow> 0) ps)
                          else Inr rr)))"

definition emptyProjectedReader :: "Schema \<Rightarrow> int list option \<Rightarrow> scan_err + RecordReader" where
  "emptyProjectedReader sc projection =
     sbind (case projection of
              None \<Rightarrow> Inr (schema_fields sc)
            | Some ps \<Rightarrow>
                smap (\<lambda>idx. if idx < 0 \<or> NumFields sc \<le> idx then Inl (ProjectionOutOfRange idx)
                            else Inr (schema_fields sc ! nat idx)) ps)
       (\<lambda>fs. Inr (LibReader fs [] None None 1))"

section \<open>Scans\<close>

text \<open>
  \<open>openReader\<close> and \<open>pqarrow.NewFileReader\<close>: either fails, or the scan has the file. The
  second component of a scan counts the \<open>Close\<close> calls it made on the file itself;
  those of the returned reader are the reader's.
\<close>

datatype ('r, 'bf) open_result =
    OpenFailed string
  | NewFileReaderFailed string
  | Opened "('r, 'bf) ParquetFile"

definition Scan :: "('r, 'bf) open_result \<Rightarrow> (scan_err + RecordReader) \<times> nat" where
  "Scan opened =
     (case opened of
        OpenFailed e \<Rightarrow> (Inl (OpenError e), 0)
      | NewFileReaderFailed e \<Rightarrow> (Inl (ReadError e), 1)
      | Opened f \<Rightarrow>
          (case getRecordReader f None None of
             Inl e \<Rightarrow> (Inl e, 1)
           | Inr r \<Rightarrow> (Inr r, 0)))"

definition ScanWithOptions ::
  "Schema \<Rightarrow> ('r, 'bf) open_result \<Rightarrow> ScanOptions option \<Rightarrow> (scan_err + RecordReader) \<times> nat" where
  "ScanWithOptions sc opened opts =
     (case opts of
        None \<Rightarrow> Scan opened
      | Some o' \<Rightarrow>
          (case opened of
             OpenFailed e \<Rightarrow> (Inl (OpenError e), 0)
           | NewFileReaderFailed e \<Rightarrow> (Inl (ReadError e), 1)
           | Opened f \<Rightarrow>
               (let rowGroups = selectRowGroups f sc (so_filters o')
                in if rowGroups = Some [] then (emptyProjectedReader sc (so_projection o'), 1)
                   else
                     (case openProjectedReader f (so_projection o') rowGroups of
                        Inl e \<Rightarrow> (Inl e, if e = ProjectReaderPanic then 0 else 1)
                      | Inr reader \<Rightarrow>
                          (Inr (if 0 \<le> sint (so_limit o') then LimitReader reader (so_limit o') else reader),
                           0)))))"

end
