(* ===== verification/Pushdown_Correct.thy ===== *)
theory Pushdown_Correct
  imports Parquet_Pushdown
begin

text \<open>
  The Parquet provider's pushdown keeps the table-provider contract: pruning never drops
  a matching row, projections are exact, the count-only scan reads a cheapest column, and
  every outcome closes the file once.
\<close>

section \<open>What the library promises of a file\<close>

text \<open>The rows of each row group, described truthfully by metadata and bloom filters.\<close>

definition group_promise ::
  "('r, 'bf) ParquetFile \<Rightarrow> Schema \<Rightarrow> (nat \<Rightarrow> row list) \<Rightarrow> nat \<Rightarrow> bool" where
  "group_promise f sc rows i \<longleftrightarrow>
     meta_ok (pf_rowGroups f ! i) (pf_manifest f) sc (rows i) \<and>
     bloom_ok (pf_bloom f (int i)) (pf_manifest f) sc (rows i) \<and>
     rows_ok (schema_dts sc) (rows i) \<and> rows_no_nan (rows i)"

definition file_promise :: "('r, 'bf) ParquetFile \<Rightarrow> Schema \<Rightarrow> (nat \<Rightarrow> row list) \<Rightarrow> bool" where
  "file_promise f sc rows \<longleftrightarrow> (\<forall>i < length (pf_rowGroups f). group_promise f sc rows i)"

section \<open>Row-group selection\<close>

lemma groupSkipped_sound:
  assumes "group_promise f sc rows i" and "groupSkipped f sc refs filters i" and "r \<in> set (rows i)"
  shows "\<not> satisfies fo (schema_dts sc) filters r"
proof -
  from assms(2) obtain e where e: "e \<in> set filters"
    "canSkip e (buildRowGroupStats (pf_rowGroups f ! i) (pf_manifest f) sc refs)
       (Some (absent_spec (pf_bloom f (int i)) (pf_manifest f) sc))"
    by (auto simp: groupSkipped_def Let_def list_ex_iff)
  have "eval fo (schema_dts sc) r e \<noteq> Some True"
    using parquet_prober.canSkip_prober_sound [of e _ "(pf_bloom f (int i), pf_manifest f, sc)"
        "schema_dts sc" "rows i" r fo] e(2) assms(1,3) buildRowGroupStats_group_ok
    by (auto simp: group_promise_def)
  then show ?thesis using e(1) by (auto simp: satisfies_def)
qed

definition selected :: "('r, 'bf) ParquetFile \<Rightarrow> int list option \<Rightarrow> nat list" where
  "selected f rgs =
     (case rgs of None \<Rightarrow> [0..<length (pf_rowGroups f)] | Some is \<Rightarrow> map nat is)"

lemma filter_concat_groups:
  assumes "\<And>i. i \<in> set is \<Longrightarrow> \<not> K i \<Longrightarrow> filter P (rows i) = []"
  shows "filter P (concat (map rows (filter K is))) = filter P (concat (map rows is))"
  using assms by (induction "is") auto

lemma selectRowGroups_rows:
  assumes "file_promise f sc rows"
  shows "filter (satisfies fo (schema_dts sc) filters) (concat (map rows (selected f (selectRowGroups f sc filters)))) =
    filter (satisfies fo (schema_dts sc) filters) (concat (map rows (selected f None)))"
proof (cases "selectRowGroups f sc filters")
  case (Some sv)
  let ?keep = "\<lambda>i. \<not> groupSkipped f sc (referencedFields filters sc (pf_manifest f)) filters i"
  have sv: "selected f (Some sv) = filter ?keep [0..<length (pf_rowGroups f)]"
    using Some by (auto simp: selectRowGroups_def selected_def Let_def comp_def split: if_splits)
  have drop: "filter (satisfies fo (schema_dts sc) filters) (rows i) = []"
    if "i \<in> set [0..<length (pf_rowGroups f)]" "\<not> ?keep i" for i
    using groupSkipped_sound [of f sc rows i] assms that by (auto simp: file_promise_def filter_empty_conv)
  have "filter (satisfies fo (schema_dts sc) filters) (concat (map rows (filter ?keep [0..<length (pf_rowGroups f)]))) =
    filter (satisfies fo (schema_dts sc) filters) (concat (map rows [0..<length (pf_rowGroups f)]))"
    by (rule filter_concat_groups) (rule drop)
  then show ?thesis unfolding Some sv by (simp only: selected_def option.case)
qed simp

text \<open>Pruning is invisible to the engine: the rows of the selected row groups that satisfy
  all filters are, in order, exactly the rows of the whole file that do.\<close>

theorem selectRowGroups_preserves_matches:
  assumes "file_promise f sc rows"
  shows "filter (satisfies fo (schema_dts sc) filters) (concat (map rows (selected f (selectRowGroups f sc filters)))) =
    filter (satisfies fo (schema_dts sc) filters) (concat (map rows [0..<length (pf_rowGroups f)]))"
  using selectRowGroups_rows [OF assms] by (simp add: selected_def)

section \<open>The projected read\<close>

text \<open>Distinct elements in order of first appearance.\<close>

definition first_occs :: "'a list \<Rightarrow> 'a list" where
  "first_occs xs = rev (remdups (rev xs))"

lemma first_occs_simps [simp]:
  "first_occs [] = []"
  "first_occs (xs @ [x]) = (if x \<in> set xs then first_occs xs else first_occs xs @ [x])"
  by (simp_all add: first_occs_def)

lemma set_first_occs [simp]: "set (first_occs xs) = set xs"
  by (simp add: first_occs_def)

lemma distinct_first_occs [simp]: "distinct (first_occs xs)"
  by (simp add: first_occs_def)

lemma length_first_occs: "length (first_occs xs) = length xs \<longleftrightarrow> first_occs xs = xs"
proof
  assume "length (first_occs xs) = length xs"
  then have "distinct (rev xs)"
    by (metis card_distinct first_occs_def length_remdups_card_conv length_rev)
  then show "first_occs xs = xs" by (simp add: first_occs_def distinct_remdups_id)
qed simp

definition leaves_of :: "SchemaField list \<Rightarrow> int list \<Rightarrow> int list" where
  "leaves_of manifest fs = concat (map (\<lambda>i. fieldLeaves (manifest ! nat i)) fs)"

definition plan_inv :: "SchemaField list \<Rightarrow> int list \<Rightarrow> int list \<times> (int \<rightharpoonup> int) \<times> int list \<Rightarrow> bool" where
  "plan_inv manifest seen st \<longleftrightarrow>
     (case st of (readOrder, posInRead, leaves) \<Rightarrow>
        readOrder = first_occs seen \<and> leaves = leaves_of manifest readOrder \<and>
        dom posInRead = set readOrder \<and>
        (\<forall>i p. posInRead i = Some p \<longrightarrow> 0 \<le> p \<and> p < int (length readOrder) \<and> readOrder ! nat p = i))"

lemma planLoop_inv:
  "planLoop manifest ps st = Inr st' \<Longrightarrow> plan_inv manifest seen st \<Longrightarrow>
   plan_inv manifest (seen @ ps) st' \<and> (\<forall>i \<in> set ps. 0 \<le> i \<and> i < int (length manifest))"
proof (induction manifest ps st arbitrary: seen rule: planLoop.induct)
  case (2 manifest idx ps readOrder posInRead leaves)
  from "2.prems"(1) have range: "\<not> (idx < 0 \<or> int (length manifest) \<le> idx)"
    by (auto split: if_splits)
  show ?case
  proof (cases "posInRead idx \<noteq> None")
    case True
    then have "plan_inv manifest (seen @ [idx]) (readOrder, posInRead, leaves)"
      using "2.prems"(2) by (auto simp: plan_inv_def)
    then show ?thesis using "2.IH"(1) [OF range True, of "seen @ [idx]"] "2.prems"(1) range True by simp
  next
    case False
    then have "plan_inv manifest (seen @ [idx])
        (readOrder @ [idx], posInRead(idx \<mapsto> int (length readOrder)),
         leaves @ fieldLeaves (manifest ! nat idx))"
    proof -
      from "2.prems"(2) have inv: "readOrder = first_occs seen" "leaves = leaves_of manifest readOrder"
        "dom posInRead = set readOrder"
        "\<And>i p. posInRead i = Some p \<Longrightarrow> 0 \<le> p \<and> p < int (length readOrder) \<and> readOrder ! nat p = i"
        by (auto simp: plan_inv_def)
      have new: "idx \<notin> set seen" using False inv(1,3) by auto
      have "0 \<le> p \<and> p < int (length (readOrder @ [idx])) \<and> (readOrder @ [idx]) ! nat p = i"
        if "(posInRead(idx \<mapsto> int (length readOrder))) i = Some p" for i p
        using that inv(4) [of i p] by (auto simp: nth_append split: if_splits)
      then show ?thesis using inv(1-3) new by (auto simp: plan_inv_def leaves_of_def)
    qed
    then show ?thesis using "2.IH"(2) [OF range False, of "seen @ [idx]"] "2.prems"(1) range False by simp
  qed
qed simp

section \<open>The cheapest leaf\<close>

lemma leafTotal_fold:
  "fold (cheapestStep groups gs) leaves (best, sz) = (best', sz') \<Longrightarrow>
   sint sz' \<le> sint sz \<and> (\<forall>l \<in> set leaves. sint sz' \<le> sint (leafTotal groups l 0 gs)) \<and>
   (best' = best \<and> sz' = sz \<or> best' \<in> set leaves \<and> sz' = leafTotal groups best' 0 gs)"
proof (induction leaves arbitrary: best sz)
  case (Cons l leaves)
  obtain b1 s1 where step: "cheapestStep groups gs l (best, sz) = (b1, s1)" by fastforce
  then have "sint s1 \<le> sint sz" "sint s1 \<le> sint (leafTotal groups l 0 gs)"
    "b1 = best \<and> s1 = sz \<or> b1 = l \<and> s1 = leafTotal groups l 0 gs"
    by (auto simp: cheapestStep_def Let_def split: if_splits)
  moreover have "fold (cheapestStep groups gs) leaves (b1, s1) = (best', sz')"
    using Cons.prems step by simp
  note Cons.IH [OF this]
  ultimately show ?case by auto
qed simp

lemma max_int64_top: "sint (w :: i64) \<le> sint max_int64"
  using sint_range_64 [of w] by (simp add: max_int64_def)

lemma cheapestLeaf_least:
  fixes rgs :: "int list option"
  assumes "0 < pf_numLeaves f"
    and gs: "gs = (case rgs of None \<Rightarrow> map int [0..<length (pf_rowGroups f)] | Some g \<Rightarrow> g)"
  shows "0 \<le> cheapestLeaf f rgs \<and> cheapestLeaf f rgs < int (pf_numLeaves f)"
    and "\<forall>l < pf_numLeaves f. sint (leafTotal (pf_rowGroups f) (cheapestLeaf f rgs) 0 gs)
      \<le> sint (leafTotal (pf_rowGroups f) (int l) 0 gs)"
proof -
  obtain b s where f: "fold (cheapestStep (pf_rowGroups f) gs) (map int [0..<pf_numLeaves f]) (0, max_int64) = (b, s)"
    by fastforce
  then have b: "cheapestLeaf f rgs = b" by (simp add: cheapestLeaf_def gs)
  note l = leafTotal_fold [OF f]
  show "0 \<le> cheapestLeaf f rgs \<and> cheapestLeaf f rgs < int (pf_numLeaves f)"
    using l b assms(1) by auto
  show "\<forall>l < pf_numLeaves f. sint (leafTotal (pf_rowGroups f) (cheapestLeaf f rgs) 0 gs)
      \<le> sint (leafTotal (pf_rowGroups f) (int l) 0 gs)"
  proof (intro allI impI)
    fix k assume k: "k < pf_numLeaves f"
    then have "sint s \<le> sint (leafTotal (pf_rowGroups f) (int k) 0 gs)" using l by simp
    moreover have "sint (leafTotal (pf_rowGroups f) b 0 gs) \<le> sint s"
      using l max_int64_top by auto
    ultimately show "sint (leafTotal (pf_rowGroups f) (cheapestLeaf f rgs) 0 gs)
      \<le> sint (leafTotal (pf_rowGroups f) (int k) 0 gs)" using b by simp
  qed
qed

text \<open>The count-only scan reads an existing leaf column, and none has fewer compressed bytes
  over the row groups to read (a column with an unreadable chunk counts as the largest).\<close>

theorem cheapestLeaf_minimal:
  assumes "0 < pf_numLeaves f" and "l < pf_numLeaves f"
  shows "0 \<le> cheapestLeaf f (Some gs) \<and> cheapestLeaf f (Some gs) < int (pf_numLeaves f) \<and>
    sint (leafTotal (pf_rowGroups f) (cheapestLeaf f (Some gs)) 0 gs) \<le>
      sint (leafTotal (pf_rowGroups f) (int l) 0 gs)"
  using cheapestLeaf_least [OF assms(1), of gs "Some gs"] assms(2) by simp

definition size_chunk :: "i64 \<Rightarrow> ColumnChunk" where
  "size_chunk n = \<lparr>cc_Statistics = None, cc_TotalCompressedSize = n\<rparr>"

definition sized_file :: "(unit, i64) ParquetFile" where
  "sized_file =
     \<lparr>pf_rowGroups = [\<lparr>rgm_NumRows = 1, rgm_ColumnChunk = (\<lambda>l. if l = 0 then Some (size_chunk 900) else Some (size_chunk 8))\<rparr>],
      pf_numLeaves = 2, pf_manifest = [LeafField 0, LeafField 1], pf_bloom = (\<lambda>_. sample_source),
      pf_GetRecordReader = (\<lambda>_ _. Inl [])\<rparr>"

theorem cheapestLeaf_minimal_witness:
  "sint (leafTotal (pf_rowGroups sized_file) (cheapestLeaf sized_file (Some [0])) 0 [0]) \<le> 8"
  using cheapestLeaf_minimal [of sized_file 1 "[0]"] by (simp add: sized_file_def size_chunk_def)

section \<open>Projections are exact\<close>

text \<open>
  Parquet numbers leaves in schema order. A leaf's root is the field it belongs to;
  \<open>GetRecordReader\<close> yields the fields of the requested leaves once each, in order of
  first appearance.
\<close>

definition manifest_ok :: "('r, 'bf) ParquetFile \<Rightarrow> Schema \<Rightarrow> bool" where
  "manifest_ok f sc \<longleftrightarrow>
     concat (map fieldLeaves (pf_manifest f)) = map int [0..<pf_numLeaves f] \<and>
     0 < pf_numLeaves f \<and>
     (\<forall>m \<in> set (pf_manifest f). fieldLeaves m \<noteq> []) \<and>
     int (length (pf_manifest f)) = NumFields sc"

definition root_of :: "SchemaField list \<Rightarrow> int \<Rightarrow> int option" where
  "root_of manifest leaf =
     map_option int (find (\<lambda>i. leaf \<in> set (fieldLeaves (manifest ! i))) [0..<length manifest])"

definition read_fields :: "('r, 'bf) ParquetFile \<Rightarrow> int list option \<Rightarrow> int list option" where
  "read_fields f leaves =
     (case leaves of
        None \<Rightarrow> Some (map int [0..<length (pf_manifest f)])
      | Some ls \<Rightarrow> map_option first_occs (omap (root_of (pf_manifest f)) ls))"

text \<open>\<open>full rgs\<close>: the batches of the given row groups with every column.\<close>

definition read_promise ::
  "('r, 'bf) ParquetFile \<Rightarrow> Schema \<Rightarrow> (int list option \<Rightarrow> Batch list) \<Rightarrow> bool" where
  "read_promise f sc full \<longleftrightarrow>
     (\<forall>leaves rgs rr fs.
        pf_GetRecordReader f leaves rgs = Inr rr \<and> read_fields f leaves = Some fs \<longrightarrow>
        rd_ok rr \<and> rd_Schema rr = map (\<lambda>i. schema_fields sc ! nat i) fs \<and>
        rd_pending rr = map (project_batch (rd_Schema rr) fs) (full rgs))"

text \<open>The projection a scan was asked for, \<open>None\<close> meaning every column.\<close>

definition wanted :: "Schema \<Rightarrow> int list option \<Rightarrow> int list" where
  "wanted sc projection = (case projection of None \<Rightarrow> map int [0..<length (schema_fields sc)] | Some ps \<Rightarrow> ps)"

definition projected_to :: "Schema \<Rightarrow> int list \<Rightarrow> Batch list \<Rightarrow> RecordReader \<Rightarrow> bool" where
  "projected_to sc ps bs r \<longleftrightarrow>
     rd_ok r \<and> rd_Schema r = map (\<lambda>i. schema_fields sc ! nat i) ps \<and>
     rd_pending r = map (project_batch (rd_Schema r) ps) bs"

lemma concat_nth_disjoint:
  assumes "distinct (concat xss)" "i < length xss" "j < length xss" "x \<in> set (xss ! i)" "x \<in> set (xss ! j)"
  shows "i = j"
  using assms
proof (induction xss arbitrary: i j)
  case (Cons xs xss)
  have "x \<in> set (concat xss)" if "k < length xss" "x \<in> set (xss ! k)" for k
    using that by auto
  with Cons show ?case by (cases i; cases j) auto
qed simp

lemma root_of_field:
  assumes "manifest_ok f sc" "0 \<le> i" "i < int (length (pf_manifest f))"
    "leaf \<in> set (fieldLeaves (pf_manifest f ! nat i))"
  shows "root_of (pf_manifest f) leaf = Some i"
proof -
  let ?m = "pf_manifest f"
  have dist: "distinct (concat (map fieldLeaves ?m))"
    using assms(1) by (simp add: manifest_ok_def distinct_map)
  have "find (\<lambda>k. leaf \<in> set (fieldLeaves (?m ! k))) [0..<length ?m] = Some (nat i)"
    unfolding find_Some_iff
  proof (intro exI conjI allI impI)
    show "nat i < length [0..<length ?m]" "nat i = [0..<length ?m] ! nat i" using assms(2,3) by simp_all
    show "leaf \<in> set (fieldLeaves (?m ! ([0..<length ?m] ! nat i)))" using assms(2-4) by simp
    fix j assume j: "j < nat i"
    have "nat i < length ?m" using assms(2,3) by simp
    with j show "leaf \<notin> set (fieldLeaves (?m ! ([0..<length ?m] ! j)))"
      using concat_nth_disjoint [OF dist, of j "nat i" leaf] assms(2-4) by auto
  qed
  then show ?thesis using assms(2) by (simp add: root_of_def)
qed

lemma first_occs_append_old: "set ys \<subseteq> set xs \<Longrightarrow> first_occs (xs @ ys) = first_occs xs"
proof (induction ys rule: rev_induct)
  case (snoc y ys)
  then show ?case by (simp flip: append_assoc)
qed simp

lemma first_occs_append_const:
  assumes "set ys = {y}"
  shows "first_occs (xs @ ys) = first_occs (xs @ [y])"
proof -
  obtain zs where ys: "ys = y # zs" "set zs \<subseteq> {y}" using assms by (cases ys) auto
  then have "first_occs ((xs @ [y]) @ zs) = first_occs (xs @ [y])"
    by (intro first_occs_append_old) auto
  then show ?thesis using ys by simp
qed

lemma omap_append: "omap f (xs @ ys) = Option.bind (omap f xs) (\<lambda>a. Option.bind (omap f ys) (\<lambda>b. Some (a @ b)))"
proof (induction xs)
  case (Cons x xs)
  then show ?case by (cases "f x"; cases "omap f xs"; cases "omap f ys") auto
qed (cases "omap f ys"; simp)

lemma omap_const: "\<forall>x \<in> set xs. f x = Some y \<Longrightarrow> omap f xs = Some (replicate (length xs) y)"
  by (induction xs) auto

lemma roots_of_leaves:
  assumes ok: "manifest_ok f sc"
  shows "\<forall>i \<in> set fs. 0 \<le> i \<and> i < int (length (pf_manifest f)) \<Longrightarrow>
    \<exists>rs. omap (root_of (pf_manifest f)) (leaves_of (pf_manifest f) fs) = Some rs \<and>
      first_occs rs = first_occs fs \<and> set rs = set fs"
proof (induction fs rule: rev_induct)
  case Nil
  show ?case by (simp add: leaves_of_def)
next
  case (snoc i fs)
  then obtain rs where rs: "omap (root_of (pf_manifest f)) (leaves_of (pf_manifest f) fs) = Some rs"
    "first_occs rs = first_occs fs" "set rs = set fs" by auto
  let ?ls = "fieldLeaves (pf_manifest f ! nat i)"
  have i: "0 \<le> i" "i < int (length (pf_manifest f))" using snoc.prems by auto
  then have "pf_manifest f ! nat i \<in> set (pf_manifest f)" by (intro nth_mem) auto
  then have ne: "?ls \<noteq> []" using ok by (auto simp: manifest_ok_def)
  have "omap (root_of (pf_manifest f)) ?ls = Some (replicate (length ?ls) i)"
    using root_of_field [OF ok i] by (intro omap_const) blast
  moreover have "first_occs (rs @ replicate (length ?ls) i) = first_occs (fs @ [i])"
    using first_occs_append_const [of "replicate (length ?ls) i" i rs] ne rs(2,3) by (simp add: set_replicate_conv_if)
  ultimately show ?case using rs ne by (simp add: leaves_of_def omap_append set_replicate_conv_if)
qed

lemma planLoop_in_range:
  "\<forall>i \<in> set ps. 0 \<le> i \<and> i < int (length manifest) \<Longrightarrow> \<exists>st'. planLoop manifest ps st = Inr st'"
  by (induction manifest ps st rule: planLoop.induct) auto

lemma permuted_map:
  assumes "\<And>k. k < length ps \<Longrightarrow> 0 \<le> perm ! k \<and> perm ! k < int (length fs) \<and> fs ! nat (perm ! k) = ps ! k"
    and "length perm = length ps"
  shows "map (\<lambda>p. map g fs ! nat p) perm = map g ps"
proof (rule nth_equalityI)
  fix k assume "k < length (map (\<lambda>p. map g fs ! nat p) perm)"
  with assms(2) have k: "k < length ps" by simp
  with assms(1) [OF k] have "nat (perm ! k) < length fs" by auto
  then show "map (\<lambda>p. map g fs ! nat p) perm ! k = map g ps ! k" using assms k by simp
qed (simp add: assms(2))

lemma project_project:
  assumes "\<And>k. k < length ps \<Longrightarrow> 0 \<le> perm ! k \<and> perm ! k < int (length fs) \<and> fs ! nat (perm ! k) = ps ! k"
    and "length perm = length ps"
  shows "project_batch sch perm (project_batch sch' fs b) = project_batch sch ps b"
  using permuted_map [OF assms, of "\<lambda>i. b_columns b ! nat i"] by (simp add: project_batch_def)

lemma projectWith_exact:
  assumes "rd_ok r" "rd_Schema r = map (\<lambda>i. schema_fields sc ! nat i) fs"
    and "rd_pending r = map (project_batch (rd_Schema r) fs) bs"
    and perm: "\<And>k. k < length ps \<Longrightarrow> 0 \<le> perm ! k \<and> perm ! k < int (length fs) \<and> fs ! nat (perm ! k) = ps ! k"
      "length perm = length ps"
  shows "\<exists>p. projectWith r perm = Inr p \<and> projected_to sc ps bs p"
proof -
  have "\<forall>i \<in> set perm. 0 \<le> i \<and> i < int (length (rd_Schema r))"
    using perm assms(2) by (auto simp: in_set_conv_nth)
  then obtain p where p: "ProjectReader r perm = Some p" using ProjectReader_total by blast
  note shape = ProjectReader_fields(2) [OF p]
  have "rd_Schema p = map (\<lambda>i. schema_fields sc ! nat i) ps"
    using shape permuted_map [OF perm, of "\<lambda>i. schema_fields sc ! nat i"] assms(2) by simp
  moreover have "rd_pending p = map (project_batch (rd_Schema p) ps) bs"
    using shape project_project [OF perm] assms(3) by (simp add: comp_def)
  ultimately show ?thesis using p shape assms(1) by (auto simp: projectWith_def projected_to_def)
qed

lemma getRecordReader_exact:
  assumes "read_promise f sc full" "read_fields f leaves = Some fs" "getRecordReader f leaves rgs = Inr r"
  shows "rd_ok r" "rd_Schema r = map (\<lambda>i. schema_fields sc ! nat i) fs"
    "rd_pending r = map (project_batch (rd_Schema r) fs) (full rgs)"
proof -
  from assms(3) obtain rr where rr: "pf_GetRecordReader f leaves rgs = Inr rr" "r = ClosingReader rr False 0"
    by (auto simp: getRecordReader_def split: sum.splits)
  with assms(1,2) have "rd_ok rr \<and> rd_Schema rr = map (\<lambda>i. schema_fields sc ! nat i) fs \<and>
      rd_pending rr = map (project_batch (rd_Schema rr) fs) (full rgs)"
    unfolding read_promise_def by blast
  then show "rd_ok r" "rd_Schema r = map (\<lambda>i. schema_fields sc ! nat i) fs"
    "rd_pending r = map (project_batch (rd_Schema r) fs) (full rgs)"
    using rr(2) by simp_all
qed

lemma cheapest_root:
  assumes "manifest_ok f sc"
  shows "\<exists>i. read_fields f (Some [cheapestLeaf f rgs]) = Some [i]"
proof -
  have "0 < pf_numLeaves f" using assms by (simp add: manifest_ok_def)
  from cheapestLeaf_least(1) [OF this refl, of rgs]
  have "cheapestLeaf f rgs \<in> set (map int [0..<pf_numLeaves f])"
    by (auto simp: image_iff intro!: bexI [of _ "nat (cheapestLeaf f rgs)"])
  then have "cheapestLeaf f rgs \<in> set (concat (map fieldLeaves (pf_manifest f)))"
    using assms by (simp only: manifest_ok_def)
  then obtain m where "m \<in> set (pf_manifest f)" "cheapestLeaf f rgs \<in> set (fieldLeaves m)" by auto
  then obtain i where i: "i < length (pf_manifest f)" "cheapestLeaf f rgs \<in> set (fieldLeaves (pf_manifest f ! i))"
    by (metis in_set_conv_nth)
  then have "root_of (pf_manifest f) (cheapestLeaf f rgs) = Some (int i)"
    by (intro root_of_field [OF assms]) simp_all
  then show ?thesis by (simp add: read_fields_def first_occs_def)
qed

text \<open>The two reads a projection leads to; neither projects out of range.\<close>

lemma count_only_read:
  assumes ok: "manifest_ok f sc" "read_promise f sc full"
    and rr: "getRecordReader f (Some [cheapestLeaf f rgs]) rgs = Inr rr"
  shows "\<exists>p. projectWith rr [] = Inr p \<and> projected_to sc [] (full rgs) p"
proof -
  obtain i where i: "read_fields f (Some [cheapestLeaf f rgs]) = Some [i]" using cheapest_root [OF ok(1)] by blast
  show ?thesis using projectWith_exact [OF getRecordReader_exact [OF ok(2) i rr], of "[]" "[]"] by simp
qed

lemma planned_read:
  assumes ok: "manifest_ok f sc" "read_promise f sc full"
    and plan: "planLoop (pf_manifest f) ps ([], Map.empty, []) = Inr (readOrder, posInRead, leaves)"
    and rr: "getRecordReader f (Some leaves) rgs = Inr rr"
  shows "\<exists>p. (if length readOrder \<noteq> length ps
      then projectWith rr (map (\<lambda>idx. case posInRead idx of Some p \<Rightarrow> p | None \<Rightarrow> 0) ps) else Inr rr) = Inr p \<and>
    projected_to sc ps (full rgs) p"
proof -
  have "plan_inv (pf_manifest f) [] ([], Map.empty, [])" by (simp add: plan_inv_def leaves_of_def)
  from planLoop_inv [OF plan this]
  have inv: "plan_inv (pf_manifest f) ps (readOrder, posInRead, leaves)"
    and range: "\<forall>i \<in> set ps. 0 \<le> i \<and> i < int (length (pf_manifest f))"
    by simp_all
  from inv have order: "readOrder = first_occs ps" and lv: "leaves = leaves_of (pf_manifest f) readOrder"
    and dom: "dom posInRead = set ps"
    and pos: "\<And>i p. posInRead i = Some p \<Longrightarrow> 0 \<le> p \<and> p < int (length readOrder) \<and> readOrder ! nat p = i"
    by (auto simp: plan_inv_def)
  have "\<forall>i \<in> set readOrder. 0 \<le> i \<and> i < int (length (pf_manifest f))" using order range by simp
  from roots_of_leaves [OF ok(1) this]
  have fields: "read_fields f (Some leaves) = Some readOrder"
    using order lv by (auto simp: read_fields_def first_occs_def)
  note g = getRecordReader_exact [OF ok(2) fields rr]
  show ?thesis
  proof (cases "length readOrder = length ps")
    case True
    then have "readOrder = ps" using order length_first_occs by metis
    then show ?thesis using g by (simp add: projected_to_def)
  next
    case False
    let ?perm = "map (\<lambda>idx. case posInRead idx of Some p \<Rightarrow> p | None \<Rightarrow> 0) ps"
    have "0 \<le> ?perm ! k \<and> ?perm ! k < int (length readOrder) \<and> readOrder ! nat (?perm ! k) = ps ! k"
      if k: "k < length ps" for k
    proof -
      from k dom obtain p where "posInRead (ps ! k) = Some p" by (metis domD nth_mem)
      then show ?thesis using pos k by simp
    qed
    then have "\<exists>p. projectWith rr ?perm = Inr p \<and> projected_to sc ps (full rgs) p"
      by (intro projectWith_exact [OF g]) simp_all
    then show ?thesis using False by simp
  qed
qed

lemma openProjectedReader_projected:
  assumes ok: "manifest_ok f sc" "read_promise f sc full"
    and r: "openProjectedReader f projection rgs = Inr r"
  shows "projected_to sc (wanted sc projection) (full rgs) r"
proof (cases projection)
  case None
  have "length (pf_manifest f) = length (schema_fields sc)"
    using ok(1) by (simp add: manifest_ok_def NumFields_def)
  then have "read_fields f None = Some (wanted sc None)" by (simp add: read_fields_def wanted_def)
  then show ?thesis
    using getRecordReader_exact [OF ok(2), of None] r None
    by (simp add: openProjectedReader_def projected_to_def)
next
  case (Some ps)
  show ?thesis
  proof (cases "ps = []")
    case True
    then obtain rr where "getRecordReader f (Some [cheapestLeaf f rgs]) rgs = Inr rr" "projectWith rr [] = Inr r"
      using r Some by (auto simp: openProjectedReader_def sbind_eq_Inr)
    with count_only_read [OF ok this(1)] Some True show ?thesis by (simp add: wanted_def)
  next
    case False
    then obtain ro pos ls rr where plan: "planLoop (pf_manifest f) ps ([], Map.empty, []) = Inr (ro, pos, ls)"
      and rr: "getRecordReader f (Some ls) rgs = Inr rr"
      and "(if length ro \<noteq> length ps then projectWith rr (map (\<lambda>idx. case pos idx of Some p \<Rightarrow> p | None \<Rightarrow> 0) ps)
        else Inr rr) = Inr r"
      using r Some by (auto simp: openProjectedReader_def sbind_eq_Inr)
    with planned_read [OF ok plan rr] Some show ?thesis by (simp add: wanted_def)
  qed
qed

text \<open>The library's numbering of leaves keeps the projection from panicking.\<close>

lemma openProjectedReader_no_panic:
  assumes ok: "manifest_ok f sc" "read_promise f sc full"
  shows "openProjectedReader f projection rgs \<noteq> Inl ProjectReaderPanic"
proof (cases projection)
  case None
  then show ?thesis by (auto simp: openProjectedReader_def getRecordReader_def split: sum.splits)
next
  case (Some ps)
  have read: "getRecordReader f ls rgs \<noteq> Inl ProjectReaderPanic" for ls
    by (auto simp: getRecordReader_def split: sum.splits)
  have plan: "planLoop m qs st \<noteq> Inl ProjectReaderPanic" for m qs st
    by (induction m qs st rule: planLoop.induct) auto
  show ?thesis
  proof (cases "ps = []")
    case True
    then show ?thesis using Some read count_only_read [OF ok, of rgs]
      by (cases "getRecordReader f (Some [cheapestLeaf f rgs]) rgs") (fastforce simp: openProjectedReader_def)+
  next
    case False
    show ?thesis
    proof (cases "planLoop (pf_manifest f) ps ([], Map.empty, [])")
      case (Inl e)
      then show ?thesis using False Some plan [of "pf_manifest f" ps "([], Map.empty, [])"] by (auto simp: openProjectedReader_def)
    next
      case (Inr st)
      obtain ro pos lv where st: "st = (ro, pos, lv)" by (cases st)
      show ?thesis using False Some read planned_read [OF ok Inr [unfolded st], of rgs]
        by (cases "getRecordReader f (Some lv) rgs") (fastforce simp: openProjectedReader_def Inr st)+
    qed
  qed
qed

text \<open>A scan's reader has exactly the projected columns in projection order: repeated
  columns are expanded again, none is missing, and the count-only projection gives zero columns
  with the row counts of the selected row groups.\<close>

theorem openProjectedReader_exact:
  assumes "manifest_ok f sc" and "read_promise f sc full"
    and "openProjectedReader f projection rgs = Inr r"
  shows "rd_Schema r = map (\<lambda>i. schema_fields sc ! nat i) (wanted sc projection) \<and>
    rd_pending r = map (project_batch (rd_Schema r) (wanted sc projection)) (full rgs)"
  using openProjectedReader_projected [OF assms] by (simp add: projected_to_def)

section \<open>A whole scan\<close>

text \<open>The rows of a batch, and the promise that ties the batches read to the rows of the groups.\<close>

definition batch_rows :: "Batch \<Rightarrow> row list" where
  "batch_rows b =
     map (\<lambda>j i. if 0 \<le> i \<and> i < int (length (b_columns b)) then b_columns b ! nat i ! j else None)
       [0..<nat (sint (b_numRows b))]"

definition full_promise ::
  "('r, 'bf) ParquetFile \<Rightarrow> (nat \<Rightarrow> row list) \<Rightarrow> (int list option \<Rightarrow> Batch list) \<Rightarrow> bool" where
  "full_promise f rows full \<longleftrightarrow>
     (\<forall>rgs. concat (map batch_rows (full rgs)) = concat (map rows (selected f rgs)))"

lemma emptyProjected:
  assumes "emptyProjectedReader sc projection = Inr r"
  shows "projected_to sc (wanted sc projection) [] r"
proof -
  have "fs = map (\<lambda>i. schema_fields sc ! nat i) ps"
    if "smap (\<lambda>idx. if idx < 0 \<or> NumFields sc \<le> idx then Inl (ProjectionOutOfRange idx)
          else Inr (schema_fields sc ! nat idx)) ps = Inr fs" for ps fs
    using that by (induction ps arbitrary: fs) (auto simp: sbind_eq_Inr split: if_splits)
  moreover have "schema_fields sc = map (\<lambda>i. schema_fields sc ! nat i) (map int [0..<length (schema_fields sc)])"
    by (simp add: comp_def map_nth)
  ultimately show ?thesis
    using assms by (cases projection) (auto simp: emptyProjectedReader_def projected_to_def wanted_def sbind_eq_Inr)
qed

lemma ScanWithOptions_source:
  assumes "file_promise f sc rows" and "manifest_ok f sc" and "read_promise f sc full"
    and "full_promise f rows full"
    and "ScanWithOptions sc (Opened f) (Some opts) = (Inr r, k)" and "sint (so_limit opts) < 0"
  shows "\<exists>bs. projected_to sc (wanted sc (so_projection opts)) bs r \<and> (bs = [] \<or> (\<exists>rgs. bs = full rgs)) \<and>
    filter (satisfies fo (schema_dts sc) (so_filters opts)) (concat (map batch_rows bs)) =
    filter (satisfies fo (schema_dts sc) (so_filters opts)) (concat (map rows [0..<length (pf_rowGroups f)]))"
proof -
  let ?rgs = "selectRowGroups f sc (so_filters opts)"
  have same: "filter (satisfies fo (schema_dts sc) (so_filters opts)) (concat (map rows (selected f ?rgs))) =
      filter (satisfies fo (schema_dts sc) (so_filters opts)) (concat (map rows [0..<length (pf_rowGroups f)]))"
    using selectRowGroups_rows [OF assms(1)] by (simp add: selected_def)
  show ?thesis
  proof (cases "?rgs = Some []")
    case True
    then have "projected_to sc (wanted sc (so_projection opts)) [] r"
      using assms(5) emptyProjected by (simp add: ScanWithOptions_def)
    moreover have "selected f ?rgs = []" using True by (simp add: selected_def)
    ultimately show ?thesis using same by (intro exI [of _ "[]"]) simp
  next
    case False
    then have "openProjectedReader f (so_projection opts) ?rgs = Inr r"
      using assms(5,6) by (auto simp: ScanWithOptions_def Let_def split: sum.splits if_splits)
    from openProjectedReader_projected [OF assms(2,3) this]
    show ?thesis using same assms(4) unfolding full_promise_def
      by (intro exI [of _ "full ?rgs"]) auto
  qed
qed

lemma ScanWithOptions_keeps:
  assumes "file_promise f sc rows" and "manifest_ok f sc" and "read_promise f sc full"
    and "full_promise f rows full"
    and "ScanWithOptions sc (Opened f) (Some opts) = (Inr r, k)" and "sint (so_limit opts) < 0"
  shows "\<exists>bs. rd_Schema r = map (\<lambda>i. schema_fields sc ! nat i) (wanted sc (so_projection opts)) \<and>
    rd_pending r = map (project_batch (rd_Schema r) (wanted sc (so_projection opts))) bs \<and>
    filter (satisfies fo (schema_dts sc) (so_filters opts)) (concat (map batch_rows bs)) =
    filter (satisfies fo (schema_dts sc) (so_filters opts)) (concat (map rows [0..<length (pf_rowGroups f)]))"
  using ScanWithOptions_source [OF assms, of fo] unfolding projected_to_def by blast

text \<open>C8: A scan without a limit hint returns exactly the projected columns of batches among
  whose rows those satisfying every pushed filter are the matching rows of the whole file, in
  order: with the engine re-applying the filters, results are the same with and without pruning. The
  file's statistics bound a column on both sides where they bound it and count its nulls exactly, its
  bloom filters have no false negatives, and no cell of the file is a NaN.\<close>

theorem ScanWithOptions_complete:
  assumes "file_promise f sc rows" and "manifest_ok f sc" and "read_promise f sc full"
    and "full_promise f rows full"
    and "ScanWithOptions sc (Opened f) (Some opts) = (Inr r, k)" and "sint (so_limit opts) < 0"
  shows "\<exists>bs. rd_Schema r = map (\<lambda>i. schema_fields sc ! nat i) (wanted sc (so_projection opts)) \<and>
    rd_pending r = map (project_batch (rd_Schema r) (wanted sc (so_projection opts))) bs \<and>
    filter (satisfies fo (schema_dts sc) (so_filters opts)) (concat (map batch_rows bs)) =
    filter (satisfies fo (schema_dts sc) (so_filters opts)) (concat (map rows [0..<length (pf_rowGroups f)]))"
  using assms by (rule ScanWithOptions_keeps)

section \<open>The file is closed\<close>

text \<open>
  Every outcome closes the file exactly once in all: a failed or empty scan closes it
  itself, a successful one leaves that to the reader it returns. \<open>file_closes\<close> counts the calls of
  \<open>Close\<close> that closing readers made; a limit reader stops without reading on.
\<close>

fun file_closes :: "RecordReader \<Rightarrow> nat" where
  "file_closes (LibReader fs bs cur e n) = 0"
| "file_closes (ClosingReader r cl k) = k + file_closes r"
| "file_closes (ProjectedReader r fs idx cur) = file_closes r"
| "file_closes (LimitReader r m) = file_closes r"
| "file_closes (StrippingReader r fs first cur m) = file_closes r"

fun no_closer :: "RecordReader \<Rightarrow> bool" where
  "no_closer (LibReader fs bs cur e n) \<longleftrightarrow> True"
| "no_closer (ClosingReader r cl k) \<longleftrightarrow> False"
| "no_closer (ProjectedReader r fs idx cur) \<longleftrightarrow> no_closer r"
| "no_closer (LimitReader r m) \<longleftrightarrow> no_closer r"
| "no_closer (StrippingReader r fs first cur m) \<longleftrightarrow> no_closer r"

fun one_closer :: "RecordReader \<Rightarrow> bool" where
  "one_closer (LibReader fs bs cur e n) \<longleftrightarrow> False"
| "one_closer (ClosingReader r cl k) \<longleftrightarrow> no_closer r \<and> k = (if cl then 1 else 0)"
| "one_closer (ProjectedReader r fs idx cur) \<longleftrightarrow> one_closer r"
| "one_closer (LimitReader r m) \<longleftrightarrow> one_closer r"
| "one_closer (StrippingReader r fs first cur m) \<longleftrightarrow> one_closer r"

fun unlimited :: "RecordReader \<Rightarrow> bool" where
  "unlimited (LibReader fs bs cur e n) \<longleftrightarrow> True"
| "unlimited (ClosingReader r cl k) \<longleftrightarrow> unlimited r"
| "unlimited (ProjectedReader r fs idx cur) \<longleftrightarrow> unlimited r"
| "unlimited (LimitReader r m) \<longleftrightarrow> False"
| "unlimited (StrippingReader r fs first cur m) \<longleftrightarrow> unlimited r"

lemma no_closer_closes: "no_closer r \<Longrightarrow> file_closes r = 0"
  by (induction r) auto

lemma one_closer_closes: "one_closer r \<Longrightarrow> file_closes r \<le> 1"
  by (induction r) (auto simp: no_closer_closes)

lemma no_closer_Next: "no_closer r \<Longrightarrow> no_closer (snd (rd_Next r))"
proof (induction r)
  case (LibReader fs bs cur e n)
  then show ?case by (cases bs) auto
qed (auto split: prod.splits bool.splits option.splits)

lemma no_closer_Release: "no_closer r \<Longrightarrow> no_closer (rd_Release r)"
  by (induction r) auto

lemma one_closer_Next:
  "one_closer r \<Longrightarrow> one_closer (snd (rd_Next r)) \<and> file_closes r \<le> file_closes (snd (rd_Next r)) \<and>
     (unlimited r \<longrightarrow> \<not> fst (rd_Next r) \<longrightarrow> file_closes (snd (rd_Next r)) = 1)"
proof (induction r)
  case (ClosingReader r cl k)
  then have "no_closer (snd (rd_Next r))" by (simp add: no_closer_Next)
  with ClosingReader.prems show ?case
    by (auto simp: close_once_def no_closer_closes split: prod.splits bool.splits)
qed (auto split: prod.splits bool.splits option.splits)

lemma one_closer_Release: "one_closer r \<Longrightarrow> one_closer (rd_Release r) \<and> file_closes (rd_Release r) = 1"
  by (induction r) (auto simp: close_once_def no_closer_closes no_closer_Release)

lemma unlimited_step: "reader_step r r' \<Longrightarrow> unlimited r \<Longrightarrow> unlimited r'"
proof (induction rule: reader_step.induct)
  case (step_next r ok r')
  have "unlimited r \<Longrightarrow> unlimited (snd (rd_Next r))" for r
  proof (induction r)
    case (LibReader fs bs cur e n)
    then show ?case by (cases bs) auto
  qed (auto simp: close_once_def split: prod.splits bool.splits option.splits)
  from this [OF step_next(2)] step_next(1) show ?case by simp
next
  case (step_release r)
  then show ?case by (induction r) (auto simp: close_once_def)
qed

lemma closer_step:
  "reader_step r r' \<Longrightarrow> one_closer r \<Longrightarrow> one_closer r' \<and> file_closes r \<le> file_closes r'"
proof (induction rule: reader_step.induct)
  case (step_next r ok r')
  then show ?case using one_closer_Next [of r] by simp
next
  case (step_release r)
  then show ?case using one_closer_Release [of r] one_closer_closes [of r] by simp
qed

lemma closer_steps:
  "reader_step\<^sup>*\<^sup>* r s \<Longrightarrow> one_closer r \<Longrightarrow> one_closer s \<and> file_closes r \<le> file_closes s \<and> (unlimited r \<longrightarrow> unlimited s)"
proof (induction rule: rtranclp_induct)
  case (step y z)
  then show ?case using closer_step [OF step(2)] unlimited_step [OF step(2)] by auto
qed simp

lemma stays_closed: "reader_step\<^sup>*\<^sup>* r s \<Longrightarrow> one_closer r \<Longrightarrow> file_closes r = 1 \<Longrightarrow> file_closes s = 1"
  using closer_steps [of r s] one_closer_closes [of s] by auto

lemma no_closer_steps: "reader_step\<^sup>*\<^sup>* r s \<Longrightarrow> no_closer r \<Longrightarrow> no_closer s"
proof (induction rule: rtranclp_induct)
  case (step y z)
  from step(2) step(3) [OF step(4)] show ?case
    by (induction rule: reader_step.induct) (auto intro: no_closer_Release dest: no_closer_Next)
qed simp

lemma projectWith_closers:
  "projectWith r perm = Inr p \<Longrightarrow> one_closer p = one_closer r \<and> unlimited p = unlimited r"
  by (auto simp: projectWith_def dest: ProjectReader_fields(2) split: option.splits)

lemma openProjectedReader_closers:
  assumes "openProjectedReader f projection rgs = Inr r"
    and "\<And>ls rr. pf_GetRecordReader f ls rgs = Inr rr \<Longrightarrow> no_closer rr \<and> unlimited rr"
  shows "one_closer r \<and> unlimited r"
proof -
  have g: "one_closer rr \<and> unlimited rr" if "getRecordReader f ls rgs = Inr rr" for ls rr
    using that assms(2) by (auto simp: getRecordReader_def split: sum.splits)
  show ?thesis
    using assms(1) g
    by (auto simp: openProjectedReader_def sbind_eq_Inr dest!: projectWith_closers
        split: option.splits if_splits)
qed

lemma emptyProjected_closers: "emptyProjectedReader sc projection = Inr r \<Longrightarrow> no_closer r"
  by (auto simp: emptyProjectedReader_def sbind_eq_Inr)

lemma emptyProjected_no_panic: "emptyProjectedReader sc projection \<noteq> Inl ProjectReaderPanic"
proof -
  have "smap (\<lambda>idx. if idx < 0 \<or> NumFields sc \<le> idx then Inl (ProjectionOutOfRange idx)
      else Inr (schema_fields sc ! nat idx)) ps \<noteq> Inl ProjectReaderPanic" for ps
    by (induction ps) (auto simp: sbind_def split: sum.splits)
  then show ?thesis by (auto simp: emptyProjectedReader_def sbind_def split: option.splits sum.splits)
qed

text \<open>C27: A scan of an opened file closes it exactly once in all, and never leaves it open by a panic.
  A scan that fails, or selects no row group, closes it itself and returns a reader that closes
  nothing. Otherwise, whatever the caller does with the returned reader, the file is closed at most
  once; once the reader is released, or, without a limit hint, once a call of Next returned false, it
  has been closed and is not closed again. The file's leaves are numbered in schema order and the
  library's readers have the fields of the leaves asked for.\<close>

theorem ScanWithOptions_closes_file:
  assumes "ScanWithOptions sc (Opened f) (Some opts) = (res, k)"
    and "manifest_ok f sc" and "read_promise f sc full"
    and "\<And>ls rgs rr. pf_GetRecordReader f ls rgs = Inr rr \<Longrightarrow> no_closer rr \<and> unlimited rr"
  shows "(\<forall>e. res = Inl e \<longrightarrow> e \<noteq> ProjectReaderPanic \<and> k = 1) \<and>
    (\<forall>r s. res = Inr r \<and> reader_step\<^sup>*\<^sup>* r s \<longrightarrow>
       k + file_closes s \<le> 1 \<and>
       (\<forall>t. reader_step\<^sup>*\<^sup>* (rd_Release s) t \<longrightarrow> k + file_closes t = 1) \<and>
       (\<forall>t. sint (so_limit opts) < 0 \<and> \<not> fst (rd_Next s) \<and> reader_step\<^sup>*\<^sup>* (snd (rd_Next s)) t \<longrightarrow> k + file_closes t = 1))"
proof (cases "selectRowGroups f sc (so_filters opts) = Some []")
  case True
  then have res: "res = emptyProjectedReader sc (so_projection opts)" "k = 1"
    using assms(1) by (auto simp: ScanWithOptions_def)
  have none: "file_closes t = 0" if "res = Inr r" "reader_step\<^sup>*\<^sup>* r t" for r t
    using emptyProjected_closers [of sc "so_projection opts" r] no_closer_steps [OF that(2)] no_closer_closes [of t]
      that(1) res(1) by simp
  have on: "reader_step\<^sup>*\<^sup>* r t" if "reader_step\<^sup>*\<^sup>* r s" "reader_step\<^sup>*\<^sup>* (rd_Release s) t \<or> reader_step\<^sup>*\<^sup>* (snd (rd_Next s)) t" for r s t
    using that step_release [of s] step_next [of s "fst (rd_Next s)" "snd (rd_Next s)"]
    by (auto intro: rtranclp_trans converse_rtranclp_into_rtranclp)
  show ?thesis
    using res emptyProjected_no_panic [of sc "so_projection opts"] none on by (auto simp: res(2))
next
  case False
  show ?thesis
  proof (cases "openProjectedReader f (so_projection opts) (selectRowGroups f sc (so_filters opts))")
    case (Inl e)
    have "res = Inl e \<and> k = (if e = ProjectReaderPanic then 0 else 1)"
      using assms(1) False by (simp add: ScanWithOptions_def Let_def Inl split: if_splits)
    then show ?thesis using openProjectedReader_no_panic [OF assms(2,3)] Inl by auto
  next
    case (Inr r)
    have res: "res = Inr (if 0 \<le> sint (so_limit opts) then LimitReader r (so_limit opts) else r) \<and> k = 0"
      using assms(1) False by (simp add: ScanWithOptions_def Let_def Inr split: if_splits)
    have "one_closer r \<and> unlimited r" using openProjectedReader_closers [OF Inr] assms(4) by blast
    then have start: "one_closer r' \<and> (sint (so_limit opts) < 0 \<longrightarrow> unlimited r')" if "res = Inr r'" for r'
      using res that by auto
    have "file_closes s \<le> 1 \<and> (\<forall>t. reader_step\<^sup>*\<^sup>* (rd_Release s) t \<longrightarrow> file_closes t = 1) \<and>
        (\<forall>t. sint (so_limit opts) < 0 \<and> \<not> fst (rd_Next s) \<and> reader_step\<^sup>*\<^sup>* (snd (rd_Next s)) t \<longrightarrow> file_closes t = 1)"
      if "res = Inr r'" "reader_step\<^sup>*\<^sup>* r' s" for r' s
    proof -
      have s: "one_closer s" "sint (so_limit opts) < 0 \<Longrightarrow> unlimited s"
        using closer_steps [OF that(2)] start [OF that(1)] by auto
      show ?thesis
        using s one_closer_closes [OF s(1)] one_closer_Release [OF s(1)] one_closer_Next [OF s(1)] stays_closed by blast
    qed
    with res show ?thesis by simp
  qed
qed

section \<open>A concrete file\<close>

text \<open>A library whose reader keeps the promise, over any base file and batches.\<close>

definition lib_file ::
  "('r, 'bf) ParquetFile \<Rightarrow> Schema \<Rightarrow> (int list option \<Rightarrow> Batch list) \<Rightarrow> ('r, 'bf) ParquetFile" where
  "lib_file base sc full =
     base\<lparr>pf_GetRecordReader := (\<lambda>leaves rgs.
       case read_fields base leaves of
         None \<Rightarrow> Inl []
       | Some fs \<Rightarrow>
           Inr (LibReader (map (\<lambda>i. schema_fields sc ! nat i) fs)
             (map (project_batch (map (\<lambda>i. schema_fields sc ! nat i) fs) fs) (full rgs)) None None 1))\<rparr>"

lemma lib_file_promise:
  assumes "\<And>rgs. list_all batch_ok (full rgs)"
  shows "read_promise (lib_file base sc full) sc full"
  using assms
  by (auto simp: read_promise_def lib_file_def read_fields_def list_all_iff split: option.splits)

definition row_of :: "cell option \<Rightarrow> row" where
  "row_of v = (\<lambda>i. if i = 0 then v else None)"

definition demo_cells :: "nat \<Rightarrow> cell option list" where
  "demo_cells g = (if g = 0 then [Some (IntCell 1), Some (IntCell 2)]
     else if g = 1 then [Some (IntCell 7), None] else [])"

definition demo_rows :: "nat \<Rightarrow> row list" where
  "demo_rows g = map row_of (demo_cells g)"

definition demo_batch :: "nat \<Rightarrow> Batch" where
  "demo_batch g = \<lparr>b_fields = [int64_field], b_columns = [demo_cells g], b_numRows = of_nat (length (demo_cells g))\<rparr>"

definition demo_full :: "int list option \<Rightarrow> Batch list" where
  "demo_full rgs = map demo_batch (case rgs of None \<Rightarrow> [0, 1] | Some is \<Rightarrow> map nat is)"

definition demo_group :: "i64 \<Rightarrow> i64 \<Rightarrow> RowGroupMeta" where
  "demo_group mn mx = \<lparr>rgm_NumRows = 2, rgm_ColumnChunk = (\<lambda>l. if l = 0 then
     Some \<lparr>cc_Statistics = Some \<lparr>ts_HasNullCount = True, ts_NullCount = 0, ts_HasMinMax = True,
       ts_bounds = Int64Statistics mn mx\<rparr>, cc_TotalCompressedSize = 100\<rparr> else None)\<rparr>"

definition demo_base :: "(unit, i64) ParquetFile" where
  "demo_base = \<lparr>pf_rowGroups = [demo_group 1 2, demo_group 7 7], pf_numLeaves = 1,
     pf_manifest = [LeafField 0],
     pf_bloom = (\<lambda>_. \<lparr>open_rg = None, get_filter = (\<lambda>_ _. None), check = (\<lambda>_ _. True)\<rparr>),
     pf_GetRecordReader = (\<lambda>_ _. Inl [])\<rparr>"

definition demo_file :: "(unit, i64) ParquetFile" where
  "demo_file = lib_file demo_base sample_schema demo_full"

lemma demo_file_sel [simp]:
  "pf_rowGroups demo_file = [demo_group 1 2, demo_group 7 7]" "pf_numLeaves demo_file = 1"
  "pf_manifest demo_file = [LeafField 0]" "pf_bloom demo_file i = pf_bloom demo_base i"
  by (simp_all add: demo_file_def lib_file_def demo_base_def)

lemma demo_cells_simps [simp]:
  "demo_cells 0 = [Some (IntCell 1), Some (IntCell 2)]" "demo_cells (Suc 0) = [Some (IntCell 7), None]"
  "demo_cells (Suc (Suc n)) = []"
  by (simp_all add: demo_cells_def)

lemma demo_schema: "schema_dts sample_schema i = (if i = 0 then Int64DT else OtherDT [])"
  by (auto simp: schema_dts_def sample_schema_def NumFields_def int64_field_def)

lemma demo_promises:
  "file_promise demo_file sample_schema demo_rows" "manifest_ok demo_file sample_schema"
  "read_promise demo_file sample_schema demo_full" "full_promise demo_file demo_rows demo_full"
proof -
  have "group_promise demo_file sample_schema demo_rows i" if "i < 2" for i
    using that
    by (auto simp: less_2_cases_iff group_promise_def meta_ok_def bloom_ok_def rows_ok_def rows_no_nan_def
        demo_rows_def row_of_def demo_group_def typed_ok_def null_count_def bounds_physical_def
        demo_schema physical_def phys_le_def cell_ok_def cell_nan_def source_filter_def demo_base_def
        split: if_splits)
  then show "file_promise demo_file sample_schema demo_rows" by (simp add: file_promise_def numeral_2_eq_2)
  show "manifest_ok demo_file sample_schema"
    by (simp add: manifest_ok_def NumFields_def sample_schema_def)
  have small: "length (demo_cells g) \<le> 2" for g by (simp add: demo_cells_def)
  have rows: "sint (of_nat (length (demo_cells g)) :: i64) = int (length (demo_cells g))" for g
    by (simp add: demo_cells_def)
  show "read_promise demo_file sample_schema demo_full"
    unfolding demo_file_def
    by (rule lib_file_promise) (simp add: demo_full_def demo_batch_def batch_ok_def rows list_all_iff)
  have "batch_rows (demo_batch g) = demo_rows g" for g
    by (auto simp: batch_rows_def demo_batch_def demo_rows_def rows row_of_def fun_eq_iff intro!: nth_equalityI)
  then show "full_promise demo_file demo_rows demo_full"
    by (auto simp: full_promise_def demo_full_def selected_def comp_def split: option.splits)
qed

definition demo_filter :: Expr where
  "demo_filter = Compare col0 CompareGt (int64_lit 5)"

definition demo_opts :: ScanOptions where
  "demo_opts = \<lparr>so_projection = Some [0, 0], so_filters = [demo_filter], so_limit = - 1\<rparr>"

text \<open>The first group (1, 2) is skipped for \<open>x > 5\<close>.\<close>

lemma demo_select: "selectRowGroups demo_file sample_schema [demo_filter] = Some [1]"
proof -
  have refs: "referencedFields [demo_filter] sample_schema [LeafField 0] = {0}"
    by (simp add: referencedFields_def demo_filter_def addCol_def col0_def NumFields_def sample_schema_def
        int64_field_def)
  have stats: "rg_cols (buildRowGroupStats (demo_group mn mx) [LeafField 0] sample_schema {0}) 0 =
      (if sint mn \<le> sint mx then Some \<lparr>cs_dtype = Some Int64DT, cs_hasMinMax = True, cs_min = intVal mn,
        cs_max = intVal mx, cs_hasNullCount = False, cs_nullCount = 0\<rparr> else None)" for mn mx
    by (simp add: buildRowGroupStats_def fieldStats_def demo_group_def NumFields_def sample_schema_def
        int64_field_def colStatsFromTyped_def statsMinMax_def Let_def isNaN_def cmpVal_le)
      (simp add: statVal_defs)
  have bloom: "absent_spec (pf_bloom demo_base i) [LeafField 0] sample_schema j l = False" for i j l
    by (simp add: absent_spec_answer absent_answer_def source_filter_def demo_base_def split: option.splits)
  have skip: "canSkip demo_filter (buildRowGroupStats (demo_group mn mx) [LeafField 0] sample_schema {0})
      (Some (absent_spec (pf_bloom demo_base i) [LeafField 0] sample_schema)) = (sint mx \<le> 5)"
    if "sint mn \<le> sint mx" for mn mx i
    using that
    by (simp add: demo_filter_def canSkipCompare_def col0_def stats provablyAllNull_def usableRange_def
        literalValue_def int64_lit_def signedLiteral_def rangeExcludes_def isNaN_def statVal_defs
        cmpVal_def)
  show ?thesis
    by (simp add: selectRowGroups_def groupSkipped_def refs Let_def skip numeral_2_eq_2)
qed

theorem selectRowGroups_preserves_matches_witness:
  "selected demo_file (selectRowGroups demo_file sample_schema [demo_filter]) = [1] \<and>
   filter (satisfies (\<lambda>_ _. None) (schema_dts sample_schema) [demo_filter]) (demo_rows 1) =
   filter (satisfies (\<lambda>_ _. None) (schema_dts sample_schema) [demo_filter]) (demo_rows 0 @ demo_rows 1)"
  using selectRowGroups_preserves_matches [OF demo_promises(1), of "\<lambda>_ _. None" "[demo_filter]"]
  by (simp add: demo_select selected_def numeral_2_eq_2)

lemma demo_open:
  "openProjectedReader demo_file (Some [0, 0]) (Some [1]) =
     Inr (ProjectedReader (ClosingReader (LibReader [int64_field]
       [project_batch [int64_field] [0] (demo_batch 1)] None None 1) False 0) [int64_field, int64_field] [0, 0] None)"
proof -
  have fields: "read_fields demo_base (Some [0]) = Some [0]"
    by (simp add: read_fields_def root_of_def demo_base_def first_occs_def)
  have "pf_GetRecordReader demo_file (Some [0]) (Some [1]) =
      Inr (LibReader [int64_field] [project_batch [int64_field] [0] (demo_batch 1)] None None 1)"
    by (simp add: demo_file_def lib_file_def fields sample_schema_def demo_full_def)
  then have "getRecordReader demo_file (Some [0]) (Some [1]) =
      Inr (ClosingReader (LibReader [int64_field] [project_batch [int64_field] [0] (demo_batch 1)] None None 1) False 0)"
    by (simp add: getRecordReader_def)
  then show ?thesis by (simp add: openProjectedReader_def projectWith_def ProjectReader_def)
qed

theorem openProjectedReader_exact_witness:
  "\<exists>r. openProjectedReader demo_file (Some [0, 0]) (Some [1]) = Inr r \<and>
     rd_Schema r = [int64_field, int64_field] \<and>
     rd_pending r = [project_batch [int64_field, int64_field] [0, 0] (demo_batch 1)]"
  using openProjectedReader_exact [OF demo_promises(2,3) demo_open]
  by (simp add: demo_open wanted_def sample_schema_def demo_full_def)

lemma demo_scan:
  "ScanWithOptions sample_schema (Opened demo_file) (Some demo_opts) =
     (Inr (ProjectedReader (ClosingReader (LibReader [int64_field]
       [project_batch [int64_field] [0] (demo_batch 1)] None None 1) False 0) [int64_field, int64_field] [0, 0] None), 0)"
  by (simp add: ScanWithOptions_def demo_opts_def demo_select demo_open)

theorem ScanWithOptions_complete_witness:
  "\<exists>r k bs. ScanWithOptions sample_schema (Opened demo_file) (Some demo_opts) = (Inr r, k) \<and>
     rd_pending r = map (project_batch [int64_field, int64_field] [0, 0]) bs \<and>
     filter (satisfies (\<lambda>_ _. None) (schema_dts sample_schema) [demo_filter]) (concat (map batch_rows bs)) =
     filter (satisfies (\<lambda>_ _. None) (schema_dts sample_schema) [demo_filter]) (demo_rows 0 @ demo_rows 1)"
proof -
  have limit: "sint (so_limit demo_opts) < 0" by (simp add: demo_opts_def)
  have two: "concat (map demo_rows [0..<length (pf_rowGroups demo_file)]) = demo_rows 0 @ demo_rows 1"
    by (simp add: numeral_2_eq_2)
  have opts: "so_projection demo_opts = Some [0, 0]" "so_filters demo_opts = [demo_filter]"
    by (simp_all add: demo_opts_def)
  from ScanWithOptions_complete [OF demo_promises demo_scan limit, of "\<lambda>_ _. None", unfolded two opts]
  show ?thesis unfolding demo_scan by (simp add: wanted_def sample_schema_def)
qed

theorem ScanWithOptions_closes_file_witness:
  "\<exists>r. ScanWithOptions sample_schema (Opened demo_file) (Some demo_opts) = (Inr r, 0) \<and>
     file_closes r = 0 \<and> file_closes (rd_Release (rd_Release r)) = 1"
proof -
  have lib: "no_closer rr \<and> unlimited rr" if "pf_GetRecordReader demo_file ls rgs = Inr rr" for ls rgs rr
    using that by (auto simp: demo_file_def lib_file_def split: option.splits)
  obtain r where r: "ScanWithOptions sample_schema (Opened demo_file) (Some demo_opts) = (Inr r, 0)" "file_closes r = 0"
    using demo_scan by auto
  have "reader_step\<^sup>*\<^sup>* (rd_Release r) (rd_Release (rd_Release r))" by (auto intro: step_release)
  with ScanWithOptions_closes_file [OF r(1) demo_promises(2,3), THEN conjunct2, rule_format, of r r] lib have "file_closes (rd_Release (rd_Release r)) = 1"
    by simp
  with r show ?thesis by blast
qed

end
