(* ===== verification/Slash_Paths.thy ===== *)
theory Slash_Paths
  imports Prelude
begin

text \<open>
  \<open>path/filepath\<close> on slash-separated paths, as \<open>objectstore/local.go\<close> and
  \<open>providers/iceberg/iceberg.go\<close> use it, and how \<open>os.CreateTemp\<close> forms a name.
\<close>

section \<open>Clean, Dir and Base\<close>

fun split_slash :: "string \<Rightarrow> string list" where
  "split_slash [] = [[]]"
| "split_slash (c # cs) =
     (if c = CHR ''/'' then [] # split_slash cs
      else (case split_slash cs of [] \<Rightarrow> [[c]] | x # xs \<Rightarrow> (c # x) # xs))"

fun join_slash :: "string list \<Rightarrow> string" where
  "join_slash [] = []"
| "join_slash [x] = x"
| "join_slash (x # xs) = x @ [CHR ''/''] @ join_slash xs"

text \<open>What follows the last slash, and what it ends.\<close>

definition after_slash :: "string \<Rightarrow> string" where
  "after_slash p = rev (takeWhile (\<lambda>c. c \<noteq> CHR ''/'') (rev p))"

definition before_base :: "string \<Rightarrow> string" where
  "before_base p = rev (dropWhile (\<lambda>c. c \<noteq> CHR ''/'') (rev p))"

text \<open>\<open>Clean\<close>'s elements, last first: empty ones and dots are dropped, two dots go back where they can.\<close>

definition clean_step :: "bool \<Rightarrow> string \<Rightarrow> string list \<Rightarrow> string list" where
  "clean_step rooted e out =
     (if e = [] \<or> e = ''.'' then out
      else if e = ''..'' then
        (case out of
           [] \<Rightarrow> if rooted then [] else [''..'']
         | x # rest \<Rightarrow> if x = ''..'' then ''..'' # out else rest)
      else e # out)"

definition Clean :: "string \<Rightarrow> string" where
  "Clean p =
     (let rooted = (take 1 p = ''/'');
          es = rev (fold (clean_step rooted) (split_slash p) [])
      in if es = [] then (if rooted then ''/'' else ''.'') else (if rooted then ''/'' else []) @ join_slash es)"

definition Dir :: "string \<Rightarrow> string" where
  "Dir p = Clean (before_base p)"

definition Base :: "string \<Rightarrow> string" where
  "Base p =
     (if p = [] then ''.''
      else
        (let q = rev (dropWhile (\<lambda>c. c = CHR ''/'') (rev p))
         in if q = [] then ''/'' else after_slash q))"

text \<open>
  \<open>CreateTemp\<close> joins the directory, the pattern up to its star and a random part; a pattern with a
  slash is an error.
\<close>

definition CreateTemp_name :: "string \<Rightarrow> string \<Rightarrow> string \<Rightarrow> string option" where
  "CreateTemp_name dir prefix r =
     (if CHR ''/'' \<in> set prefix \<or> CHR ''/'' \<in> set r then None
      else Some ((if dir \<noteq> [] \<and> last dir = CHR ''/'' then dir else dir @ ''/'') @ prefix @ r))"

lemmas path_simps = Dir_def before_base_def Clean_def clean_step_def Base_def after_slash_def CreateTemp_name_def

lemma Base_no_slash: "Base p \<noteq> ''/'' \<Longrightarrow> CHR ''/'' \<notin> set (Base p)"
  by (auto simp: Base_def after_slash_def Let_def dest: set_takeWhileD split: if_splits)

lemma Base_after_slash:
  assumes "b \<noteq> []" "CHR ''/'' \<notin> set b"
  shows "Base (d @ ''/'' @ b) = b"
proof -
  have "hd (rev b) \<noteq> CHR ''/''" using assms by (metis hd_in_set rev_is_Nil_conv set_rev)
  then have "dropWhile (\<lambda>c. c = CHR ''/'') (rev b @ CHR ''/'' # rev d) = rev b @ CHR ''/'' # rev d"
    using assms(1) by (cases "rev b") auto
  moreover have "takeWhile (\<lambda>c. c \<noteq> CHR ''/'') (rev b @ CHR ''/'' # rev d) = rev b"
    using assms(2) by (subst takeWhile_append2) auto
  ultimately show ?thesis by (simp add: Base_def after_slash_def Let_def)
qed

lemma CreateTemp_base:
  assumes "CreateTemp_name dir prefix r = Some p" "prefix \<noteq> []"
  shows "Base p = prefix @ r"
proof -
  have "\<exists>d. p = d @ ''/'' @ prefix @ r"
  proof (cases "dir \<noteq> [] \<and> last dir = CHR ''/''")
    case True
    then have "p = butlast dir @ ''/'' @ prefix @ r" using assms(1)
      by (auto simp: CreateTemp_name_def split: if_splits) (metis append_butlast_last_id append_Cons append_Nil append_assoc)
    then show ?thesis by blast
  next
    case False
    then show ?thesis using assms(1) by (auto simp: CreateTemp_name_def split: if_splits)
  qed
  then show ?thesis using Base_after_slash [of "prefix @ r"] assms by (auto simp: CreateTemp_name_def split: if_splits)
qed

section \<open>Paths of plain names\<close>

text \<open>A proper path element.\<close>

definition plain_name :: "string \<Rightarrow> bool" where
  "plain_name e \<longleftrightarrow> e \<noteq> [] \<and> e \<noteq> ''.'' \<and> e \<noteq> ''..'' \<and> CHR ''/'' \<notin> set e"

lemma split_no_slash: "CHR ''/'' \<notin> set e \<Longrightarrow> split_slash e = [e]"
  by (induction e) auto

lemma split_prepend: "CHR ''/'' \<notin> set e \<Longrightarrow> split_slash (e @ CHR ''/'' # rest) = e # split_slash rest"
  by (induction e) auto

lemma split_join:
  "es \<noteq> [] \<Longrightarrow> list_all (\<lambda>e. CHR ''/'' \<notin> set e) es \<Longrightarrow> split_slash (join_slash es) = es"
  by (induction es rule: join_slash.induct) (simp_all add: split_no_slash split_prepend)

lemma join_snoc: "es \<noteq> [] \<Longrightarrow> join_slash (es @ [e]) = join_slash es @ CHR ''/'' # e"
  by (induction es rule: join_slash.induct) auto

lemma fold_clean: "list_all plain_name es \<Longrightarrow> fold (clean_step rooted) es out = rev es @ out"
  by (induction es arbitrary: out) (auto simp: clean_step_def plain_name_def)

lemma join_plain_start: "es \<noteq> [] \<Longrightarrow> list_all plain_name es \<Longrightarrow> take 1 (join_slash es) \<noteq> ''/'' \<and> join_slash es \<noteq> []"
  by (induction es rule: join_slash.induct) (auto simp: plain_name_def take_Cons' neq_Nil_conv)

lemma Clean_plain:
  assumes "es \<noteq> []" "list_all plain_name es"
  shows "Clean (join_slash es @ [CHR ''/'']) = join_slash es"
proof -
  have "list_all (\<lambda>e. CHR ''/'' \<notin> set e) (es @ [[]])"
    using assms(2) by (auto simp: list_all_iff plain_name_def)
  then have s: "split_slash (join_slash es @ [CHR ''/'']) = es @ [[]]"
    using split_join [of "es @ [[]]"] join_snoc [OF assms(1), of "[]"] by simp
  have "take 1 (join_slash es @ [CHR ''/'']) \<noteq> ''/''" using join_plain_start [OF assms] by (cases "join_slash es") auto
  then show ?thesis using assms
    by (simp add: Clean_def s fold_clean clean_step_def Let_def)
qed

lemma before_base_join: "es \<noteq> [] \<Longrightarrow> CHR ''/'' \<notin> set e \<Longrightarrow> before_base (join_slash (es @ [e])) = join_slash es @ [CHR ''/'']"
proof -
  assume a: "es \<noteq> []" "CHR ''/'' \<notin> set e"
  have "dropWhile (\<lambda>c. c \<noteq> CHR ''/'') (rev e @ CHR ''/'' # rev (join_slash es)) = CHR ''/'' # rev (join_slash es)"
    using a(2) by (subst dropWhile_append2) auto
  then show ?thesis by (simp add: before_base_def join_snoc [OF a(1)])
qed

lemma Dir_join: "es \<noteq> [] \<Longrightarrow> list_all plain_name es \<Longrightarrow> CHR ''/'' \<notin> set e \<Longrightarrow> Dir (join_slash (es @ [e])) = join_slash es"
  by (simp add: Dir_def before_base_join Clean_plain)

lemma Base_join:
  assumes "plain_name e"
  shows "Base (join_slash (es @ [e])) = e"
proof -
  have e: "e \<noteq> []" "CHR ''/'' \<notin> set e" using assms by (auto simp: plain_name_def)
  define p where "p = join_slash (es @ [e])"
  have p: "\<exists>h. p = h @ e \<and> (h = [] \<or> (\<exists>h'. h = h' @ [CHR ''/'']))"
    unfolding p_def by (cases "es = []") (auto simp: join_snoc)
  then obtain h where h: "p = h @ e" "h = [] \<or> (\<exists>h'. h = h' @ [CHR ''/''])" by blast
  have "hd (rev p) \<noteq> CHR ''/''" using e h(1) by (simp add: hd_append hd_rev)
      (metis last_in_set)
  then have "dropWhile (\<lambda>c. c = CHR ''/'') (rev p) = rev p" by (cases "rev p") auto
  moreover have "takeWhile (\<lambda>c. c \<noteq> CHR ''/'') (rev e) = rev e" using e(2) by auto
  then have "after_slash p = e"
    using h e(2) by (auto simp: after_slash_def takeWhile_tail simp del: takeWhile_eq_all_conv)
  ultimately show ?thesis using e(1) h(1) unfolding p_def [symmetric] by (simp add: Base_def Let_def)
qed

end
