(* ===== verification/Object_Store.thy ===== *)
theory Object_Store
  imports Slash_Paths "HOL-Library.AList" "HOL-Library.List_Lexorder" "HOL-Library.Char_ord"
begin

text \<open>
  \<open>objectstore\<close>: the Store and Writer contract as a locale, and the in-memory
  (\<open>mem.go\<close>) and local-filesystem (\<open>local.go\<close>) backends that implement it, with the
  guard of \<open>writeguard.go\<close>. Operating-system calls that can fail take their outcome as
  an argument.
\<close>

section \<open>Errors and the once guard\<close>

datatype store_err =
    ErrNotExist string
  | StoreError string

text \<open>\<open>begin\<close>: whether this is the first call, and the guard afterwards.\<close>

definition guard_begin :: "bool \<Rightarrow> bool \<times> bool" where
  "guard_begin g = (if g then (False, g) else (True, True))"

section \<open>The writer contract\<close>

text \<open>
  \<open>published s\<close> is what \<open>Open\<close> finds; \<open>contents w s\<close> the bytes written so far; \<open>finished w\<close>
  whether \<open>Close\<close> or \<open>Abort\<close> ran; \<open>'o\<close> the outcomes of the calls below.
\<close>

datatype 'o action = WriteA 'o "byte list" | CloseA 'o | AbortA 'o

locale object_store =
  fixes published :: "'s \<Rightarrow> string \<Rightarrow> byte list option"
    and do_create :: "'o \<Rightarrow> 's \<Rightarrow> string \<Rightarrow> ('w \<times> 's) option"
    and do_write :: "'o \<Rightarrow> byte list \<Rightarrow> 'w \<times> 's \<Rightarrow> bool \<times> 'w \<times> 's"
    and do_close :: "'o \<Rightarrow> 'w \<times> 's \<Rightarrow> bool \<times> 'w \<times> 's"
    and do_abort :: "'o \<Rightarrow> 'w \<times> 's \<Rightarrow> bool \<times> 'w \<times> 's"
    and contents :: "'w \<times> 's \<Rightarrow> byte list"
    and finished :: "'w \<Rightarrow> bool"
    and target :: "'w \<Rightarrow> string"
    and inv :: "'w \<times> 's \<Rightarrow> bool"
    and valid_path :: "string \<Rightarrow> bool"
  assumes create_law: "do_create o' s p = Some (w, s') \<Longrightarrow> valid_path p \<Longrightarrow>
      published s' = published s \<and> contents (w, s') = [] \<and> \<not> finished w \<and> target w = p \<and> inv (w, s')"
    and write_law: "inv (w, s) \<Longrightarrow> \<not> finished w \<Longrightarrow> do_write o' bs (w, s) = (ok, w', s') \<Longrightarrow>
      published s' = published s \<and> inv (w', s') \<and> \<not> finished w' \<and> target w' = target w \<and>
      (ok \<longrightarrow> contents (w', s') = contents (w, s) @ bs)"
    and close_law: "inv (w, s) \<Longrightarrow> \<not> finished w \<Longrightarrow> do_close o' (w, s) = (ok, w', s') \<Longrightarrow>
      published s' = (if ok then (published s)(target w \<mapsto> contents (w, s)) else published s) \<and> finished w'"
    and abort_law: "inv (w, s) \<Longrightarrow> \<not> finished w \<Longrightarrow> do_abort o' (w, s) = (ok, w', s') \<Longrightarrow>
      published s' = published s \<and> finished w'"
    and finished_close: "finished w \<Longrightarrow> do_close o' (w, s) = (True, w, s)"
    and finished_abort: "finished w \<Longrightarrow> do_abort o' (w, s) = (True, w, s)"
begin

text \<open>A client's calls on one writer, and whether each call returned without an error.\<close>

fun session :: "'o action list \<Rightarrow> 'w \<times> 's \<Rightarrow> bool list \<times> 'w \<times> 's" where
  "session [] ws = ([], ws)"
| "session (a # as) ws =
     (case (case a of WriteA o' bs \<Rightarrow> do_write o' bs ws | CloseA o' \<Rightarrow> do_close o' ws | AbortA o' \<Rightarrow> do_abort o' ws) of
        (ok, ws') \<Rightarrow> (case session as ws' of (oks, ws'') \<Rightarrow> (ok # oks, ws'')))"

lemma finished_session [store_laws]:
  assumes "finished w" "list_all (\<lambda>a. case a of WriteA _ _ \<Rightarrow> False | _ \<Rightarrow> True) as"
  shows "session as (w, s) = (replicate (length as) True, w, s)"
  using assms(2) by (induction as) (auto simp: assms(1) finished_close finished_abort split: action.splits)

text \<open>A successful do_write loop accumulates its chunks and publishes nothing.\<close>

lemma writes_session [store_laws]:
  "inv (w, s) \<Longrightarrow> \<not> finished w \<Longrightarrow> session (map (\<lambda>(o', bs). WriteA o' bs) chunks) (w, s) = (oks, w', s') \<Longrightarrow>
   published s' = published s \<and> inv (w', s') \<and> \<not> finished w' \<and> target w' = target w \<and>
   (list_all id oks \<longrightarrow> contents (w', s') = contents (w, s) @ concat (map snd chunks))"
proof (induction chunks arbitrary: w s oks)
  case (Cons c chunks)
  obtain o' bs where c: "c = (o', bs)" by (cases c)
  obtain ok w1 s1 where w1: "do_write o' bs (w, s) = (ok, w1, s1)" by (metis prod_cases3)
  obtain oks' where rest: "session (map (\<lambda>(o', bs). WriteA o' bs) chunks) (w1, s1) = (oks', w', s')"
    and oks: "oks = ok # oks'"
    using Cons.prems(3) c w1 by (auto split: prod.splits)
  note l = write_law [OF Cons.prems(1,2) w1]
  show ?case using Cons.IH [OF _ _ rest] l oks c by auto
qed simp

text \<open>
  Whatever the client does, in whatever order, the published objects are the old ones,
  except that one successful \<open>Close\<close> may have replaced the target.
\<close>

lemma session_atomic [store_laws]:
  "inv (w, s) \<Longrightarrow> \<not> finished w \<Longrightarrow>
   list_all (\<lambda>a. case a of WriteA _ _ \<Rightarrow> False | _ \<Rightarrow> True) ends \<Longrightarrow>
   session (map (\<lambda>(o', bs). WriteA o' bs) chunks @ ends) (w, s) = (oks, w', s') \<Longrightarrow>
   published s' = published s \<or> (\<exists>bs. published s' = (published s)(target w \<mapsto> bs))"
proof (induction chunks arbitrary: w s oks)
  case Nil
  show ?case
  proof (cases ends)
    case Nil
    then show ?thesis using Nil.prems by simp
  next
    case (Cons e es)
    have rest: "published s2 = published s1" if "finished w1" "session es (w1, s1) = (oks', w2, s2)" for w1 s1 oks' w2 s2
      using finished_session [OF that(1), of es s1] that(2) Nil.prems(3) Cons by simp
    show ?thesis
    proof (cases e)
      case (CloseA o')
      obtain ok w1 s1 where c: "do_close o' (w, s) = (ok, w1, s1)" by (metis prod_cases3)
      note l = close_law [OF Nil.prems(1,2) c]
      have "published s' = published s1"
        using Nil.prems(4) Cons CloseA c l rest [of w1 s1] by (auto split: prod.splits)
      with l have "published s' = (if ok then (published s)(target w \<mapsto> contents (w, s)) else published s)"
        by metis
      then show ?thesis by (metis (full_types))
    next
      case (AbortA o')
      obtain ok w1 s1 where c: "do_abort o' (w, s) = (ok, w1, s1)" by (metis prod_cases3)
      note l = abort_law [OF Nil.prems(1,2) c]
      show ?thesis using Nil.prems(4) Cons AbortA c l rest [of w1 s1] by (auto split: prod.splits)
    qed (use Nil.prems(3) Cons in auto)
  qed
next
  case (Cons c chunks)
  obtain o' bs where c: "c = (o', bs)" by (cases c)
  obtain ok w1 s1 where w1: "do_write o' bs (w, s) = (ok, w1, s1)" by (metis prod_cases3)
  note l = write_law [OF Cons.prems(1,2) w1]
  obtain oks' where rest: "session (map (\<lambda>(o', bs). WriteA o' bs) chunks @ ends) (w1, s1) = (oks', w', s')"
    using Cons.prems(4) c w1 by (auto split: prod.splits)
  show ?case using Cons.IH [OF _ _ Cons.prems(3) rest] l by auto
qed

text \<open>Writing everything and closing without an error publishes exactly what was written.\<close>

lemma commit_session [store_laws]:
  assumes "inv (w, s)" "\<not> finished w"
    and "session (map (\<lambda>(o', bs). WriteA o' bs) chunks @ [CloseA o']) (w, s) = (oks, w', s')"
    and "list_all id oks"
  shows "published s' = (published s)(target w \<mapsto> contents (w, s) @ concat (map snd chunks))"
proof -
  have app: "session (as @ [CloseA o']) ws =
      (case session as ws of (oks1, ws1) \<Rightarrow> (case do_close o' ws1 of (ok, ws2) \<Rightarrow> (oks1 @ [ok], ws2)))" for as ws
    by (induction as arbitrary: ws) (auto split: prod.splits)
  obtain oks1 w1 s1 where w1: "session (map (\<lambda>(o', bs). WriteA o' bs) chunks) (w, s) = (oks1, w1, s1)"
    by (metis prod_cases3)
  obtain ok w2 s2 where c: "do_close o' (w1, s1) = (ok, w2, s2)" by (metis prod_cases3)
  have res: "oks = oks1 @ [ok]" "s' = s2" using assms(3) app w1 c by simp_all
  note l = writes_session [OF assms(1,2) w1]
  have "published s2 = (if ok then (published s1)(target w1 \<mapsto> contents (w1, s1)) else published s1)"
    using close_law [OF _ _ c] l by blast
  then show ?thesis using l res assms(4) by simp
qed

end

section \<open>The in-memory store\<close>

text \<open>\<open>objs\<close>, a Go map, as an association list with one entry per key.\<close>

type_synonym memStore = "(string \<times> byte list) list"

record memWriter =
  mw_path :: string
  mw_buf :: "byte list"
  mw_done :: bool

definition newMemStore :: memStore where
  "newMemStore = []"

definition mem_Open :: "memStore \<Rightarrow> string \<Rightarrow> store_err + byte list" where
  "mem_Open s path =
     (case map_of s path of None \<Rightarrow> Inl (ErrNotExist path) | Some data \<Rightarrow> Inr data)"

definition mem_Create :: "unit \<Rightarrow> memStore \<Rightarrow> string \<Rightarrow> (memWriter \<times> memStore) option" where
  "mem_Create u s path = Some (\<lparr>mw_path = path, mw_buf = [], mw_done = False\<rparr>, s)"

definition mem_Write :: "unit \<Rightarrow> byte list \<Rightarrow> memWriter \<times> memStore \<Rightarrow> bool \<times> memWriter \<times> memStore" where
  "mem_Write u p ws = (case ws of (w, s) \<Rightarrow> (True, w\<lparr>mw_buf := mw_buf w @ p\<rparr>, s))"

definition mem_Close :: "unit \<Rightarrow> memWriter \<times> memStore \<Rightarrow> bool \<times> memWriter \<times> memStore" where
  "mem_Close u ws =
     (case ws of (w, s) \<Rightarrow>
        (case guard_begin (mw_done w) of
           (False, g) \<Rightarrow> (True, w, s)
         | (True, g) \<Rightarrow> (True, w\<lparr>mw_done := g\<rparr>, AList.update (mw_path w) (mw_buf w) s)))"

definition mem_Abort :: "unit \<Rightarrow> memWriter \<times> memStore \<Rightarrow> bool \<times> memWriter \<times> memStore" where
  "mem_Abort u ws = (case ws of (w, s) \<Rightarrow> (True, w\<lparr>mw_done := snd (guard_begin (mw_done w))\<rparr>, s))"

definition mem_Remove :: "memStore \<Rightarrow> string \<Rightarrow> store_err option \<times> memStore" where
  "mem_Remove s path =
     (if map_of s path = None then (Some (ErrNotExist path), s) else (None, AList.delete path s))"

text \<open>\<open>strings.HasPrefix\<close>, and \<open>List\<close> as the sequence it yields.\<close>

definition has_prefix :: "string \<Rightarrow> string \<Rightarrow> bool" where
  "has_prefix s prefix \<longleftrightarrow> take (length prefix) s = prefix"

definition mem_List :: "memStore \<Rightarrow> string \<Rightarrow> (string \<times> int) list" where
  "mem_List s prefix =
     sort_key fst (map (\<lambda>(k, v). (k, int (length v))) (filter (\<lambda>(k, v). has_prefix k prefix) s))"

definition mem_ok :: "memStore \<Rightarrow> bool" where
  "mem_ok s \<longleftrightarrow> distinct (map fst s)"

interpretation mem: object_store map_of mem_Create mem_Write mem_Close mem_Abort
  "\<lambda>(w, s). mw_buf w" mw_done mw_path "\<lambda>_. True" "\<lambda>_. True"
  by unfold_locales
    (auto simp: mem_Create_def mem_Write_def mem_Close_def mem_Abort_def guard_begin_def
      update_conv' split: if_splits)

lemma mem_ok_steps:
  "mem_ok newMemStore"
  "mem_ok s \<Longrightarrow> mem_Close u (w, s) = (ok, w', s') \<Longrightarrow> mem_ok s'"
  "mem_ok s \<Longrightarrow> mem_Remove s p = (e, s') \<Longrightarrow> mem_ok s'"
  by (auto simp: mem_ok_def newMemStore_def mem_Close_def mem_Remove_def guard_begin_def
      distinct_update distinct_delete split: if_splits)

lemma mem_List_entries:
  assumes "mem_ok s"
  shows "set (mem_List s prefix) =
    {(k, int (length v)) | k v. map_of s k = Some v \<and> has_prefix k prefix}"
  using assms by (force simp: mem_List_def mem_ok_def image_iff)

text \<open>\<open>List\<close> of the in-memory store yields every object whose path has the prefix, with its
  size, and nothing else, each once and in path order.\<close>

theorem mem_List_exact:
  assumes "mem_ok s"
  shows "set (mem_List s prefix) =
      {(k, int (length v)) | k v. mem_Open s k = Inr v \<and> has_prefix k prefix} \<and>
    sorted (map fst (mem_List s prefix)) \<and> distinct (map fst (mem_List s prefix))"
proof (intro conjI)
  show "set (mem_List s prefix) = {(k, int (length v)) | k v. mem_Open s k = Inr v \<and> has_prefix k prefix}"
    using mem_List_entries [OF assms] by (auto simp: mem_Open_def split: option.splits)
  show "sorted (map fst (mem_List s prefix))" by (simp add: mem_List_def)
  have names: "map fst (map (\<lambda>(k, v). (k, int (length v))) xs) = map fst xs" for xs :: memStore
    by (induction xs) auto
  have "distinct (map fst (filter (\<lambda>(k, v). has_prefix k prefix) s))"
    using assms by (simp add: mem_ok_def distinct_map_filter)
  then have "distinct (map fst (map (\<lambda>(k, v). (k, int (length v))) (filter (\<lambda>(k, v). has_prefix k prefix) s)))"
    by (simp only: names)
  then show "distinct (map fst (mem_List s prefix))"
    unfolding mem_List_def distinct_map [of fst] set_sort distinct_sort .
qed

theorem mem_List_exact_witness:
  "(''b/x'', 1) \<in> set (mem_List [(''b/x'', [1]), (''a/y'', [])] ''b/'') \<and>
   (''a/y'', 0) \<notin> set (mem_List [(''b/x'', [1]), (''a/y'', [])] ''b/'')"
proof -
  have "mem_ok [(''b/x'', [1]), (''a/y'', [])]" by (simp add: mem_ok_def)
  note list = mem_List_exact [OF this, of "''b/''", THEN conjunct1]
  show ?thesis unfolding list by (simp add: mem_Open_def has_prefix_def)
qed

section \<open>The local file system\<close>

text \<open>
  Files by name, one name for each file. In-flight commits live in temporary files beside their
  target, told apart by the prefix of their base name.
\<close>

type_synonym file_system = "string \<Rightarrow> byte list option"

definition localTmpPrefix :: string where
  "localTmpPrefix = ''.objectstore-tmp-''"

definition is_temp :: "string \<Rightarrow> bool" where
  "is_temp p \<longleftrightarrow> has_prefix (Base p) localTmpPrefix"

text \<open>The outcomes of the calls to the operating system below one operation.\<close>

record os_outcome =
  os_mkdir :: bool
  os_tmp_suffix :: "string option"   \<comment> \<open>the random part \<open>CreateTemp\<close> chose\<close>
  os_written :: nat                  \<comment> \<open>how many bytes a \<open>Write\<close> took\<close>
  os_sync :: bool
  os_fclose :: bool
  os_rename :: bool
  os_remove :: bool

record localWriter =
  lw_file :: string
  lw_path :: string
  lw_done :: bool

text \<open>What else can become of an \<open>Open\<close>: another error of \<open>os.Open\<close> or of \<open>Stat\<close>, or a directory.\<close>

datatype open_outcome = OpenDenied string | StatFailed string | IsDirectory | Regular

definition local_Open :: "open_outcome \<Rightarrow> file_system \<Rightarrow> string \<Rightarrow> store_err + byte list" where
  "local_Open o' fs path =
     (case o' of
        OpenDenied m \<Rightarrow> Inl (StoreError m)
      | IsDirectory \<Rightarrow> Inl (StoreError path)
      | StatFailed m \<Rightarrow> (if fs path = None then Inl (ErrNotExist path) else Inl (StoreError m))
      | Regular \<Rightarrow> (case fs path of None \<Rightarrow> Inl (ErrNotExist path) | Some data \<Rightarrow> Inr data))"

text \<open>
  \<open>CreateTemp\<close> opens a file that did not exist: it never picks a name in use, and fails
  when it cannot.
\<close>

definition local_Create :: "os_outcome \<Rightarrow> file_system \<Rightarrow> string \<Rightarrow> (localWriter \<times> file_system) option" where
  "local_Create o' fs path =
     (if \<not> os_mkdir o' then None
      else
        (case os_tmp_suffix o' of
           None \<Rightarrow> None
         | Some r \<Rightarrow>
             (case CreateTemp_name (Dir path) (localTmpPrefix @ Base path @ ''-'') r of
                None \<Rightarrow> None
              | Some tmp \<Rightarrow>
                  if fs tmp \<noteq> None then None
                  else Some (\<lparr>lw_file = tmp, lw_path = path, lw_done = False\<rparr>, fs(tmp \<mapsto> [])))))"

definition file_data :: "file_system \<Rightarrow> string \<Rightarrow> byte list" where
  "file_data fs name = (case fs name of Some d \<Rightarrow> d | None \<Rightarrow> [])"

text \<open>After \<open>Close\<close> or \<open>Abort\<close> the file is closed, and a write to it fails.\<close>

definition local_Write :: "os_outcome \<Rightarrow> byte list \<Rightarrow> localWriter \<times> file_system \<Rightarrow> bool \<times> localWriter \<times> file_system" where
  "local_Write o' p ws =
     (case ws of (w, fs) \<Rightarrow>
        if lw_done w then (False, w, fs)
        else (length p \<le> os_written o', w, fs(lw_file w \<mapsto> file_data fs (lw_file w) @ take (os_written o') p)))"

definition remove_file :: "bool \<Rightarrow> file_system \<Rightarrow> string \<Rightarrow> file_system" where
  "remove_file ok fs name = (if ok then fs(name := None) else fs)"

definition local_Close :: "os_outcome \<Rightarrow> localWriter \<times> file_system \<Rightarrow> bool \<times> localWriter \<times> file_system" where
  "local_Close o' ws =
     (case ws of (w, fs) \<Rightarrow>
        (case guard_begin (lw_done w) of
           (False, g) \<Rightarrow> (True, w, fs)
         | (True, g) \<Rightarrow>
             (let w' = w\<lparr>lw_done := g\<rparr>
              in if os_sync o' \<and> os_fclose o' \<and> os_rename o'
                 then (True, w', (fs(lw_path w := fs (lw_file w)))(lw_file w := None))
                 else (False, w', remove_file (os_remove o') fs (lw_file w)))))"

definition local_Abort :: "os_outcome \<Rightarrow> localWriter \<times> file_system \<Rightarrow> bool \<times> localWriter \<times> file_system" where
  "local_Abort o' ws =
     (case ws of (w, fs) \<Rightarrow>
        (case guard_begin (lw_done w) of
           (False, g) \<Rightarrow> (True, w, fs)
         | (True, g) \<Rightarrow> (os_remove o', w\<lparr>lw_done := g\<rparr>, remove_file (os_remove o') fs (lw_file w))))"

definition local_Remove :: "bool \<Rightarrow> file_system \<Rightarrow> string \<Rightarrow> store_err option \<times> file_system" where
  "local_Remove ok fs path =
     (if fs path = None then (Some (ErrNotExist path), fs)
      else if ok then (None, fs(path := None)) else (Some (StoreError path), fs))"

text \<open>What a reader of committed objects sees: temporary files are not objects.\<close>

definition visible :: "file_system \<Rightarrow> file_system" where
  "visible fs = (\<lambda>p. if is_temp p then None else fs p)"

definition local_inv :: "localWriter \<times> file_system \<Rightarrow> bool" where
  "local_inv ws = (case ws of (w, fs) \<Rightarrow>
     is_temp (lw_file w) \<and> \<not> is_temp (lw_path w) \<and> fs (lw_file w) \<noteq> None)"

lemma temp_name: "CreateTemp_name dir (localTmpPrefix @ b @ ''-'') r = Some tmp \<Longrightarrow> is_temp tmp"
  using CreateTemp_base [of dir "localTmpPrefix @ b @ ''-''" r tmp]
  by (simp add: is_temp_def has_prefix_def localTmpPrefix_def)

lemma visible_update:
  "is_temp t \<Longrightarrow> visible (fs(t := v)) = visible fs"
  "\<not> is_temp t \<Longrightarrow> visible (fs(t := v)) = (visible fs)(t := v)"
  by (auto simp: visible_def)

interpretation local_store: object_store visible local_Create local_Write local_Close local_Abort
  "\<lambda>(w, fs). file_data fs (lw_file w)" lw_done lw_path local_inv "\<lambda>p. \<not> is_temp p"
proof unfold_locales
  fix o' s p w s'
  assume "local_Create o' s p = Some (w, s')" "\<not> is_temp p"
  then show "visible s' = visible s \<and> (case (w, s') of (w, fs) \<Rightarrow> file_data fs (lw_file w)) = [] \<and>
      \<not> lw_done w \<and> lw_path w = p \<and> local_inv (w, s')"
    by (auto simp: local_Create_def Let_def visible_update local_inv_def file_data_def
        split: if_split_asm option.split_asm dest!: temp_name)
qed (auto simp: local_Write_def local_Close_def local_Abort_def remove_file_def guard_begin_def Let_def
    visible_update local_inv_def file_data_def split: if_split_asm option.splits)

text \<open>
  \<open>List\<close>: what \<open>Stat\<close> says of a directory, and what \<open>WalkDir\<close> visits from it in its order.
  \<open>n\<close> is the number of items after which the consumer stops.
\<close>

datatype base_stat = BaseExists | BaseMissing | BaseError string

datatype walk_entry =
    WalkError string
  | WalkEntry string string bool "string + int"   \<comment> \<open>path, name, whether a directory, \<open>Info\<close>\<close>

fun walk :: "string \<Rightarrow> walk_entry list \<Rightarrow> (string + (string \<times> int)) list" where
  "walk prefix [] = []"
| "walk prefix (WalkError e # es) = [Inl e]"
| "walk prefix (WalkEntry path name dir info # es) =
     (if dir \<or> has_prefix name localTmpPrefix \<or> \<not> has_prefix path prefix then walk prefix es
      else (case info of Inl e \<Rightarrow> Inl e | Inr n \<Rightarrow> Inr (path, n)) # walk prefix es)"

definition local_List ::
  "(string \<Rightarrow> base_stat) \<Rightarrow> (string \<Rightarrow> walk_entry list) \<Rightarrow> string \<Rightarrow> nat \<Rightarrow> (string + (string \<times> int)) list" where
  "local_List stat WalkDir prefix n =
     (let base = Dir prefix in
      case stat base of
        BaseMissing \<Rightarrow> []
      | BaseError e \<Rightarrow> take n [Inl e]
      | BaseExists \<Rightarrow> take n (walk prefix (WalkDir base)))"

text \<open>
  A walk in which nothing fails: directories, of which nothing is asked, and files, under their
  names and with their sizes.
\<close>

fun walk_files :: "walk_entry list \<Rightarrow> string list" where
  "walk_files [] = []"
| "walk_files (WalkEntry path name False info # es) = path # walk_files es"
| "walk_files (_ # es) = walk_files es"

fun entry_ok :: "file_system \<Rightarrow> walk_entry \<Rightarrow> bool" where
  "entry_ok fs (WalkError e) = False"
| "entry_ok fs (WalkEntry path name True info) = True"
| "entry_ok fs (WalkEntry path name False info) =
     (case fs path of None \<Rightarrow> False | Some d \<Rightarrow> name = Base path \<and> info = Inr (int (length d)))"

lemma walk_entries:
  "list_all (entry_ok fs) es \<Longrightarrow> walk prefix es =
     map (\<lambda>p. Inr (p, int (length (the (fs p))))) (filter (\<lambda>p. \<not> is_temp p \<and> has_prefix p prefix) (walk_files es))"
  by (induction es rule: walk_files.induct) (auto simp: is_temp_def split: option.splits)

lemma walk_files_dom: "list_all (entry_ok fs) es \<Longrightarrow> p \<in> set (walk_files es) \<Longrightarrow> \<exists>d. fs p = Some d"
  by (induction es rule: walk_files.induct) (auto split: option.splits)

lemma length_walk: "length (walk prefix es) \<le> length es"
  by (induction prefix es rule: walk.induct) auto

text \<open>
  When the walk reaches every file that has the prefix, \<open>List\<close> yields exactly the committed
  objects with the prefix; a directory or a commit in progress is never listed.
\<close>

lemma local_List_exact:
  assumes "stat (Dir prefix) = BaseExists" "list_all (entry_ok fs) (WalkDir (Dir prefix))"
    and "\<And>p. fs p \<noteq> None \<Longrightarrow> has_prefix p prefix \<Longrightarrow> p \<in> set (walk_files (WalkDir (Dir prefix)))"
    and "length (WalkDir (Dir prefix)) \<le> n"
  shows "set (local_List stat WalkDir prefix n) =
    {Inr (p, int (length d)) | p d. visible fs p = Some d \<and> has_prefix p prefix}"
proof -
  let ?es = "WalkDir (Dir prefix)"
  have l: "local_List stat WalkDir prefix n = walk prefix ?es"
    using assms(1,4) length_walk [of prefix ?es] by (simp add: local_List_def Let_def)
  have listed: "p \<in> set (walk_files ?es) \<longleftrightarrow> (\<exists>d. fs p = Some d)" if "has_prefix p prefix" for p
    using assms(3) walk_files_dom [OF assms(2)] that by auto
  show ?thesis
  proof (intro set_eqI iffI)
    fix x :: "string + (string \<times> int)"
    assume "x \<in> set (local_List stat WalkDir prefix n)"
    then obtain p where "x = Inr (p, int (length (the (fs p))))" "p \<in> set (walk_files ?es)" "\<not> is_temp p" "has_prefix p prefix"
      unfolding l walk_entries [OF assms(2)] by auto
    then show "x \<in> {Inr (p, int (length d)) | p d. visible fs p = Some d \<and> has_prefix p prefix}"
      using listed by (auto simp: visible_def)
  next
    fix x :: "string + (string \<times> int)"
    assume "x \<in> {Inr (p, int (length d)) | p d. visible fs p = Some d \<and> has_prefix p prefix}"
    then obtain p d where "x = Inr (p, int (length d))" "visible fs p = Some d" "has_prefix p prefix" by blast
    then show "x \<in> set (local_List stat WalkDir prefix n)"
      unfolding l walk_entries [OF assms(2)] using listed [of p] by (auto simp: visible_def split: if_splits)
  qed
qed

section \<open>Commits are atomic\<close>

lemma visible_Open: "\<not> is_temp q \<Longrightarrow> visible fs q = fs q"
  by (simp add: visible_def)

text \<open>Creating a local writer, writing chunks and closing it, all without an error, publishes
  exactly the written bytes at the path and leaves every other object as it was.\<close>

theorem local_commit_publishes:
  assumes "local_Create o1 fs path = Some (w, fs1)" and "\<not> is_temp path"
    and "local_store.session (map (\<lambda>(o', bs). WriteA o' bs) chunks @ [CloseA o2]) (w, fs1) = (oks, w', fs2)"
    and "list_all id oks" and "\<not> is_temp q"
  shows "local_Open Regular fs2 q = (if q = path then Inr (concat (map snd chunks)) else local_Open Regular fs q)"
proof -
  note c = local_store.create_law [OF assms(1,2)]
  have "visible fs2 = (visible fs1)(lw_path w \<mapsto> file_data fs1 (lw_file w) @ concat (map snd chunks))"
    using local_store.commit_session [OF _ _ assms(3,4)] c by simp
  then have "visible fs2 q = (if q = path then Some (concat (map snd chunks)) else visible fs q)"
    using c by auto
  then show ?thesis using assms(5) by (simp add: local_Open_def visible_Open)
qed

definition good_os :: os_outcome where
  "good_os = \<lparr>os_mkdir = True, os_tmp_suffix = Some ''42'', os_written = 100, os_sync = True, os_fclose = True,
     os_rename = True, os_remove = True\<rparr>"

lemma demo_create:
  "local_Create good_os (\<lambda>p. if p = ''d/t'' then Some [9] else None) ''d/t'' =
     Some (\<lparr>lw_file = ''d/.objectstore-tmp-t-42'', lw_path = ''d/t'', lw_done = False\<rparr>,
       (\<lambda>p. if p = ''d/t'' then Some [9] else None)(''d/.objectstore-tmp-t-42'' \<mapsto> []))"
  by (simp add: local_Create_def good_os_def path_simps localTmpPrefix_def Let_def)

lemma good_os_sel [simp]:
  "os_written good_os = 100" "os_sync good_os" "os_fclose good_os" "os_rename good_os" "os_remove good_os"
  by (simp_all add: good_os_def)

theorem local_commit_publishes_witness:
  "local_Open Regular (snd (snd (local_store.session [WriteA good_os [1, 2], WriteA good_os [3], CloseA good_os]
      (the (local_Create good_os (\<lambda>p. if p = ''d/t'' then Some [9] else None) ''d/t''))))) ''d/t'' = Inr [1, 2, 3]"
proof -
  let ?ws = "the (local_Create good_os (\<lambda>p. if p = ''d/t'' then Some [9] else None) ''d/t'')"
  obtain oks w' fs2 where s: "local_store.session [WriteA good_os [1, 2], WriteA good_os [3], CloseA good_os] ?ws =
      (oks, w', fs2)" by (metis prod_cases3)
  then have oks: "list_all id oks"
    unfolding demo_create by (auto simp: local_Write_def local_Close_def guard_begin_def Let_def)
  have temp: "\<not> is_temp ''d/t''"
    by (simp add: is_temp_def path_simps has_prefix_def localTmpPrefix_def)
  have "local_store.session (map (\<lambda>(o', bs). WriteA o' bs) [(good_os, [1, 2]), (good_os, [3])] @ [CloseA good_os]) ?ws =
      (oks, w', fs2)" using s by simp
  from local_commit_publishes [OF demo_create temp this [unfolded demo_create option.sel] oks temp]
  show ?thesis using s by (simp add: demo_create)
qed

text \<open>An abort, and a close whose sync, close or rename fails, publish nothing: every object
  is as before the writer was created, and the temporary file is gone if it could be removed.\<close>

theorem local_failure_unchanged:
  assumes "local_Create o1 fs path = Some (w, fs1)" and "\<not> is_temp path"
    and "local_store.session (map (\<lambda>(o', bs). WriteA o' bs) chunks) (w, fs1) = (oks, w1, fs2)"
    and "end_call = AbortA o2 \<or> end_call = CloseA o2 \<and> \<not> (os_sync o2 \<and> os_fclose o2 \<and> os_rename o2)"
    and "local_store.session [end_call] (w1, fs2) = (oks', w2, fs3)" and "\<not> is_temp q"
  shows "local_Open o3 fs3 q = local_Open o3 fs q \<and> (os_remove o2 \<longrightarrow> fs3 (lw_file w1) = None)"
proof -
  note c = local_store.create_law [OF assms(1,2)]
  note l = local_store.writes_session [OF _ _ assms(3)]
  have w1: "visible fs2 = visible fs" "local_inv (w1, fs2)" "\<not> lw_done w1" using c l by auto
  have "fs3 = remove_file (os_remove o2) fs2 (lw_file w1)"
    using assms(4,5) w1(3)
    by (auto simp: local_Abort_def local_Close_def guard_begin_def Let_def split: if_splits)
  then have "visible fs3 = visible fs" "os_remove o2 \<longrightarrow> fs3 (lw_file w1) = None"
    using w1 by (auto simp: remove_file_def visible_update local_inv_def)
  then have "fs3 q = fs q" "os_remove o2 \<longrightarrow> fs3 (lw_file w1) = None"
    using assms(6) visible_Open by metis+
  then show ?thesis by (simp add: local_Open_def cong: open_outcome.case_cong)
qed

theorem local_failure_unchanged_witness:
  "\<exists>oks w fs. local_store.session [CloseA (good_os\<lparr>os_rename := False\<rparr>)]
      (the (local_Create good_os (\<lambda>p. if p = ''d/t'' then Some [9] else None) ''d/t'')) = (oks, w, fs) \<and>
    local_Open Regular fs ''d/t'' = Inr [9]"
proof -
  let ?fs = "\<lambda>p. if p = ''d/t'' then Some [9] else (None :: byte list option)"
  let ?o = "good_os\<lparr>os_rename := False\<rparr>"
  obtain oks w fs where s: "local_store.session [CloseA ?o] (the (local_Create good_os ?fs ''d/t'')) = (oks, w, fs)"
    by (metis prod_cases3)
  have temp: "\<not> is_temp ''d/t''"
    by (simp add: is_temp_def path_simps has_prefix_def localTmpPrefix_def)
  have "local_store.session (map (\<lambda>(o', bs). WriteA o' bs) []) (the (local_Create good_os ?fs ''d/t'')) =
      ([], the (local_Create good_os ?fs ''d/t''))" by simp
  from local_failure_unchanged [OF demo_create temp this [unfolded demo_create option.sel] _ s [unfolded demo_create option.sel] temp, of ?o Regular]
  show ?thesis using s by (auto simp: local_Open_def)
qed

end
