(* ===== verification/Parquet_Insert.thy ===== *)
theory Parquet_Insert
  imports Readers Object_Store
begin

text \<open>
  \<open>providers/parquet/insert.go\<close>: INSERT as the rewrite of a whole object through a
  store's writer, with every error path and the deferred abort. The Parquet encoder is
  the library's; scanning the existing object is a parameter (a function of its bytes).
\<close>

section \<open>What the insert uses\<close>

record ('o, 's, 'w) Store =
  st_published :: "'s \<Rightarrow> string \<Rightarrow> byte list option"
  st_Create :: "'o \<Rightarrow> 's \<Rightarrow> string \<Rightarrow> ('w \<times> 's) option"
  st_Write :: "'o \<Rightarrow> byte list \<Rightarrow> 'w \<times> 's \<Rightarrow> bool \<times> 'w \<times> 's"
  st_Close :: "'o \<Rightarrow> 'w \<times> 's \<Rightarrow> bool \<times> 'w \<times> 's"
  st_Abort :: "'o \<Rightarrow> 'w \<times> 's \<Rightarrow> bool \<times> 'w \<times> 's"

text \<open>
  \<open>pqarrow.FileWriter\<close>: each call either fails or gives the bytes it writes, chunk by
  chunk, to the sink. The sink is a \<open>keepOpenWriter\<close>, whose \<open>Close\<close> does nothing, so
  finalizing the footer never commits the object.
\<close>

record 'p FileWriter =
  fw_New :: "Field list \<Rightarrow> string + ('p \<times> byte list list)"
  fw_Write :: "'p \<Rightarrow> Batch \<Rightarrow> string + ('p \<times> byte list list)"
  fw_Close :: "'p \<Rightarrow> string + byte list list"

datatype InsertOp = InsertAppend | InsertOverwrite | InsertReplace | OtherInsertOp int

datatype insert_err =
    UnsupportedInsert InsertOp
  | ReadInput string
  | CreateWriter
  | OpenWriter string
  | ReadExisting string
  | WriteBatch string
  | Finalize string
  | CommitFailed

section \<open>Writing batches\<close>

text \<open>
  The sink: the store's writer, the store and the number of calls made on it so far;
  call \<open>n\<close> has the outcome \<open>os n\<close>.
\<close>

type_synonym ('s, 'w) sink = "'w \<times> 's \<times> nat"

fun sinkWrite ::
  "('o, 's, 'w) Store \<Rightarrow> (nat \<Rightarrow> 'o) \<Rightarrow> byte list list \<Rightarrow> ('s, 'w) sink \<Rightarrow> bool \<times> ('s, 'w) sink" where
  "sinkWrite st os [] k = (True, k)"
| "sinkWrite st os (c # cs) (w, s, n) =
     (case st_Write st (os n) c (w, s) of
        (True, w', s') \<Rightarrow> sinkWrite st os cs (w', s', Suc n)
      | (False, w', s') \<Rightarrow> (False, (w', s', Suc n)))"

definition fwWrite ::
  "('o, 's, 'w) Store \<Rightarrow> 'p FileWriter \<Rightarrow> (nat \<Rightarrow> 'o) \<Rightarrow> Batch \<Rightarrow> 'p \<Rightarrow> ('s, 'w) sink \<Rightarrow>
   (string + 'p) \<times> ('s, 'w) sink" where
  "fwWrite st fw os b p k =
     (case fw_Write fw p b of
        Inl e \<Rightarrow> (Inl e, k)
      | Inr (p', cs) \<Rightarrow>
          (case sinkWrite st os cs k of (ok, k') \<Rightarrow> (if ok then Inr p' else Inl ''sink'', k')))"

text \<open>How many batches the innermost reader has left: a bound on the calls of \<open>Next\<close>.\<close>

fun rd_left :: "RecordReader \<Rightarrow> nat" where
  "rd_left (LibReader fs bs cur e n) = length bs"
| "rd_left (ClosingReader r cl k) = rd_left r"
| "rd_left (ProjectedReader r fs idx cur) = rd_left r"
| "rd_left (LimitReader r m) = rd_left r"
| "rd_left (StrippingReader r fs first cur m) = (case first of Some b \<Rightarrow> 1 | None \<Rightarrow> 0) + rd_left r"

lemma rd_left_Next: "rd_Next r = (True, r') \<Longrightarrow> rd_left r' < rd_left r"
proof (induction r arbitrary: r')
  case (LibReader fs bs cur e n)
  then show ?case by (cases bs) auto
next
  case (ClosingReader r cl k)
  then show ?case by (auto split: prod.splits bool.splits)
next
  case (ProjectedReader r fs idx cur)
  then show ?case by (auto split: prod.splits bool.splits)
next
  case (LimitReader r m)
  then show ?case by (auto split: prod.splits bool.splits if_splits)
next
  case (StrippingReader r fs first cur m)
  then show ?case by (auto split: prod.splits bool.splits option.splits)
qed

text \<open>\<open>for rows.Next() { writeBatch(rows.RecordBatch()) }\<close>, counting rows.\<close>

function writeAll ::
  "('o, 's, 'w) Store \<Rightarrow> 'p FileWriter \<Rightarrow> (nat \<Rightarrow> 'o) \<Rightarrow> (Batch \<Rightarrow> Batch) \<Rightarrow> RecordReader \<Rightarrow> 'p \<Rightarrow> u64 \<Rightarrow>
   ('s, 'w) sink \<Rightarrow> (string + ('p \<times> u64)) \<times> RecordReader \<times> ('s, 'w) sink" where
  "writeAll st fw os bnd r p count k =
     (case rd_Next r of
        (False, r') \<Rightarrow> (Inr (p, count), r', k)
      | (True, r') \<Rightarrow>
          (case rd_RecordBatch r' of
             None \<Rightarrow> (Inl ''nil batch'', r', k)
           | Some b \<Rightarrow>
               (case fwWrite st fw os (bnd b) p k of
                  (Inl e, k') \<Rightarrow> (Inl e, r', k')
                | (Inr p', k') \<Rightarrow> writeAll st fw os bnd r' p' (count + b_numRows b) k')))"
  by pat_completeness auto
termination
  by (relation "measure (\<lambda>(st, fw, os, bnd, r, p, count, k). rd_left r)")
    (auto dest!: sym [THEN rd_left_Next])

declare writeAll.simps [simp del]

section \<open>InsertInto\<close>

text \<open>\<open>streamExistingRows\<close>: \<open>scan\<close> is the provider's own scan of the object's bytes.\<close>

definition streamExistingRows ::
  "('o, 's, 'w) Store \<Rightarrow> 'p FileWriter \<Rightarrow> (nat \<Rightarrow> 'o) \<Rightarrow> (byte list option \<Rightarrow> string + RecordReader) \<Rightarrow>
   string \<Rightarrow> 'p \<Rightarrow> ('s, 'w) sink \<Rightarrow> (insert_err + 'p) \<times> ('s, 'w) sink" where
  "streamExistingRows st fw os scan path p k =
     (case scan (st_published st (fst (snd k)) path) of
        Inl e \<Rightarrow> (Inl (ReadExisting e), k)
      | Inr existing \<Rightarrow>
          (case writeAll st fw os (\<lambda>b. b) existing p 0 k of
             (Inl e, r', k') \<Rightarrow> (Inl (WriteBatch e), k')
           | (Inr (p', c), r', k') \<Rightarrow>
               (case rd_Err r' of Some e \<Rightarrow> (Inl (ReadExisting e), k') | None \<Rightarrow> (Inr p', k'))))"

text \<open>The part of \<open>rewrite\<close> between creating the file writer and finalizing it.\<close>

definition rewriteBatches ::
  "('o, 's, 'w) Store \<Rightarrow> 'p FileWriter \<Rightarrow> (nat \<Rightarrow> 'o) \<Rightarrow> Field list \<Rightarrow> RecordReader \<Rightarrow> bool \<Rightarrow> 'p \<Rightarrow>
   ('s, 'w) sink \<Rightarrow> (insert_err + ('p \<times> u64)) \<times> RecordReader \<times> ('s, 'w) sink" where
  "rewriteBatches st fw os schema rows hasFirst p k =
     (case (if hasFirst then
              (case rd_RecordBatch rows of
                 None \<Rightarrow> (Inl ''nil batch'', k)
               | Some b \<Rightarrow>
                   (case fwWrite st fw os (rebindSchema b schema) p k of
                      (Inl e, k') \<Rightarrow> (Inl e, k')
                    | (Inr p', k') \<Rightarrow> (Inr (p', b_numRows b), k')))
            else (Inr (p, 0), k)) of
        (Inl e, k1) \<Rightarrow> (Inl (WriteBatch e), rows, k1)
      | (Inr (p1, c1), k1) \<Rightarrow>
          (case writeAll st fw os (\<lambda>b. rebindSchema b schema) rows p1 c1 k1 of
             (Inl e, rows', k2) \<Rightarrow> (Inl (WriteBatch e), rows', k2)
           | (Inr (p2, c2), rows', k2) \<Rightarrow>
               (case rd_Err rows' of
                  Some e \<Rightarrow> (Inl (ReadInput e), rows', k2)
                | None \<Rightarrow> (Inr (p2, c2), rows', k2))))"

text \<open>Everything up to the footer; no step of it closes or aborts the store's writer.\<close>

definition rewriteFile ::
  "('o, 's, 'w) Store \<Rightarrow> 'p FileWriter \<Rightarrow> (nat \<Rightarrow> 'o) \<Rightarrow> (byte list option \<Rightarrow> string + RecordReader) \<Rightarrow>
   string \<Rightarrow> Field list \<Rightarrow> InsertOp \<Rightarrow> RecordReader \<Rightarrow> bool \<Rightarrow> ('s, 'w) sink \<Rightarrow>
   (insert_err + u64) \<times> RecordReader \<times> ('s, 'w) sink" where
  "rewriteFile st fw os scan path schema op rows hasFirst k =
     (case fw_New fw schema of
        Inl e \<Rightarrow> (Inl (OpenWriter e), rows, k)
      | Inr (p0, cs0) \<Rightarrow>
          (case sinkWrite st os cs0 k of
             (False, k1) \<Rightarrow> (Inl (OpenWriter ''sink''), rows, k1)
           | (True, k1) \<Rightarrow>
               (case (if op = InsertAppend then streamExistingRows st fw os scan path p0 k1 else (Inr p0, k1)) of
                  (Inl e, k2) \<Rightarrow> (Inl e, rows, k2)
                | (Inr p2, k2) \<Rightarrow>
                    (case rewriteBatches st fw os schema rows hasFirst p2 k2 of
                       (Inl e, rows', k3) \<Rightarrow> (Inl e, rows', k3)
                     | (Inr (p3, count), rows', k3) \<Rightarrow>
                         (case fw_Close fw p3 of
                            Inl e \<Rightarrow> (Inl (Finalize e), rows', k3)
                          | Inr cs \<Rightarrow>
                              (case sinkWrite st os cs k3 of
                                 (ok, k4) \<Rightarrow> (if ok then Inr count else Inl (Finalize ''sink''), rows', k4)))))))"

text \<open>\<open>rewrite\<close>: commit last, and abort on every path that did not commit.\<close>

definition rewrite ::
  "('o, 's, 'w) Store \<Rightarrow> 'p FileWriter \<Rightarrow> (nat \<Rightarrow> 'o) \<Rightarrow> (byte list option \<Rightarrow> string + RecordReader) \<Rightarrow>
   string \<Rightarrow> Field list \<Rightarrow> InsertOp \<Rightarrow> RecordReader \<Rightarrow> bool \<Rightarrow> 's \<Rightarrow>
   (insert_err + u64) \<times> RecordReader \<times> 's" where
  "rewrite st fw os scan path schema op rows hasFirst s =
     (case st_Create st (os 0) s path of
        None \<Rightarrow> (Inl CreateWriter, rows, s)
      | Some (w, s1) \<Rightarrow>
          (case rewriteFile st fw os scan path schema op rows hasFirst (w, s1, 1) of
             (Inl e, rows', (w2, s2, n)) \<Rightarrow>
               (Inl e, rows', snd (snd (st_Abort st (os n) (w2, s2))))
           | (Inr count, rows', (w2, s2, n)) \<Rightarrow>
               (case st_Close st (os n) (w2, s2) of
                  (True, w3, s3) \<Rightarrow> (Inr count, rows', s3)
                | (False, w3, s3) \<Rightarrow>
                    (Inl CommitFailed, rows', snd (snd (st_Abort st (os (Suc n)) (w3, s3)))))))"

definition InsertInto ::
  "('o, 's, 'w) Store \<Rightarrow> 'p FileWriter \<Rightarrow> (nat \<Rightarrow> 'o) \<Rightarrow> (byte list option \<Rightarrow> string + RecordReader) \<Rightarrow>
   string \<Rightarrow> Field list \<Rightarrow> InsertOp \<Rightarrow> RecordReader \<Rightarrow> 's \<Rightarrow> (insert_err + u64) \<times> RecordReader \<times> 's" where
  "InsertInto st fw os scan path schema op rows s =
     (case (if op \<noteq> InsertAppend \<and> op \<noteq> InsertOverwrite then (Inl (UnsupportedInsert op), rows, s)
            else
              (case rd_Next rows of
                 (False, rows1) \<Rightarrow>
                   (case rd_Err rows1 of
                      Some e \<Rightarrow> (Inl (ReadInput e), rows1, s)
                    | None \<Rightarrow>
                        if op = InsertAppend then (Inr 0, rows1, s)
                        else rewrite st fw os scan path schema op rows1 False s)
               | (True, rows1) \<Rightarrow> rewrite st fw os scan path schema op rows1 True s)) of
        (res, rows', s') \<Rightarrow> (res, rd_Release rows', s'))"

end
