(* ===== verification/Iceberg_Insert.thy ===== *)
theory Iceberg_Insert
  imports Parquet_Insert
begin

text \<open>
  \<open>providers/iceberg/insert.go\<close>: INSERT into a catalog-backed table, on every path. The
  catalog and \<open>Table.Append\<close> and \<open>Table.Overwrite\<close> are the Iceberg library's: functions
  of the catalog's state, with what they promise as a predicate.
\<close>

section \<open>The catalog\<close>

text \<open>
  A table handle \<open>'t\<close> is loaded afresh for each insert. A commit consumes and releases the
  reader it is given.
\<close>

record ('c, 't) Catalog =
  ct_LoadTable :: "'c \<Rightarrow> string list \<Rightarrow> string + 't"
  ct_Append :: "'t \<Rightarrow> RecordReader \<Rightarrow> 'c \<Rightarrow> string option \<times> RecordReader \<times> 'c"
  ct_Overwrite :: "'t \<Rightarrow> RecordReader \<Rightarrow> 'c \<Rightarrow> string option \<times> RecordReader \<times> 'c"

datatype ib_insert_err =
    IbUnsupported InsertOp
  | IbReadInput string
  | IbLoad string
  | IbCommit string string

section \<open>InsertInto\<close>

definition newFieldIDStrippingReader :: "RecordReader \<Rightarrow> Field list \<Rightarrow> Batch option \<Rightarrow> RecordReader" where
  "newFieldIDStrippingReader inner schema first = StrippingReader inner schema first None 0"

text \<open>A goroutine of its own, waited for: the result is the commit's.\<close>

definition commitOffCgoCallbackThread :: "(unit \<Rightarrow> 'a) \<Rightarrow> 'a" where
  "commitOffCgoCallbackThread commit = commit ()"

text \<open>The result, the insert's reader as the call leaves it, and the catalog afterwards.\<close>

definition commitInsert ::
  "('c, 't) Catalog \<Rightarrow> string list \<Rightarrow> InsertOp \<Rightarrow> RecordReader \<Rightarrow> 'c \<Rightarrow>
   (ib_insert_err + u64) \<times> RecordReader \<times> 'c" where
  "commitInsert cat ident op wrapped c =
     (case ct_LoadTable cat c ident of
        Inl e \<Rightarrow> (Inl (IbLoad e), rd_Release wrapped, c)
      | Inr tbl \<Rightarrow>
          (case commitOffCgoCallbackThread (\<lambda>u.
                  if op = InsertAppend then ct_Append cat tbl wrapped c
                  else if op = InsertOverwrite then ct_Overwrite cat tbl wrapped c
                  else (None, wrapped, c)) of
             (Some e, wrapped', c') \<Rightarrow>
               (Inl (IbCommit (if op = InsertOverwrite then ''overwrite'' else ''append to'') e), wrapped', c')
           | (None, wrapped', c') \<Rightarrow> (Inr (rowsConsumed wrapped'), wrapped', c')))"

definition InsertInto_iceberg ::
  "('c, 't) Catalog \<Rightarrow> string list \<Rightarrow> Field list \<Rightarrow> InsertOp \<Rightarrow> RecordReader \<Rightarrow> 'c \<Rightarrow>
   (ib_insert_err + u64) \<times> RecordReader \<times> 'c" where
  "InsertInto_iceberg cat ident schema op rows c =
     (if op \<noteq> InsertAppend \<and> op \<noteq> InsertOverwrite then (Inl (IbUnsupported op), rd_Release rows, c)
      else
        (case rd_Next rows of
           (False, rows1) \<Rightarrow>
             (case rd_Err rows1 of
                Some e \<Rightarrow> (Inl (IbReadInput e), rd_Release rows1, c)
              | None \<Rightarrow>
                  if op = InsertAppend then (Inr 0, rd_Release rows1, c)
                  else commitInsert cat ident op (newFieldIDStrippingReader rows1 schema None) c)
         | (True, rows1) \<Rightarrow>
             commitInsert cat ident op (newFieldIDStrippingReader rows1 schema (rd_RecordBatch rows1)) c))"

section \<open>References\<close>

text \<open>The reference count of the reader at the bottom.\<close>

fun rd_refs :: "RecordReader \<Rightarrow> int" where
  "rd_refs (LibReader fs bs cur e n) = n"
| "rd_refs (ClosingReader r cl k) = rd_refs r"
| "rd_refs (ProjectedReader r fs idx cur) = rd_refs r"
| "rd_refs (LimitReader r m) = rd_refs r"
| "rd_refs (StrippingReader r fs first cur m) = rd_refs r"

lemma refs_close [simp]: "rd_refs (close_once r cl k) = rd_refs r"
  by (simp add: close_once_def)

lemma refs_Release [simp]: "rd_refs (rd_Release r) = rd_refs r - 1"
  by (induction r) simp_all

lemma refs_Next: "rd_Next r = (ok, r') \<Longrightarrow> rd_refs r' = rd_refs r"
proof (induction r arbitrary: ok r')
  case (LibReader fs bs cur e n)
  then show ?case by (cases bs) auto
qed (auto split: prod.splits bool.splits option.splits if_splits)

lemma refs_drain: "rd_refs (snd (readers.drain n r)) = rd_refs r"
proof (induction n arbitrary: r)
  case (Suc n)
  obtain ok r' where r': "rd_Next r = (ok, r')" by fastforce
  then show ?case using refs_Next [OF r'] Suc.IH [of r']
    by (auto split: bool.splits option.splits prod.splits)
qed simp

section \<open>What the library promises\<close>

text \<open>
  A commit without an error has read its reader to the end with no error, published its
  batches, and released it; a failed one has released it and published nothing. \<open>rows c
  ident\<close> is the table's content.
\<close>

definition commit_ok ::
  "('c \<Rightarrow> string list \<Rightarrow> Batch list) \<Rightarrow> (Batch list \<Rightarrow> Batch list) \<Rightarrow> string list \<Rightarrow> RecordReader \<Rightarrow> 'c \<Rightarrow>
   string option \<times> RecordReader \<times> 'c \<Rightarrow> bool" where
  "commit_ok rows update ident r c out \<longleftrightarrow>
     (case out of
        (Some e, r', c') \<Rightarrow> rows c' = rows c \<and> rd_refs r' = rd_refs r - 1
      | (None, r', c') \<Rightarrow>
          (let end_r = snd (readers.drain (Suc (length (rd_pending r))) r)
           in r' = rd_Release end_r \<and> rows c' = (rows c)(ident := update (rd_pending r))))"

definition catalog_ok :: "('c, 't) Catalog \<Rightarrow> ('c \<Rightarrow> string list \<Rightarrow> Batch list) \<Rightarrow> bool" where
  "catalog_ok cat rows \<longleftrightarrow>
     (\<forall>c ident tbl r. ct_LoadTable cat c ident = Inr tbl \<longrightarrow> rd_ok r \<longrightarrow>
        commit_ok rows (\<lambda>bs. rows c ident @ bs) ident r c (ct_Append cat tbl r c) \<and>
        commit_ok rows (\<lambda>bs. bs) ident r c (ct_Overwrite cat tbl r c))"

section \<open>All or nothing, and one release\<close>

lemma rowsConsumed_Release: "rowsConsumed (rd_Release r) = rowsConsumed r"
  by (cases r) (simp_all add: close_once_def)

lemma rowsConsumed_drain:
  fixes schema :: "Field list"
  assumes "rd_ok rows1" and "\<And>b. first = Some b \<Longrightarrow> batch_ok b"
  defines "w \<equiv> newFieldIDStrippingReader rows1 schema first"
  shows "rowsConsumed (snd (readers.drain (Suc (length (rd_pending w))) w)) =
    sum_rows ((case first of None \<Rightarrow> [] | Some b \<Rightarrow> [b]) @ rd_pending rows1)"
proof (cases first)
  case None
  then show ?thesis
    using stripping_drain [OF assms(1), of "Suc (length (rd_pending rows1))" schema None 0]
    by (simp add: w_def newFieldIDStrippingReader_def del: readers.drain.simps)
next
  case (Some b)
  have "rowsConsumed (snd (readers.drain (Suc (Suc (length (rd_pending rows1)))) w)) =
      rowsConsumed (snd (readers.drain (Suc (length (rd_pending rows1)))
        (StrippingReader rows1 schema None (Some (rebindSchema b schema)) (b_numRows b))))"
    using Some by (simp add: w_def newFieldIDStrippingReader_def case_prod_beta)
  also have "\<dots> = b_numRows b + sum_rows (rd_pending rows1)"
    by (rule stripping_drain [OF assms(1)]) simp
  finally show ?thesis using Some by (simp add: w_def newFieldIDStrippingReader_def)
qed

lemma commitInsert_ok:
  assumes "commitInsert cat ident op (newFieldIDStrippingReader rows1 schema first) c = (res, r', c')"
    and "op = InsertAppend \<or> op = InsertOverwrite" and "catalog_ok cat rows" and "rd_ok rows1"
    and "\<And>b. first = Some b \<Longrightarrow> batch_ok b"
  defines "new \<equiv> (case first of None \<Rightarrow> [] | Some b \<Rightarrow> [b]) @ rd_pending rows1"
  shows "rd_refs r' = rd_refs rows1 - 1 \<and>
    (case res of
       Inl e \<Rightarrow> rows c' = rows c
     | Inr n \<Rightarrow> n = sum_rows new \<and>
         rows c' = (rows c)(ident := (if op = InsertAppend then rows c ident else []) @
           map (\<lambda>b. rebindSchema b schema) new))"
proof -
  let ?w = "newFieldIDStrippingReader rows1 schema first"
  have w: "rd_ok ?w" "rd_refs ?w = rd_refs rows1" "rd_pending ?w = map (\<lambda>b. rebindSchema b schema) new"
    using assms(4,5) by (auto simp: newFieldIDStrippingReader_def new_def split: option.splits)
  show ?thesis
  proof (cases "ct_LoadTable cat c ident")
    case (Inl e)
    then show ?thesis using assms(1) w(2) by (auto simp: commitInsert_def)
  next
    case (Inr tbl)
    define out where "out = (if op = InsertAppend then ct_Append cat tbl ?w c else ct_Overwrite cat tbl ?w c)"
    obtain e w' c1 where out3: "out = (e, w', c1)" by (rule prod_cases3)
    have law: "commit_ok rows (\<lambda>bs. (if op = InsertAppend then rows c ident else []) @ bs) ident ?w c out"
      using assms(2,3) Inr w(1) unfolding catalog_ok_def out_def by auto
    have run: "res = (case e of Some x \<Rightarrow> Inl (IbCommit (if op = InsertOverwrite then ''overwrite'' else ''append to'') x)
        | None \<Rightarrow> Inr (rowsConsumed w'))" "r' = w'" "c' = c1"
      using assms(1,2) Inr out3 unfolding out_def
      by (auto simp: commitInsert_def commitOffCgoCallbackThread_def split: option.splits)
    show ?thesis
    proof (cases e)
      case (Some x)
      then show ?thesis using law out3 run w(2) by (simp add: commit_ok_def)
    next
      case None
      then have "w' = rd_Release (snd (readers.drain (Suc (length (rd_pending ?w))) ?w))"
        using law out3 by (simp add: commit_ok_def Let_def del: readers.drain.simps)
      then have "rd_refs w' = rd_refs rows1 - 1" "rowsConsumed w' = sum_rows new"
        using w(2) rowsConsumed_drain [OF assms(4,5), of first schema]
        by (simp_all add: refs_drain rowsConsumed_Release new_def del: readers.drain.simps)
      then show ?thesis using None law out3 run w(3) by (simp add: commit_ok_def Let_def del: readers.drain.simps)
    qed
  qed
qed

lemma iceberg_insert_ok:
  assumes "InsertInto_iceberg cat ident schema op rows c = (res, r', c')"
    and "catalog_ok cat content" and "rd_ok rows"
  shows "rd_refs r' = rd_refs rows - 1 \<and>
    (case res of
       Inl e \<Rightarrow> content c' = content c
     | Inr n \<Rightarrow> n = sum_rows (rd_pending rows) \<and>
         (if op = InsertAppend \<and> rd_pending rows = [] then content c' = content c
          else content c' = (content c)(ident := (if op = InsertAppend then content c ident else []) @
            map (\<lambda>b. rebindSchema b schema) (rd_pending rows))))"
proof (cases "op \<noteq> InsertAppend \<and> op \<noteq> InsertOverwrite")
  case True
  then show ?thesis using assms(1) by (auto simp: InsertInto_iceberg_def)
next
  case False
  show ?thesis
  proof (cases "rd_pending rows")
    case Nil
    with Next_end [OF assms(3)] obtain r1 where r1: "rd_Next rows = (False, r1)" "rd_pending r1 = []" "rd_ok r1"
      by blast
    note refs = refs_Next [OF r1(1)]
    show ?thesis
    proof (cases "rd_Err r1 = None \<and> op \<noteq> InsertAppend")
      case True
      then have "commitInsert cat ident op (newFieldIDStrippingReader r1 schema None) c = (res, r', c')"
        using assms(1) False r1 by (simp add: InsertInto_iceberg_def)
      from commitInsert_ok [OF this _ assms(2) r1(3)] show ?thesis using False True refs r1(2) Nil by (cases res) auto
    next
      case err: False
      then show ?thesis using assms(1) False r1 refs Nil by (auto simp: InsertInto_iceberg_def split: option.splits)
    qed
  next
    case (Cons b bs)
    with Next_more [OF assms(3)] obtain r1 where r1: "rd_Next rows = (True, r1)" "rd_RecordBatch r1 = Some b"
      "rd_pending r1 = bs" "rd_ok r1" by blast
    have ok: "batch_ok b" using pending_ok [OF assms(3)] Cons by simp
    have "commitInsert cat ident op (newFieldIDStrippingReader r1 schema (Some b)) c = (res, r', c')"
      using assms(1) False r1 by (simp add: InsertInto_iceberg_def)
    from commitInsert_ok [OF this _ assms(2) r1(4)] show ?thesis
      using False ok refs_Next [OF r1(1)] r1(3) Cons by (cases res) auto
  qed
qed

text \<open>C11: An INSERT into an Iceberg table releases the insert's reader exactly once on every path, and
  either fails and leaves every table as it was, or commits: an append the table's rows
  followed by the new ones, an overwrite the new ones alone, each batch under the table's own
  schema, and reports the number of inserted rows. An append of no rows commits nothing.\<close>

theorem iceberg_insert_atomic:
  assumes "InsertInto_iceberg cat ident schema op rows c = (res, r', c')"
    and "catalog_ok cat content" and "rd_ok rows"
  shows "rd_refs r' = rd_refs rows - 1 \<and>
    (case res of
       Inl e \<Rightarrow> content c' = content c
     | Inr n \<Rightarrow> n = sum_rows (rd_pending rows) \<and>
         (if op = InsertAppend \<and> rd_pending rows = [] then content c' = content c
          else content c' = (content c)(ident := (if op = InsertAppend then content c ident else []) @
            map (\<lambda>b. rebindSchema b schema) (rd_pending rows))))"
  using assms by (rule iceberg_insert_ok)

section \<open>A catalog to insert into\<close>

definition simple_commit ::
  "(Batch list \<Rightarrow> Batch list) \<Rightarrow> string list \<Rightarrow> RecordReader \<Rightarrow> (string list \<Rightarrow> Batch list) \<Rightarrow>
   string option \<times> RecordReader \<times> (string list \<Rightarrow> Batch list)" where
  "simple_commit update ident r c =
     (None, rd_Release (snd (readers.drain (Suc (length (rd_pending r))) r)), c(ident := update (rd_pending r)))"

definition simple_catalog :: "(string list \<Rightarrow> Batch list, string list) Catalog" where
  "simple_catalog =
     \<lparr>ct_LoadTable = (\<lambda>c ident. if ident = [] then Inl ''no name'' else Inr ident),
      ct_Append = (\<lambda>ident r c. simple_commit (\<lambda>bs. c ident @ bs) ident r c),
      ct_Overwrite = (\<lambda>ident r c. simple_commit (\<lambda>bs. bs) ident r c)\<rparr>"

lemma simple_catalog_ok: "catalog_ok simple_catalog (\<lambda>c. c)"
  by (auto simp: catalog_ok_def commit_ok_def simple_catalog_def simple_commit_def Let_def
      simp del: readers.drain.simps split: if_splits)

theorem iceberg_insert_atomic_witness:
  "\<exists>r' c'. InsertInto_iceberg simple_catalog [''db'', ''t''] [] InsertAppend two_column_reader (\<lambda>t. []) = (Inr 1, r', c') \<and>
     length (c' [''db'', ''t'']) = 1 \<and> rd_refs r' = 0"
proof -
  obtain res r' c' where run: "InsertInto_iceberg simple_catalog [''db'', ''t''] [] InsertAppend two_column_reader (\<lambda>t. []) =
      (res, r', c')" by (rule prod_cases3)
  have ok: "\<exists>n. res = Inr n"
    using run by (auto simp: InsertInto_iceberg_def two_column_reader_def commitInsert_def simple_catalog_def
        simple_commit_def commitOffCgoCallbackThread_def simp del: readers.drain.simps)
  have "rd_ok two_column_reader" by (simp add: two_column_reader_def batch_ok_def)
  from iceberg_insert_atomic [OF run simple_catalog_ok this] ok show ?thesis
    using run by (auto simp: two_column_reader_def)
qed

end
