(* ===== verification/Callbacks.thy ===== *)
theory Callbacks
  imports Wire_Roundtrip Pushdown_Correct Iceberg_Insert
begin

text \<open>
  The callbacks the engine makes into Go, and the registrations that hand it the handles it
  calls them with: \<open>datafusion/table.go\<close>, \<open>catalog.go\<close>, \<open>udf.go\<close>. Go code behind a handle
  can panic; a trampoline turns that into its error result. Exporting and importing over
  the Arrow C interface is the library's.
\<close>

section \<open>Go code that may panic\<close>

datatype 'a call = Panics string | Returns 'a

definition call_bind :: "'a call \<Rightarrow> ('a \<Rightarrow> 'b call) \<Rightarrow> 'b call" where
  "call_bind c f = (case c of Panics m \<Rightarrow> Panics m | Returns x \<Rightarrow> f x)"

lemma call_bind_simps [simp]:
  "call_bind (Panics m) f = Panics m" "call_bind (Returns x) f = f x"
  by (simp_all add: call_bind_def)

datatype callback_err =
    PanicIn string string
  | ProviderError string
  | DecodeError decode_err
  | NilResult string
  | UnknownInsertOp i32
  | ImportError string

text \<open>\<open>trapCallbackPanic\<close>, deferred first and so run last.\<close>

definition trapCallbackPanic :: "string \<Rightarrow> (callback_err + 'a) call \<Rightarrow> callback_err + 'a" where
  "trapCallbackPanic what c = (case c of Panics m \<Rightarrow> Inl (PanicIn what m) | Returns r \<Rightarrow> r)"

section \<open>Providers\<close>

text \<open>
  A provider that implements an optional interface has the method. An insert says what
  became of its reader even when it panics.
\<close>

record table_provider =
  tp_Schema :: "Schema option call"
  tp_Scan :: "(string + RecordReader option) call"
  tp_ScanWithOptions :: "(ScanOptions \<Rightarrow> (string + RecordReader option) call) option"
  tp_InsertInto :: "(InsertOp \<Rightarrow> RecordReader \<Rightarrow> (string + u64) call \<times> RecordReader) option"

record schema_provider =
  sp_TableNames :: "(string + string list option) call"
  sp_Table :: "string \<Rightarrow> (string + (table_provider option \<times> bool)) call"

record catalog_provider =
  cp_SchemaNames :: "(string + string list option) call"
  cp_Schema :: "string \<Rightarrow> (string + (schema_provider option \<times> bool)) call"

record scalar_udf =
  su_Name :: string
  su_ArgTypes :: "dtype list"
  su_ReturnType :: dtype
  su_Evaluate :: "column list \<Rightarrow> (string + column option) call"

datatype go_impl =
    TableImpl table_provider
  | SchemaImpl schema_provider
  | CatalogImpl catalog_provider
  | UdfImpl scalar_udf

section \<open>Handles\<close>

text \<open>\<open>cgo.Handle\<close>: a counter and the live handles.\<close>

record handles =
  h_next :: nat
  h_live :: "nat \<Rightarrow> go_impl option"

definition NewHandle :: "handles \<Rightarrow> go_impl \<Rightarrow> nat \<times> handles" where
  "NewHandle h v = (Suc (h_next h), h\<lparr>h_next := Suc (h_next h), h_live := (h_live h)(Suc (h_next h) \<mapsto> v)\<rparr>)"

text \<open>\<open>Value\<close> and the type assertion on it, each of which panics when it fails.\<close>

definition handle_value :: "handles \<Rightarrow> nat \<Rightarrow> (go_impl \<Rightarrow> 'a option) \<Rightarrow> 'a call" where
  "handle_value h n assert_type =
     (case h_live h n of
        None \<Rightarrow> Panics ''runtime/cgo: misuse of an invalid Handle''
      | Some v \<Rightarrow> (case assert_type v of None \<Rightarrow> Panics ''interface conversion'' | Some x \<Rightarrow> Returns x))"

definition as_table :: "go_impl \<Rightarrow> table_provider option" where
  "as_table v = (case v of TableImpl p \<Rightarrow> Some p | _ \<Rightarrow> None)"

definition as_writable ::
  "go_impl \<Rightarrow> (InsertOp \<Rightarrow> RecordReader \<Rightarrow> (string + u64) call \<times> RecordReader) option" where
  "as_writable v = (case v of TableImpl p \<Rightarrow> tp_InsertInto p | _ \<Rightarrow> None)"

definition as_catalog :: "go_impl \<Rightarrow> catalog_provider option" where
  "as_catalog v = (case v of CatalogImpl p \<Rightarrow> Some p | _ \<Rightarrow> None)"

definition as_schema :: "go_impl \<Rightarrow> schema_provider option" where
  "as_schema v = (case v of SchemaImpl p \<Rightarrow> Some p | _ \<Rightarrow> None)"

definition as_udf :: "go_impl \<Rightarrow> scalar_udf option" where
  "as_udf v = (case v of UdfImpl u \<Rightarrow> Some u | _ \<Rightarrow> None)"

text \<open>\<open>releaseCgoHandle\<close>: deleting an invalid handle panics, and the panic is swallowed.\<close>

definition releaseCgoHandle :: "handles \<Rightarrow> nat \<Rightarrow> handles" where
  "releaseCgoHandle h n = h\<lparr>h_live := (h_live h)(n := None)\<rparr>"

section \<open>Table callbacks\<close>

definition go_table_schema :: "handles \<Rightarrow> nat \<Rightarrow> callback_err + Schema" where
  "go_table_schema h n =
     trapCallbackPanic ''TableProvider.Schema''
       (call_bind (handle_value h n as_table) (\<lambda>p.
        call_bind (tp_Schema p) (\<lambda>sc.
        Returns (case sc of None \<Rightarrow> Inl (NilResult ''TableProvider.Schema'') | Some s \<Rightarrow> Inr s))))"

text \<open>
  The C array of projected indices: a negative length means all columns. \<open>filters\<close> is the
  JSON document if one was passed, itself \<open>None\<close> when it is not JSON.
\<close>

definition scan_projection :: "int \<Rightarrow> i32 list \<Rightarrow> int list option" where
  "scan_projection projectionLen projection =
     (if 0 \<le> projectionLen then Some (map sint (take (nat projectionLen) projection)) else None)"

definition go_table_scan ::
  "handles \<Rightarrow> nat \<Rightarrow> int \<Rightarrow> i32 list \<Rightarrow> json option option \<Rightarrow> i64 \<Rightarrow> callback_err + RecordReader" where
  "go_table_scan h n projectionLen projection filtersJSON limit =
     trapCallbackPanic ''TableProvider.Scan''
       (call_bind (handle_value h n as_table) (\<lambda>p.
        call_bind
          (case tp_ScanWithOptions p of
             Some scan \<Rightarrow>
               (case (case filtersJSON of None \<Rightarrow> Inr [] | Some doc \<Rightarrow> decodeFilters doc) of
                  Inl e \<Rightarrow> Returns (Inl (DecodeError e))
                | Inr fs \<Rightarrow>
                    call_bind (scan \<lparr>so_projection = scan_projection projectionLen projection, so_filters = fs,
                                     so_limit = limit\<rparr>)
                      (\<lambda>res. Returns (case res of Inl e \<Rightarrow> Inl (ProviderError e) | Inr r \<Rightarrow> Inr r)))
           | None \<Rightarrow>
               call_bind (tp_Scan p) (\<lambda>res. Returns (case res of Inl e \<Rightarrow> Inl (ProviderError e) | Inr r \<Rightarrow> Inr r)))
          (\<lambda>res. Returns
             (case res of
                Inl e \<Rightarrow> Inl e
              | Inr None \<Rightarrow> Inl (NilResult ''TableProvider.Scan'')
              | Inr (Some reader) \<Rightarrow> Inr reader))))"

definition insertOpFromC :: "i32 \<Rightarrow> callback_err + InsertOp" where
  "insertOpFromC v =
     (if v = 0 then Inr InsertAppend else if v = 1 then Inr InsertOverwrite
      else if v = 2 then Inr InsertReplace else Inl (UnknownInsertOp v))"

text \<open>
  The insert: \<open>imported\<close> is what \<open>ImportCRecordReader\<close> gives, \<open>Inr None\<close> a reader of no
  use. The deferred \<open>rows.Release\<close> runs on every path after the import. The second result
  is the reader as the callback leaves it.
\<close>

definition go_table_insert ::
  "handles \<Rightarrow> nat \<Rightarrow> string + RecordReader option \<Rightarrow> i32 \<Rightarrow> (callback_err + u64) \<times> RecordReader option" where
  "go_table_insert h n imported insertOp =
     (case handle_value h n as_writable of
        Panics m \<Rightarrow> (Inl (PanicIn ''WritableTableProvider.InsertInto'' m), None)
      | Returns insert_rows \<Rightarrow>
          (case insertOpFromC insertOp of
             Inl e \<Rightarrow> (Inl e, None)
           | Inr op \<Rightarrow>
               (case imported of
                  Inl e \<Rightarrow> (Inl (ImportError e), None)
                | Inr None \<Rightarrow> (Inl (ImportError ''array.RecordReader''), None)
                | Inr (Some rows) \<Rightarrow>
                    (case insert_rows op rows of
                       (res, rows') \<Rightarrow>
                         (trapCallbackPanic ''WritableTableProvider.InsertInto''
                            (call_bind res (\<lambda>r. Returns (case r of Inl e \<Rightarrow> Inl (ProviderError e) | Inr n \<Rightarrow> Inr n))),
                          Some (rd_Release rows'))))))"

definition go_table_release :: "handles \<Rightarrow> nat \<Rightarrow> handles" where
  "go_table_release h n = releaseCgoHandle h n"

section \<open>Catalog callbacks\<close>

text \<open>\<open>encodeNameList\<close>: a nil slice is encoded as an empty array.\<close>

definition encodeNameList :: "string list option \<Rightarrow> json" where
  "encodeNameList names = JArray (map JString (case names of None \<Rightarrow> [] | Some ns \<Rightarrow> ns))"

definition go_catalog_schema_names :: "handles \<Rightarrow> nat \<Rightarrow> callback_err + json" where
  "go_catalog_schema_names h n =
     trapCallbackPanic ''CatalogProvider.SchemaNames''
       (call_bind (handle_value h n as_catalog) (\<lambda>p.
        call_bind (cp_SchemaNames p) (\<lambda>res.
        Returns (case res of Inl e \<Rightarrow> Inl (ProviderError e) | Inr names \<Rightarrow> Inr (encodeNameList names)))))"

text \<open>A lookup finds nothing (\<open>outFound\<close> is 0) or mints a handle for what it found.\<close>

definition go_catalog_schema_lookup :: "handles \<Rightarrow> nat \<Rightarrow> string \<Rightarrow> (callback_err + nat option) \<times> handles" where
  "go_catalog_schema_lookup h n name =
     (case trapCallbackPanic ''CatalogProvider.Schema''
             (call_bind (handle_value h n as_catalog) (\<lambda>p.
              call_bind (cp_Schema p name) (\<lambda>res.
              Returns (case res of Inl e \<Rightarrow> Inl (ProviderError e) | Inr x \<Rightarrow> Inr x)))) of
        Inl e \<Rightarrow> (Inl e, h)
      | Inr (schema, found) \<Rightarrow>
          if \<not> found then (Inr None, h)
          else
            (case schema of
               None \<Rightarrow> (Inl (NilResult ''CatalogProvider.Schema''), h)
             | Some sp \<Rightarrow> (case NewHandle h (SchemaImpl sp) of (k, h') \<Rightarrow> (Inr (Some k), h'))))"

definition go_schema_table_names :: "handles \<Rightarrow> nat \<Rightarrow> callback_err + json" where
  "go_schema_table_names h n =
     trapCallbackPanic ''SchemaProvider.TableNames''
       (call_bind (handle_value h n as_schema) (\<lambda>p.
        call_bind (sp_TableNames p) (\<lambda>res.
        Returns (case res of Inl e \<Rightarrow> Inl (ProviderError e) | Inr names \<Rightarrow> Inr (encodeNameList names)))))"

definition go_schema_table_lookup ::
  "handles \<Rightarrow> nat \<Rightarrow> string \<Rightarrow> (callback_err + (nat \<times> bool) option) \<times> handles" where
  "go_schema_table_lookup h n name =
     (case trapCallbackPanic ''SchemaProvider.Table''
             (call_bind (handle_value h n as_schema) (\<lambda>p.
              call_bind (sp_Table p name) (\<lambda>res.
              Returns (case res of Inl e \<Rightarrow> Inl (ProviderError e) | Inr x \<Rightarrow> Inr x)))) of
        Inl e \<Rightarrow> (Inl e, h)
      | Inr (table, found) \<Rightarrow>
          if \<not> found then (Inr None, h)
          else
            (case table of
               None \<Rightarrow> (Inl (NilResult ''SchemaProvider.Table''), h)
             | Some tp \<Rightarrow>
                 (case NewHandle h (TableImpl tp) of (k, h') \<Rightarrow> (Inr (Some (k, tp_ScanWithOptions tp \<noteq> None)), h'))))"

section \<open>Scalar functions\<close>

datatype udf_err = EmptyName | NilReturnType | NilArgType nat | NilFunction

text \<open>The position of the first nil argument type.\<close>

fun nil_arg :: "nat \<Rightarrow> dtype option list \<Rightarrow> nat option" where
  "nil_arg i [] = None"
| "nil_arg i (dt # dts) = (if dt = None then Some i else nil_arg (Suc i) dts)"

definition NewScalarUDF ::
  "string \<Rightarrow> dtype option list \<Rightarrow> dtype option \<Rightarrow> (column list \<Rightarrow> (string + column option) call) option \<Rightarrow>
   udf_err + scalar_udf" where
  "NewScalarUDF name argTypes returnType fn =
     (if name = [] then Inl EmptyName
      else
        (case returnType of
           None \<Rightarrow> Inl NilReturnType
         | Some rt \<Rightarrow>
             (case nil_arg 0 argTypes of
                Some i \<Rightarrow> Inl (NilArgType i)
              | None \<Rightarrow>
                  (case fn of
                     None \<Rightarrow> Inl NilFunction
                   | Some f \<Rightarrow> Inr \<lparr>su_Name = name, su_ArgTypes = map the argTypes, su_ReturnType = rt, su_Evaluate = f\<rparr>))))"

text \<open>The signature as it crosses to the engine: the two struct schemas' fields.\<close>

definition udf_arg_fields :: "scalar_udf \<Rightarrow> Field list" where
  "udf_arg_fields u =
     map (\<lambda>(i, dt). \<lparr>field_name = ''arg'' @ show_nat i, field_type = dt, field_nullable = True, field_metadata = []\<rparr>)
       (zip [0..<length (su_ArgTypes u)] (su_ArgTypes u))"

definition udf_return_fields :: "scalar_udf \<Rightarrow> Field list" where
  "udf_return_fields u =
     [\<lparr>field_name = ''return'', field_type = su_ReturnType u, field_nullable = True, field_metadata = []\<rparr>]"

text \<open>\<open>imported\<close>: the arguments bundled as a struct array, \<open>Inr None\<close> an array of another type.\<close>

definition go_scalar_udf_invoke :: "handles \<Rightarrow> nat \<Rightarrow> string + column list option \<Rightarrow> callback_err + column" where
  "go_scalar_udf_invoke h n imported =
     trapCallbackPanic ''ScalarUDF.Evaluate''
       (call_bind (handle_value h n as_udf) (\<lambda>u.
          case imported of
            Inl e \<Rightarrow> Returns (Inl (ImportError e))
          | Inr None \<Rightarrow> Returns (Inl (ImportError ''struct array''))
          | Inr (Some args) \<Rightarrow>
              call_bind (su_Evaluate u args) (\<lambda>res.
              Returns (case res of
                         Inl e \<Rightarrow> Inl (ProviderError e)
                       | Inr None \<Rightarrow> Inl (NilResult ''ScalarUDF.Evaluate'')
                       | Inr (Some col) \<Rightarrow> Inr col))))"

section \<open>Registering a table\<close>

text \<open>
  The engine's side of a registration, \<open>df_session_register_table\<close> of the engine library:
  the tables it holds (reference, handle and the two capabilities), and the outcomes of what it
  calls. \<open>eo_reference\<close> is the engine's reading of a table name, which it parses and normalizes; tables
  are kept, and looked up by \<open>table_exist\<close>, under what it gives.
\<close>

record session =
  ss_closed :: bool
  ss_handles :: handles
  ss_tables :: "(string \<times> nat \<times> bool \<times> bool) list"

record engine_outcome =
  eo_utf8 :: bool
  eo_reference :: "string \<Rightarrow> string"
  eo_exist_err :: "string option"
  eo_import_err :: "string option"
  eo_register_err :: "string option"

definition df_session_register_table ::
  "engine_outcome \<Rightarrow> session \<Rightarrow> string \<Rightarrow> nat \<Rightarrow> bool \<Rightarrow> bool \<Rightarrow> string option \<times> session" where
  "df_session_register_table o' s name handle pushdown insert_ok =
     (let released = s\<lparr>ss_handles := go_table_release (ss_handles s) handle\<rparr>;
          reference = eo_reference o' name
      in if \<not> eo_utf8 o' then (Some ''table name is not valid UTF-8'', s)
         else
           (case eo_exist_err o' of
              Some e \<Rightarrow> (Some e, s)
            | None \<Rightarrow>
                if reference \<in> fst ` set (ss_tables s) then (Some ''already registered'', released)
                else
                  (case go_table_schema (ss_handles s) handle of
                     Inl e \<Rightarrow> (Some ''fetching table schema from Go'', released)
                   | Inr sc \<Rightarrow>
                       (case eo_import_err o' of
                          Some e \<Rightarrow> (Some e, released)
                        | None \<Rightarrow>
                            (case eo_register_err o' of
                               Some e \<Rightarrow> (Some e, released)
                             | None \<Rightarrow>
                                 (None, s\<lparr>ss_tables := ss_tables s @ [(reference, handle, pushdown, insert_ok)]\<rparr>))))))"

datatype register_err = NilProvider | ErrSessionClosed | EngineError string

text \<open>\<open>C.CString\<close>: the engine reads the name up to its first NUL.\<close>

definition c_string :: "string \<Rightarrow> string" where
  "c_string s = takeWhile (\<lambda>c. c \<noteq> CHR 0x00) s"

definition RegisterTable ::
  "engine_outcome \<Rightarrow> session \<Rightarrow> string \<Rightarrow> table_provider option \<Rightarrow> register_err option \<times> session" where
  "RegisterTable o' s name provider =
     (case provider of
        None \<Rightarrow> (Some NilProvider, s)
      | Some p \<Rightarrow>
          if ss_closed s then (Some ErrSessionClosed, s)
          else
            (case NewHandle (ss_handles s) (TableImpl p) of
               (n, h) \<Rightarrow>
                 (case df_session_register_table o' (s\<lparr>ss_handles := h\<rparr>) (c_string name) n
                         (tp_ScanWithOptions p \<noteq> None) (tp_InsertInto p \<noteq> None) of
                    (Some e, s') \<Rightarrow> (Some (EngineError e), s')
                  | (None, s') \<Rightarrow> (None, s'))))"

section \<open>Who holds a handle\<close>

text \<open>No handle beyond the counter is live.\<close>

definition handles_ok :: "handles \<Rightarrow> bool" where
  "handles_ok h \<longleftrightarrow> (\<forall>n. h_next h < n \<longrightarrow> h_live h n = None)"

lemma handles_ok_steps:
  "handles_ok h \<Longrightarrow> NewHandle h v = (n, h') \<Longrightarrow> handles_ok h' \<and> h_live h n = None \<and> h_live h' = (h_live h)(n \<mapsto> v)"
  "handles_ok h \<Longrightarrow> handles_ok (releaseCgoHandle h n)"
  by (auto simp: handles_ok_def NewHandle_def releaseCgoHandle_def)

text \<open>A registration that succeeds leaves the engine holding a live handle of the provider, with exactly
  the capabilities the provider implements; one that fails registers nothing. It also
  leaves no handle behind, except in two cases where the engine reports the failure without
  releasing the handle: a table name that is not UTF-8, and an error of its name lookup.\<close>

theorem RegisterTable_handles:
  assumes "RegisterTable o' s name provider = (e, s')" and "handles_ok (ss_handles s)"
  shows "case e of
      None \<Rightarrow> (\<exists>n p. provider = Some p \<and> h_live (ss_handles s) n = None \<and>
        h_live (ss_handles s') = (h_live (ss_handles s))(n \<mapsto> TableImpl p) \<and>
        ss_tables s' = ss_tables s @ [(eo_reference o' (c_string name), n, tp_ScanWithOptions p \<noteq> None, tp_InsertInto p \<noteq> None)])
    | Some err \<Rightarrow> ss_tables s' = ss_tables s \<and>
        (h_live (ss_handles s') = h_live (ss_handles s) \<longleftrightarrow>
           provider = None \<or> ss_closed s \<or> (eo_utf8 o' \<and> eo_exist_err o' = None))"
proof (cases provider)
  case None
  then show ?thesis using assms(1) by (auto simp: RegisterTable_def)
next
  case (Some p)
  show ?thesis
  proof (cases "ss_closed s")
    case True
    then show ?thesis using assms(1) Some by (auto simp: RegisterTable_def)
  next
    case False
    obtain n h where nh: "NewHandle (ss_handles s) (TableImpl p) = (n, h)" by (rule prod.exhaust)
    note new = handles_ok_steps(1) [OF assms(2) nh]
    have back_to: "(h_live (ss_handles s))(n := None) = h_live (ss_handles s)" using new by auto
    have changed: "(h_live (ss_handles s))(n \<mapsto> v) \<noteq> h_live (ss_handles s)" for v using new by (metis fun_upd_same option.discI)
    obtain ee s2 where reg: "df_session_register_table o' (s\<lparr>ss_handles := h\<rparr>) (c_string name) n
        (tp_ScanWithOptions p \<noteq> None) (tp_InsertInto p \<noteq> None) = (ee, s2)" by (rule prod.exhaust)
    have e: "e = map_option EngineError ee" "s' = s2"
      using assms(1) Some False nh reg by (auto simp: RegisterTable_def split: option.splits)
    show ?thesis
      using reg new Some False back_to changed unfolding e
      by (auto simp: df_session_register_table_def Let_def go_table_release_def releaseCgoHandle_def
          split: if_splits option.splits sum.splits)
  qed
qed

end
