(* ===== verification/Callbacks_Correct.thy ===== *)
theory Callbacks_Correct
  imports Callbacks
begin

text \<open>
  The callbacks with real providers behind them: a scan from the engine's serialized
  predicates to the Parquet provider's reader, and who releases the rows of an insert.
\<close>

section \<open>A table registered\<close>

definition plain_table :: "Schema \<Rightarrow> table_provider" where
  "plain_table sc =
     \<lparr>tp_Schema = Returns (Some sc), tp_Scan = Returns (Inl ''no data''), tp_ScanWithOptions = None,
      tp_InsertInto = None\<rparr>"

definition fresh_session :: session where
  "fresh_session = \<lparr>ss_closed = False, ss_handles = \<lparr>h_next = 0, h_live = Map.empty\<rparr>, ss_tables = []\<rparr>"

definition all_well :: engine_outcome where
  "all_well = \<lparr>eo_utf8 = True, eo_reference = id, eo_exist_err = None, eo_import_err = None, eo_register_err = None\<rparr>"

text \<open>A name that is not UTF-8 leaks the handle; the same name twice does not.\<close>

theorem RegisterTable_handles_witness:
  "h_live (ss_handles (snd (RegisterTable (all_well\<lparr>eo_utf8 := False\<rparr>) fresh_session [CHR 0xFF]
      (Some (plain_table sample_schema))))) \<noteq> h_live (ss_handles fresh_session)"
proof -
  obtain e s' where run: "RegisterTable (all_well\<lparr>eo_utf8 := False\<rparr>) fresh_session [CHR 0xFF]
      (Some (plain_table sample_schema)) = (e, s')" by (rule prod.exhaust)
  have ok: "handles_ok (ss_handles fresh_session)" by (simp add: handles_ok_def fresh_session_def)
  have "e \<noteq> None"
    using run by (auto simp: RegisterTable_def fresh_session_def df_session_register_table_def all_well_def NewHandle_def Let_def)
  then show ?thesis
    using RegisterTable_handles [OF run ok] run by (auto simp: all_well_def fresh_session_def)
qed

section \<open>From the engine's predicates to the file\<close>

text \<open>The Parquet provider behind a handle: \<open>opened\<close> is what opening its file gives.\<close>

definition scan_err_text :: "scan_err \<Rightarrow> string" where
  "scan_err_text e =
     (case e of OpenError m \<Rightarrow> m | ReadError m \<Rightarrow> m | ScanError m \<Rightarrow> m
      | ProjectionOutOfRange i \<Rightarrow> ''projection index out of range'' | ProjectReaderPanic \<Rightarrow> [])"

definition provider_call :: "scan_err + RecordReader \<Rightarrow> (string + RecordReader option) call" where
  "provider_call res =
     (case res of
        Inl e \<Rightarrow> if e = ProjectReaderPanic then Panics ''ProjectReader index out of range'' else Returns (Inl (scan_err_text e))
      | Inr r \<Rightarrow> Returns (Inr (Some r)))"

definition parquet_table :: "Schema \<Rightarrow> ('r, 'bf) open_result \<Rightarrow> table_provider" where
  "parquet_table sc opened =
     \<lparr>tp_Schema = Returns (Some sc),
      tp_Scan = provider_call (fst (Scan opened)),
      tp_ScanWithOptions = Some (\<lambda>opts. provider_call (fst (ScanWithOptions sc opened (Some opts)))),
      tp_InsertInto = None\<rparr>"

lemma go_table_scan_pushdown:
  assumes "h_live h n = Some (TableImpl p)" and "tp_ScanWithOptions p = Some scan" and "decodeFilters doc = Inr es"
    and "go_table_scan h n len proj (Some doc) limit = Inr r"
  shows "scan \<lparr>so_projection = scan_projection len proj, so_filters = es, so_limit = limit\<rparr> = Returns (Inr (Some r))"
  using assms
  by (auto simp: go_table_scan_def handle_value_def as_table_def trapCallbackPanic_def call_bind_def
      split: call.splits sum.splits option.splits)

text \<open>The columns the engine asks for with an array of indices and its length, negative for all.\<close>

definition requested :: "Schema \<Rightarrow> int \<Rightarrow> i32 list \<Rightarrow> int list" where
  "requested sc len proj =
     (if len < 0 then map int [0..<length (schema_fields sc)] else map sint (take (nat len) proj))"

lemma wanted_requested: "wanted sc (scan_projection len proj) = requested sc len proj"
  by (simp add: wanted_def scan_projection_def requested_def)

text \<open>A scan the engine starts through the C callback on a Parquet table, with whatever predicates it
  serialized to JSON, returns exactly the requested columns (a negative count asks for all) of batches whose matching rows are
  the matching rows of the whole file, in order; the predicates survive the wire and pruning
  loses nothing.\<close>

theorem engine_scan_complete:
  assumes "h_live h n = Some (TableImpl (parquet_table sc (Opened f)))"
    and "list_all wire_ok es"
    and "\<And>x. f32_mag x < f32_inf_mag \<Longrightarrow> parse_float32 (p32 x) = Some x"
    and "\<And>x. f64_mag x < f64_inf_mag \<Longrightarrow> parse_float64 (p64 x) = Some x"
    and "go_table_scan h n len proj (Some (Some (JArray (map (wire_expr p32 p64) es)))) limit = Inr r"
    and "sint limit < 0"
    and "file_promise f sc rows" and "manifest_ok f sc" and "read_promise f sc full" and "full_promise f rows full"
  shows "\<exists>bs. rd_Schema r = map (\<lambda>i. schema_fields sc ! nat i) (requested sc len proj) \<and>
    rd_pending r = map (project_batch (rd_Schema r) (requested sc len proj)) bs \<and>
    filter (satisfies fo (schema_dts sc) es) (concat (map batch_rows bs)) =
    filter (satisfies fo (schema_dts sc) es) (concat (map rows [0..<length (pf_rowGroups f)]))"
proof -
  let ?opts = "\<lparr>so_projection = scan_projection len proj, so_filters = es, so_limit = limit\<rparr>"
  have dec: "decodeFilters (Some (JArray (map (wire_expr p32 p64) es))) = Inr es"
    using decode_from_wire [OF assms(2,3,4)] by (simp add: decodeFilters_def)
  have "provider_call (fst (ScanWithOptions sc (Opened f) (Some ?opts))) = Returns (Inr (Some r))"
    using go_table_scan_pushdown [OF assms(1) _ dec assms(5)] by (simp add: parquet_table_def)
  then obtain k where scan: "ScanWithOptions sc (Opened f) (Some ?opts) = (Inr r, k)"
    by (cases "ScanWithOptions sc (Opened f) (Some ?opts)")
      (auto simp: provider_call_def split: sum.splits if_splits)
  have "sint (so_limit ?opts) < 0" using assms(6) by simp
  from ScanWithOptions_keeps [OF assms(7-10) scan this, of fo] show ?thesis
    by (simp only: ScanOptions.select_convs wanted_requested)
qed

section \<open>Example calls\<close>

definition demo_handles :: handles where
  "demo_handles = \<lparr>h_next = 1, h_live = [1 \<mapsto> TableImpl (parquet_table sample_schema (Opened demo_file))]\<rparr>"

lemma wire_ok_demo: "list_all wire_ok [demo_filter]"
  by (simp add: demo_filter_def wire_ok_column_def wire_ok_literal_def col0_def int64_lit_def wf_literal_def
      value_fits_def known_op_def known_unit_def)

lemma demo_call:
  "go_table_scan demo_handles 1 2 [0, 0] (Some (Some (JArray (map (wire_expr exact_fmt32 exact_fmt64) [demo_filter])))) (- 1) =
     Inr (ProjectedReader (ClosingReader (LibReader [int64_field]
       [project_batch [int64_field] [0] (demo_batch 1)] None None 1) False 0) [int64_field, int64_field] [0, 0] None)"
proof -
  have "decodeFilters (Some (JArray (map (wire_expr exact_fmt32 exact_fmt64) [demo_filter]))) = Inr [demo_filter]"
    using decode_from_wire [OF wire_ok_demo parse_exact_fmt32 parse_exact_fmt64] by (simp add: decodeFilters_def)
  moreover have "scan_projection 2 [0, 0] = Some [0, 0]" by (simp add: scan_projection_def)
  ultimately show ?thesis
    using demo_scan
    by (simp add: go_table_scan_def handle_value_def as_table_def demo_handles_def parquet_table_def provider_call_def
        demo_opts_def trapCallbackPanic_def)
qed

theorem engine_scan_complete_witness:
  "\<exists>r bs. go_table_scan demo_handles 1 2 [0, 0]
       (Some (Some (JArray (map (wire_expr exact_fmt32 exact_fmt64) [demo_filter])))) (- 1) = Inr r \<and>
     rd_pending r = map (project_batch (rd_Schema r) [0, 0]) bs \<and>
     filter (satisfies (\<lambda>_ _. None) (schema_dts sample_schema) [demo_filter]) (concat (map batch_rows bs)) =
     filter (satisfies (\<lambda>_ _. None) (schema_dts sample_schema) [demo_filter])
       (concat (map demo_rows [0..<length (pf_rowGroups demo_file)]))"
proof -
  have h: "h_live demo_handles 1 = Some (TableImpl (parquet_table sample_schema (Opened demo_file)))"
    by (simp add: demo_handles_def)
  have limit: "sint (- 1 :: i64) < 0" by simp
  have "requested sample_schema 2 [0, 0] = [0, 0]" by (simp add: requested_def)
  with engine_scan_complete [OF h wire_ok_demo parse_exact_fmt32 parse_exact_fmt64 demo_call limit demo_promises,
      of "\<lambda>_ _. None"] demo_call
  show ?thesis by auto
qed

end
