(* ===== verification/Registration.thy ===== *)
theory Registration
  imports Callbacks
begin

text \<open>
  Registering functions and catalogs (\<open>datafusion/udf.go\<close>, \<open>catalog.go\<close>, with the engine's side of
  the registration), and creating and querying a session (\<open>cgo.go\<close>, \<open>session.go\<close>): which
  handles stay live and which C strings are freed.
\<close>

section \<open>The session's functions and catalogs\<close>

text \<open>
  A function's name, handle, argument fields and result type; the names the engine has of
  its own; the catalogs, of which the default one is the engine's (no handle) at first.
\<close>

record engine_session = session +
  es_functions :: "(string \<times> nat \<times> Field list \<times> dtype) list"
  es_builtins :: "string set"
  es_default_catalog :: string
  es_catalogs :: "(string \<times> nat option) list"

definition go_scalar_udf_release :: "handles \<Rightarrow> nat \<Rightarrow> handles" where
  "go_scalar_udf_release h n = releaseCgoHandle h n"

definition go_catalog_release :: "handles \<Rightarrow> nat \<Rightarrow> handles" where
  "go_catalog_release h n = releaseCgoHandle h n"

definition go_schema_release :: "handles \<Rightarrow> nat \<Rightarrow> handles" where
  "go_schema_release h n = releaseCgoHandle h n"

section \<open>Functions\<close>

record udf_outcome =
  uo_utf8 :: bool
  uo_args_err :: "string option"
  uo_ret_err :: "string option"

definition df_session_register_scalar_udf ::
  "udf_outcome \<Rightarrow> engine_session \<Rightarrow> string \<Rightarrow> Field list \<Rightarrow> Field list \<Rightarrow> nat \<Rightarrow> string option \<times> engine_session" where
  "df_session_register_scalar_udf o' s name args ret handle =
     (let released = s\<lparr>ss_handles := go_scalar_udf_release (ss_handles s) handle\<rparr>
      in if \<not> uo_utf8 o' then (Some ''function name is not valid UTF-8'', released)
         else if name \<in> es_builtins s \<or> name \<in> fst ` set (es_functions s)
           then (Some ''scalar function is already registered'', released)
         else
           (case uo_args_err o' of
              Some e \<Rightarrow> (Some e, released)
            | None \<Rightarrow>
                (case uo_ret_err o' of
                   Some e \<Rightarrow> (Some e, released)
                 | None \<Rightarrow>
                     if length ret \<noteq> 1 then (Some ''return type schema must have exactly one field'', released)
                     else (None, s\<lparr>es_functions :=
                        es_functions s @ [(name, handle, args, field_type (ret ! 0))]\<rparr>))))"

definition RegisterScalarUDF ::
  "udf_outcome \<Rightarrow> engine_session \<Rightarrow> scalar_udf option \<Rightarrow> register_err option \<times> engine_session" where
  "RegisterScalarUDF o' s udf =
     (case udf of
        None \<Rightarrow> (Some NilProvider, s)
      | Some u \<Rightarrow>
          if ss_closed s then (Some ErrSessionClosed, s)
          else
            (case NewHandle (ss_handles s) (UdfImpl u) of
               (n, h) \<Rightarrow>
                 (case df_session_register_scalar_udf o' (s\<lparr>ss_handles := h\<rparr>) (c_string (su_Name u))
                         (udf_arg_fields u) (udf_return_fields u) n of
                    (Some e, s') \<Rightarrow> (Some (EngineError e), s')
                  | (None, s') \<Rightarrow> (None, s'))))"

section \<open>Catalogs\<close>

text \<open>
  Replacing the default catalog drops the one before: a Go catalog's handle is released with it,
  and so are those of the tables registered in it when it was the engine's own.
\<close>

definition table_handles :: "engine_session \<Rightarrow> nat list" where
  "table_handles s = map (\<lambda>(name, n, pushdown, insert_ok). n) (ss_tables s)"

definition catalog_handles :: "(string \<times> nat option) list \<Rightarrow> nat list" where
  "catalog_handles cs = List.map_filter snd cs"

definition df_session_register_catalog ::
  "bool \<Rightarrow> engine_session \<Rightarrow> string \<Rightarrow> nat \<Rightarrow> string option \<times> engine_session" where
  "df_session_register_catalog utf8 s name handle =
     (if \<not> utf8 then (Some ''catalog name is not valid UTF-8'', s)
      else if name \<noteq> es_default_catalog s \<and> name \<in> fst ` set (es_catalogs s)
        then (Some ''catalog is already registered'', s\<lparr>ss_handles := go_catalog_release (ss_handles s) handle\<rparr>)
      else
        (let tables = (if name = es_default_catalog s then table_handles s else []);
             h = fold (\<lambda>n h. go_catalog_release h n)
                   (catalog_handles (filter (\<lambda>c. fst c = name) (es_catalogs s))) (ss_handles s)
         in (None, s\<lparr>es_catalogs := (name, Some handle) # filter (\<lambda>c. fst c \<noteq> name) (es_catalogs s),
                     ss_tables := (if name = es_default_catalog s then [] else ss_tables s),
                     ss_handles := fold (\<lambda>n h. go_table_release h n) tables h\<rparr>)))"

definition RegisterCatalog ::
  "bool \<Rightarrow> engine_session \<Rightarrow> string \<Rightarrow> catalog_provider option \<Rightarrow> register_err option \<times> engine_session" where
  "RegisterCatalog utf8 s name catalog =
     (case catalog of
        None \<Rightarrow> (Some NilProvider, s)
      | Some p \<Rightarrow>
          if ss_closed s then (Some ErrSessionClosed, s)
          else
            (case NewHandle (ss_handles s) (CatalogImpl p) of
               (n, h) \<Rightarrow>
                 (case df_session_register_catalog utf8 (s\<lparr>ss_handles := h\<rparr>) (c_string name) n of
                    (Some e, s') \<Rightarrow> (Some (EngineError e), s')
                  | (None, s') \<Rightarrow> (None, s'))))"

section \<open>Sessions\<close>

text \<open>\<open>cErrorToGo\<close>, with the number of C strings it freed.\<close>

definition cErrorToGo :: "string option \<Rightarrow> string option \<times> nat" where
  "cErrorToGo cErr = (case cErr of None \<Rightarrow> (None, 0) | Some e \<Rightarrow> (Some (c_string e), 1))"

datatype session_err =
    SessionIsClosed
  | EngineSays string
  | NoErrorMessage
  | ImportFailed string
  | NotARecordReader

text \<open>\<open>df_session_new\<close> gives an error string and a handle, \<open>df_session_sql\<close> an error string.\<close>

definition sessionNew :: "string option \<Rightarrow> nat option \<Rightarrow> (session_err + nat) \<times> nat" where
  "sessionNew cErr handle =
     (case cErrorToGo cErr of
        (Some e, freed) \<Rightarrow> (Inl (EngineSays e), freed)
      | (None, freed) \<Rightarrow> (case handle of None \<Rightarrow> (Inl NoErrorMessage, freed) | Some h \<Rightarrow> (Inr h, freed)))"

text \<open>
  \<open>engine\<close> answers the text it is given; \<open>imported\<close> is the reader the library makes of the
  stream, which might not be a record reader. The text's own C string is freed last.
\<close>

definition sessionSQL ::
  "(string \<Rightarrow> string option) \<Rightarrow> string + RecordReader option \<Rightarrow> string \<Rightarrow> (session_err + RecordReader) \<times> nat" where
  "sessionSQL engine imported sql =
     (case cErrorToGo (engine (c_string sql)) of
        (Some e, freed) \<Rightarrow> (Inl (EngineSays e), freed + 1)
      | (None, freed) \<Rightarrow>
          (case imported of
             Inl e \<Rightarrow> (Inl (ImportFailed e), freed + 1)
           | Inr None \<Rightarrow> (Inl NotARecordReader, freed + 1)
           | Inr (Some r) \<Rightarrow> (Inr r, freed + 1)))"

definition SQL ::
  "engine_session \<Rightarrow> (string \<Rightarrow> string option) \<Rightarrow> string + RecordReader option \<Rightarrow> string \<Rightarrow>
   (session_err + RecordReader) \<times> nat" where
  "SQL s engine imported query =
     (if ss_closed s then (Inl SessionIsClosed, 0) else sessionSQL engine imported query)"

section \<open>Handles after a registration\<close>

lemma minted:
  assumes "handles_ok h" and "NewHandle h v = (n, h')"
  shows "h_live h n = None" and "h_live h' = (h_live h)(n \<mapsto> v)" and "(h_live h)(n := None) = h_live h"
  using handles_ok_steps(1) [OF assms] by auto

text \<open>Registering a function either fails, with an error, and leaves the session's functions and the
  live handles as they were, whatever the reason; or it adds exactly one function, under the
  name the engine reads, with one nullable field per declared argument type, the declared
  result type, and a live handle of the implementation.\<close>

theorem RegisterScalarUDF_handles:
  assumes "RegisterScalarUDF o' s udf = (e, s')" and "handles_ok (ss_handles s)"
  shows "case e of
      Some err \<Rightarrow> es_functions s' = es_functions s \<and> h_live (ss_handles s') = h_live (ss_handles s)
    | None \<Rightarrow> (\<exists>u n. udf = Some u \<and> h_live (ss_handles s) n = None \<and>
        h_live (ss_handles s') = (h_live (ss_handles s))(n \<mapsto> UdfImpl u) \<and>
        es_functions s' = es_functions s @ [(c_string (su_Name u), n, udf_arg_fields u, su_ReturnType u)] \<and>
        c_string (su_Name u) \<notin> fst ` set (es_functions s))"
proof (cases "udf = None \<or> ss_closed s")
  case True
  then show ?thesis using assms(1) by (auto simp: RegisterScalarUDF_def split: option.splits)
next
  case False
  then obtain u where u: "udf = Some u" "\<not> ss_closed s" by auto
  obtain n h where nh: "NewHandle (ss_handles s) (UdfImpl u) = (n, h)" by (rule prod.exhaust)
  note new = minted [OF assms(2) nh]
  obtain ee s2 where reg: "df_session_register_scalar_udf o' (s\<lparr>ss_handles := h\<rparr>) (c_string (su_Name u))
      (udf_arg_fields u) (udf_return_fields u) n = (ee, s2)" by (rule prod.exhaust)
  have e: "e = map_option EngineError ee" "s' = s2"
    using assms(1) u nh reg by (auto simp: RegisterScalarUDF_def split: option.splits)
  show ?thesis
    using reg new u unfolding e
    by (auto simp: df_session_register_scalar_udf_def Let_def go_scalar_udf_release_def releaseCgoHandle_def
        udf_return_fields_def split: if_splits option.splits)
qed

definition demo_udf :: scalar_udf where
  "demo_udf = \<lparr>su_Name = ''twice'', su_ArgTypes = [Int64DT], su_ReturnType = Int64DT, su_Evaluate = (\<lambda>args. Returns (Inr None))\<rparr>"

definition demo_session :: engine_session where
  "demo_session = \<lparr>ss_closed = False, ss_handles = \<lparr>h_next = 0, h_live = Map.empty\<rparr>, ss_tables = [],
     es_functions = [], es_builtins = {''abs''}, es_default_catalog = ''datafusion'', es_catalogs = [(''datafusion'', None)]\<rparr>"

theorem RegisterScalarUDF_handles_witness:
  "\<exists>e s'. RegisterScalarUDF \<lparr>uo_utf8 = True, uo_args_err = None, uo_ret_err = None\<rparr> demo_session (Some demo_udf) = (e, s') \<and>
    e = None \<and> length (es_functions s') = 1"
proof -
  let ?o = "\<lparr>uo_utf8 = True, uo_args_err = None, uo_ret_err = None\<rparr>"
  obtain e s' where r: "RegisterScalarUDF ?o demo_session (Some demo_udf) = (e, s')" by (rule prod.exhaust)
  have "handles_ok (ss_handles demo_session)" by (simp add: handles_ok_def demo_session_def)
  note reg = RegisterScalarUDF_handles [OF r this]
  have "e = None"
    using r by (auto simp: RegisterScalarUDF_def demo_session_def demo_udf_def NewHandle_def
        df_session_register_scalar_udf_def udf_return_fields_def c_string_def split: option.splits)
  with reg r show ?thesis by (auto simp: demo_session_def)
qed

text \<open>
  Registering a catalog leaks the handle in one case only: the engine rejects a name that is
  not UTF-8 without releasing it.
\<close>

lemma RegisterCatalog_fails:
  assumes "RegisterCatalog utf8 s name catalog = (Some err, s')" and "handles_ok (ss_handles s)"
  shows "es_catalogs s' = es_catalogs s \<and>
    (h_live (ss_handles s') = h_live (ss_handles s) \<longleftrightarrow> catalog = None \<or> ss_closed s \<or> utf8)"
proof (cases "catalog = None \<or> ss_closed s")
  case True
  then show ?thesis using assms(1) by (auto simp: RegisterCatalog_def split: option.splits)
next
  case False
  then obtain p where p: "catalog = Some p" "\<not> ss_closed s" by auto
  obtain n h where nh: "NewHandle (ss_handles s) (CatalogImpl p) = (n, h)" by (rule prod.exhaust)
  note new = minted [OF assms(2) nh]
  have changed: "(h_live (ss_handles s))(n \<mapsto> v) \<noteq> h_live (ss_handles s)" for v
    using new(1) by (metis fun_upd_same option.discI)
  show ?thesis
    using assms(1) p nh new changed
    by (auto simp: RegisterCatalog_def df_session_register_catalog_def go_catalog_release_def releaseCgoHandle_def Let_def
        split: if_splits option.splits)
qed

text \<open>
  \<open>SQL\<close> frees every C string: its own text's, and the engine's message when there is one. The
  engine is asked the text up to its first NUL only.
\<close>

lemma SQL_frees:
  assumes "SQL s engine imported query = (res, freed)" and "\<not> ss_closed s"
  shows "freed = 1 + (if engine (c_string query) = None then 0 else 1)"
  using assms by (auto simp: SQL_def sessionSQL_def cErrorToGo_def split: option.splits sum.splits)

lemma SQL_reads_prefix: "SQL s engine imported (q @ CHR 0x00 # rest) = SQL s engine imported q"
  by (simp add: SQL_def sessionSQL_def c_string_def takeWhile_tail)

end
