(* ===== verification/Session.thy ===== *)
theory Session
  imports Main
begin

text \<open>
  \<open>datafusion/session.go\<close>: the life of a session under concurrent calls, closes and the
  finalizer, as a step relation. A call is \<open>SQL\<close> or one of the registrations, which take
  the same lock and make the same check; what it does in the engine is one step while the
  read lock is held.
\<close>

section \<open>The state\<close>

text \<open>
  Where a goroutine is: before its call, holding the read lock with the check to come,
  inside the engine, after winning the compare-and-swap of \<open>Close\<close>, holding the write
  lock, or back with a result.
\<close>

datatype session_result = CallDone | SessionClosed | CloseDone

datatype session_pc = Before | Checking | InEngine | Draining | Freeing | Back session_result

record session_state =
  spcs :: "nat \<Rightarrow> session_pc"
  closed_flag :: bool
  handle_live :: bool
  frees :: nat
  collected :: bool

definition NewSessionContext :: session_state where
  "NewSessionContext =
     \<lparr>spcs = (\<lambda>t. Before), closed_flag = False, handle_live = True, frees = 0, collected = False\<rparr>"

text \<open>The \<open>RWMutex\<close>, read off where the goroutines are.\<close>

definition write_locked :: "session_state \<Rightarrow> bool" where
  "write_locked s \<longleftrightarrow> (\<exists>t. spcs s t = Freeing)"

definition read_locked :: "session_state \<Rightarrow> bool" where
  "read_locked s \<longleftrightarrow> (\<exists>t. spcs s t = Checking \<or> spcs s t = InEngine)"

definition at :: "session_state \<Rightarrow> nat \<Rightarrow> session_pc \<Rightarrow> session_state" where
  "at s t p = s\<lparr>spcs := (spcs s)(t := p)\<rparr>"

definition sessionFree :: "session_state \<Rightarrow> session_state" where
  "sessionFree s = s\<lparr>handle_live := False, frees := Suc (frees s)\<rparr>"

section \<open>Steps\<close>

text \<open>
  The finalizer runs when nothing refers to the session any more: no goroutine is in a
  method, and none will call one.
\<close>

inductive session_step :: "session_state \<Rightarrow> session_state \<Rightarrow> bool" where
  RLock: "\<not> collected s \<Longrightarrow> spcs s t = Before \<Longrightarrow> \<not> write_locked s \<Longrightarrow> session_step s (at s t Checking)"
| found_closed: "spcs s t = Checking \<Longrightarrow> closed_flag s \<Longrightarrow> session_step s (at s t (Back SessionClosed))"
| found_open: "spcs s t = Checking \<Longrightarrow> \<not> closed_flag s \<Longrightarrow> session_step s (at s t InEngine)"
| engine_returns: "spcs s t = InEngine \<Longrightarrow> session_step s (at s t (Back CallDone))"
| Close_lost: "\<not> collected s \<Longrightarrow> spcs s t = Before \<Longrightarrow> closed_flag s \<Longrightarrow> session_step s (at s t (Back CloseDone))"
| Close_won: "\<not> collected s \<Longrightarrow> spcs s t = Before \<Longrightarrow> \<not> closed_flag s \<Longrightarrow>
    session_step s (at (s\<lparr>closed_flag := True\<rparr>) t Draining)"
| Lock: "spcs s t = Draining \<Longrightarrow> \<not> write_locked s \<Longrightarrow> \<not> read_locked s \<Longrightarrow> session_step s (at s t Freeing)"
| Close_frees: "spcs s t = Freeing \<Longrightarrow> session_step s (at (sessionFree s) t (Back CloseDone))"
| finalize: "\<not> collected s \<Longrightarrow> (\<And>t. spcs s t = Before \<or> (\<exists>r. spcs s t = Back r)) \<Longrightarrow>
    session_step s (if closed_flag s then s\<lparr>collected := True\<rparr>
                    else sessionFree (s\<lparr>closed_flag := True, collected := True\<rparr>))"

inductive_cases session_stepE: "session_step s s'"

section \<open>The invariant\<close>

definition closing_pc :: "session_pc \<Rightarrow> bool" where
  "closing_pc p \<longleftrightarrow> p = Draining \<or> p = Freeing"

text \<open>
  One goroutine at most is closing, and then nothing has been freed; the handle is live
  until the one free; a holder of the write lock excludes the readers; and a call in the
  engine has the handle.
\<close>

definition session_inv :: "session_state \<Rightarrow> bool" where
  "session_inv s \<longleftrightarrow>
     (\<forall>t. closing_pc (spcs s t) \<longrightarrow> closed_flag s \<and> frees s = 0) \<and>
     (\<forall>t t'. closing_pc (spcs s t) \<longrightarrow> closing_pc (spcs s t') \<longrightarrow> t = t') \<and>
     (\<not> closed_flag s \<longrightarrow> frees s = 0) \<and>
     frees s = (if handle_live s then 0 else 1) \<and>
     (write_locked s \<longrightarrow> \<not> read_locked s) \<and>
     (\<forall>t. spcs s t = InEngine \<longrightarrow> handle_live s)"

lemma closing_pc_simps [simp]:
  "closing_pc Draining" "closing_pc Freeing" "\<not> closing_pc Before" "\<not> closing_pc Checking"
  "\<not> closing_pc InEngine" "\<not> closing_pc (Back r)"
  by (simp_all add: closing_pc_def)

lemma at_sel [simp]:
  "spcs (at s t p) = (spcs s)(t := p)" "closed_flag (at s t p) = closed_flag s"
  "handle_live (at s t p) = handle_live s" "frees (at s t p) = frees s" "collected (at s t p) = collected s"
  by (simp_all add: at_def)

lemma free_sel [simp]:
  "spcs (sessionFree s) = spcs s" "closed_flag (sessionFree s) = closed_flag s"
  "\<not> handle_live (sessionFree s)" "frees (sessionFree s) = Suc (frees s)" "collected (sessionFree s) = collected s"
  by (simp_all add: sessionFree_def)

lemma session_invE:
  assumes "session_inv s"
  shows "closing_pc (spcs s t) \<Longrightarrow> closed_flag s \<and> frees s = 0"
    and "closing_pc (spcs s t) \<Longrightarrow> closing_pc (spcs s t') \<Longrightarrow> t = t'"
    and "\<not> closed_flag s \<Longrightarrow> frees s = 0"
    and "frees s = (if handle_live s then 0 else 1)"
    and "spcs s t = Freeing \<Longrightarrow> spcs s t' \<noteq> Checking \<and> spcs s t' \<noteq> InEngine"
    and "spcs s t = InEngine \<Longrightarrow> handle_live s"
  using assms unfolding session_inv_def write_locked_def read_locked_def by metis+

lemma session_invI:
  assumes "\<And>t. closing_pc (spcs s t) \<Longrightarrow> closed_flag s \<and> frees s = 0"
    and "\<And>t t'. closing_pc (spcs s t) \<Longrightarrow> closing_pc (spcs s t') \<Longrightarrow> t = t'"
    and "\<not> closed_flag s \<Longrightarrow> frees s = 0"
    and "frees s = (if handle_live s then 0 else 1)"
    and "\<And>t t'. spcs s t = Freeing \<Longrightarrow> spcs s t' \<noteq> Checking \<and> spcs s t' \<noteq> InEngine"
    and "\<And>t. spcs s t = InEngine \<Longrightarrow> handle_live s"
  shows "session_inv s"
  unfolding session_inv_def write_locked_def read_locked_def
  by (intro conjI allI impI; use assms in blast)

lemma step_session_inv: "session_step s s' \<Longrightarrow> session_inv s \<Longrightarrow> session_inv s'"
proof (induction rule: session_step.induct)
  case (RLock s t)
  note inv = session_invE [OF RLock(4)]
  show ?case using RLock(2,3) inv
    by (intro session_invI) (auto simp: write_locked_def split: if_splits)
next
  case (found_closed s t)
  note inv = session_invE [OF found_closed(3)]
  show ?case using found_closed(1) inv by (intro session_invI) (auto split: if_splits)
next
  case (found_open s t)
  note inv = session_invE [OF found_open(3)]
  have "handle_live s" using inv(3,4) found_open(2) by (auto split: if_splits)
  then show ?case using found_open(1,2) inv by (intro session_invI) (auto split: if_splits)
next
  case (engine_returns s t)
  note inv = session_invE [OF engine_returns(2)]
  show ?case using engine_returns(1) inv by (intro session_invI) (auto split: if_splits)
next
  case (Close_lost s t)
  note inv = session_invE [OF Close_lost(4)]
  show ?case using Close_lost(2) inv by (intro session_invI) (auto split: if_splits)
next
  case (Close_won s t)
  note inv = session_invE [OF Close_won(4)]
  have "\<not> closing_pc (spcs s t')" for t' using inv(1) Close_won(3) by blast
  then show ?case using Close_won(2,3) inv by (intro session_invI) (auto split: if_splits)
next
  case (Lock s t)
  note inv = session_invE [OF Lock(4)]
  show ?case using Lock(1-3) inv
    by (intro session_invI) (auto simp: write_locked_def read_locked_def closing_pc_def split: if_splits)
next
  case (Close_frees s t)
  note inv = session_invE [OF Close_frees(2)]
  have alone: "\<not> closing_pc (spcs s t')" if "t' \<noteq> t" for t' using inv(2) [of t t'] Close_frees(1) that by auto
  have "frees s = 0" "closed_flag s" using inv(1) [of t] Close_frees(1) by simp_all
  then show ?case using alone inv(5) [OF Close_frees(1)]
    by (intro session_invI) (auto simp: closing_pc_def split: if_splits)
next
  case (finalize s)
  note inv = session_invE [OF finalize(3)]
  have idle: "\<not> closing_pc (spcs s t)" "spcs s t \<noteq> InEngine" for t
    using finalize(2) [of t] by auto
  show ?case
  proof (cases "closed_flag s")
    case True
    then show ?thesis using inv idle by (intro session_invI) (auto split: if_splits)
  next
    case False
    then have "frees s = 0" using inv(3) by simp
    then show ?thesis using inv idle False by (intro session_invI) (auto simp: closing_pc_def split: if_splits)
  qed
qed

lemma session_reachable_inv: "session_step\<^sup>*\<^sup>* NewSessionContext s \<Longrightarrow> session_inv s"
proof (induction rule: rtranclp_induct)
  case base
  show ?case by (rule session_invI) (simp_all add: NewSessionContext_def)
qed (rule step_session_inv)

text \<open>C20: However calls, closes and the finalizer interleave, the engine's session is freed at most once,
  never while a call is in the engine, and a call that gets past its check has a live handle
  until it returns.\<close>

theorem session_no_use_after_free:
  assumes "session_step\<^sup>*\<^sup>* NewSessionContext s"
  shows "frees s \<le> 1 \<and> (spcs s t = InEngine \<longrightarrow> handle_live s \<and> frees s = 0)"
proof -
  note inv = session_invE [OF session_reachable_inv [OF assms]]
  show ?thesis using inv(4) inv(6) [of t] by auto
qed

section \<open>A close that does not wait\<close>

definition early_close :: session_state where
  "early_close = NewSessionContext
     \<lparr>spcs := (\<lambda>t. Before)(0 := InEngine, 1 := Draining, 2 := Back CloseDone), closed_flag := True\<rparr>"

lemma early_close_reached: "session_step\<^sup>*\<^sup>* NewSessionContext early_close"
proof -
  let ?s0 = NewSessionContext
  have s1: "session_step ?s0 (at ?s0 0 Checking)"
    by (rule RLock) (simp_all add: NewSessionContext_def write_locked_def)
  have s2: "session_step (at ?s0 0 Checking) (at (at ?s0 0 Checking) 0 InEngine)"
    by (rule found_open) (simp_all add: NewSessionContext_def)
  let ?s2 = "at (at ?s0 0 Checking) 0 InEngine"
  have s3: "session_step ?s2 (at (?s2\<lparr>closed_flag := True\<rparr>) 1 Draining)"
    by (rule Close_won) (simp_all add: NewSessionContext_def)
  let ?s3 = "at (?s2\<lparr>closed_flag := True\<rparr>) 1 Draining"
  have s4: "session_step ?s3 (at ?s3 2 (Back CloseDone))"
    by (rule Close_lost) (simp_all add: NewSessionContext_def)
  have "at ?s3 2 (Back CloseDone) = early_close"
    by (simp add: early_close_def at_def NewSessionContext_def)
  then show ?thesis using s1 s2 s3 s4 by (metis rtranclp.rtrancl_refl rtranclp.rtrancl_into_rtrancl)
qed

theorem session_no_use_after_free_witness: "handle_live early_close \<and> frees early_close = 0"
  using session_no_use_after_free [OF early_close_reached, of 0] by (simp add: early_close_def)

text \<open>
  A second \<open>Close\<close> returns at once, while the first still waits for a call in the engine
  and nothing has been freed.
\<close>

lemma second_close_returns_early:
  "\<exists>s. session_step\<^sup>*\<^sup>* NewSessionContext s \<and> spcs s 2 = Back CloseDone \<and> spcs s 1 = Draining \<and>
     spcs s 0 = InEngine \<and> frees s = 0"
  using early_close_reached by (intro exI [of _ early_close]) (simp add: early_close_def NewSessionContext_def)

end
