(* ===== verification/Insert_Correct.thy ===== *)
theory Insert_Correct
  imports Parquet_Insert
begin

text \<open>
  The Parquet insert against the object-store contract: all or nothing, with the exact
  contents and row count of a success. Proved once for any store of the interface and
  applied to the in-memory and the local backend.
\<close>

section \<open>What a complete file is\<close>

text \<open>The bytes the encoder gives for a sequence of batches, footer included.\<close>

fun encode_batches :: "'p FileWriter \<Rightarrow> 'p \<Rightarrow> Batch list \<Rightarrow> ('p \<times> byte list) option" where
  "encode_batches fw p [] = Some (p, [])"
| "encode_batches fw p (b # bs) =
     (case fw_Write fw p b of
        Inl e \<Rightarrow> None
      | Inr (p', cs) \<Rightarrow> map_option (\<lambda>(q, out). (q, concat cs @ out)) (encode_batches fw p' bs))"

definition encode_file :: "'p FileWriter \<Rightarrow> Field list \<Rightarrow> Batch list \<Rightarrow> byte list option" where
  "encode_file fw schema bs =
     (case fw_New fw schema of
        Inl e \<Rightarrow> None
      | Inr (p, cs) \<Rightarrow>
          (case encode_batches fw p bs of
             None \<Rightarrow> None
           | Some (q, out) \<Rightarrow>
               (case fw_Close fw q of Inl e \<Rightarrow> None | Inr cs' \<Rightarrow> Some (concat cs @ out @ concat cs'))))"

lemma encode_batches_append:
  "encode_batches fw p bs = Some (q, out) \<Longrightarrow> encode_batches fw q cs = Some (q', out') \<Longrightarrow>
   encode_batches fw p (bs @ cs) = Some (q', out @ out')"
  by (induction bs arbitrary: p out) (auto split: sum.splits prod.splits)

text \<open>The error a reader ends with once it is read to its end.\<close>

definition final_err :: "RecordReader \<Rightarrow> string option" where
  "final_err r = rd_Err (snd (readers.drain (Suc (length (rd_pending r))) r))"

lemma final_err_Nil:
  "rd_pending r = [] \<Longrightarrow> rd_Next r = (False, r') \<Longrightarrow> final_err r = rd_Err r'"
  by (simp add: final_err_def)

lemma final_err_Cons:
  "rd_pending r = b # bs \<Longrightarrow> rd_Next r = (True, r') \<Longrightarrow> rd_RecordBatch r' = Some b \<Longrightarrow> rd_pending r' = bs \<Longrightarrow>
   final_err r = final_err r'"
  by (simp add: final_err_def split_beta)

text \<open>
  The batches the new file holds ahead of the insert's; \<open>None\<close> when the existing object cannot
  be read to its end.
\<close>

definition existing_batches ::
  "InsertOp \<Rightarrow> (byte list option \<Rightarrow> string + RecordReader) \<Rightarrow> byte list option \<Rightarrow> Batch list option" where
  "existing_batches op scan old =
     (if op = InsertAppend then
        (case scan old of Inl e \<Rightarrow> None | Inr r \<Rightarrow> if final_err r = None then Some (rd_pending r) else None)
      else Some [])"

section \<open>Inserting into any store of the interface\<close>

context object_store
begin

definition ops :: "('o, 's, 'w) Store" where
  "ops = \<lparr>st_published = published, st_Create = do_create, st_Write = do_write, st_Close = do_close, st_Abort = do_abort\<rparr>"

lemma ops_sel [simp]:
  "st_published ops = published" "st_Create ops = do_create" "st_Write ops = do_write"
  "st_Close ops = do_close" "st_Abort ops = do_abort"
  by (simp_all add: ops_def)

text \<open>The sink is open, belongs to the target and has not published anything.\<close>

definition sink_ok :: "string \<Rightarrow> (string \<Rightarrow> byte list option) \<Rightarrow> ('s, 'w) sink \<Rightarrow> bool" where
  "sink_ok path old k =
     (case k of (w, s, n) \<Rightarrow> inv (w, s) \<and> \<not> finished w \<and> target w = path \<and> published s = old)"

definition sink_bytes :: "('s, 'w) sink \<Rightarrow> byte list" where
  "sink_bytes k = (case k of (w, s, n) \<Rightarrow> contents (w, s))"

lemma sinkWrite_ok [store_laws]:
  "sinkWrite ops os cs k = (ok, k') \<Longrightarrow> sink_ok path old k \<Longrightarrow>
   sink_ok path old k' \<and> (ok \<longrightarrow> sink_bytes k' = sink_bytes k @ concat cs)"
proof (induction "ops :: ('o, 's, 'w) Store" os cs k rule: sinkWrite.induct)
  case (2 os c cs w s n)
  obtain okc w1 s1 where w1: "do_write (os n) c (w, s) = (okc, w1, s1)" by (metis prod_cases3)
  note l = write_law [OF _ _ w1]
  show ?case
  proof (cases okc)
    case True
    then have "sinkWrite ops os cs (w1, s1, Suc n) = (ok, k')" using "2.prems"(1) w1 by simp
    moreover have "sink_ok path old (w1, s1, Suc n)" using l "2.prems"(2) by (auto simp: sink_ok_def)
    ultimately have "sink_ok path old k' \<and> (ok \<longrightarrow> sink_bytes k' = sink_bytes (w1, s1, Suc n) @ concat cs)"
      using "2.hyps" w1 True by simp
    then show ?thesis using l True "2.prems"(2) by (auto simp: sink_ok_def sink_bytes_def)
  next
    case False
    then show ?thesis using "2.prems" w1 l by (auto simp: sink_ok_def)
  qed
qed simp

lemma fwWrite_ok [store_laws]:
  assumes "fwWrite ops fw os b p k = (res, k')" and "sink_ok path old k"
  shows "sink_ok path old k' \<and>
    (\<forall>p'. res = Inr p' \<longrightarrow> (\<exists>out. encode_batches fw p [b] = Some (p', out) \<and> sink_bytes k' = sink_bytes k @ out))"
proof (cases "fw_Write fw p b")
  case (Inl e)
  then show ?thesis using assms by (auto simp: fwWrite_def)
next
  case (Inr r)
  obtain p1 cs where r: "r = (p1, cs)" by fastforce
  obtain ok k1 where s: "sinkWrite ops os cs k = (ok, k1)" by (rule prod.exhaust)
  then show ?thesis using assms(1) Inr r sinkWrite_ok [OF s assms(2)]
    by (auto simp: fwWrite_def split: if_splits)
qed

lemma writeAll_ok [store_laws]:
  "writeAll ops fw os bnd r p count k = (res, r', k') \<Longrightarrow> sink_ok path old k \<Longrightarrow> rd_ok r \<Longrightarrow>
   sink_ok path old k' \<and>
   (\<forall>p' count'. res = Inr (p', count') \<longrightarrow> final_err r = rd_Err r' \<and>
      (\<exists>out. encode_batches fw p (map bnd (rd_pending r)) = Some (p', out) \<and>
         sink_bytes k' = sink_bytes k @ out \<and> count' = count + sum_rows (rd_pending r)))"
proof (induction "ops :: ('o, 's, 'w) Store" fw os bnd r p count k arbitrary: res rule: writeAll.induct)
  case (1 fw os bnd r p count k)
  show ?case
  proof (cases "rd_pending r")
    case Nil
    with Next_end [OF "1.prems"(3)] obtain r1 where "rd_Next r = (False, r1)" by blast
    then show ?thesis using "1.prems" Nil final_err_Nil [OF Nil] by (auto simp: writeAll.simps [of _ _ _ _ r])
  next
    case (Cons b bs)
    with Next_more [OF "1.prems"(3)] obtain r1 where r1: "rd_Next r = (True, r1)"
      "rd_RecordBatch r1 = Some b" "rd_pending r1 = bs" "rd_ok r1" by blast
    obtain fres k1 where f: "fwWrite ops fw os (bnd b) p k = (fres, k1)" by (rule prod.exhaust)
    note w = fwWrite_ok [OF f "1.prems"(2)]
    show ?thesis
    proof (cases fres)
      case (Inl e)
      then show ?thesis using "1.prems"(1) r1 f w by (auto simp: writeAll.simps [of _ _ _ _ r])
    next
      case (Inr p1)
      then have rest: "writeAll ops fw os bnd r1 p1 (count + b_numRows b) k1 = (res, r', k')"
        using "1.prems"(1) r1 f by (simp add: writeAll.simps [of _ _ _ _ r])
      from w Inr obtain out where out: "encode_batches fw p [bnd b] = Some (p1, out)"
        "sink_bytes k1 = sink_bytes k @ out" by blast
      have IH: "sink_ok path old k' \<and>
         (\<forall>p' count'. res = Inr (p', count') \<longrightarrow> final_err r1 = rd_Err r' \<and>
            (\<exists>out. encode_batches fw p1 (map bnd (rd_pending r1)) = Some (p', out) \<and>
               sink_bytes k' = sink_bytes k1 @ out \<and> count' = count + b_numRows b + sum_rows (rd_pending r1)))"
        using "1.hyps" [OF r1(1) [symmetric] refl r1(2)] f Inr rest w r1(4) by (metis sum.inject(2) prod.inject)
      show ?thesis
        using IH encode_batches_append [OF out(1)] out(2) r1(3) Cons final_err_Cons [OF Cons r1(1-3)] by fastforce
    qed
  qed
qed

lemma streamExisting_ok:
  assumes "streamExistingRows ops fw os scan path p k = (res, k')" and "sink_ok path old k"
    and "\<And>r. scan (old path) = Inr r \<Longrightarrow> rd_ok r"
  shows "sink_ok path old k' \<and>
    (\<forall>p'. res = Inr p' \<longrightarrow> (\<exists>olds out. existing_batches InsertAppend scan (old path) = Some olds \<and>
       encode_batches fw p olds = Some (p', out) \<and> sink_bytes k' = sink_bytes k @ out))"
proof -
  have pub: "published (fst (snd k)) = old" using assms(2) by (auto simp: sink_ok_def)
  show ?thesis
  proof (cases "scan (old path)")
    case (Inl e)
    then show ?thesis using assms(1,2) pub by (auto simp: streamExistingRows_def)
  next
    case (Inr ex)
    obtain r1 ex' k1 where w: "writeAll ops fw os (\<lambda>b. b) ex p 0 k = (r1, ex', k1)" by (rule prod_cases3)
    note l = writeAll_ok [OF w assms(2) assms(3) [OF Inr]]
    show ?thesis
      using assms(1) pub Inr w l
      by (cases r1) (auto simp: streamExistingRows_def existing_batches_def split: option.splits)
  qed
qed

lemma rewriteBatches_ok:
  assumes "rewriteBatches ops fw os schema rows hasFirst p k = (res, rows', k')" and "sink_ok path old k"
    and "rd_ok rows" and "hasFirst \<Longrightarrow> rd_RecordBatch rows = Some b"
  defines "new \<equiv> (if hasFirst then b # rd_pending rows else rd_pending rows)"
  shows "sink_ok path old k' \<and>
    (\<forall>p' n. res = Inr (p', n) \<longrightarrow> final_err rows = None \<and>
      (\<exists>out. encode_batches fw p (map (\<lambda>b. rebindSchema b schema) new) = Some (p', out) \<and>
         sink_bytes k' = sink_bytes k @ out \<and> n = sum_rows new))"
proof -
  have tail: "sink_ok path old k2 \<and>
      (\<forall>p' n. r2 = Inr (p', n) \<longrightarrow> final_err rows = rd_Err rows2 \<and>
        (\<exists>out. encode_batches fw p1 (map (\<lambda>b. rebindSchema b schema) (rd_pending rows)) = Some (p', out) \<and>
           sink_bytes k2 = sink_bytes k1 @ out \<and> n = c1 + sum_rows (rd_pending rows)))"
    if "writeAll ops fw os (\<lambda>b. rebindSchema b schema) rows p1 c1 k1 = (r2, rows2, k2)" "sink_ok path old k1"
    for p1 c1 k1 r2 rows2 k2
    using writeAll_ok [OF that assms(3)] .
  show ?thesis
  proof (cases hasFirst)
    case False
    obtain r2 rows2 k2 where w: "writeAll ops fw os (\<lambda>b. rebindSchema b schema) rows p 0 k = (r2, rows2, k2)"
      by (rule prod_cases3)
    show ?thesis
      using assms(1) False w tail [OF w assms(2)]
      by (cases r2) (auto simp: rewriteBatches_def new_def split: option.splits)
  next
    case True
    obtain f k1 where f: "fwWrite ops fw os (rebindSchema b schema) p k = (f, k1)" by (rule prod.exhaust)
    note fw1 = fwWrite_ok [OF f assms(2)]
    show ?thesis
    proof (cases f)
      case (Inl e)
      then show ?thesis using assms(1,4) True f fw1 by (auto simp: rewriteBatches_def)
    next
      case (Inr p1)
      with fw1 obtain out1 where out1: "encode_batches fw p [rebindSchema b schema] = Some (p1, out1)"
        "sink_bytes k1 = sink_bytes k @ out1" by blast
      obtain r2 rows2 k2 where w: "writeAll ops fw os (\<lambda>b. rebindSchema b schema) rows p1 (b_numRows b) k1 =
          (r2, rows2, k2)" by (rule prod_cases3)
      have k1: "sink_ok path old k1" using fw1 by simp
      have res: "k' = k2" "res = Inr (p', n) \<Longrightarrow> r2 = Inr (p', n) \<and> rd_Err rows2 = None" for p' n
        using assms(1,4) True f Inr w by (cases r2; auto simp: rewriteBatches_def split: option.splits)+
      note l = tail [OF w k1]
      have "final_err rows = None \<and> (\<exists>out. encode_batches fw p (map (\<lambda>b. rebindSchema b schema) new) = Some (p', out) \<and>
         sink_bytes k' = sink_bytes k @ out \<and> n = sum_rows new)" if h: "res = Inr (p', n)" for p' n
      proof -
        from l res(2) [OF h] obtain out2 where
          "encode_batches fw p1 (map (\<lambda>b. rebindSchema b schema) (rd_pending rows)) = Some (p', out2)"
          "sink_bytes k2 = sink_bytes k1 @ out2" "n = b_numRows b + sum_rows (rd_pending rows)" "final_err rows = None" by auto
        then show ?thesis using encode_batches_append [OF out1(1)] out1(2) True res(1) by (simp add: new_def)
      qed
      then show ?thesis using l res(1) by blast
    qed
  qed
qed

lemma rewriteFile_ok:
  assumes "rewriteFile ops fw os scan path schema op rows hasFirst k = (res, rows', k')"
    and "sink_ok path old k" and "sink_bytes k = []" and "rd_ok rows"
    and "hasFirst \<Longrightarrow> rd_RecordBatch rows = Some b"
    and "\<And>r. scan (old path) = Inr r \<Longrightarrow> rd_ok r"
  defines "new \<equiv> (if hasFirst then b # rd_pending rows else rd_pending rows)"
  shows "sink_ok path old k' \<and>
    (\<forall>n. res = Inr n \<longrightarrow> n = sum_rows new \<and> final_err rows = None \<and>
      (\<exists>olds. existing_batches op scan (old path) = Some olds \<and>
        encode_file fw schema (olds @ map (\<lambda>b. rebindSchema b schema) new) = Some (sink_bytes k')))"
proof (cases "fw_New fw schema")
  case (Inl e)
  then show ?thesis using assms(1,2) by (auto simp: rewriteFile_def)
next
  case (Inr pc)
  obtain p0 cs0 where pc: "pc = (p0, cs0)" by (rule prod.exhaust)
  obtain ok k1 where s0: "sinkWrite ops os cs0 k = (ok, k1)" by (rule prod.exhaust)
  note l0 = sinkWrite_ok [OF s0 assms(2)]
  show ?thesis
  proof (cases ok)
    case False
    then show ?thesis using assms(1) Inr pc s0 l0 by (auto simp: rewriteFile_def)
  next
    case True
    obtain e1 k2 where e1: "(if op = InsertAppend then streamExistingRows ops fw os scan path p0 k1 else (Inr p0, k1)) =
        (e1, k2)" by (rule prod.exhaust)
    have l1: "sink_ok path old k2 \<and>
      (\<forall>p'. e1 = Inr p' \<longrightarrow> (\<exists>olds out. existing_batches op scan (old path) = Some olds \<and>
         encode_batches fw p0 olds = Some (p', out) \<and> sink_bytes k2 = sink_bytes k1 @ out))"
    proof (cases "op = InsertAppend")
      case True
      then show ?thesis using streamExisting_ok [of fw os scan path p0 k1 e1 k2 old] e1 l0 assms(6) by simp
    next
      case False
      then show ?thesis using e1 l0 by (auto simp: existing_batches_def)
    qed
    show ?thesis
    proof (cases e1)
      case (Inl e)
      then show ?thesis using assms(1) Inr pc s0 True e1 l1 by (auto simp: rewriteFile_def)
    next
      fix p2 assume p2: "e1 = Inr p2"
      with l1 obtain olds out1 where out1: "encode_batches fw p0 olds = Some (p2, out1)"
        "sink_bytes k2 = sink_bytes k1 @ out1" and olds: "existing_batches op scan (old path) = Some olds" by blast
      obtain r3 rows3 k3 where r3: "rewriteBatches ops fw os schema rows hasFirst p2 k2 = (r3, rows3, k3)"
        by (rule prod_cases3)
      note l3 = rewriteBatches_ok [OF r3 l1 [THEN conjunct1] assms(4,5), folded new_def]
      show ?thesis
      proof (cases r3)
        case (Inl e)
        then show ?thesis using assms(1) Inr pc s0 True e1 p2 r3 l3 by (auto simp: rewriteFile_def)
      next
        fix pn assume "r3 = Inr pn"
        then obtain p3 n where r3': "r3 = Inr (p3, n)" by (cases pn) auto
        with l3 obtain out2 where out2: "n = sum_rows new" "sink_bytes k3 = sink_bytes k2 @ out2"
          "encode_batches fw p2 (map (\<lambda>b. rebindSchema b schema) new) = Some (p3, out2)" "final_err rows = None" by blast
        show ?thesis
        proof (cases "fw_Close fw p3")
          case (Inl e)
          then show ?thesis using assms(1) Inr pc s0 True e1 p2 r3 r3' l3 by (auto simp: rewriteFile_def)
        next
          fix cs assume cs: "fw_Close fw p3 = Inr cs"
          obtain ok4 k4 where s4: "sinkWrite ops os cs k3 = (ok4, k4)" by (rule prod.exhaust)
          note l4 = sinkWrite_ok [OF s4 l3 [THEN conjunct1]]
          have res: "res = (if ok4 then Inr n else Inl (Finalize ''sink''))" "k' = k4"
            using assms(1) Inr pc s0 True e1 p2 r3 r3' cs s4 by (auto simp: rewriteFile_def)
          have "encode_file fw schema (olds @ map (\<lambda>b. rebindSchema b schema) new) =
              Some (concat cs0 @ (out1 @ out2) @ concat cs)"
            using Inr pc encode_batches_append [OF out1(1) out2(3)] cs by (simp add: encode_file_def)
          then show ?thesis using res l0 l4 out1(2) out2 olds True assms(3) by auto
        qed
      qed
    qed
  qed
qed

lemma rewrite_ok:
  assumes "rewrite ops fw os scan path schema op rows hasFirst s = (res, rows', s')" and "valid_path path"
    and "rd_ok rows" and "hasFirst \<Longrightarrow> rd_RecordBatch rows = Some b"
    and "\<And>r. scan (published s path) = Inr r \<Longrightarrow> rd_ok r"
  defines "new \<equiv> (if hasFirst then b # rd_pending rows else rd_pending rows)"
  shows "(case res of
      Inl e \<Rightarrow> published s' = published s
    | Inr n \<Rightarrow> n = sum_rows new \<and> final_err rows = None \<and>
        (\<exists>olds bytes. existing_batches op scan (published s path) = Some olds \<and>
          encode_file fw schema (olds @ map (\<lambda>b. rebindSchema b schema) new) = Some bytes \<and>
          published s' = (published s)(path \<mapsto> bytes)))"
proof (cases "do_create (os 0) s path")
  case None
  then show ?thesis using assms(1) by (auto simp: rewrite_def)
next
  case (Some ws)
  obtain w s1 where ws: "ws = (w, s1)" by (rule prod.exhaust)
  note c = create_law [OF Some [unfolded ws] assms(2)]
  have k0: "sink_ok path (published s) (w, s1, 1)" "sink_bytes (w, s1, 1) = []"
    using c by (simp_all add: sink_ok_def sink_bytes_def)
  obtain r rows2 w2 s2 n2 where r: "rewriteFile ops fw os scan path schema op rows hasFirst (w, s1, 1) =
      (r, rows2, (w2, s2, n2))" by (metis prod_cases3)
  note l = rewriteFile_ok [OF r k0 assms(3,4,5), folded new_def]
  have open2: "inv (w2, s2)" "\<not> finished w2" "target w2 = path" "published s2 = published s"
    using l by (auto simp: sink_ok_def)
  show ?thesis
  proof (cases r)
    case (Inl e)
    obtain ok w3 s3 where a: "do_abort (os n2) (w2, s2) = (ok, w3, s3)" by (rule prod_cases3)
    show ?thesis using assms(1) Some ws r Inl a abort_law [OF open2(1,2) a] open2(4)
      by (auto simp: rewrite_def)
  next
    case (Inr n)
    obtain ok w3 s3 where cl: "do_close (os n2) (w2, s2) = (ok, w3, s3)" by (rule prod_cases3)
    note lc = close_law [OF open2(1,2) cl]
    show ?thesis
    proof (cases ok)
      case True
      then have "res = Inr n" "s' = s3" using assms(1) Some ws r Inr cl by (auto simp: rewrite_def)
      then show ?thesis using l Inr lc True open2 by (auto simp: sink_bytes_def)
    next
      case False
      have "do_abort (os (Suc n2)) (w3, s3) = (True, w3, s3)" using lc by (simp add: finished_abort)
      then have "res = Inl CommitFailed" "s' = s3"
        using assms(1) Some ws r Inr cl False by (auto simp: rewrite_def)
      then show ?thesis using lc False open2(4) by simp
    qed
  qed
qed

lemma InsertInto_ok:
  assumes "InsertInto ops fw os scan path schema op rows s = (res, rows', s')" and "valid_path path"
    and "rd_ok rows" and "\<And>r. scan (published s path) = Inr r \<Longrightarrow> rd_ok r"
  shows "(case res of
      Inl e \<Rightarrow> published s' = published s
    | Inr n \<Rightarrow> n = sum_rows (rd_pending rows) \<and> final_err rows = None \<and>
        (if op = InsertAppend \<and> rd_pending rows = [] then published s' = published s
         else \<exists>olds bytes. existing_batches op scan (published s path) = Some olds \<and>
           encode_file fw schema (olds @ map (\<lambda>b. rebindSchema b schema) (rd_pending rows)) = Some bytes \<and>
           published s' = (published s)(path \<mapsto> bytes)))"
proof (cases "op \<noteq> InsertAppend \<and> op \<noteq> InsertOverwrite")
  case True
  then show ?thesis using assms(1) by (auto simp: InsertInto_def)
next
  case False
  show ?thesis
  proof (cases "rd_pending rows")
    case Nil
    with Next_end [OF assms(3)] obtain r1 where r1: "rd_Next rows = (False, r1)" "rd_pending r1 = []" "rd_ok r1"
      by blast
    show ?thesis
    proof (cases "rd_Err r1")
      case (Some e)
      then show ?thesis using assms(1) False r1 by (auto simp: InsertInto_def)
    next
      case None
      show ?thesis
      proof (cases "op = InsertAppend")
        case True
        then show ?thesis using assms(1) r1 None Nil final_err_Nil [OF Nil r1(1)] by (auto simp: InsertInto_def)
      next
        case ow: False
        obtain res2 rows2 s2 where w: "rewrite ops fw os scan path schema op r1 False s = (res2, rows2, s2)"
          by (rule prod_cases3)
        have "res = res2" "s' = s2" using assms(1) False r1 None ow w by (auto simp: InsertInto_def)
        then show ?thesis using rewrite_ok [OF w assms(2) r1(3) _ assms(4)] r1(2) Nil ow final_err_Nil [OF Nil r1(1)] None
          by (auto split: sum.splits)
      qed
    qed
  next
    case (Cons b bs)
    with Next_more [OF assms(3)] obtain r1 where r1: "rd_Next rows = (True, r1)" "rd_RecordBatch r1 = Some b"
      "rd_pending r1 = bs" "rd_ok r1" by blast
    obtain res2 rows2 s2 where w: "rewrite ops fw os scan path schema op r1 True s = (res2, rows2, s2)"
      by (rule prod_cases3)
    have "res = res2" "s' = s2" using assms(1) False r1 w by (auto simp: InsertInto_def)
    then show ?thesis
      using rewrite_ok [OF w assms(2) r1(4) _ assms(4), of b] r1(2,3) Cons final_err_Cons [OF Cons r1(1-3)]
      by (auto split: sum.splits)
  qed
qed

end

section \<open>The two backends\<close>

definition memory_store :: "(unit, memStore, memWriter) Store" where
  "memory_store =
     \<lparr>st_published = map_of, st_Create = mem_Create, st_Write = mem_Write, st_Close = mem_Close, st_Abort = mem_Abort\<rparr>"

definition filesystem_store :: "(os_outcome, file_system, localWriter) Store" where
  "filesystem_store =
     \<lparr>st_published = visible, st_Create = local_Create, st_Write = local_Write, st_Close = local_Close,
      st_Abort = local_Abort\<rparr>"

lemma store_ops: "memory_store = mem.ops" "filesystem_store = local_store.ops"
  by (simp_all add: memory_store_def filesystem_store_def mem.ops_def local_store.ops_def)

text \<open>C10: An INSERT into a file of the local file system either fails and leaves every visible file as
  it was, or succeeds and replaces exactly that file: an append by the old rows followed by
  the new ones, an overwrite by the new rows alone, each batch rebound to the table's schema.
  The count reported is the number of inserted rows, and an append of no rows touches nothing.
  An input that ends with an error, or for an append an existing file that cannot be read to its
  end, is never reported as a success. Every outcome of every call to the operating system is covered.\<close>

theorem local_insert_atomic:
  assumes "InsertInto filesystem_store fw os scan path schema op rows fs = (res, rows', fs')"
    and "\<not> is_temp path" and "rd_ok rows" and "\<And>r. scan (visible fs path) = Inr r \<Longrightarrow> rd_ok r"
  shows "(case res of
      Inl e \<Rightarrow> visible fs' = visible fs
    | Inr n \<Rightarrow> n = sum_rows (rd_pending rows) \<and> final_err rows = None \<and>
        (if op = InsertAppend \<and> rd_pending rows = [] then visible fs' = visible fs
         else \<exists>olds bytes. existing_batches op scan (visible fs path) = Some olds \<and>
           encode_file fw schema (olds @ map (\<lambda>b. rebindSchema b schema) (rd_pending rows)) = Some bytes \<and>
           visible fs' = (visible fs)(path \<mapsto> bytes)))"
  using assms(1) unfolding store_ops(2) by (rule local_store.InsertInto_ok) (use assms in auto)

text \<open>A file writer for examples: a header byte, one byte per batch, a footer byte.\<close>

definition tiny_writer :: "unit FileWriter" where
  "tiny_writer =
     \<lparr>fw_New = (\<lambda>fs. Inr ((), [[80]])), fw_Write = (\<lambda>p b. Inr ((), [[word_of_int (sint (b_numRows b))]])),
      fw_Close = (\<lambda>p. Inr [[70]])\<rparr>"

definition tiny_rows :: RecordReader where
  "tiny_rows = LibReader [] [\<lparr>b_fields = [], b_columns = [], b_numRows = 2\<rparr>] None None 1"

definition tiny_scan :: "byte list option \<Rightarrow> string + RecordReader" where
  "tiny_scan old = Inr (LibReader [] [\<lparr>b_fields = [], b_columns = [], b_numRows = 5\<rparr>] None None 1)"

lemma tiny_ok: "rd_ok tiny_rows" "tiny_scan old = Inr r \<Longrightarrow> rd_ok r"
  by (auto simp: tiny_rows_def tiny_scan_def batch_ok_def)

lemmas insert_run = InsertInto_def rewrite_def rewriteFile_def rewriteBatches_def streamExistingRows_def
  writeAll.simps fwWrite_def tiny_writer_def tiny_rows_def tiny_scan_def

lemma tiny_encode:
  "(\<exists>olds bytes. existing_batches InsertAppend tiny_scan old = Some olds \<and>
     encode_file tiny_writer [] (olds @ map (\<lambda>b. rebindSchema b []) (rd_pending tiny_rows)) = Some bytes \<and> P bytes) \<longleftrightarrow>
   P [80, 5, 2, 70]"
  by (simp add: encode_file_def existing_batches_def final_err_def tiny_rows_def tiny_scan_def tiny_writer_def rebindSchema_def)

theorem local_insert_atomic_witness:
  "\<exists>n rows fs'. InsertInto filesystem_store tiny_writer (\<lambda>i. good_os) tiny_scan ''d/t'' [] InsertAppend tiny_rows
      (\<lambda>p. if p = ''d/t'' then Some [9] else None) = (Inr n, rows, fs') \<and>
    n = 2 \<and> visible fs' ''d/t'' = Some [80, 5, 2, 70]"
proof -
  let ?fs = "\<lambda>p. if p = ''d/t'' then Some [9] else (None :: byte list option)"
  have temp: "\<not> is_temp ''d/t''"
    by (simp add: is_temp_def path_simps has_prefix_def localTmpPrefix_def)
  obtain res rows fs' where run: "InsertInto filesystem_store tiny_writer (\<lambda>i. good_os) tiny_scan ''d/t'' []
      InsertAppend tiny_rows ?fs = (res, rows, fs')" by (rule prod_cases3)
  have ok: "\<exists>n. res = Inr n"
    using run unfolding filesystem_store_def
    by (auto simp: insert_run demo_create local_Write_def local_Close_def guard_begin_def Let_def rebindSchema_def)
  have res: "case res of
      Inl e \<Rightarrow> visible fs' = visible ?fs
    | Inr n \<Rightarrow> n = sum_rows (rd_pending tiny_rows) \<and> final_err tiny_rows = None \<and>
        (\<exists>olds bytes. existing_batches InsertAppend tiny_scan (visible ?fs ''d/t'') = Some olds \<and>
           encode_file tiny_writer [] (olds @ map (\<lambda>b. rebindSchema b []) (rd_pending tiny_rows)) = Some bytes \<and>
           visible fs' = (visible ?fs)(''d/t'' \<mapsto> bytes))"
    using local_insert_atomic [OF run temp tiny_ok(1)] tiny_ok(2) by (auto simp: tiny_rows_def split: sum.splits)
  moreover have "sum_rows (rd_pending tiny_rows) = 2" by (simp add: tiny_rows_def)
  ultimately show ?thesis using run ok by (auto simp only: tiny_encode sum.case) simp
qed

text \<open>An INSERT into an object of the in-memory store either fails and leaves every object as it
  was, or succeeds, counts the inserted rows and replaces the target alone: with the old rows
  followed by the new ones for an append, with the new rows for an overwrite. An input or an
  existing object that cannot be read to its end fails it.\<close>

theorem memory_insert_atomic:
  assumes "InsertInto memory_store fw os scan path schema op rows s = (res, rows', s')"
    and "rd_ok rows" and "\<And>r. scan (map_of s path) = Inr r \<Longrightarrow> rd_ok r"
  shows "(case res of
      Inl e \<Rightarrow> map_of s' = map_of s
    | Inr n \<Rightarrow> n = sum_rows (rd_pending rows) \<and> final_err rows = None \<and>
        (if op = InsertAppend \<and> rd_pending rows = [] then map_of s' = map_of s
         else \<exists>olds bytes. existing_batches op scan (map_of s path) = Some olds \<and>
           encode_file fw schema (olds @ map (\<lambda>b. rebindSchema b schema) (rd_pending rows)) = Some bytes \<and>
           mem_Open s' path = Inr bytes \<and> (\<forall>q. q \<noteq> path \<longrightarrow> mem_Open s' q = mem_Open s q)))"
proof -
  note ok = mem.InsertInto_ok [OF assms(1) [unfolded store_ops(1)] TrueI assms(2,3)]
  show ?thesis using ok by (force simp: mem_Open_def split: sum.splits if_splits)
qed

theorem memory_insert_atomic_witness:
  "\<exists>rows s'. InsertInto memory_store tiny_writer (\<lambda>i. ()) tiny_scan ''t'' [] InsertAppend tiny_rows
      [(''t'', [9]), (''u'', [1])] = (Inr 2, rows, s') \<and>
    mem_Open s' ''t'' = Inr [80, 5, 2, 70] \<and> mem_Open s' ''u'' = Inr [1]"
proof -
  let ?s = "[(''t'', [9]), (''u'', [1])] :: memStore"
  obtain res rows s' where run: "InsertInto memory_store tiny_writer (\<lambda>i. ()) tiny_scan ''t'' []
      InsertAppend tiny_rows ?s = (res, rows, s')" by (rule prod_cases3)
  have ok: "\<exists>n. res = Inr n"
    using run unfolding memory_store_def
    by (auto simp: insert_run mem_Create_def mem_Write_def mem_Close_def guard_begin_def rebindSchema_def)
  have res: "case res of
      Inl e \<Rightarrow> map_of s' = map_of ?s
    | Inr n \<Rightarrow> n = sum_rows (rd_pending tiny_rows) \<and> final_err tiny_rows = None \<and>
        (\<exists>olds bytes. existing_batches InsertAppend tiny_scan (map_of ?s ''t'') = Some olds \<and>
           encode_file tiny_writer [] (olds @ map (\<lambda>b. rebindSchema b []) (rd_pending tiny_rows)) = Some bytes \<and>
           mem_Open s' ''t'' = Inr bytes \<and> (\<forall>q. q \<noteq> ''t'' \<longrightarrow> mem_Open s' q = mem_Open ?s q))"
    using memory_insert_atomic [OF run tiny_ok(1)] tiny_ok(2) by (auto simp: tiny_rows_def split: sum.splits)
  moreover have "mem_Open ?s ''u'' = Inr [1]" by (simp add: mem_Open_def)
  moreover have "sum_rows (rd_pending tiny_rows) = 2" by (simp add: tiny_rows_def)
  ultimately show ?thesis using run ok by (auto simp only: tiny_encode sum.case) simp
qed

end
