(* ===== verification/Cloud_Store.thy ===== *)
theory Cloud_Store
  imports Object_Store
begin

text \<open>
  \<open>objectstore/internal/gocloudblob\<close>: a bucket of the gocloud library as a store, shared by
  the S3, GCS and Azure backends. The bucket's own operations are the library's; the
  interface \<open>blob_bucket\<close> says what its documentation promises of a writer.
\<close>

section \<open>The bucket\<close>

text \<open>
  \<open>bk_Close\<close> is told whether the writer's context was cancelled. \<open>bk_Attributes\<close> gives an
  object's size, \<open>bk_NewRangeReader\<close> the bytes of a range, \<open>bk_List\<close> the pages as one
  sequence that may end in an error.
\<close>

datatype blob_err = NotFound | OtherBlobError string

record ('o, 's, 'w) Bucket =
  bk_NewWriter :: "'o \<Rightarrow> 's \<Rightarrow> string \<Rightarrow> ('w \<times> 's) option"
  bk_Write :: "'o \<Rightarrow> byte list \<Rightarrow> 'w \<times> 's \<Rightarrow> bool \<times> 'w \<times> 's"
  bk_Close :: "'o \<Rightarrow> bool \<Rightarrow> 'w \<times> 's \<Rightarrow> bool \<times> 'w \<times> 's"
  bk_Attributes :: "'s \<Rightarrow> string \<Rightarrow> blob_err + int"
  bk_NewRangeReader :: "'s \<Rightarrow> string \<Rightarrow> int \<Rightarrow> int \<Rightarrow> string + byte list"
  bk_Delete :: "'s \<Rightarrow> string \<Rightarrow> blob_err option \<times> 's"
  bk_List :: "'s \<Rightarrow> string \<Rightarrow> (string \<times> int) list \<times> string option"

section \<open>Reading\<close>

definition not_found :: "string \<Rightarrow> blob_err \<Rightarrow> store_err" where
  "not_found key e = (case e of NotFound \<Rightarrow> ErrNotExist key | OtherBlobError m \<Rightarrow> StoreError m)"

text \<open>A handle is the key and the size \<open>Attributes\<close> gave when it was opened.\<close>

definition cloud_Open :: "('o, 's, 'w) Bucket \<Rightarrow> 's \<Rightarrow> string \<Rightarrow> store_err + (string \<times> int)" where
  "cloud_Open bk s key =
     (case bk_Attributes bk s key of Inl e \<Rightarrow> Inl (not_found key e) | Inr n \<Rightarrow> Inr (key, n))"

text \<open>\<open>io.ReadFull\<close> of a range: an error when fewer bytes come than were asked for.\<close>

datatype read_err = ReadError string | EOF | UnexpectedEOF

definition cloud_ReadAt :: "('o, 's, 'w) Bucket \<Rightarrow> 's \<Rightarrow> string \<Rightarrow> int \<Rightarrow> int \<Rightarrow> byte list \<times> read_err option" where
  "cloud_ReadAt bk s key off len =
     (case bk_NewRangeReader bk s key off len of
        Inl e \<Rightarrow> ([], Some (ReadError e))
      | Inr data \<Rightarrow>
          if int (length data) < len then (data, Some (if data = [] then EOF else UnexpectedEOF))
          else (take (nat len) data, None))"

section \<open>Writing\<close>

record 'w cloudWriter =
  cw_w :: 'w
  cw_cancelled :: bool
  cw_done :: bool

definition cloud_Create :: "('o, 's, 'w) Bucket \<Rightarrow> 'o \<Rightarrow> 's \<Rightarrow> string \<Rightarrow> ('w cloudWriter \<times> 's) option" where
  "cloud_Create bk o' s key =
     (case bk_NewWriter bk o' s key of
        None \<Rightarrow> None
      | Some (w, s') \<Rightarrow> Some (\<lparr>cw_w = w, cw_cancelled = False, cw_done = False\<rparr>, s'))"

definition cloud_Write ::
  "('o, 's, 'w) Bucket \<Rightarrow> 'o \<Rightarrow> byte list \<Rightarrow> 'w cloudWriter \<times> 's \<Rightarrow> bool \<times> 'w cloudWriter \<times> 's" where
  "cloud_Write bk o' p ws =
     (case ws of (w, s) \<Rightarrow>
        (case bk_Write bk o' p (cw_w w, s) of (ok, w', s') \<Rightarrow> (ok, w\<lparr>cw_w := w'\<rparr>, s')))"

text \<open>\<open>Close\<close> commits, then cancels the context; \<open>Abort\<close> cancels first and discards the error.\<close>

definition cloud_Close ::
  "('o, 's, 'w) Bucket \<Rightarrow> 'o \<Rightarrow> 'w cloudWriter \<times> 's \<Rightarrow> bool \<times> 'w cloudWriter \<times> 's" where
  "cloud_Close bk o' ws =
     (case ws of (w, s) \<Rightarrow>
        if cw_done w then (True, w, s)
        else
          (case bk_Close bk o' (cw_cancelled w) (cw_w w, s) of
             (ok, w', s') \<Rightarrow> (ok, \<lparr>cw_w = w', cw_cancelled = True, cw_done = True\<rparr>, s')))"

definition cloud_Abort ::
  "('o, 's, 'w) Bucket \<Rightarrow> 'o \<Rightarrow> 'w cloudWriter \<times> 's \<Rightarrow> bool \<times> 'w cloudWriter \<times> 's" where
  "cloud_Abort bk o' ws =
     (case ws of (w, s) \<Rightarrow>
        if cw_done w then (True, w, s)
        else
          (case bk_Close bk o' True (cw_w w, s) of
             (ok, w', s') \<Rightarrow> (True, \<lparr>cw_w = w', cw_cancelled = True, cw_done = True\<rparr>, s')))"

definition cloud_Remove :: "('o, 's, 'w) Bucket \<Rightarrow> 's \<Rightarrow> string \<Rightarrow> store_err option \<times> 's" where
  "cloud_Remove bk s key =
     (case bk_Delete bk s key of (e, s') \<Rightarrow> (map_option (not_found key) e, s'))"

text \<open>What \<open>List\<close> yields to a consumer that stops after \<open>n\<close> items.\<close>

definition cloud_List :: "('o, 's, 'w) Bucket \<Rightarrow> 's \<Rightarrow> string \<Rightarrow> nat \<Rightarrow> (string + (string \<times> int)) list" where
  "cloud_List bk s prefix n =
     (case bk_List bk s prefix of
        (objs, e) \<Rightarrow> take n (map Inr objs @ (case e of None \<Rightarrow> [] | Some m \<Rightarrow> [Inl m])))"

section \<open>What the library promises, and the store it makes\<close>

text \<open>
  A blob writer publishes its bytes when \<open>Close\<close> succeeds, publishes nothing when it fails,
  and cannot succeed once its context is cancelled.
\<close>

locale blob_bucket =
  fixes bk :: "('o, 's, 'w) Bucket"
    and objects :: "'s \<Rightarrow> string \<Rightarrow> byte list option"
    and written :: "'w \<times> 's \<Rightarrow> byte list"
    and blob_key :: "'w \<Rightarrow> string"
    and blob_open :: "'w \<times> 's \<Rightarrow> bool"
  assumes new_writer: "bk_NewWriter bk o' s key = Some (w, s') \<Longrightarrow>
      objects s' = objects s \<and> written (w, s') = [] \<and> blob_key w = key \<and> blob_open (w, s')"
    and blob_write: "blob_open (w, s) \<Longrightarrow> bk_Write bk o' p (w, s) = (ok, w', s') \<Longrightarrow>
      objects s' = objects s \<and> blob_open (w', s') \<and> blob_key w' = blob_key w \<and>
      (ok \<longrightarrow> written (w', s') = written (w, s) @ p)"
    and blob_close: "blob_open (w, s) \<Longrightarrow> bk_Close bk o' cancelled (w, s) = (ok, w', s') \<Longrightarrow>
      objects s' = (if ok then (objects s)(blob_key w \<mapsto> written (w, s)) else objects s) \<and> (cancelled \<longrightarrow> \<not> ok)"

sublocale blob_bucket \<subseteq> cloud: object_store objects "cloud_Create bk" "cloud_Write bk" "cloud_Close bk" "cloud_Abort bk"
  "\<lambda>(w, s). written (cw_w w, s)" cw_done "\<lambda>w. blob_key (cw_w w)"
  "\<lambda>(w, s). blob_open (cw_w w, s) \<and> \<not> cw_cancelled w \<or> cw_done w" "\<lambda>_. True"
proof (unfold_locales, goal_cases)
  case (1 o' s p w s')
  then obtain b where "bk_NewWriter bk o' s p = Some (b, s')" "w = \<lparr>cw_w = b, cw_cancelled = False, cw_done = False\<rparr>"
    by (auto simp: cloud_Create_def split: option.splits)
  with new_writer [of o' s p b s'] show ?case by simp
next
  case (2 w s o' bs ok w' s')
  obtain ok1 b s1 where b: "bk_Write bk o' bs (cw_w w, s) = (ok1, b, s1)" by (metis prod_cases3)
  with 2 have "ok = ok1" "w' = w\<lparr>cw_w := b\<rparr>" "s' = s1" by (simp_all add: cloud_Write_def)
  with blob_write [OF _ b] 2(1,2) show ?case by simp
next
  case (3 w s o' ok w' s')
  obtain ok1 b s1 where b: "bk_Close bk o' (cw_cancelled w) (cw_w w, s) = (ok1, b, s1)" by (metis prod_cases3)
  with 3 have "ok = ok1" "s' = s1" "cw_done w'" by (auto simp: cloud_Close_def)
  with blob_close [OF _ b] 3(1,2) show ?case by simp
next
  case (4 w s o' ok w' s')
  obtain ok1 b s1 where b: "bk_Close bk o' True (cw_w w, s) = (ok1, b, s1)" by (metis prod_cases3)
  with 4 have "s' = s1" "cw_done w'" by (auto simp: cloud_Abort_def)
  with blob_close [OF _ b] 4(1,2) show ?case by simp
qed (simp_all add: cloud_Close_def cloud_Abort_def)

section \<open>The in-memory bucket\<close>

text \<open>
  The bucket the adapter is tested against keeps its objects in memory: here the
  repository's own in-memory store, with a writer that refuses to commit when cancelled.
\<close>

definition mem_bucket :: "(unit, memStore, memWriter) Bucket" where
  "mem_bucket =
     \<lparr>bk_NewWriter = mem_Create, bk_Write = mem_Write,
      bk_Close = (\<lambda>u cancelled ws. if cancelled then (False, ws) else mem_Close u ws),
      bk_Attributes = (\<lambda>s key. case map_of s key of None \<Rightarrow> Inl NotFound | Some d \<Rightarrow> Inr (int (length d))),
      bk_NewRangeReader = (\<lambda>s key off len. case map_of s key of
          None \<Rightarrow> Inl ''not found'' | Some d \<Rightarrow> Inr (take (nat len) (drop (nat off) d))),
      bk_Delete = (\<lambda>s key. case mem_Remove s key of (None, s') \<Rightarrow> (None, s') | (Some e, s') \<Rightarrow> (Some NotFound, s')),
      bk_List = (\<lambda>s prefix. (mem_List s prefix, None))\<rparr>"

interpretation memblob: blob_bucket mem_bucket map_of "\<lambda>(w, s). mw_buf w" mw_path "\<lambda>(w, s). \<not> mw_done w"
  by unfold_locales
    (auto simp: mem_bucket_def mem_Create_def mem_Write_def mem_Close_def guard_begin_def update_conv' split: if_splits)

section \<open>Reading what was written\<close>

lemma memblob_ReadAt:
  assumes "map_of s key = Some d" and "0 \<le> off" and "0 \<le> len" and "off + len \<le> int (length d)"
  shows "cloud_ReadAt mem_bucket s key off len = (take (nat len) (drop (nat off) d), None)"
  using assms by (simp add: cloud_ReadAt_def mem_bucket_def min_def)

lemma cloud_List_complete:
  assumes "bk_List bk s prefix = (objs, None)" and "length objs \<le> n"
  shows "cloud_List bk s prefix n = map Inr objs"
  using assms by (simp add: cloud_List_def)

end
