(* ===== verification/Cloud_Insert.thy ===== *)
theory Cloud_Insert
  imports Insert_Correct Cloud_Store
begin

text \<open>
  The Parquet insert on a cloud bucket: what \<open>providers/parquet/insert.go\<close> promises when the
  store under it is \<open>gocloudblob\<close>'s, for every bucket whose writers behave as documented.
\<close>

definition cloud_store :: "('o, 's, 'w) Bucket \<Rightarrow> ('s \<Rightarrow> string \<Rightarrow> byte list option) \<Rightarrow> ('o, 's, 'w cloudWriter) Store" where
  "cloud_store bk objects =
     \<lparr>st_published = objects, st_Create = cloud_Create bk, st_Write = cloud_Write bk, st_Close = cloud_Close bk,
      st_Abort = cloud_Abort bk\<rparr>"

context blob_bucket
begin

lemma cloud_store_ops: "cloud_store bk objects = cloud.ops"
  by (simp add: cloud_store_def cloud.ops_def)

lemma cloud_insert_ok:
  assumes "InsertInto (cloud_store bk objects) fw os scan path schema op rows s = (res, rows', s')"
    and "rd_ok rows" and "\<And>r. scan (objects s path) = Inr r \<Longrightarrow> rd_ok r"
  shows "(case res of
      Inl e \<Rightarrow> objects s' = objects s
    | Inr n \<Rightarrow> n = sum_rows (rd_pending rows) \<and> final_err rows = None \<and>
        (if op = InsertAppend \<and> rd_pending rows = [] then objects s' = objects s
         else \<exists>olds bytes. existing_batches op scan (objects s path) = Some olds \<and>
           encode_file fw schema (olds @ map (\<lambda>b. rebindSchema b schema) (rd_pending rows)) = Some bytes \<and>
           objects s' = (objects s)(path \<mapsto> bytes)))"
  using assms(1) unfolding cloud_store_ops by (rule cloud.InsertInto_ok) (use assms in auto)

end

text \<open>C12: An INSERT into an object of a bucket whose writers publish on a successful close only, and never
  once cancelled, is all or nothing: an error leaves every object of the bucket as it was; a
  success replaces the target alone, with the old rows followed by the new ones or the new
  ones alone, and counts the inserted rows, which it never does when the input, or the object an append
  extends, cannot be read to its end. Every outcome of every bucket call is covered.\<close>

theorem cloud_insert_atomic:
  assumes "blob_bucket bk objects written blob_key blob_open"
    and "InsertInto (cloud_store bk objects) fw os scan path schema op rows s = (res, rows', s')"
    and "rd_ok rows" and "\<And>r. scan (objects s path) = Inr r \<Longrightarrow> rd_ok r"
  shows "(case res of
      Inl e \<Rightarrow> objects s' = objects s
    | Inr n \<Rightarrow> n = sum_rows (rd_pending rows) \<and> final_err rows = None \<and>
        (if op = InsertAppend \<and> rd_pending rows = [] then objects s' = objects s
         else \<exists>olds bytes. existing_batches op scan (objects s path) = Some olds \<and>
           encode_file fw schema (olds @ map (\<lambda>b. rebindSchema b schema) (rd_pending rows)) = Some bytes \<and>
           objects s' = (objects s)(path \<mapsto> bytes)))"
  by (rule blob_bucket.cloud_insert_ok [OF assms(1,2,3)]) (rule assms(4))

theorem cloud_insert_atomic_witness:
  "\<exists>rows s'. InsertInto (cloud_store mem_bucket map_of) tiny_writer (\<lambda>i. ()) tiny_scan ''t'' [] InsertAppend tiny_rows
      [(''t'', [9]), (''u'', [1])] = (Inr 2, rows, s') \<and>
    map_of s' = (map_of [(''t'', [9]), (''u'', [1])])(''t'' \<mapsto> [80, 5, 2, 70])"
proof -
  let ?s = "[(''t'', [9]), (''u'', [1])] :: memStore"
  obtain res rows s' where run: "InsertInto (cloud_store mem_bucket map_of) tiny_writer (\<lambda>i. ()) tiny_scan ''t'' []
      InsertAppend tiny_rows ?s = (res, rows, s')" by (rule prod_cases3)
  have ok: "\<exists>n. res = Inr n"
    using run unfolding cloud_store_def mem_bucket_def
    by (auto simp: insert_run mem_Create_def mem_Write_def mem_Close_def guard_begin_def rebindSchema_def
        cloud_Create_def cloud_Write_def cloud_Close_def)
  have res: "case res of
      Inl e \<Rightarrow> map_of s' = map_of ?s
    | Inr n \<Rightarrow> n = sum_rows (rd_pending tiny_rows) \<and> final_err tiny_rows = None \<and>
        (\<exists>olds bytes. existing_batches InsertAppend tiny_scan (map_of ?s ''t'') = Some olds \<and>
           encode_file tiny_writer [] (olds @ map (\<lambda>b. rebindSchema b []) (rd_pending tiny_rows)) = Some bytes \<and>
           map_of s' = (map_of ?s)(''t'' \<mapsto> bytes))"
    using cloud_insert_atomic [OF memblob.blob_bucket_axioms run tiny_ok(1)] tiny_ok(2)
    by (auto simp: tiny_rows_def split: sum.splits)
  moreover have "sum_rows (rd_pending tiny_rows) = 2" by (simp add: tiny_rows_def)
  ultimately show ?thesis using run ok by (auto simp only: tiny_encode sum.case) blast
qed

end
