(* ===== verification/Registry.thy ===== *)
theory Registry
  imports Object_Store
begin

text \<open>
  \<open>objectstore/registry.go\<close>: locations, the registry of openers and the cache of stores.
  Each section that holds the mutex is one atomic step; an opener runs between two of
  them, so the concurrent callers of \<open>Resolve\<close> and \<open>Register\<close> are a step relation.
  \<open>url.Parse\<close> and what an opener returns are parameters.
\<close>

section \<open>Locations\<close>

record url =
  u_scheme :: string
  u_host :: string
  u_path :: string
  u_rawQuery :: string

definition isDriveLetter :: "string \<Rightarrow> bool" where
  "isDriveLetter scheme \<longleftrightarrow>
     (case scheme of
        [c] \<Rightarrow> (CHR ''a'' \<le> c \<and> c \<le> CHR ''z'') \<or> (CHR ''A'' \<le> c \<and> c \<le> CHR ''Z'')
      | _ \<Rightarrow> False)"

definition trim_prefix :: "string \<Rightarrow> string \<Rightarrow> string" where
  "trim_prefix s p = (if has_prefix s p then drop (length p) s else s)"

datatype target =
    LocalTarget string
  | RegistryTarget (tg_url: url) (tg_key: string) (tg_path: string)

text \<open>The part of \<open>Resolve\<close> before it takes the lock; \<open>parsed\<close> is \<open>url.Parse\<close>'s result.\<close>

definition locate :: "string \<Rightarrow> url option \<Rightarrow> target" where
  "locate location parsed =
     (case parsed of
        None \<Rightarrow> LocalTarget location
      | Some u \<Rightarrow>
          if u_scheme u = [] then LocalTarget location
          else if u_scheme u = ''file'' then LocalTarget (u_path u)
          else if u_host u = [] \<and> isDriveLetter (u_scheme u) then LocalTarget location
          else RegistryTarget u (u_scheme u @ ''://'' @ u_host u @ ''?'' @ u_rawQuery u)
                 (trim_prefix (u_path u) ''/''))"

section \<open>The registry\<close>

text \<open>Openers and in-flight calls are named by numbers.\<close>

record 'st registry =
  openers :: "string \<Rightarrow> nat option"
  cache :: "string \<Rightarrow> 'st option"
  inflight :: "string \<Rightarrow> nat option"

definition empty_registry :: "'st registry" where
  "empty_registry = \<lparr>openers = Map.empty, cache = Map.empty, inflight = Map.empty\<rparr>"

datatype registry_err =
    ReservedScheme string
  | UnregisteredScheme string "string option"
  | OpenerFailed string string

definition schemeImportHints :: "string \<Rightarrow> string option" where
  "schemeImportHints =
     [''s3'' \<mapsto> ''github.com/cedricziel/datafusion-golang/objectstore/s3'',
      ''gs'' \<mapsto> ''github.com/cedricziel/datafusion-golang/objectstore/gcs'',
      ''azblob'' \<mapsto> ''github.com/cedricziel/datafusion-golang/objectstore/azure'']"

definition Register :: "'st registry \<Rightarrow> string \<Rightarrow> nat \<Rightarrow> registry_err option \<times> 'st registry" where
  "Register g scheme opener =
     (if scheme = [] \<or> scheme = ''file'' then (Some (ReservedScheme scheme), g)
      else (None, g\<lparr>openers := (openers g)(scheme \<mapsto> opener),
                    cache := (\<lambda>key. if has_prefix key (scheme @ ''://'') then None else cache g key)\<rparr>))"

text \<open>The first locked section of \<open>Resolve\<close>; \<open>fresh\<close> names the call it may start.\<close>

datatype 'st begun = CacheHit 'st | Wait nat | Unregistered | Start nat nat

definition resolve_begin :: "'st registry \<Rightarrow> string \<Rightarrow> string \<Rightarrow> nat \<Rightarrow> 'st begun \<times> 'st registry" where
  "resolve_begin g scheme key fresh =
     (case cache g key of
        Some store \<Rightarrow> (CacheHit store, g)
      | None \<Rightarrow>
          (case inflight g key of
             Some call \<Rightarrow> (Wait call, g)
           | None \<Rightarrow>
               (case openers g scheme of
                  None \<Rightarrow> (Unregistered, g)
                | Some opener \<Rightarrow> (Start fresh opener, g\<lparr>inflight := (inflight g)(key \<mapsto> fresh)\<rparr>))))"

text \<open>The second, after the opener returned.\<close>

definition resolve_end :: "'st registry \<Rightarrow> string \<Rightarrow> string + 'st \<Rightarrow> 'st registry" where
  "resolve_end g key res =
     g\<lparr>inflight := (inflight g)(key := None),
       cache := (case res of Inl e \<Rightarrow> cache g | Inr store \<Rightarrow> (cache g)(key \<mapsto> store))\<rparr>"

definition wrap_err :: "string \<Rightarrow> string + 'st \<Rightarrow> registry_err + 'st" where
  "wrap_err scheme res = (case res of Inl e \<Rightarrow> Inl (OpenerFailed scheme e) | Inr store \<Rightarrow> Inr store)"

section \<open>One caller at a time\<close>

text \<open>
  \<open>Resolve\<close> with nobody else running, and so with no call in flight; \<open>run\<close> is what an
  opener returns. The flag says whether an opener ran; \<open>None\<close> is waiting for a call that
  nobody else will finish.
\<close>

datatype 'st resolved = ResolvedLocal string | Resolved 'st string

definition Resolve ::
  "(nat \<Rightarrow> url \<Rightarrow> string + 'st) \<Rightarrow> 'st registry \<Rightarrow> string \<Rightarrow> url option \<Rightarrow>
   ((registry_err + 'st resolved) \<times> bool \<times> 'st registry) option" where
  "Resolve run g location parsed =
     (case locate location parsed of
        LocalTarget p \<Rightarrow> Some (Inr (ResolvedLocal p), False, g)
      | RegistryTarget u key path \<Rightarrow>
          (case resolve_begin g (u_scheme u) key 0 of
             (CacheHit store, g1) \<Rightarrow> Some (Inr (Resolved store path), False, g1)
           | (Wait c, g1) \<Rightarrow> None
           | (Unregistered, g1) \<Rightarrow> Some (Inl (UnregisteredScheme (u_scheme u) (schemeImportHints (u_scheme u))), False, g1)
           | (Start c opener, g1) \<Rightarrow>
               (let res = run opener u
                in Some (case wrap_err (u_scheme u) res of Inl e \<Rightarrow> Inl e | Inr store \<Rightarrow> Inr (Resolved store path),
                     True, resolve_end g1 key res))))"

text \<open>\<open>ResolveWithOptions\<close>: the last \<open>WithStore\<close> wins, and a nil store does not count.\<close>

definition ResolveWithOptions ::
  "(nat \<Rightarrow> url \<Rightarrow> string + 'st) \<Rightarrow> 'st registry \<Rightarrow> string \<Rightarrow> url option \<Rightarrow> 'st option list \<Rightarrow>
   ((registry_err + 'st resolved) \<times> bool \<times> 'st registry) option" where
  "ResolveWithOptions run g location parsed opts =
     (case fold (\<lambda>opt o'. opt) opts None of
        Some store \<Rightarrow> Some (Inr (Resolved store location), False, g)
      | None \<Rightarrow> Resolve run g location parsed)"

section \<open>Concurrent callers\<close>

text \<open>
  A caller of \<open>Resolve\<close> for a scheme and key: waiting on a call, running its opener,
  having published the outcome but not yet closed the call's channel, or back with a
  result (and the call it came from). \<open>Panicked\<close> is an opener that never returned
  normally. \<open>results\<close> is \<open>call.store\<close> and \<open>call.err\<close> once \<open>done\<close> is closed.
\<close>

datatype 'st pc =
    Idle
  | Waiting string nat
  | Opening string string nat nat
  | Closing string nat "registry_err + 'st"
  | Panicked string nat
  | Back "nat option" "registry_err + 'st"

record 'st world =
  reg :: "'st registry"
  results :: "nat \<Rightarrow> (registry_err + 'st) option"
  pcs :: "nat \<Rightarrow> 'st pc"
  next_call :: nat

definition init_world :: "'st world" where
  "init_world = \<lparr>reg = empty_registry, results = Map.empty, pcs = (\<lambda>t. Idle), next_call = 0\<rparr>"

definition goto :: "'st world \<Rightarrow> nat \<Rightarrow> 'st pc \<Rightarrow> 'st world" where
  "goto w t p = w\<lparr>pcs := (pcs w)(t := p)\<rparr>"

text \<open>What a caller does next, given what its first locked section found.\<close>

definition after_begin :: "string \<Rightarrow> string \<Rightarrow> 'st begun \<Rightarrow> 'st pc" where
  "after_begin scheme key b =
     (case b of
        CacheHit store \<Rightarrow> Back None (Inr store)
      | Wait c \<Rightarrow> Waiting key c
      | Unregistered \<Rightarrow> Back None (Inl (UnregisteredScheme scheme (schemeImportHints scheme)))
      | Start c opener \<Rightarrow> Opening scheme key c opener)"

inductive registry_step :: "'st world \<Rightarrow> 'st world \<Rightarrow> bool" where
  begins: "pcs w t = Idle \<Longrightarrow> resolve_begin (reg w) scheme key (next_call w) = (b, g) \<Longrightarrow>
    registry_step w (goto (w\<lparr>reg := g, next_call := Suc (next_call w)\<rparr>) t (after_begin scheme key b))"
| opened: "pcs w t = Opening scheme key c opener \<Longrightarrow>
    registry_step w (goto (w\<lparr>reg := resolve_end (reg w) key res\<rparr>) t (Closing key c (wrap_err scheme res)))"
| closes: "pcs w t = Closing key c r \<Longrightarrow>
    registry_step w (goto (w\<lparr>results := (results w)(c \<mapsto> r)\<rparr>) t (Back (Some c) r))"
| wakes: "pcs w t = Waiting key c \<Longrightarrow> results w c = Some r \<Longrightarrow> registry_step w (goto w t (Back (Some c) r))"
| panics: "pcs w t = Opening scheme key c opener \<Longrightarrow> registry_step w (goto w t (Panicked key c))"
| registers: "Register (reg w) scheme opener = (e, g) \<Longrightarrow> registry_step w (w\<lparr>reg := g\<rparr>)"

inductive_cases registry_stepE: "registry_step w w'"

lemma goto_sel [simp]:
  "pcs (goto w t p) = (pcs w)(t := p)" "reg (goto w t p) = reg w" "results (goto w t p) = results w"
  "next_call (goto w t p) = next_call w"
  by (simp_all add: goto_def)

section \<open>The invariant\<close>

text \<open>Where call \<open>c\<close> for \<open>key\<close> is run.\<close>

definition runs :: "'st pc \<Rightarrow> string \<Rightarrow> nat \<Rightarrow> bool" where
  "runs p key c \<longleftrightarrow> (\<exists>scheme opener. p = Opening scheme key c opener) \<or> p = Panicked key c"

definition owns :: "'st pc \<Rightarrow> nat \<Rightarrow> bool" where
  "owns p c \<longleftrightarrow> (\<exists>key. runs p key c) \<or> (\<exists>key r. p = Closing key c r)"

text \<open>
  A key in flight is not cached and exactly one caller runs its call; a call has one
  owner until its result is stored, and none afterwards.
\<close>

definition inflight_ok :: "'st world \<Rightarrow> bool" where
  "inflight_ok w \<longleftrightarrow>
     (\<forall>t key c. runs (pcs w t) key c \<longrightarrow> inflight (reg w) key = Some c) \<and>
     (\<forall>key c. inflight (reg w) key = Some c \<longrightarrow> cache (reg w) key = None)"

definition owners_ok :: "'st world \<Rightarrow> bool" where
  "owners_ok w \<longleftrightarrow>
     (\<forall>t c. owns (pcs w t) c \<longrightarrow> c < next_call w \<and> results w c = None) \<and>
     (\<forall>t t' c. owns (pcs w t) c \<longrightarrow> owns (pcs w t') c \<longrightarrow> t = t')"

definition waiters_ok :: "'st world \<Rightarrow> bool" where
  "waiters_ok w \<longleftrightarrow>
     (\<forall>key c. inflight (reg w) key = Some c \<longrightarrow> (\<exists>t. runs (pcs w t) key c)) \<and>
     (\<forall>t key c. pcs w t = Waiting key c \<longrightarrow> (\<exists>t. owns (pcs w t) c) \<or> results w c \<noteq> None)"

definition results_ok :: "'st world \<Rightarrow> bool" where
  "results_ok w \<longleftrightarrow>
     (\<forall>t c r. pcs w t = Back (Some c) r \<longrightarrow> results w c = Some r) \<and>
     (\<forall>c. results w c \<noteq> None \<longrightarrow> c < next_call w)"

definition registry_inv :: "'st world \<Rightarrow> bool" where
  "registry_inv w \<longleftrightarrow> inflight_ok w \<and> owners_ok w \<and> waiters_ok w \<and> results_ok w"

lemmas registry_inv_defs = registry_inv_def inflight_ok_def owners_ok_def waiters_ok_def results_ok_def

lemma runs_simps [simp]:
  "\<not> runs Idle key c" "\<not> runs (Waiting k d) key c" "\<not> runs (Closing k d r) key c" "\<not> runs (Back d' r) key c"
  "runs (Panicked k d) key c \<longleftrightarrow> k = key \<and> d = c" "runs (Opening s k d oo) key c \<longleftrightarrow> k = key \<and> d = c"
  by (auto simp: runs_def)

lemma owns_simps [simp]:
  "\<not> owns Idle c" "\<not> owns (Waiting k d) c" "\<not> owns (Back d' r) c"
  "owns (Closing k d r) c \<longleftrightarrow> d = c" "owns (Panicked k d) c \<longleftrightarrow> d = c" "owns (Opening s k d oo) c \<longleftrightarrow> d = c"
  by (auto simp: owns_def)

lemma runs_owns: "runs p key c \<Longrightarrow> owns p c"
  by (auto simp: owns_def)

lemma init_inv: "registry_inv init_world"
  by (simp add: registry_inv_defs init_world_def empty_registry_def)

section \<open>Every step keeps it\<close>

lemma begin_cases:
  assumes "resolve_begin g scheme key fresh = (b, g')"
  obtains (hit) store where "cache g key = Some store" "b = CacheHit store" "g' = g"
  | (wait) c where "cache g key = None" "inflight g key = Some c" "b = Wait c" "g' = g"
  | (unregistered) "inflight g key = None" "b = Unregistered" "g' = g"
  | (start) opener where "cache g key = None" "inflight g key = None" "openers g scheme = Some opener"
      "b = Start fresh opener" "g' = g\<lparr>inflight := (inflight g)(key \<mapsto> fresh)\<rparr>"
proof (cases "cache g key")
  case (Some store)
  then show ?thesis using assms by (intro hit) (auto simp: resolve_begin_def)
next
  case None
  show ?thesis
  proof (cases "inflight g key")
    case (Some c)
    then show ?thesis using assms None by (intro wait) (auto simp: resolve_begin_def)
  next
    case inf: None
    show ?thesis
    proof (cases "openers g scheme")
      case (Some opener)
      then show ?thesis using assms None inf by (intro start) (auto simp: resolve_begin_def)
    next
      case o: None
      then show ?thesis using assms None inf by (intro unregistered) (auto simp: resolve_begin_def)
    qed
  qed
qed

lemma Register_sel:
  "Register g scheme opener = (e, g') \<Longrightarrow>
   inflight g' = inflight g \<and> (\<forall>key. cache g key = None \<longrightarrow> cache g' key = None)"
  by (auto simp: Register_def split: if_splits)

text \<open>A caller that owns no call and comes to own none disturbs nobody.\<close>

lemma inv_facts:
  assumes "registry_inv w"
  shows "runs (pcs w t) key c \<Longrightarrow> inflight (reg w) key = Some c"
    and "inflight (reg w) key = Some c \<Longrightarrow> cache (reg w) key = None"
    and "owns (pcs w t) c \<Longrightarrow> c < next_call w" "owns (pcs w t) c \<Longrightarrow> results w c = None"
    and "owns (pcs w t) c \<Longrightarrow> owns (pcs w t') c \<Longrightarrow> t = t'"
    and "inflight (reg w) key = Some c \<Longrightarrow> \<exists>t. runs (pcs w t) key c"
    and "pcs w t = Waiting key c \<Longrightarrow> (\<exists>t. owns (pcs w t) c) \<or> results w c \<noteq> None"
    and "pcs w t = Back (Some c) r \<Longrightarrow> results w c = Some r"
    and "results w c = Some r \<Longrightarrow> c < next_call w"
proof -
  have ok: "inflight_ok w" "owners_ok w" "waiters_ok w" "results_ok w" using assms by (simp_all add: registry_inv_def)
  show "runs (pcs w t) key c \<Longrightarrow> inflight (reg w) key = Some c"
    "inflight (reg w) key = Some c \<Longrightarrow> cache (reg w) key = None"
    using ok(1) unfolding inflight_ok_def by metis+
  show "owns (pcs w t) c \<Longrightarrow> c < next_call w" "owns (pcs w t) c \<Longrightarrow> results w c = None"
    "owns (pcs w t) c \<Longrightarrow> owns (pcs w t') c \<Longrightarrow> t = t'"
    using ok(2) unfolding owners_ok_def by metis+
  show "inflight (reg w) key = Some c \<Longrightarrow> \<exists>t. runs (pcs w t) key c"
    "pcs w t = Waiting key c \<Longrightarrow> (\<exists>t. owns (pcs w t) c) \<or> results w c \<noteq> None"
    using ok(3) unfolding waiters_ok_def by metis+
  show "pcs w t = Back (Some c) r \<Longrightarrow> results w c = Some r" "results w c = Some r \<Longrightarrow> c < next_call w"
    using ok(4) unfolding results_ok_def by (metis option.discI)+
qed

lemma registry_invI:
  assumes "\<And>t key c. runs (pcs w t) key c \<Longrightarrow> inflight (reg w) key = Some c"
    and "\<And>key c. inflight (reg w) key = Some c \<Longrightarrow> cache (reg w) key = None"
    and "\<And>t c. owns (pcs w t) c \<Longrightarrow> c < next_call w \<and> results w c = None"
    and "\<And>t t' c. owns (pcs w t) c \<Longrightarrow> owns (pcs w t') c \<Longrightarrow> t = t'"
    and "\<And>key c. inflight (reg w) key = Some c \<Longrightarrow> \<exists>t. runs (pcs w t) key c"
    and "\<And>t key c. pcs w t = Waiting key c \<Longrightarrow> (\<exists>t. owns (pcs w t) c) \<or> results w c \<noteq> None"
    and "\<And>t c r. pcs w t = Back (Some c) r \<Longrightarrow> results w c = Some r"
    and "\<And>c. results w c \<noteq> None \<Longrightarrow> c < next_call w"
  shows "registry_inv w"
  unfolding registry_inv_defs
  by (intro conjI allI impI; (elim exE)?; fact assms assms(3) [THEN conjunct1] assms(3) [THEN conjunct2])

lemma transfer_inv:
  assumes inv: "registry_inv w"
    and own: "\<And>t c. owns (pcs w' t) c \<longleftrightarrow> owns (pcs w t) c"
    and run: "\<And>t key c. runs (pcs w' t) key c \<longleftrightarrow> runs (pcs w t) key c"
    and reg: "inflight (reg w') = inflight (reg w)" "\<And>key. cache (reg w) key = None \<Longrightarrow> cache (reg w') key = None"
    and res: "results w' = results w" "next_call w \<le> next_call w'"
    and wait: "\<And>t key c. pcs w' t = Waiting key c \<Longrightarrow> (\<exists>t. owns (pcs w t) c) \<or> results w c \<noteq> None"
    and ret: "\<And>t c r. pcs w' t = Back (Some c) r \<Longrightarrow> results w c = Some r"
  shows "registry_inv w'"
proof (rule registry_invI)
  show "c < next_call w' \<and> results w' c = None" if "owns (pcs w' t) c" for t c
    using that inv_facts(3,4) [OF inv] own res by (metis order_less_le_trans)
  show "c < next_call w'" if "results w' c \<noteq> None" for c
    using that inv_facts(9) [OF inv] res by (metis option.exhaust order_less_le_trans)
  show "(\<exists>t. owns (pcs w' t) c) \<or> results w' c \<noteq> None" if "pcs w' t = Waiting key c" for t key c
    using wait [OF that] own res(1) by simp
  show "t = t'" if "owns (pcs w' t) c" "owns (pcs w' t') c" for t t' c
    using that inv_facts(5) [OF inv] own by metis
qed (simp_all add: own run reg res inv_facts(1,2,6) [OF inv] ret)

lemma quiet_inv:
  assumes inv: "registry_inv w" and old: "\<And>c. \<not> owns (pcs w t) c" and new: "\<And>c. \<not> owns p c"
    and wait: "\<And>key c. p = Waiting key c \<Longrightarrow> (\<exists>t. owns (pcs w t) c) \<or> results w c \<noteq> None"
    and ret: "\<And>c r. p = Back (Some c) r \<Longrightarrow> results w c = Some r"
    and n: "next_call w \<le> n"
  shows "registry_inv (goto (w\<lparr>next_call := n\<rparr>) t p)"
proof (rule transfer_inv [OF inv])
  show "(\<exists>t. owns (pcs w t) c) \<or> results w c \<noteq> None"
    if "pcs (goto (w\<lparr>next_call := n\<rparr>) t p) t' = Waiting key c" for t' key c
    using that wait inv_facts(7) [OF inv] by (simp split: if_splits)
  show "results w c = Some r" if "pcs (goto (w\<lparr>next_call := n\<rparr>) t p) t' = Back (Some c) r" for t' c r
    using that ret inv_facts(8) [OF inv] by (simp split: if_splits)
  show "runs (pcs (goto (w\<lparr>next_call := n\<rparr>) t p) t') key c = runs (pcs w t') key c" for t' key c
    using old new by (auto dest: runs_owns)
qed (use old new n in simp_all)

lemma begin_inv:
  assumes inv: "registry_inv w" and idle: "pcs w t = Idle"
    and b: "resolve_begin (reg w) scheme key (next_call w) = (b, g)"
  shows "registry_inv (goto (w\<lparr>reg := g, next_call := Suc (next_call w)\<rparr>) t (after_begin scheme key b))"
proof -
  have quiet: "registry_inv (goto (w\<lparr>reg := g, next_call := Suc (next_call w)\<rparr>) t (after_begin scheme key b))"
    if "g = reg w" "\<And>c. \<not> owns (after_begin scheme key b) c"
      "\<And>k c. after_begin scheme key b = Waiting k c \<Longrightarrow> (\<exists>t. owns (pcs w t) c) \<or> results w c \<noteq> None"
      "\<And>c r. after_begin scheme key b \<noteq> Back (Some c) r"
  proof -
    have "w\<lparr>reg := g, next_call := Suc (next_call w)\<rparr> = w\<lparr>next_call := Suc (next_call w)\<rparr>"
      using that(1) by simp
    moreover have "registry_inv (goto (w\<lparr>next_call := Suc (next_call w)\<rparr>) t (after_begin scheme key b))"
      using that idle by (intro quiet_inv [OF inv]) auto
    ultimately show ?thesis by simp
  qed
  from b show ?thesis
  proof (cases rule: begin_cases)
    case (wait c)
    then show ?thesis using inv_facts(6) [OF inv, of key c] by (intro quiet) (auto simp: after_begin_def dest: runs_owns)
  next
    case hit
    then show ?thesis by (intro quiet) (auto simp: after_begin_def)
  next
    case unregistered
    then show ?thesis by (intro quiet) (auto simp: after_begin_def)
  next
    case (start opener)
    let ?w = "goto (w\<lparr>reg := g, next_call := Suc (next_call w)\<rparr>) t (after_begin scheme key b)"
    have p: "after_begin scheme key b = Opening scheme key (next_call w) opener"
      using start by (simp add: after_begin_def)
    have fresh: "\<not> owns (pcs w t') (next_call w)" for t'
      using inv_facts(3) [OF inv, of t' "next_call w"] by auto
    have "results w (next_call w) = None"
      using inv_facts(9) [OF inv, of "next_call w"] by (cases "results w (next_call w)") auto
    note fresh = fresh this
    show ?thesis
    proof (rule registry_invI)
      show "inflight (reg ?w) k = Some c" if "runs (pcs ?w t') k c" for t' k c
        using that start p inv_facts(1) [OF inv, of t' k c] by (auto split: if_splits)
      show "cache (reg ?w) k = None" if "inflight (reg ?w) k = Some c" for k c
        using that start inv_facts(2) [OF inv] by (auto split: if_splits)
      show "c < next_call ?w \<and> results ?w c = None" if "owns (pcs ?w t') c" for t' c
        using that p inv_facts(3,4) [OF inv] fresh by (auto simp: less_SucI split: if_splits)
      show "t1 = t2" if "owns (pcs ?w t1) c" "owns (pcs ?w t2) c" for t1 t2 c
        using that p inv_facts(5) [OF inv] fresh by (auto split: if_splits)
      show "\<exists>t. runs (pcs ?w t) k c" if "inflight (reg ?w) k = Some c" for k c
      proof (cases "k = key")
        case True
        then show ?thesis using that start p by (intro exI [of _ t]) simp
      next
        case False
        with that start have "inflight (reg w) k = Some c" by simp
        then obtain t' where "runs (pcs w t') k c" using inv_facts(6) [OF inv] by blast
        then show ?thesis using idle by (intro exI [of _ t']) auto
      qed
      show "(\<exists>t. owns (pcs ?w t) c) \<or> results ?w c \<noteq> None" if "pcs ?w t' = Waiting k c" for t' k c
      proof -
        from that p have "pcs w t' = Waiting k c" by (simp split: if_splits)
        from inv_facts(7) [OF inv this] show ?thesis
        proof
          assume "\<exists>t. owns (pcs w t) c"
          then obtain t2 where "owns (pcs w t2) c" ..
          then show ?thesis using idle by (intro disjI1 exI [of _ t2]) auto
        qed simp
      qed
      show "results ?w c = Some r" if "pcs ?w t' = Back (Some c) r" for t' c r
        using that p inv_facts(8) [OF inv] by (simp split: if_splits)
      show "c < next_call ?w" if "results ?w c \<noteq> None" for c
        using that inv_facts(9) [OF inv] by (auto simp: less_SucI)
    qed
  qed
qed

lemma opened_inv:
  assumes inv: "registry_inv w" and p: "pcs w t = Opening scheme key c opener"
  shows "registry_inv (goto (w\<lparr>reg := resolve_end (reg w) key res\<rparr>) t (Closing key c (wrap_err scheme res)))"
proof -
  let ?w = "goto (w\<lparr>reg := resolve_end (reg w) key res\<rparr>) t (Closing key c (wrap_err scheme res))"
  have c: "inflight (reg w) key = Some c" using inv_facts(1) [OF inv, of t] p by simp
  have alone: "t' = t" if "owns (pcs w t') c" for t'
    using that inv_facts(5) [OF inv, of t' c t] p by simp
  have own: "owns (pcs ?w t') d \<longleftrightarrow> owns (pcs w t') d" for t' d using p by simp
  show ?thesis
  proof (rule registry_invI)
    show "inflight (reg ?w) k = Some d" if "runs (pcs ?w t') k d" for t' k d
    proof -
      have r: "runs (pcs w t') k d" "t' \<noteq> t" using that by (auto split: if_splits)
      moreover have "k \<noteq> key" using r c inv_facts(1) [OF inv r(1)] alone [of t'] runs_owns [OF r(1)] by auto
      ultimately show ?thesis using inv_facts(1) [OF inv r(1)] by (simp add: resolve_end_def)
    qed
    show "cache (reg ?w) k = None" if "inflight (reg ?w) k = Some d" for k d
      using that inv_facts(2) [OF inv] by (auto simp: resolve_end_def split: if_splits sum.splits)
    show "d < next_call ?w \<and> results ?w d = None" if "owns (pcs ?w t') d" for t' d
      using that inv_facts(3,4) [OF inv] unfolding own by simp
    show "t1 = t2" if "owns (pcs ?w t1) d" "owns (pcs ?w t2) d" for t1 t2 d
      using that inv_facts(5) [OF inv] unfolding own by simp
    show "\<exists>t. runs (pcs ?w t) k d" if "inflight (reg ?w) k = Some d" for k d
    proof -
      from that have k: "k \<noteq> key" "inflight (reg w) k = Some d" by (auto simp: resolve_end_def split: if_splits)
      then obtain t' where "runs (pcs w t') k d" using inv_facts(6) [OF inv] by blast
      then show ?thesis using k p by (intro exI [of _ t']) auto
    qed
    show "(\<exists>t. owns (pcs ?w t) d) \<or> results ?w d \<noteq> None" if "pcs ?w t' = Waiting k d" for t' k d
      using that inv_facts(7) [OF inv, of t' k d] unfolding own by (simp split: if_splits)
    show "results ?w d = Some r" if "pcs ?w t' = Back (Some d) r" for t' d r
      using that inv_facts(8) [OF inv] by (simp split: if_splits)
    show "d < next_call ?w" if "results ?w d \<noteq> None" for d
      using that inv_facts(9) [OF inv] by auto
  qed
qed

lemma closes_inv:
  assumes inv: "registry_inv w" and p: "pcs w t = Closing key c r"
  shows "registry_inv (goto (w\<lparr>results := (results w)(c \<mapsto> r)\<rparr>) t (Back (Some c) r))"
proof -
  let ?w = "goto (w\<lparr>results := (results w)(c \<mapsto> r)\<rparr>) t (Back (Some c) r)"
  have c: "owns (pcs w t) c" using p by simp
  have own: "owns (pcs ?w t') d \<longleftrightarrow> t' \<noteq> t \<and> owns (pcs w t') d" for t' d by simp
  have run: "runs (pcs ?w t') k d \<longleftrightarrow> runs (pcs w t') k d" for t' k d using p by simp
  show ?thesis
  proof (rule registry_invI)
    show "d < next_call ?w \<and> results ?w d = None" if "owns (pcs ?w t') d" for t' d
      using that inv_facts(3,4) [OF inv, of t' d] inv_facts(5) [OF inv c, of t'] unfolding own by auto
    show "t1 = t2" if "owns (pcs ?w t1) d" "owns (pcs ?w t2) d" for t1 t2 d
      using that inv_facts(5) [OF inv] unfolding own by blast
    show "(\<exists>t. owns (pcs ?w t) d) \<or> results ?w d \<noteq> None" if "pcs ?w t' = Waiting k d" for t' k d
    proof (cases "d = c")
      case False
      from that have "pcs w t' = Waiting k d" by (simp split: if_splits)
      from inv_facts(7) [OF inv this] show ?thesis
      proof
        assume "\<exists>t. owns (pcs w t) d"
        then obtain t2 where t2: "owns (pcs w t2) d" ..
        then have "t2 \<noteq> t" using p False by auto
        then show ?thesis using t2 unfolding own by blast
      qed simp
    qed simp
    show "results ?w d = Some r'" if "pcs ?w t' = Back (Some d) r'" for t' d r'
      using that inv_facts(8) [OF inv, of t' d r'] inv_facts(4) [OF inv c] by (auto split: if_splits)
    show "d < next_call ?w" if "results ?w d \<noteq> None" for d
      using that inv_facts(9) [OF inv, of d] inv_facts(3) [OF inv c] by (auto split: if_splits)
    show "\<exists>t. runs (pcs ?w t) k d" if "inflight (reg ?w) k = Some d" for k d
      using that inv_facts(6) [OF inv, of k d] unfolding run by simp
    show "inflight (reg ?w) k = Some d" if "runs (pcs ?w t') k d" for t' k d
      using that inv_facts(1) [OF inv] unfolding run by simp
  qed (use inv_facts(2) [OF inv] in simp)
qed

lemma step_inv: "registry_step w w' \<Longrightarrow> registry_inv w \<Longrightarrow> registry_inv w'"
proof (induction rule: registry_step.induct)
  case (begins w t scheme key b g)
  then show ?case by (intro begin_inv) simp_all
next
  case (opened w t scheme key c opener res)
  then show ?case by (intro opened_inv) simp_all
next
  case (closes w t key c r)
  then show ?case by (intro closes_inv) simp_all
next
  case (wakes w t key c r)
  then have "registry_inv (goto (w\<lparr>next_call := next_call w\<rparr>) t (Back (Some c) r))"
    by (intro quiet_inv) auto
  then show ?case by simp
next
  case (panics w t scheme key c opener)
  have own: "owns (pcs (goto w t (Panicked key c)) t') d \<longleftrightarrow> owns (pcs w t') d"
    and run: "runs (pcs (goto w t (Panicked key c)) t') k d \<longleftrightarrow> runs (pcs w t') k d" for t' k d
    using panics by simp_all
  show ?case
    by (rule transfer_inv [OF panics(2)])
      (use inv_facts(7,8) [OF panics(2)] in \<open>simp_all only: own run\<close>, auto split: if_splits)
next
  case (registers w scheme opener e g)
  show ?case
    by (rule transfer_inv [OF registers(2)])
      (use Register_sel [OF registers(1)] inv_facts(7,8) [OF registers(2)] in simp_all)
qed

lemma reachable_inv: "registry_step\<^sup>*\<^sup>* init_world w \<Longrightarrow> registry_inv w"
  by (induction rule: rtranclp_induct) (auto intro: init_inv step_inv)

section \<open>One opener call per key\<close>

text \<open>C17: In every reachable state of any number of concurrent \<open>Resolve\<close> and \<open>Register\<close> calls, two
  callers running an opener for the same key are the same caller and the same call, and no
  store is cached for that key.\<close>

theorem single_flight:
  assumes "registry_step\<^sup>*\<^sup>* init_world w"
    and "pcs w t = Opening scheme key c opener" and "pcs w t' = Opening scheme' key c' opener'"
  shows "t = t' \<and> c = c' \<and> cache (reg w) key = None"
proof -
  note inv = reachable_inv [OF assms(1)]
  have c: "inflight (reg w) key = Some c" "inflight (reg w) key = Some c'"
    using inv_facts(1) [OF inv, of t] inv_facts(1) [OF inv, of t'] assms(2,3) by simp_all
  then show ?thesis using inv_facts(2) [OF inv c(1)] inv_facts(5) [OF inv, of t c t'] assms(2,3) by auto
qed

text \<open>A run of two callers: one opens, the other finds the call in flight.\<close>

definition demo_opening :: "nat world" where
  "demo_opening = goto (init_world\<lparr>reg := empty_registry\<lparr>openers := [''mem'' \<mapsto> 5], inflight := [''mem://b?'' \<mapsto> 0]\<rparr>,
      next_call := 1\<rparr>) 0 (Opening ''mem'' ''mem://b?'' 0 5)"

definition demo_waiting :: "nat world" where
  "demo_waiting = goto (demo_opening\<lparr>next_call := 2\<rparr>) 1 (Waiting ''mem://b?'' 0)"

lemma init_sel [simp]:
  "reg init_world = empty_registry" "next_call init_world = 0" "pcs init_world t = Idle" "results init_world c = None"
  by (simp_all add: init_world_def)

lemma empty_sel [simp]:
  "openers empty_registry = Map.empty" "cache empty_registry = Map.empty" "inflight empty_registry = Map.empty"
  by (simp_all add: empty_registry_def)

lemma demo_registered: "registry_step init_world (init_world\<lparr>reg := empty_registry\<lparr>openers := [''mem'' \<mapsto> 5]\<rparr>\<rparr>)"
  by (rule registers [of _ "''mem''" 5 None]) (simp add: Register_def empty_registry_def fun_eq_iff)

lemma demo_opening_reached: "registry_step\<^sup>*\<^sup>* init_world demo_opening"
proof -
  let ?w = "init_world\<lparr>reg := empty_registry\<lparr>openers := [''mem'' \<mapsto> 5]\<rparr>\<rparr> :: nat world"
  have "registry_step ?w (goto (?w\<lparr>reg := reg ?w\<lparr>inflight := [''mem://b?'' \<mapsto> 0]\<rparr>, next_call := Suc (next_call ?w)\<rparr>) 0
      (after_begin ''mem'' ''mem://b?'' (Start 0 5)))"
    by (rule begins) (simp_all add: resolve_begin_def)
  moreover have "goto (?w\<lparr>reg := reg ?w\<lparr>inflight := [''mem://b?'' \<mapsto> 0]\<rparr>, next_call := Suc (next_call ?w)\<rparr>) 0
      (after_begin ''mem'' ''mem://b?'' (Start 0 5)) = demo_opening"
    by (simp add: demo_opening_def after_begin_def)
  ultimately show ?thesis using demo_registered by (metis rtranclp.rtrancl_refl rtranclp.rtrancl_into_rtrancl)
qed

lemma demo_waiting_reached: "registry_step\<^sup>*\<^sup>* init_world demo_waiting"
proof -
  have "registry_step demo_opening
      (goto (demo_opening\<lparr>reg := reg demo_opening, next_call := Suc (next_call demo_opening)\<rparr>) 1
        (after_begin ''mem'' ''mem://b?'' (Wait 0)))"
    by (rule begins) (simp_all add: resolve_begin_def demo_opening_def)
  moreover have "goto (demo_opening\<lparr>reg := reg demo_opening, next_call := Suc (next_call demo_opening)\<rparr>) 1
        (after_begin ''mem'' ''mem://b?'' (Wait 0)) = demo_waiting"
    by (simp add: demo_waiting_def after_begin_def demo_opening_def)
  ultimately show ?thesis using demo_opening_reached by (metis rtranclp.rtrancl_into_rtrancl)
qed

theorem single_flight_witness:
  "cache (reg demo_waiting) ''mem://b?'' = None \<and> inflight (reg demo_waiting) ''mem://b?'' = Some 0"
proof
  have p: "pcs demo_waiting 0 = Opening ''mem'' ''mem://b?'' 0 5"
    by (simp add: demo_waiting_def demo_opening_def)
  from single_flight [OF demo_waiting_reached p p] show "cache (reg demo_waiting) ''mem://b?'' = None" by simp
qed (simp add: demo_waiting_def demo_opening_def)

text \<open>Everybody who was served by one opener call, the caller that ran it and those that waited for it,
  got the same store or the same error.\<close>

lemma joined_callers_agree:
  assumes "registry_step\<^sup>*\<^sup>* init_world w"
    and "pcs w t = Back (Some c) r" and "pcs w t' = Back (Some c) r'"
  shows "r = r'"
  using inv_facts(8) [OF reachable_inv [OF assms(1)]] assms(2,3) by (metis option.inject)

section \<open>Waiting ends\<close>

text \<open>C24: A caller that waits for a call whose opener has not panicked is never stuck: from every
  reachable state there is a run, of nothing but the opener returning, its caller closing the
  channel and the waiter waking, after which the waiter has its result.\<close>

theorem waiters_can_finish:
  assumes "registry_step\<^sup>*\<^sup>* init_world w" and "pcs w t = Waiting key c" and "\<And>t' k. pcs w t' \<noteq> Panicked k c"
  shows "\<exists>w' r. registry_step\<^sup>*\<^sup>* w w' \<and> pcs w' t = Back (Some c) r"
proof -
  note inv = reachable_inv [OF assms(1)]
  have wake: "\<exists>w' r. registry_step\<^sup>*\<^sup>* v w' \<and> pcs w' t = Back (Some c) r"
    if "pcs v t = Waiting key c" "results v c = Some r" for v r
    using wakes [OF that] by (intro exI [of _ "goto v t (Back (Some c) r)"] exI [of _ r]) auto
  have close: "\<exists>w' r. registry_step\<^sup>*\<^sup>* v w' \<and> pcs w' t = Back (Some c) r"
    if "pcs v t = Waiting key c" "pcs v t' = Closing k c r" for v t' k r
  proof -
    have "registry_step v (goto (v\<lparr>results := (results v)(c \<mapsto> r)\<rparr>) t' (Back (Some c) r))"
      by (rule closes) (fact that(2))
    moreover have "\<exists>w' r'. registry_step\<^sup>*\<^sup>* (goto (v\<lparr>results := (results v)(c \<mapsto> r)\<rparr>) t' (Back (Some c) r)) w' \<and>
        pcs w' t = Back (Some c) r'"
      by (rule wake [of _ r]) (use that in auto)
    ultimately show ?thesis by (meson converse_rtranclp_into_rtranclp)
  qed
  from inv_facts(7) [OF inv assms(2)] show ?thesis
  proof
    assume "\<exists>t'. owns (pcs w t') c"
    then obtain t' where "owns (pcs w t') c" ..
    then consider (running) scheme k opener where "pcs w t' = Opening scheme k c opener"
      | (closing) k r where "pcs w t' = Closing k c r"
      using assms(3) by (auto simp: owns_def runs_def)
    then show ?thesis
    proof cases
      case running
      let ?v = "goto (w\<lparr>reg := resolve_end (reg w) k (Inl [])\<rparr>) t' (Closing k c (wrap_err scheme (Inl [])))"
      have "registry_step w ?v" by (rule opened) (fact running)
      moreover have "\<exists>w' r. registry_step\<^sup>*\<^sup>* ?v w' \<and> pcs w' t = Back (Some c) r"
        by (rule close [of _ t' k "wrap_err scheme (Inl [])"]) (use running assms(2) in auto)
      ultimately show ?thesis by (meson converse_rtranclp_into_rtranclp)
    next
      case closing
      then show ?thesis by (rule close [OF assms(2)])
    qed
  next
    assume "results w c \<noteq> None"
    then show ?thesis using wake [OF assms(2)] by blast
  qed
qed

theorem waiters_can_finish_witness:
  "\<exists>w' r. registry_step\<^sup>*\<^sup>* demo_waiting w' \<and> pcs w' 1 = Back (Some 0) r"
proof (rule waiters_can_finish [OF demo_waiting_reached])
  show "pcs demo_waiting 1 = Waiting ''mem://b?'' 0" by (simp add: demo_waiting_def)
  show "pcs demo_waiting t' \<noteq> Panicked k 0" for t' k
    by (simp add: demo_waiting_def demo_opening_def)
qed

section \<open>A panicking opener\<close>

lemma panicked_stays: "registry_step\<^sup>*\<^sup>* w w' \<Longrightarrow> pcs w p = Panicked key c \<Longrightarrow> pcs w' p = Panicked key c"
  by (induction rule: rtranclp_induct) (auto elim!: registry_stepE split: if_splits)

text \<open>C35: An opener that panics leaves its call in flight for ever: in no state reached afterwards does a
  caller that waited for it return, and every later caller for that key, with the key
  neither cached nor in flight again, waits for the dead call.\<close>

theorem panicked_opener_blocks:
  assumes "registry_step\<^sup>*\<^sup>* init_world w" and "pcs w p = Panicked key c"
    and "registry_step\<^sup>*\<^sup>* w w'"
  shows "pcs w' t \<noteq> Back (Some c) r \<and> resolve_begin (reg w') scheme key n = (Wait c, reg w')"
proof -
  have inv: "registry_inv w'" using reachable_inv assms(1,3) by (metis rtranclp_trans)
  have p: "pcs w' p = Panicked key c" by (rule panicked_stays [OF assms(3,2)])
  have "inflight (reg w') key = Some c" "results w' c = None"
    using inv_facts(1,4) [OF inv, of p] p by simp_all
  then show ?thesis using inv_facts(2,8) [OF inv] by (auto simp: resolve_begin_def)
qed

theorem panicked_opener_blocks_witness:
  "\<exists>w :: nat world. registry_step\<^sup>*\<^sup>* init_world w \<and> pcs w 1 = Waiting ''mem://b?'' 0 \<and>
     resolve_begin (reg w) ''mem'' ''mem://b?'' 7 = (Wait 0, reg w)"
proof -
  let ?w = "goto demo_waiting 0 (Panicked ''mem://b?'' 0)"
  have "registry_step demo_waiting ?w"
    by (rule panics [of _ _ "''mem''" _ _ 5]) (simp add: demo_waiting_def demo_opening_def)
  then have w: "registry_step\<^sup>*\<^sup>* init_world ?w" using demo_waiting_reached by (metis rtranclp.rtrancl_into_rtrancl)
  have "pcs ?w 0 = Panicked ''mem://b?'' 0" by simp
  from panicked_opener_blocks [OF w this rtranclp.rtrancl_refl, THEN conjunct2]
  have "resolve_begin (reg ?w) ''mem'' ''mem://b?'' 7 = (Wait 0, reg ?w)" .
  moreover have "pcs ?w 1 = Waiting ''mem://b?'' 0" by (simp add: demo_waiting_def)
  ultimately show ?thesis using w by (intro exI [of _ ?w] conjI)
qed

section \<open>Registering again\<close>

text \<open>C34: \<open>Register\<close> installs the opener and forgets every store cached for the scheme, so the next caller
  runs the new opener or joins a call in flight; but a call of the old opener that is in
  flight survives it and caches its store afterwards, to be served to every later caller.\<close>

theorem register_leaves_inflight:
  assumes "Register g scheme opener = (None, g1)" and "has_prefix key (scheme @ ''://'')"
  shows "openers g1 scheme = Some opener \<and> cache g1 key = None \<and>
    (inflight g key = None \<longrightarrow> fst (resolve_begin g1 scheme key n) = Start n opener) \<and>
    (\<forall>c store. inflight g key = Some c \<longrightarrow>
       fst (resolve_begin g1 scheme key n) = Wait c \<and>
       fst (resolve_begin (resolve_end g1 key (Inr store)) scheme key n) = CacheHit store)"
  using assms by (auto simp: Register_def resolve_begin_def resolve_end_def split: if_splits)

theorem register_leaves_inflight_witness:
  "fst (resolve_begin (resolve_end (snd (Register (reg demo_opening) ''mem'' 6)) ''mem://b?'' (Inr 55)) ''mem'' ''mem://b?'' 9)
     = CacheHit 55"
proof -
  obtain g1 where g1: "Register (reg demo_opening) ''mem'' 6 = (None, g1)" by (simp add: Register_def)
  have "has_prefix ''mem://b?'' (''mem'' @ ''://'')" by (simp add: has_prefix_def)
  moreover have "inflight (reg demo_opening) ''mem://b?'' = Some 0" by (simp add: demo_opening_def)
  ultimately show ?thesis using register_leaves_inflight [OF g1] g1 by simp
qed

section \<open>Resolving alone\<close>

text \<open>Once a location has resolved through the registry, every location with the same scheme, host
  and query resolves to the same store with its own path, and no opener runs again, whatever
  the openers would return.\<close>

theorem Resolve_caches:
  assumes "Resolve run g location parsed = Some (Inr (Resolved store path), opened_now, g')"
    and "locate location' parsed' = RegistryTarget u (tg_key (locate location parsed)) path'"
  shows "Resolve run' g' location' parsed' = Some (Inr (Resolved store path'), False, g')"
proof -
  obtain u0 key where t: "locate location parsed = RegistryTarget u0 key path"
    using assms(1) by (auto simp: Resolve_def wrap_err_def Let_def split: target.splits begun.splits prod.splits sum.splits)
  have "cache g' key = Some store"
    using assms(1) t
    by (auto simp: Resolve_def resolve_begin_def resolve_end_def wrap_err_def Let_def split: option.splits sum.splits)
  then show ?thesis using assms(2) t by (simp add: Resolve_def resolve_begin_def)
qed

theorem Resolve_caches_witness:
  "\<exists>g. Resolve (\<lambda>opener u. Inr (3 :: nat)) (empty_registry\<lparr>openers := [''mem'' \<mapsto> 5]\<rparr>) ''mem://b/x''
       (Some \<lparr>u_scheme = ''mem'', u_host = ''b'', u_path = ''/x'', u_rawQuery = []\<rparr>) =
       Some (Inr (Resolved 3 ''x''), True, g) \<and>
     Resolve (\<lambda>opener u. Inl ''down'') g ''mem://b/y''
       (Some \<lparr>u_scheme = ''mem'', u_host = ''b'', u_path = ''/y'', u_rawQuery = []\<rparr>) =
       Some (Inr (Resolved 3 ''y''), False, g)"
proof -
  let ?u = "\<lambda>p. Some \<lparr>u_scheme = ''mem'', u_host = ''b'', u_path = p, u_rawQuery = []\<rparr>"
  let ?g = "empty_registry\<lparr>openers := [''mem'' \<mapsto> 5]\<rparr> :: nat registry"
  have loc: "locate l (?u p) = RegistryTarget (the (?u p)) ''mem://b?'' (trim_prefix p ''/'')" for l p
    by (simp add: locate_def isDriveLetter_def)
  obtain g where first: "Resolve (\<lambda>opener u. Inr 3) ?g ''mem://b/x'' (?u ''/x'') =
      Some (Inr (Resolved 3 ''x''), True, g)"
    by (simp add: Resolve_def loc resolve_begin_def wrap_err_def trim_prefix_def has_prefix_def Let_def)
  have "locate ''mem://b/y'' (?u ''/y'') = RegistryTarget (the (?u ''/y'')) (tg_key (locate ''mem://b/x'' (?u ''/x''))) ''y''"
    by (simp add: loc trim_prefix_def has_prefix_def)
  from Resolve_caches [OF first this] first show ?thesis by blast
qed

end
