(* ===== verification/Cloud_Open.thy ===== *)
theory Cloud_Open
  imports Registry Cloud_Store
begin

text \<open>
  The cloud backends' registration (\<open>objectstore/s3\<close>, \<open>gcs\<close>, \<open>azure\<close>): the schemes they claim and
  the URL they open a bucket with, and, with the registry and whatever else is registered there, which
  bucket a location resolves to. \<open>blob.OpenBucket\<close> is the library's and a parameter.
\<close>

section \<open>Openers\<close>

text \<open>The authority and the query of a location, without its path.\<close>

definition bucket_url :: "url \<Rightarrow> url" where
  "bucket_url u = \<lparr>u_scheme = u_scheme u, u_host = u_host u, u_path = [], u_rawQuery = u_rawQuery u\<rparr>"

definition cloud_open :: "string \<Rightarrow> (url \<Rightarrow> string + 'b) \<Rightarrow> url \<Rightarrow> string + 'b" where
  "cloud_open what OpenBucket u =
     (case OpenBucket (bucket_url u) of
        Inl e \<Rightarrow> Inl (what @ u_host u @ '': '' @ e)
      | Inr bucket \<Rightarrow> Inr bucket)"

definition open_s3 :: "(url \<Rightarrow> string + 'b) \<Rightarrow> url \<Rightarrow> string + 'b" where
  "open_s3 = cloud_open ''objectstore/s3: opening bucket ''"

definition open_gcs :: "(url \<Rightarrow> string + 'b) \<Rightarrow> url \<Rightarrow> string + 'b" where
  "open_gcs = cloud_open ''objectstore/gcs: opening bucket ''"

definition open_azure :: "(url \<Rightarrow> string + 'b) \<Rightarrow> url \<Rightarrow> string + 'b" where
  "open_azure = cloud_open ''objectstore/azure: opening container ''"

text \<open>
  The opener with the given number: the three packages' and those of anyone else who calls
  \<open>Register\<close>, \<open>mem.go\<close> with the number 0.
\<close>

definition run_opener :: "(url \<Rightarrow> string + 'b) \<Rightarrow> (nat \<Rightarrow> url \<Rightarrow> string + 'b) \<Rightarrow> nat \<Rightarrow> url \<Rightarrow> string + 'b" where
  "run_opener OpenBucket others opener =
     (if opener = 1 then open_s3 OpenBucket
      else if opener = 2 then open_gcs OpenBucket
      else if opener = 3 then open_azure OpenBucket
      else others opener)"

text \<open>
  The packages' \<open>init\<close>s: \<open>None\<close> is their panic when a scheme is refused. The number names the
  opener.
\<close>

definition register_init :: "string \<Rightarrow> nat \<Rightarrow> 'st registry \<Rightarrow> 'st registry option" where
  "register_init scheme opener g =
     (case Register g scheme opener of (None, g') \<Rightarrow> Some g' | (Some e, g') \<Rightarrow> None)"

definition init_s3 :: "'st registry \<Rightarrow> 'st registry option" where "init_s3 = register_init ''s3'' 1"
definition init_gcs :: "'st registry \<Rightarrow> 'st registry option" where "init_gcs = register_init ''gs'' 2"
definition init_azure :: "'st registry \<Rightarrow> 'st registry option" where "init_azure = register_init ''azblob'' 3"
definition init_mem :: "'st registry \<Rightarrow> 'st registry option" where "init_mem = register_init ''mem'' 0"

lemma inits_never_panic:
  "\<exists>g'. init_s3 g = Some g'" "\<exists>g'. init_gcs g = Some g'" "\<exists>g'. init_azure g = Some g'"
  "\<exists>g'. init_mem g = Some g'"
  by (simp_all add: init_mem_def init_s3_def init_gcs_def init_azure_def register_init_def Register_def)

section \<open>A cache key names one bucket\<close>

definition cache_key :: "url \<Rightarrow> string" where
  "cache_key u = u_scheme u @ ''://'' @ u_host u @ ''?'' @ u_rawQuery u"

text \<open>What \<open>url.Parse\<close> guarantees: no colon in a scheme, no question mark in a host.\<close>

definition parsed_ok :: "url \<Rightarrow> bool" where
  "parsed_ok u \<longleftrightarrow> CHR '':'' \<notin> set (u_scheme u) \<and> CHR ''?'' \<notin> set (u_host u)"

lemma cut_unique:
  "a @ c # r = b @ c # s \<Longrightarrow> c \<notin> set a \<Longrightarrow> c \<notin> set b \<Longrightarrow> a = b \<and> r = s"
  by (induction a arbitrary: b) (auto simp: Cons_eq_append_conv append_eq_Cons_conv)

lemma cache_key_inj:
  assumes "parsed_ok u" and "parsed_ok v" and "cache_key u = cache_key v"
  shows "bucket_url u = bucket_url v"
proof -
  have "u_scheme u @ CHR '':'' # (''//'' @ u_host u @ ''?'' @ u_rawQuery u) =
      u_scheme v @ CHR '':'' # (''//'' @ u_host v @ ''?'' @ u_rawQuery v)"
    using assms(3) by (simp add: cache_key_def)
  from cut_unique [OF this] assms(1,2) have "u_scheme u = u_scheme v"
    and rest: "u_host u @ CHR ''?'' # u_rawQuery u = u_host v @ CHR ''?'' # u_rawQuery v"
    by (auto simp: parsed_ok_def)
  with cut_unique [OF rest] assms(1,2) show ?thesis by (auto simp: parsed_ok_def bucket_url_def)
qed

lemma locate_key: "locate location (Some u) = RegistryTarget v key path \<Longrightarrow> v = u \<and> key = cache_key u \<and> path = trim_prefix (u_path u) ''/''"
  by (auto simp: locate_def cache_key_def split: if_splits)

section \<open>Locations resolve to their own bucket\<close>

text \<open>Registries that registrations and resolutions, one at a time, can lead to.\<close>

inductive cloud_reach :: "(nat \<Rightarrow> url \<Rightarrow> string + 'b) \<Rightarrow> 'b registry \<Rightarrow> bool" for run where
  fresh_registry: "cloud_reach run empty_registry"
| registered: "cloud_reach run g \<Longrightarrow> cloud_reach run (snd (Register g scheme opener))"
| resolved: "cloud_reach run g \<Longrightarrow> list_all parsed_ok (case parsed of None \<Rightarrow> [] | Some u \<Rightarrow> [u]) \<Longrightarrow>
    Resolve run g location parsed = Some (r, fresh_open, g') \<Longrightarrow> cloud_reach run g'"

text \<open>What is cached is what the opener registered now gives for the bucket.\<close>

definition buckets_ok :: "(nat \<Rightarrow> url \<Rightarrow> string + 'b) \<Rightarrow> 'b registry \<Rightarrow> bool" where
  "buckets_ok run g \<longleftrightarrow> inflight g = Map.empty \<and>
     (\<forall>u store. parsed_ok u \<longrightarrow> cache g (cache_key u) = Some store \<longrightarrow>
        (\<exists>opener. openers g (u_scheme u) = Some opener \<and> run opener (bucket_url u) = Inr store))"

text \<open>An opener that looks at the scheme, the host and the query only, as the cloud packages' do.\<close>

definition by_bucket :: "(url \<Rightarrow> string + 'b) \<Rightarrow> bool" where
  "by_bucket opn \<longleftrightarrow> (\<forall>u. opn u = opn (bucket_url u))"

lemma cloud_by_bucket:
  assumes "\<And>k. by_bucket (others k)"
  shows "by_bucket (run_opener OpenBucket others opener)"
proof -
  have "by_bucket (cloud_open what OpenBucket)" for what
    by (simp add: by_bucket_def cloud_open_def bucket_url_def split: sum.splits)
  then show ?thesis using assms by (simp add: run_opener_def open_s3_def open_gcs_def open_azure_def)
qed

lemma registered_buckets_ok:
  assumes "buckets_ok run g"
  shows "buckets_ok run (snd (Register g scheme opener))"
proof -
  have own: "has_prefix (cache_key u) (u_scheme u @ ''://'')" for u by (simp add: has_prefix_def cache_key_def)
  have "\<exists>op. openers (snd (Register g scheme opener)) (u_scheme u) = Some op \<and> run op (bucket_url u) = Inr store"
    if u: "parsed_ok u" "cache (snd (Register g scheme opener)) (cache_key u) = Some store" for u store
  proof (cases "scheme = [] \<or> scheme = ''file''")
    case False
    then have "u_scheme u \<noteq> scheme" "cache g (cache_key u) = Some store"
      using u(2) own [of u] by (auto simp: Register_def split: if_splits)
    with assms u(1) show ?thesis by (auto simp: buckets_ok_def Register_def)
  qed (use assms u in \<open>auto simp: buckets_ok_def Register_def\<close>)
  with assms show ?thesis by (auto simp: buckets_ok_def Register_def)
qed

lemma resolve_buckets_ok:
  assumes "buckets_ok run g" and "parsed_ok u" and run: "\<And>k. by_bucket (run k)"
    and "locate location (Some u) = RegistryTarget u (cache_key u) path"
    and "Resolve run g location (Some u) = Some (r, fresh_open, g')"
  shows "buckets_ok run g' \<and>
    r = (case openers g (u_scheme u) of
           None \<Rightarrow> Inl (UnregisteredScheme (u_scheme u) (schemeImportHints (u_scheme u)))
         | Some opener \<Rightarrow>
             (case run opener u of
                Inl e \<Rightarrow> Inl (OpenerFailed (u_scheme u) e)
              | Inr store \<Rightarrow> Inr (Resolved store path)))"
proof (cases "cache g (cache_key u)")
  case (Some store)
  then obtain opener where "run opener (bucket_url u) = Inr store" "openers g (u_scheme u) = Some opener"
    using assms(1,2) by (auto simp: buckets_ok_def)
  moreover from this have "run opener u = Inr store" using run [of opener] by (metis by_bucket_def)
  ultimately show ?thesis using Some assms(1,4,5) by (auto simp: Resolve_def resolve_begin_def)
next
  case None
  have idle: "inflight g = Map.empty" using assms(1) by (simp add: buckets_ok_def)
  show ?thesis
  proof (cases "openers g (u_scheme u)")
    case unreg: None
    with None idle assms(1,4,5) show ?thesis by (auto simp: Resolve_def resolve_begin_def)
  next
    case (Some opener)
    let ?res = "run opener u" and ?g = "g\<lparr>inflight := (inflight g)(cache_key u \<mapsto> 0)\<rparr>"
    have g': "g' = resolve_end ?g (cache_key u) ?res"
      and r: "r = (case ?res of Inl e \<Rightarrow> Inl (OpenerFailed (u_scheme u) e) | Inr store \<Rightarrow> Inr (Resolved store path))"
      using assms(4,5) None Some idle
      by (auto simp: Resolve_def resolve_begin_def wrap_err_def Let_def split: sum.splits)
    have "\<exists>op. openers g (u_scheme v) = Some op \<and> run op (bucket_url v) = Inr st"
      if v: "parsed_ok v" and c: "cache g' (cache_key v) = Some st" for v st
    proof (cases "cache_key v = cache_key u \<and> (\<exists>store. ?res = Inr store)")
      case True
      then have "bucket_url v = bucket_url u" "?res = Inr st"
        using cache_key_inj [OF v assms(2)] c by (auto simp: g' resolve_end_def)
      moreover have "?res = run opener (bucket_url u)" using run [of opener] by (metis by_bucket_def)
      ultimately show ?thesis using Some by (auto simp: bucket_url_def)
    next
      case False
      then have "cache g (cache_key v) = Some st" using c by (auto simp: g' resolve_end_def split: sum.splits if_splits)
      with assms(1) v show ?thesis by (simp add: buckets_ok_def)
    qed
    then have "buckets_ok run g'" using idle by (auto simp: buckets_ok_def g' resolve_end_def)
    with r Some show ?thesis by simp
  qed
qed

lemma reach_buckets_ok: "cloud_reach run g \<Longrightarrow> (\<And>k. by_bucket (run k)) \<Longrightarrow> buckets_ok run g"
proof (induction rule: cloud_reach.induct)
  case fresh_registry
  show ?case by (simp add: buckets_ok_def empty_registry_def)
next
  case (registered g scheme opener)
  then show ?case using registered_buckets_ok by blast
next
  case (resolved g parsed location r fresh_open g')
  show ?case
  proof (cases "locate location parsed")
    case (LocalTarget p)
    then show ?thesis using resolved by (auto simp: Resolve_def)
  next
    case (RegistryTarget v key path)
    then obtain u where u: "parsed = Some u" by (cases parsed) (auto simp: locate_def)
    with RegistryTarget locate_key have "locate location (Some u) = RegistryTarget u (cache_key u) path" by metis
    from resolve_buckets_ok [OF resolved.IH _ _ this] resolved u show ?thesis by simp
  qed
qed

text \<open>C33: Whatever was registered and resolved before, one call at a time, a location of a registry's
  scheme resolves exactly as if the opener now registered for the scheme opened its own bucket anew,
  under its own key in it: the cache never hands out the bucket of another scheme, host or query or of
  an opener that was replaced, never hides a bucket that does not open, and never keeps a caller
  waiting. Besides the three cloud packages' any openers can be registered that look at the scheme,
  host and query only; an opener gives a URL the same answer whenever it is asked.\<close>

theorem Resolve_own_bucket:
  assumes "cloud_reach (run_opener OpenBucket others) g" and "\<And>k. by_bucket (others k)" and "parsed_ok u"
    and "locate location (Some u) = RegistryTarget v key path"
  shows "\<exists>fresh_open g'. Resolve (run_opener OpenBucket others) g location (Some u) =
    Some (case openers g (u_scheme u) of
            None \<Rightarrow> Inl (UnregisteredScheme (u_scheme u) (schemeImportHints (u_scheme u)))
          | Some opener \<Rightarrow>
              (case run_opener OpenBucket others opener u of
                 Inl e \<Rightarrow> Inl (OpenerFailed (u_scheme u) e)
               | Inr bucket \<Rightarrow> Inr (Resolved bucket (trim_prefix (u_path u) ''/''))), fresh_open, g')"
proof -
  note by_bucket = cloud_by_bucket [OF assms(2)]
  note ok = reach_buckets_ok [OF assms(1) by_bucket]
  have t: "locate location (Some u) = RegistryTarget u (cache_key u) (trim_prefix (u_path u) ''/'')"
    using locate_key [OF assms(4)] assms(4) by simp
  have "Resolve (run_opener OpenBucket others) g location (Some u) \<noteq> None"
    using ok t by (auto simp: Resolve_def resolve_begin_def buckets_ok_def Let_def split: option.splits)
  then obtain r fresh_open g' where run: "Resolve (run_opener OpenBucket others) g location (Some u) = Some (r, fresh_open, g')"
    by auto
  from resolve_buckets_ok [OF ok assms(3) by_bucket t run] run show ?thesis by blast
qed

definition demo_buckets :: "url \<Rightarrow> string + string" where
  "demo_buckets u = (if u_host u = ''gone'' then Inl ''no such bucket'' else Inr (u_host u))"

text \<open>A scheme whose opener is replaced after one of its buckets was resolved.\<close>

definition demo_others :: "nat \<Rightarrow> url \<Rightarrow> string + string" where
  "demo_others k u = (if k = 0 then Inr ''memory'' else Inr (''mirror of '' @ u_host u))"

definition demo_url :: url where
  "demo_url = \<lparr>u_scheme = ''s3'', u_host = ''b'', u_path = ''/k'', u_rawQuery = []\<rparr>"

definition demo_registry :: "string registry" where
  "demo_registry =
     (case Resolve (run_opener demo_buckets demo_others) (snd (Register empty_registry ''s3'' 1)) ''s3://b/k'' (Some demo_url) of
        Some (r, fresh_open, g) \<Rightarrow> g | None \<Rightarrow> empty_registry)"

theorem Resolve_own_bucket_witness:
  "cache demo_registry ''s3://b?'' = Some ''b'' \<and>
   (\<exists>fresh_open g. Resolve (run_opener demo_buckets demo_others) (snd (Register demo_registry ''s3'' 7)) ''s3://b/k'' (Some demo_url) =
     Some (Inr (Resolved ''mirror of b'' ''k''), fresh_open, g))"
proof -
  let ?run = "run_opener demo_buckets demo_others"
  have ok: "parsed_ok demo_url" by (simp add: parsed_ok_def demo_url_def)
  have target: "locate ''s3://b/k'' (Some demo_url) = RegistryTarget demo_url ''s3://b?'' ''k''"
    by (simp add: locate_def trim_prefix_def has_prefix_def isDriveLetter_def demo_url_def)
  have first: "Resolve ?run (snd (Register empty_registry ''s3'' 1)) ''s3://b/k'' (Some demo_url) =
      Some (Inr (Resolved ''b'' ''k''), True, demo_registry) \<and> cache demo_registry ''s3://b?'' = Some ''b'' \<and>
      openers demo_registry = [''s3'' \<mapsto> 1]"
    unfolding demo_registry_def Resolve_def target target.case
    by (simp add: resolve_begin_def Register_def empty_registry_def run_opener_def open_s3_def
        cloud_open_def bucket_url_def demo_buckets_def demo_url_def wrap_err_def resolve_end_def has_prefix_def Let_def)
  have "cloud_reach ?run (snd (Register empty_registry ''s3'' 1))" by (intro cloud_reach.intros)
  from cloud_reach.resolved [OF this _ first [THEN conjunct1]] have "cloud_reach ?run demo_registry" using ok by simp
  then have reach: "cloud_reach ?run (snd (Register demo_registry ''s3'' 7))" by (rule cloud_reach.registered)
  have "by_bucket (demo_others k)" for k by (simp add: by_bucket_def demo_others_def bucket_url_def)
  from Resolve_own_bucket [OF reach this ok target] first show ?thesis
    by (simp add: Register_def run_opener_def demo_others_def demo_url_def trim_prefix_def has_prefix_def)
qed

end
