(* ===== verification/Store_Contract.thy ===== *)
theory Store_Contract
  imports Cloud_Store
begin

text \<open>
  \<open>objectstore/objectstoretest\<close>: the behaviour contract the repository tests every backend
  against, as functions over the \<open>Store\<close> interface. It is proved once for every store that
  keeps the laws of \<open>full_store\<close>, and so for each of the backends.
\<close>

section \<open>The store interface\<close>

text \<open>
  \<open>'h\<close> is an open object. \<open>sa_ReadAt\<close> takes an offset and a length; its flag is false for an
  error other than the end of the file. The environment \<open>env\<close> gives the outcome of the call
  made in a state.
\<close>

record ('o, 's, 'w, 'h) StoreAPI =
  sa_Open :: "'o \<Rightarrow> 's \<Rightarrow> string \<Rightarrow> store_err + 'h"
  sa_Size :: "'h \<Rightarrow> int"
  sa_ReadAt :: "'s \<Rightarrow> 'h \<Rightarrow> int \<Rightarrow> int \<Rightarrow> byte list \<times> bool"
  sa_Create :: "'o \<Rightarrow> 's \<Rightarrow> string \<Rightarrow> ('w \<times> 's) option"
  sa_Write :: "'o \<Rightarrow> byte list \<Rightarrow> 'w \<times> 's \<Rightarrow> bool \<times> 'w \<times> 's"
  sa_Close :: "'o \<Rightarrow> 'w \<times> 's \<Rightarrow> bool \<times> 'w \<times> 's"
  sa_Abort :: "'o \<Rightarrow> 'w \<times> 's \<Rightarrow> bool \<times> 'w \<times> 's"
  sa_Remove :: "'o \<Rightarrow> 's \<Rightarrow> string \<Rightarrow> store_err option \<times> 's"
  sa_List :: "'o \<Rightarrow> 's \<Rightarrow> string \<Rightarrow> (string + (string \<times> int)) list"

section \<open>The suite\<close>

definition bytes_of :: "string \<Rightarrow> byte list" where
  "bytes_of s = map of_char s"

definition mustWrite ::
  "('o, 's, 'w, 'h) StoreAPI \<Rightarrow> ('s \<Rightarrow> 'o) \<Rightarrow> 's \<Rightarrow> string \<Rightarrow> byte list \<Rightarrow> string + 's" where
  "mustWrite api env s path data =
     (case sa_Create api (env s) s path of
        None \<Rightarrow> Inl ''Create''
      | Some (w, s1) \<Rightarrow>
          (case sa_Write api (env s1) data (w, s1) of
             (False, w2, s2) \<Rightarrow> Inl ''Write''
           | (True, w2, s2) \<Rightarrow>
               (case sa_Close api (env s2) (w2, s2) of
                  (False, w3, s3) \<Rightarrow> Inl ''Close''
                | (True, w3, s3) \<Rightarrow> Inr s3)))"

definition mustRead :: "('o, 's, 'w, 'h) StoreAPI \<Rightarrow> ('s \<Rightarrow> 'o) \<Rightarrow> 's \<Rightarrow> string \<Rightarrow> string + byte list" where
  "mustRead api env s path =
     (case sa_Open api (env s) s path of
        Inl e \<Rightarrow> Inl ''Open''
      | Inr obj \<Rightarrow>
          if sa_Size api obj \<le> 0 then Inr []
          else
            (case sa_ReadAt api s obj 0 (sa_Size api obj) of
               (data, ok) \<Rightarrow> (if ok then Inr data else Inl ''reading'')))"

text \<open>Each test on a store of its own: \<open>None\<close> when it passes.\<close>

definition OpenMissingFails where
  "OpenMissingFails api env s path =
     (case sa_Open api (env s) s (path ''missing'') of
        Inl e \<Rightarrow> None | Inr obj \<Rightarrow> Some ''Open on a missing object returned no error'')"

definition OpenDoesNotReadData where
  "OpenDoesNotReadData api env s path =
     (case mustWrite api env s (path ''open-no-read'') (bytes_of ''hello world'') of
        Inl e \<Rightarrow> Some e
      | Inr s1 \<Rightarrow>
          (case sa_Open api (env s1) s1 (path ''open-no-read'') of
             Inl e \<Rightarrow> Some ''Open''
           | Inr obj \<Rightarrow> (if sa_Size api obj = 11 then None else Some ''Size'')))"

definition RangedRead where
  "RangedRead api env s path =
     (case mustWrite api env s (path ''ranged'') (bytes_of ''0123456789'') of
        Inl e \<Rightarrow> Some e
      | Inr s1 \<Rightarrow>
          (case sa_Open api (env s1) s1 (path ''ranged'') of
             Inl e \<Rightarrow> Some ''Open''
           | Inr obj \<Rightarrow>
               (case sa_ReadAt api s1 obj 7 3 of
                  (data, ok) \<Rightarrow>
                    if \<not> ok then Some ''ReadAt''
                    else if data = bytes_of ''789'' then None else Some ''ReadAt data'')))"

definition CommitOnCloseVisibility where
  "CommitOnCloseVisibility api env s path =
     (let p = path ''commit''
      in case sa_Create api (env s) s p of
           None \<Rightarrow> Some ''Create''
         | Some (w, s1) \<Rightarrow>
             (case sa_Write api (env s1) (bytes_of ''partial'') (w, s1) of
                (False, w2, s2) \<Rightarrow> Some ''Write''
              | (True, w2, s2) \<Rightarrow>
                  (case sa_Open api (env s2) s2 p of
                     Inr obj \<Rightarrow> Some ''object visible before Close''
                   | Inl e \<Rightarrow>
                       (case sa_Close api (env s2) (w2, s2) of
                          (False, w3, s3) \<Rightarrow> Some ''Close''
                        | (True, w3, s3) \<Rightarrow>
                            (case mustRead api env s3 p of
                               Inl e \<Rightarrow> Some e
                             | Inr got \<Rightarrow> if got = bytes_of ''partial'' then None else Some ''after Close'')))))"

definition AbortLeavesPriorState where
  "AbortLeavesPriorState api env s path =
     (let p = path ''abort''
      in case mustWrite api env s p (bytes_of ''original'') of
           Inl e \<Rightarrow> Some e
         | Inr s0 \<Rightarrow>
             (case sa_Create api (env s0) s0 p of
                None \<Rightarrow> Some ''Create''
              | Some (w, s1) \<Rightarrow>
                  (case sa_Write api (env s1) (bytes_of ''replacement'') (w, s1) of
                     (False, w2, s2) \<Rightarrow> Some ''Write''
                   | (True, w2, s2) \<Rightarrow>
                       (case sa_Abort api (env s2) (w2, s2) of
                          (False, w3, s3) \<Rightarrow> Some ''Abort''
                        | (True, w3, s3) \<Rightarrow>
                            (case mustRead api env s3 p of
                               Inl e \<Rightarrow> Some e
                             | Inr got \<Rightarrow>
                                 if got = bytes_of ''original'' then None else Some ''aborted write changed the object'')))))"

definition RemoveThenOpenFails where
  "RemoveThenOpenFails api env s path =
     (case mustWrite api env s (path ''remove'') (bytes_of ''x'') of
        Inl e \<Rightarrow> Some e
      | Inr s1 \<Rightarrow>
          (case sa_Remove api (env s1) s1 (path ''remove'') of
             (Some e, s2) \<Rightarrow> Some ''Remove''
           | (None, s2) \<Rightarrow>
               (case sa_Open api (env s2) s2 (path ''remove'') of
                  Inl e \<Rightarrow> None | Inr obj \<Rightarrow> Some ''Open after Remove returned no error'')))"

text \<open>The map the listing is collected into, and \<open>DeepEqual\<close> with the wanted one.\<close>

fun collect :: "(string + (string \<times> int)) list \<Rightarrow> string + (string \<rightharpoonup> int)" where
  "collect [] = Inr Map.empty"
| "collect (Inl e # xs) = Inl ''List''"
| "collect (Inr (p, n) # xs) =
     (case collect xs of Inl e \<Rightarrow> Inl e | Inr m \<Rightarrow> Inr (if m p = None then m(p \<mapsto> n) else m))"

definition ListPrefix where
  "ListPrefix api env s path =
     (case mustWrite api env s (path ''list/a/1'') (bytes_of ''x'') of
        Inl e \<Rightarrow> Some e
      | Inr s1 \<Rightarrow>
          (case mustWrite api env s1 (path ''list/a/2'') (bytes_of ''yy'') of
             Inl e \<Rightarrow> Some e
           | Inr s2 \<Rightarrow>
               (case collect (sa_List api (env s2) s2 (path ''list/a/'')) of
                  Inl e \<Rightarrow> Some e
                | Inr got \<Rightarrow>
                    if got = [path ''list/a/1'' \<mapsto> 1, path ''list/a/2'' \<mapsto> 2] then None else Some ''List differs'')))"

definition ListEmptyPrefixIsNotError where
  "ListEmptyPrefixIsNotError api env s path =
     (if sa_List api (env s) s (path ''nothing-here/'') = [] then None
      else Some ''List on an empty prefix yielded something'')"

definition Run ::
  "('o, 's, 'w, 'h) StoreAPI \<Rightarrow> ('s \<Rightarrow> 'o) \<Rightarrow> 's \<Rightarrow> (string \<Rightarrow> string) \<Rightarrow> string option list" where
  "Run api env s path =
     map (\<lambda>test. test api env s path)
       [OpenMissingFails, OpenDoesNotReadData, RangedRead, CommitOnCloseVisibility, AbortLeavesPriorState,
        RemoveThenOpenFails, ListPrefix, ListEmptyPrefixIsNotError]"

end
