(* ===== verification/Contract_Correct.thy ===== *)
theory Contract_Correct
  imports Store_Contract
begin

text \<open>
  The store contract holds: \<open>full_store\<close> adds reading, removing and listing to the writer
  contract \<open>object_store\<close>, every test of the suite is proved inside it, and the in-memory,
  local and bucket stores are interpretations.
\<close>

section \<open>Listings\<close>

text \<open>A listing without errors collects into the map of its entries.\<close>

lemma collect_map:
  assumes "set xs = {Inr (p, n) | p n. m p = Some n}"
  shows "collect xs = Inr m"
proof -
  have sub: "\<exists>m'. collect ys = Inr m' \<and> (\<forall>p. m' p = (if \<exists>n. Inr (p, n) \<in> set ys then m p else None))"
    if "set ys \<subseteq> {Inr (p, n) | p n. m p = Some n}" for ys
    using that
  proof (induction ys)
    case (Cons y ys)
    then obtain p n where y: "y = Inr (p, n)" "m p = Some n" by auto
    from Cons obtain m' where m': "collect ys = Inr m'"
      "\<And>q. m' q = (if \<exists>n. Inr (q, n) \<in> set ys then m q else None)" by auto
    have known: "m' p = None \<or> m' p = Some n" using m'(2) [of p] y(2) by auto
    have "\<exists>k. Inr (q, k) \<in> set (y # ys) \<longleftrightarrow> q = p \<or> (\<exists>k. Inr (q, k) \<in> set ys)" for q using y by auto
    have "collect (y # ys) = Inr (m'(p \<mapsto> n))" using y m'(1) known by (auto simp: fun_upd_idem)
    moreover have "(m'(p \<mapsto> n)) q = (if \<exists>k. Inr (q, k) \<in> set (y # ys) then m q else None)" for q
      using y m'(2) [of q] by auto
    ultimately show ?case by blast
  qed simp
  obtain m' where "collect xs = Inr m'" "\<And>p. m' p = (if \<exists>n. Inr (p, n) \<in> set xs then m p else None)"
    using sub [of xs] assms by auto
  moreover have "(if \<exists>n. Inr (p, n) \<in> set xs then m p else None) = m p" for p
    unfolding assms by (cases "m p") auto
  ultimately show ?thesis by (metis ext)
qed

section \<open>A clean slate\<close>

text \<open>The tests' paths on a store that holds nothing of theirs.\<close>

definition clean_slate ::
  "('s \<Rightarrow> string \<Rightarrow> byte list option) \<Rightarrow> (string \<Rightarrow> bool) \<Rightarrow> ('s \<Rightarrow> bool) \<Rightarrow> 's \<Rightarrow> (string \<Rightarrow> string) \<Rightarrow> bool" where
  "clean_slate published valid_path well s path \<longleftrightarrow> well s \<and>
     list_all (\<lambda>n. valid_path (path n) \<and> published s (path n) = None)
       [''missing'', ''open-no-read'', ''ranged'', ''commit'', ''abort'', ''remove'', ''list/a/1'', ''list/a/2''] \<and>
     path ''list/a/1'' \<noteq> path ''list/a/2'' \<and>
     has_prefix (path ''list/a/1'') (path ''list/a/'') \<and> has_prefix (path ''list/a/2'') (path ''list/a/'') \<and>
     (\<forall>p. has_prefix p (path ''list/a/'') \<or> has_prefix p (path ''nothing-here/'') \<longrightarrow> published s p = None)"

lemma clean_slateD:
  assumes "clean_slate published valid_path well s path"
  shows "well s" "path ''list/a/1'' \<noteq> path ''list/a/2''"
    "has_prefix (path ''list/a/1'') (path ''list/a/'')" "has_prefix (path ''list/a/2'') (path ''list/a/'')"
    "has_prefix p (path ''list/a/'') \<Longrightarrow> published s p = None"
    "has_prefix p (path ''nothing-here/'') \<Longrightarrow> published s p = None"
    "valid_path (path ''missing'')" "published s (path ''missing'') = None"
    "valid_path (path ''open-no-read'')" "valid_path (path ''ranged'')"
    "valid_path (path ''commit'')" "published s (path ''commit'') = None"
    "valid_path (path ''abort'')" "valid_path (path ''remove'')"
    "valid_path (path ''list/a/1'')" "valid_path (path ''list/a/2'')"
  using assms by (simp_all add: clean_slate_def)

section \<open>A store with all its operations\<close>

text \<open>
  \<open>good o' s\<close>: the outcome \<open>o'\<close> is one in which nothing below fails, in the state \<open>s\<close>, for a
  call of moderate size. \<open>well\<close> is an invariant of the states.
\<close>

locale full_store =
  object_store published do_create do_write do_close do_abort contents finished target inv valid_path
  for published :: "'s \<Rightarrow> string \<Rightarrow> byte list option"
    and do_create :: "'o \<Rightarrow> 's \<Rightarrow> string \<Rightarrow> ('w \<times> 's) option"
    and do_write do_close do_abort contents finished target inv valid_path +
  fixes do_open :: "'o \<Rightarrow> 's \<Rightarrow> string \<Rightarrow> store_err + 'h"
    and obj_size :: "'h \<Rightarrow> int"
    and read_at :: "'s \<Rightarrow> 'h \<Rightarrow> int \<Rightarrow> int \<Rightarrow> byte list \<times> bool"
    and do_remove :: "'o \<Rightarrow> 's \<Rightarrow> string \<Rightarrow> store_err option \<times> 's"
    and do_list :: "'o \<Rightarrow> 's \<Rightarrow> string \<Rightarrow> (string + (string \<times> int)) list"
    and well :: "'s \<Rightarrow> bool"
    and good :: "'o \<Rightarrow> 's \<Rightarrow> bool"
  assumes open_missing: "valid_path p \<Longrightarrow> published s p = None \<Longrightarrow> \<exists>e. do_open o' s p = Inl e"
    and open_found: "good o' s \<Longrightarrow> valid_path p \<Longrightarrow> published s p = Some d \<Longrightarrow>
      \<exists>obj. do_open o' s p = Inr obj \<and> obj_size obj = int (length d) \<and>
        (\<forall>off len. 0 \<le> off \<longrightarrow> 0 < len \<longrightarrow> off + len \<le> int (length d) \<longrightarrow>
           read_at s obj off len = (take (nat len) (drop (nat off) d), True))"
    and create_good: "well s \<Longrightarrow> good o' s \<Longrightarrow> valid_path p \<Longrightarrow> \<exists>w s'. do_create o' s p = Some (w, s') \<and> well s'"
    and write_good: "well s \<Longrightarrow> good o' s \<Longrightarrow> inv (w, s) \<Longrightarrow> \<not> finished w \<Longrightarrow> length bs \<le> 64 \<Longrightarrow>
      \<exists>w' s'. do_write o' bs (w, s) = (True, w', s') \<and> well s'"
    and close_good: "well s \<Longrightarrow> good o' s \<Longrightarrow> inv (w, s) \<Longrightarrow> \<not> finished w \<Longrightarrow>
      \<exists>w' s'. do_close o' (w, s) = (True, w', s') \<and> well s'"
    and abort_good: "well s \<Longrightarrow> good o' s \<Longrightarrow> inv (w, s) \<Longrightarrow> \<not> finished w \<Longrightarrow>
      \<exists>w' s'. do_abort o' (w, s) = (True, w', s') \<and> well s'"
    and remove_good: "well s \<Longrightarrow> good o' s \<Longrightarrow> valid_path p \<Longrightarrow> published s p = Some d \<Longrightarrow>
      \<exists>s'. do_remove o' s p = (None, s') \<and> published s' = (published s)(p := None) \<and> well s'"
    and list_good: "well s \<Longrightarrow> good o' s \<Longrightarrow>
      set (do_list o' s prefix) = {Inr (p, int (length d)) | p d. published s p = Some d \<and> has_prefix p prefix}"
begin

definition api :: "('o, 's, 'w, 'h) StoreAPI" where
  "api = \<lparr>sa_Open = do_open, sa_Size = obj_size, sa_ReadAt = read_at, sa_Create = do_create, sa_Write = do_write,
     sa_Close = do_close, sa_Abort = do_abort, sa_Remove = do_remove, sa_List = do_list\<rparr>"

lemma api_sel [simp]:
  "sa_Open api = do_open" "sa_Size api = obj_size" "sa_ReadAt api = read_at" "sa_Create api = do_create"
  "sa_Write api = do_write" "sa_Close api = do_close" "sa_Abort api = do_abort" "sa_Remove api = do_remove"
  "sa_List api = do_list"
  by (simp_all add: api_def)

text \<open>The environments in which nothing fails in a well-formed state.\<close>

definition fine :: "('s \<Rightarrow> 'o) \<Rightarrow> bool" where
  "fine env \<longleftrightarrow> (\<forall>s. well s \<longrightarrow> good (env s) s)"

lemma fine_good: "fine env \<Longrightarrow> well s \<Longrightarrow> good (env s) s"
  by (simp add: fine_def)

text \<open>A writer created and filled: nothing is published yet, and a close would publish it all.\<close>

lemma filled_writer:
  assumes "fine env" "well s" "valid_path p" "length bs \<le> 64"
  shows "\<exists>w s1 w2 s2. do_create (env s) s p = Some (w, s1) \<and> do_write (env s1) bs (w, s1) = (True, w2, s2) \<and>
    well s2 \<and> published s2 = published s \<and> contents (w2, s2) = bs \<and> \<not> finished w2 \<and> target w2 = p \<and> inv (w2, s2)"
proof -
  obtain w s1 where c: "do_create (env s) s p = Some (w, s1)" and w1: "well s1"
    using create_good [OF assms(2) fine_good [OF assms(1,2)] assms(3)] by blast
  note cl = create_law [OF c assms(3)]
  obtain w2 s2 where w: "do_write (env s1) bs (w, s1) = (True, w2, s2)" and w2: "well s2"
    using write_good [OF w1 fine_good [OF assms(1) w1] _ _ assms(4)] cl by blast
  show ?thesis using c w w2 write_law [OF _ _ w] cl by auto
qed

lemma mustWrite_good:
  assumes "fine env" "well s" "valid_path p" "length bs \<le> 64"
  shows "\<exists>s'. mustWrite api env s p bs = Inr s' \<and> published s' = (published s)(p \<mapsto> bs) \<and> well s'"
proof -
  obtain w s1 w2 s2 where f: "do_create (env s) s p = Some (w, s1)" "do_write (env s1) bs (w, s1) = (True, w2, s2)"
    "well s2" "published s2 = published s" "contents (w2, s2) = bs" "\<not> finished w2" "target w2 = p" "inv (w2, s2)"
    using filled_writer [OF assms] by blast
  obtain w3 s3 where cl: "do_close (env s2) (w2, s2) = (True, w3, s3)" "well s3"
    using close_good [OF f(3) fine_good [OF assms(1) f(3)] f(8,6)] by blast
  show ?thesis using f cl close_law [OF f(8,6) cl(1)] by (simp add: mustWrite_def)
qed

lemma mustRead_good:
  assumes "fine env" "well s" "valid_path p" "published s p = Some d"
  shows "mustRead api env s p = Inr d"
proof -
  obtain obj where o': "do_open (env s) s p = Inr obj" "obj_size obj = int (length d)"
    and r: "\<And>off len. 0 \<le> off \<Longrightarrow> 0 < len \<Longrightarrow> off + len \<le> int (length d) \<Longrightarrow>
      read_at s obj off len = (take (nat len) (drop (nat off) d), True)"
    using open_found [OF fine_good [OF assms(1,2)] assms(3,4)] by blast
  show ?thesis using o' r [of 0 "int (length d)"] by (cases d) (simp_all add: mustRead_def)
qed

lemma passes_OpenMissing:
  assumes "clean_slate published valid_path well s path"
  shows "OpenMissingFails api env s path = None"
  using open_missing [OF clean_slateD(7,8) [OF assms], of "env s"] by (auto simp: OpenMissingFails_def)

lemma passes_OpenDoesNotRead:
  assumes "fine env" "clean_slate published valid_path well s path"
  shows "OpenDoesNotReadData api env s path = None"
proof -
  note c = clean_slateD [OF assms(2)]
  obtain s1 where s1: "mustWrite api env s (path ''open-no-read'') (bytes_of ''hello world'') = Inr s1"
    "published s1 (path ''open-no-read'') = Some (bytes_of ''hello world'')" "well s1"
    using mustWrite_good [OF assms(1) c(1) c(9), of "bytes_of ''hello world''"] by (auto simp: bytes_of_def)
  show ?thesis
    using s1 open_found [OF fine_good [OF assms(1) s1(3)] c(9) s1(2)]
    by (auto simp: OpenDoesNotReadData_def bytes_of_def)
qed

lemma passes_RangedRead:
  assumes "fine env" "clean_slate published valid_path well s path"
  shows "RangedRead api env s path = None"
proof -
  note c = clean_slateD [OF assms(2)]
  obtain s1 where s1: "mustWrite api env s (path ''ranged'') (bytes_of ''0123456789'') = Inr s1"
    "published s1 (path ''ranged'') = Some (bytes_of ''0123456789'')" "well s1"
    using mustWrite_good [OF assms(1) c(1) c(10), of "bytes_of ''0123456789''"] by (auto simp: bytes_of_def)
  obtain obj where obj: "do_open (env s1) s1 (path ''ranged'') = Inr obj"
    and r: "\<And>off len. 0 \<le> off \<Longrightarrow> 0 < len \<Longrightarrow> off + len \<le> 10 \<Longrightarrow>
      read_at s1 obj off len = (take (nat len) (drop (nat off) (bytes_of ''0123456789'')), True)"
    using open_found [OF fine_good [OF assms(1) s1(3)] c(10) s1(2)] by (auto simp: bytes_of_def)
  have "read_at s1 obj 7 3 = (bytes_of ''789'', True)" using r [of 7 3] by (simp add: bytes_of_def)
  with s1 obj show ?thesis by (simp add: RangedRead_def)
qed

lemma passes_Commit:
  assumes "fine env" "clean_slate published valid_path well s path"
  shows "CommitOnCloseVisibility api env s path = None"
proof -
  note c = clean_slateD [OF assms(2)]
  have len: "length (bytes_of ''partial'') \<le> 64" by (simp add: bytes_of_def)
  obtain w s1 w2 s2 where f: "do_create (env s) s (path ''commit'') = Some (w, s1)"
    "do_write (env s1) (bytes_of ''partial'') (w, s1) = (True, w2, s2)" "well s2" "published s2 = published s"
    "contents (w2, s2) = bytes_of ''partial''" "\<not> finished w2" "target w2 = path ''commit''" "inv (w2, s2)"
    using filled_writer [OF assms(1) c(1) c(11) len] by blast
  obtain e where e: "do_open (env s2) s2 (path ''commit'') = Inl e"
    using open_missing [OF c(11), of s2 "env s2"] f(4) c(12) by auto
  obtain w3 s3 where cl: "do_close (env s2) (w2, s2) = (True, w3, s3)" "well s3"
    using close_good [OF f(3) fine_good [OF assms(1) f(3)] f(8,6)] by blast
  have "published s3 (path ''commit'') = Some (bytes_of ''partial'')"
    using close_law [OF f(8,6) cl(1)] f by simp
  from mustRead_good [OF assms(1) cl(2) c(11) this] f e cl show ?thesis
    by (simp add: CommitOnCloseVisibility_def Let_def)
qed

lemma passes_Abort:
  assumes "fine env" "clean_slate published valid_path well s path"
  shows "AbortLeavesPriorState api env s path = None"
proof -
  note c = clean_slateD [OF assms(2)]
  obtain s0 where s0: "mustWrite api env s (path ''abort'') (bytes_of ''original'') = Inr s0"
    "published s0 (path ''abort'') = Some (bytes_of ''original'')" "well s0"
    using mustWrite_good [OF assms(1) c(1) c(13), of "bytes_of ''original''"] by (auto simp: bytes_of_def)
  have len: "length (bytes_of ''replacement'') \<le> 64" by (simp add: bytes_of_def)
  obtain w s1 w2 s2 where f: "do_create (env s0) s0 (path ''abort'') = Some (w, s1)"
    "do_write (env s1) (bytes_of ''replacement'') (w, s1) = (True, w2, s2)" "well s2" "published s2 = published s0"
    "\<not> finished w2" "inv (w2, s2)"
    using filled_writer [OF assms(1) s0(3) c(13) len] by blast
  obtain w3 s3 where ab: "do_abort (env s2) (w2, s2) = (True, w3, s3)" "well s3"
    using abort_good [OF f(3) fine_good [OF assms(1) f(3)] f(6,5)] by blast
  have "published s3 (path ''abort'') = Some (bytes_of ''original'')"
    using abort_law [OF f(6,5) ab(1)] f(4) s0(2) by simp
  from mustRead_good [OF assms(1) ab(2) c(13) this] s0 f ab show ?thesis
    by (simp add: AbortLeavesPriorState_def Let_def)
qed

lemma passes_Remove:
  assumes "fine env" "clean_slate published valid_path well s path"
  shows "RemoveThenOpenFails api env s path = None"
proof -
  note c = clean_slateD [OF assms(2)]
  obtain s1 where s1: "mustWrite api env s (path ''remove'') (bytes_of ''x'') = Inr s1"
    "published s1 (path ''remove'') = Some (bytes_of ''x'')" "well s1"
    using mustWrite_good [OF assms(1) c(1) c(14), of "bytes_of ''x''"] by (auto simp: bytes_of_def)
  obtain s2 where s2: "do_remove (env s1) s1 (path ''remove'') = (None, s2)" "published s2 (path ''remove'') = None"
    using remove_good [OF s1(3) fine_good [OF assms(1) s1(3)] c(14) s1(2)] by auto
  show ?thesis using s1 s2 open_missing [OF c(14) s2(2), of "env s2"] by (auto simp: RemoveThenOpenFails_def)
qed

lemma list_collected:
  assumes "well s" and "good o' s" and "\<And>p. published s p = None \<or> has_prefix p prefix \<Longrightarrow> m p = map_option (\<lambda>d. int (length d)) (published s p)"
    and "\<And>p. \<not> has_prefix p prefix \<Longrightarrow> m p = None"
  shows "collect (do_list o' s prefix) = Inr m"
proof (rule collect_map)
  show "set (do_list o' s prefix) = {Inr (p, n) | p n. m p = Some n}"
    unfolding list_good [OF assms(1,2)]
  proof (intro set_eqI iffI)
    fix x :: "string + (string \<times> int)"
    assume "x \<in> {Inr (p, int (length d)) | p d. published s p = Some d \<and> has_prefix p prefix}"
    then show "x \<in> {Inr (p, n) | p n. m p = Some n}" using assms(3) by auto
  next
    fix x :: "string + (string \<times> int)"
    assume "x \<in> {Inr (p, n) | p n. m p = Some n}"
    then obtain p n where x: "x = Inr (p, n)" "m p = Some n" by auto
    then have "has_prefix p prefix" using assms(4) by fastforce
    with x assms(3) [of p] show "x \<in> {Inr (p, int (length d)) | p d. published s p = Some d \<and> has_prefix p prefix}"
      by auto
  qed
qed

lemma passes_List:
  assumes "fine env" "clean_slate published valid_path well s path"
  shows "ListPrefix api env s path = None"
proof -
  note c = clean_slateD [OF assms(2)]
  obtain s1 where s1: "mustWrite api env s (path ''list/a/1'') (bytes_of ''x'') = Inr s1"
    "published s1 = (published s)(path ''list/a/1'' \<mapsto> bytes_of ''x'')" "well s1"
    using mustWrite_good [OF assms(1) c(1) c(15), of "bytes_of ''x''"] by (auto simp: bytes_of_def)
  obtain s2 where s2: "mustWrite api env s1 (path ''list/a/2'') (bytes_of ''yy'') = Inr s2"
    "published s2 = (published s1)(path ''list/a/2'' \<mapsto> bytes_of ''yy'')" "well s2"
    using mustWrite_good [OF assms(1) s1(3) c(16), of "bytes_of ''yy''"] by (auto simp: bytes_of_def)
  have "collect (do_list (env s2) s2 (path ''list/a/'')) = Inr [path ''list/a/1'' \<mapsto> 1, path ''list/a/2'' \<mapsto> 2]"
    using c(2-4) c(5)
    by (intro list_collected [OF s2(3) fine_good [OF assms(1) s2(3)]]) (auto simp: s1(2) s2(2) bytes_of_def)
  with s1 s2 show ?thesis by (simp add: ListPrefix_def)
qed

lemma passes_ListEmpty:
  assumes "fine env" "clean_slate published valid_path well s path"
  shows "ListEmptyPrefixIsNotError api env s path = None"
proof -
  note c = clean_slateD [OF assms(2)]
  have "set (do_list (env s) s (path ''nothing-here/'')) = {}"
    using c(6) unfolding list_good [OF c(1) fine_good [OF assms(1) c(1)]] by force
  then show ?thesis by (simp add: ListEmptyPrefixIsNotError_def)
qed

text \<open>The whole suite passes.\<close>

lemma suite_passes:
  assumes "fine env" "clean_slate published valid_path well s path"
  shows "Run api env s path = replicate 8 None"
  using passes_OpenMissing [OF assms(2)] passes_OpenDoesNotRead [OF assms] passes_RangedRead [OF assms]
    passes_Commit [OF assms] passes_Abort [OF assms] passes_Remove [OF assms] passes_List [OF assms]
    passes_ListEmpty [OF assms]
  by (simp add: Run_def numeral_eq_Suc)

end

section \<open>In memory\<close>

text \<open>\<open>ReadAt\<close> of bytes held in memory or of an open file.\<close>

definition bytes_ReadAt :: "byte list \<Rightarrow> int \<Rightarrow> int \<Rightarrow> byte list \<times> bool" where
  "bytes_ReadAt d off len = (if off < 0 then ([], False) else (take (nat len) (drop (nat off) d), True))"

definition memory_api :: "(unit, memStore, memWriter, byte list) StoreAPI" where
  "memory_api =
     \<lparr>sa_Open = (\<lambda>u. mem_Open), sa_Size = (\<lambda>d. int (length d)), sa_ReadAt = (\<lambda>s. bytes_ReadAt), sa_Create = mem_Create,
      sa_Write = mem_Write, sa_Close = mem_Close, sa_Abort = mem_Abort, sa_Remove = (\<lambda>u. mem_Remove),
      sa_List = (\<lambda>u s prefix. map Inr (mem_List s prefix))\<rparr>"

interpretation mem_full: full_store map_of mem_Create mem_Write mem_Close mem_Abort
  "\<lambda>(w, s). mw_buf w" mw_done mw_path "\<lambda>_. True" "\<lambda>_. True"
  "\<lambda>u. mem_Open" "\<lambda>d. int (length d)" "\<lambda>s. bytes_ReadAt" "\<lambda>u. mem_Remove"
  "\<lambda>u s prefix. map Inr (mem_List s prefix)" mem_ok "\<lambda>u s. True"
proof (unfold_locales, goal_cases)
  case (4 s o' w bs)
  then show ?case by (simp add: mem_Write_def)
next
  case (5 s o' w)
  obtain ok w' s' where c: "mem_Close o' (w, s) = (ok, w', s')" by (metis prod_cases3)
  then have ok by (auto simp: mem_Close_def split: prod.splits bool.splits)
  with c mem_ok_steps(2) [OF 5(1) c] show ?case by auto
next
  case (7 s o' p d)
  then obtain s' where r: "mem_Remove s p = (None, s')" by (simp add: mem_Remove_def)
  then have "map_of s' = (map_of s)(p := None)" using 7(4) by (auto simp: mem_Remove_def delete_conv')
  with r mem_ok_steps(3) [OF 7(1) r] show ?case by blast
next
  case (8 s o' prefix)
  show ?case unfolding set_map mem_List_entries [OF 8(1)] by auto
qed (auto simp: mem_Open_def mem_Create_def mem_Abort_def bytes_ReadAt_def)

lemma memory_api: "memory_api = mem_full.api"
  by (simp add: memory_api_def mem_full.api_def)

section \<open>A bucket\<close>

text \<open>\<open>io.SectionReader\<close>'s \<open>ReadAt\<close> over the ranged reads of the bucket.\<close>

definition section_ReadAt :: "('o, 's, 'w) Bucket \<Rightarrow> 's \<Rightarrow> string \<times> int \<Rightarrow> int \<Rightarrow> int \<Rightarrow> byte list \<times> bool" where
  "section_ReadAt bk s obj off len =
     (case obj of (key, n) \<Rightarrow>
        if off < 0 \<or> n \<le> off then ([], True)
        else
          (case cloud_ReadAt bk s key off (if n - off < len then n - off else len) of
             (data, e) \<Rightarrow> (data, e = None \<or> e = Some EOF)))"

definition cloud_api :: "('o, 's, 'w) Bucket \<Rightarrow> ('o, 's, 'w cloudWriter, string \<times> int) StoreAPI" where
  "cloud_api bk =
     \<lparr>sa_Open = (\<lambda>u. cloud_Open bk), sa_Size = snd, sa_ReadAt = section_ReadAt bk, sa_Create = cloud_Create bk,
      sa_Write = cloud_Write bk, sa_Close = cloud_Close bk, sa_Abort = cloud_Abort bk,
      sa_Remove = (\<lambda>u. cloud_Remove bk),
      sa_List = (\<lambda>u s prefix. cloud_List bk s prefix (Suc (length (fst (bk_List bk s prefix)))))\<rparr>"

interpretation bucket_full: full_store map_of "cloud_Create mem_bucket" "cloud_Write mem_bucket"
  "cloud_Close mem_bucket" "cloud_Abort mem_bucket"
  "\<lambda>(w, s). (\<lambda>(w, s). mw_buf w) (cw_w w, s)" cw_done "\<lambda>w. mw_path (cw_w w)"
  "\<lambda>(w, s). (\<lambda>(w, s). \<not> mw_done w) (cw_w w, s) \<and> \<not> cw_cancelled w \<or> cw_done w" "\<lambda>_. True"
  "\<lambda>u. cloud_Open mem_bucket" snd "section_ReadAt mem_bucket" "\<lambda>u. cloud_Remove mem_bucket"
  "\<lambda>u s prefix. cloud_List mem_bucket s prefix (Suc (length (fst (bk_List mem_bucket s prefix))))" mem_ok "\<lambda>u s. True"
proof (unfold_locales, goal_cases)
  case (1 p s o')
  then show ?case by (simp add: cloud_Open_def mem_bucket_def)
next
  case (2 o' s p d)
  have opn: "cloud_Open mem_bucket s p = Inr (p, int (length d))"
    using 2 by (simp add: cloud_Open_def mem_bucket_def)
  have "section_ReadAt mem_bucket s (p, int (length d)) off len = (take (nat len) (drop (nat off) d), True)"
    if "0 \<le> off" "0 < len" "off + len \<le> int (length d)" for off len
    using memblob_ReadAt [OF 2(3) that(1) _ that(3)] that by (simp add: section_ReadAt_def)
  with opn show ?case by simp
next
  case (3 s o' p)
  then show ?case by (simp add: cloud_Create_def mem_bucket_def mem_Create_def)
next
  case (4 s o' w bs)
  then show ?case by (simp add: cloud_Write_def mem_bucket_def mem_Write_def)
next
  case (5 s o' w)
  obtain ok b s1 where c: "mem_Close o' (cw_w w, s) = (ok, b, s1)" by (metis prod_cases3)
  then have ok by (auto simp: mem_Close_def split: prod.splits bool.splits)
  with c mem_ok_steps(2) [OF 5(1) c] 5 show ?case by (auto simp: cloud_Close_def mem_bucket_def)
next
  case (6 s o' w)
  then show ?case by (simp add: cloud_Abort_def mem_bucket_def)
next
  case (7 s o' p d)
  then obtain s' where r: "mem_Remove s p = (None, s')" by (simp add: mem_Remove_def)
  then have "map_of s' = (map_of s)(p := None)" using 7(4) by (auto simp: mem_Remove_def delete_conv')
  with r mem_ok_steps(3) [OF 7(1) r] show ?case by (simp add: cloud_Remove_def mem_bucket_def)
next
  case (8 s o' prefix)
  have "cloud_List mem_bucket s prefix (Suc (length (mem_List s prefix))) = map Inr (mem_List s prefix)"
    by (rule cloud_List_complete) (simp_all add: mem_bucket_def)
  then have l: "cloud_List mem_bucket s prefix (Suc (length (fst (bk_List mem_bucket s prefix)))) = map Inr (mem_List s prefix)"
    by (simp add: mem_bucket_def)
  show ?case unfolding l set_map mem_List_entries [OF 8(1)] by auto
qed

lemma bucket_api: "cloud_api mem_bucket = bucket_full.api"
  by (simp add: cloud_api_def bucket_full.api_def)

section \<open>Local files\<close>

text \<open>
  What the operating system answers one call: its outcomes, the state of the name opened, and what
  \<open>Stat\<close> and \<open>WalkDir\<close> give for a directory.
\<close>

record local_env =
  le_os :: os_outcome
  le_open :: open_outcome
  le_stat :: "string \<Rightarrow> base_stat"
  le_walk :: "string \<Rightarrow> walk_entry list"

definition local_api :: "(local_env, file_system, localWriter, byte list) StoreAPI" where
  "local_api =
     \<lparr>sa_Open = (\<lambda>e. local_Open (le_open e)), sa_Size = (\<lambda>d. int (length d)), sa_ReadAt = (\<lambda>fs. bytes_ReadAt),
      sa_Create = (\<lambda>e. local_Create (le_os e)), sa_Write = (\<lambda>e. local_Write (le_os e)),
      sa_Close = (\<lambda>e. local_Close (le_os e)), sa_Abort = (\<lambda>e. local_Abort (le_os e)),
      sa_Remove = (\<lambda>e. local_Remove (os_remove (le_os e))),
      sa_List = (\<lambda>e fs prefix. local_List (le_stat e) (le_walk e) prefix (Suc (length (le_walk e (Dir prefix)))))\<rparr>"

text \<open>
  Nothing fails: the random suffix is unused, and a walk from a prefix's directory, when it exists,
  meets every file that has the prefix, with whatever directories on its way.
\<close>

definition env_good :: "local_env \<Rightarrow> file_system \<Rightarrow> bool" where
  "env_good e fs \<longleftrightarrow>
     os_mkdir (le_os e) \<and> 64 \<le> os_written (le_os e) \<and> os_sync (le_os e) \<and> os_fclose (le_os e) \<and>
     os_rename (le_os e) \<and> os_remove (le_os e) \<and>
     (\<exists>r. os_tmp_suffix (le_os e) = Some r \<and> CHR ''/'' \<notin> set r \<and>
        (\<forall>dir prefix tmp. CreateTemp_name dir prefix r = Some tmp \<longrightarrow> fs tmp = None)) \<and>
     le_open e = Regular \<and>
     (\<forall>prefix.
        le_stat e (Dir prefix) = BaseMissing \<and> (\<forall>p. has_prefix p prefix \<longrightarrow> fs p = None) \<or>
        le_stat e (Dir prefix) = BaseExists \<and> list_all (entry_ok fs) (le_walk e (Dir prefix)) \<and>
          (\<forall>p. fs p \<noteq> None \<longrightarrow> has_prefix p prefix \<longrightarrow> p \<in> set (walk_files (le_walk e (Dir prefix)))))"

text \<open>The paths of objects: not a temporary file, not the root directory.\<close>

definition local_path :: "string \<Rightarrow> bool" where
  "local_path p \<longleftrightarrow> \<not> is_temp p \<and> Base p \<noteq> ''/''"

interpretation local_full: full_store visible "\<lambda>e. local_Create (le_os e)" "\<lambda>e. local_Write (le_os e)"
  "\<lambda>e. local_Close (le_os e)" "\<lambda>e. local_Abort (le_os e)"
  "\<lambda>(w, fs). file_data fs (lw_file w)" lw_done lw_path local_inv local_path
  "\<lambda>e. local_Open (le_open e)" "\<lambda>d. int (length d)" "\<lambda>fs. bytes_ReadAt" "\<lambda>e. local_Remove (os_remove (le_os e))"
  "\<lambda>e fs prefix. local_List (le_stat e) (le_walk e) prefix (Suc (length (le_walk e (Dir prefix))))" "\<lambda>fs. finite (dom fs)" env_good
proof (unfold_locales, goal_cases)
  case (1 e fs p w fs')
  then show ?case using local_store.create_law by (simp add: local_path_def)
next
  case (2 w fs e bs ok w' fs')
  then show ?case by (rule local_store.write_law)
next
  case (3 w fs e ok w' fs')
  then show ?case by (rule local_store.close_law)
next
  case (4 w fs e ok w' fs')
  then show ?case by (rule local_store.abort_law)
next
  case (5 w e fs)
  then show ?case by (rule local_store.finished_close)
next
  case (6 w e fs)
  then show ?case by (rule local_store.finished_abort)
next
  case (7 p fs e)
  then show ?case by (auto simp: visible_def local_path_def local_Open_def split: open_outcome.splits)
next
  case (8 e fs p d)
  then show ?case by (auto simp: visible_def local_path_def local_Open_def env_good_def bytes_ReadAt_def)
next
  case (9 fs e p)
  then obtain r where r: "os_tmp_suffix (le_os e) = Some r" "CHR ''/'' \<notin> set r" "os_mkdir (le_os e)"
    "\<And>dir prefix tmp. CreateTemp_name dir prefix r = Some tmp \<Longrightarrow> fs tmp = None" by (auto simp: env_good_def)
  obtain tmp where "CreateTemp_name (Dir p) (localTmpPrefix @ Base p @ ''-'') r = Some tmp"
    using r(2) 9(3) Base_no_slash [of p] by (simp add: CreateTemp_name_def local_path_def localTmpPrefix_def)
  with r 9(1) show ?case by (simp add: local_Create_def)
next
  case (10 fs e w bs)
  then show ?case by (auto simp: local_Write_def env_good_def)
next
  case (11 fs e w)
  then have "finite (dom ((fs(lw_path w := fs (lw_file w)))(lw_file w := None)))"
    by (auto intro: finite_subset [of _ "insert (lw_path w) (dom fs)"] split: if_splits)
  with 11 show ?case by (simp add: local_Close_def env_good_def guard_begin_def)
next
  case (12 fs e w)
  then show ?case by (simp add: local_Abort_def env_good_def guard_begin_def remove_file_def)
next
  case (13 fs e p d)
  then show ?case by (auto simp: local_path_def local_Remove_def env_good_def visible_update visible_def)
next
  case (14 fs e prefix)
  show ?case
  proof (cases "le_stat e (Dir prefix) = BaseExists")
    case True
    with 14(2) show ?thesis
      by (intro local_List_exact) (auto simp: env_good_def dest: spec [of _ prefix])
  next
    case False
    with 14(2) have "le_stat e (Dir prefix) = BaseMissing" "has_prefix p prefix \<Longrightarrow> fs p = None" for p
      by (auto simp: env_good_def dest: spec [of _ prefix])
    then show ?thesis by (auto simp: local_List_def visible_def Let_def split: if_splits)
  qed
qed

lemma local_api: "local_api = local_full.api"
  by (simp add: local_api_def local_full.api_def)

section \<open>An operating system in which nothing fails\<close>

definition unused_suffix :: "file_system \<Rightarrow> string" where
  "unused_suffix fs = replicate (Suc (Max (insert 0 (length ` dom fs)))) (CHR ''x'')"

definition quiet_env :: "file_system \<Rightarrow> local_env" where
  "quiet_env fs =
     \<lparr>le_os = good_os\<lparr>os_tmp_suffix := Some (unused_suffix fs)\<rparr>, le_open = Regular, le_stat = (\<lambda>dir. BaseExists),
      le_walk = (\<lambda>dir. WalkEntry dir (Base dir) True (Inr 4096) # WalkEntry (dir @ ''/list/a/b'') ''b'' True (Inr 64) #
        map (\<lambda>p. WalkEntry p (Base p) False (Inr (int (length (the (fs p)))))) (sorted_list_of_set (dom fs)))\<rparr>"

lemma files_entries:
  "walk_files (map (\<lambda>p. WalkEntry p (Base p) False (f p)) ps) = ps"
  by (induction ps) auto

lemma quiet_env_good:
  assumes "finite (dom fs)"
  shows "env_good (quiet_env fs) fs"
proof -
  have "fs tmp = None" if "CreateTemp_name dir prefix (unused_suffix fs) = Some tmp" for dir prefix tmp
  proof (rule ccontr)
    assume "fs tmp \<noteq> None"
    then have "length tmp \<le> Max (insert 0 (length ` dom fs))"
      using assms by (intro Max_ge) auto
    then show False using that by (auto simp: CreateTemp_name_def unused_suffix_def split: if_splits)
  qed
  moreover have "CHR ''/'' \<notin> set (unused_suffix fs)" by (simp add: unused_suffix_def)
  ultimately show ?thesis
    using assms by (auto simp: env_good_def quiet_env_def good_os_def files_entries list_all_iff dom_def)
qed

section \<open>The backends pass the suite\<close>

text \<open>C31: Every test of the repository's store contract passes on each backend: on the local file system
  from any state without the tests' files, whatever an operating system in which nothing
  fails answers, the directories its walks visit included; and on the in-memory store and on a bucket store from any such contents.\<close>

theorem backends_meet_contract:
  assumes "\<And>fs. finite (dom fs) \<Longrightarrow> env_good (env fs) fs"
    and "clean_slate visible local_path (\<lambda>fs. finite (dom fs)) fs path"
    and "clean_slate map_of (\<lambda>_. True) mem_ok s path'"
  shows "Run local_api env fs path = replicate 8 None \<and>
    Run memory_api (\<lambda>s. ()) s path' = replicate 8 None \<and>
    Run (cloud_api mem_bucket) (\<lambda>s. ()) s path' = replicate 8 None"
proof (intro conjI)
  show "Run local_api env fs path = replicate 8 None"
    unfolding local_api by (rule local_full.suite_passes [OF _ assms(2)]) (simp add: local_full.fine_def assms(1))
  show "Run memory_api (\<lambda>s. ()) s path' = replicate 8 None"
    unfolding memory_api by (rule mem_full.suite_passes [OF _ assms(3)]) (simp add: mem_full.fine_def)
  show "Run (cloud_api mem_bucket) (\<lambda>s. ()) s path' = replicate 8 None"
    unfolding bucket_api by (rule bucket_full.suite_passes [OF _ assms(3)]) (simp add: bucket_full.fine_def)
qed

theorem backends_meet_contract_witness:
  "Run local_api quiet_env Map.empty (\<lambda>n. ''tmp/'' @ n) = replicate 8 None \<and>
   Run memory_api (\<lambda>s. ()) [(''other'', [1])] (\<lambda>n. n) = replicate 8 None"
proof -
  have l: "clean_slate visible local_path (\<lambda>fs. finite (dom fs)) Map.empty (\<lambda>n. ''tmp/'' @ n)"
    by (simp add: clean_slate_def visible_def local_path_def is_temp_def path_simps has_prefix_def localTmpPrefix_def)
  have m: "clean_slate map_of (\<lambda>_. True) mem_ok [(''other'', [1])] (\<lambda>n. n)"
    by (auto simp: clean_slate_def mem_ok_def has_prefix_def)
  show ?thesis using backends_meet_contract [OF quiet_env_good l m] by simp
qed

end
