(* ===== verification/Cloud_Reads.thy ===== *)
theory Cloud_Reads
  imports Contract_Correct Cloud_Insert
begin

text \<open>
  Readers of a cloud object while it is replaced: \<open>rangeReaderAt\<close> of the bucket adapter holds
  the key, not a version, so each \<open>ReadAt\<close> reads what the key holds at that moment. Against
  it \<open>Local_Inodes\<close>, where a handle keeps the version it was opened on.
\<close>

text \<open>What the bucket library documents of a size and of a ranged read.\<close>

definition ranges_ok :: "('o, 's, 'w) Bucket \<Rightarrow> ('s \<Rightarrow> string \<Rightarrow> byte list option) \<Rightarrow> bool" where
  "ranges_ok bk objects \<longleftrightarrow>
     (\<forall>s key d. objects s key = Some d \<longrightarrow>
        bk_Attributes bk s key = Inr (int (length d)) \<and>
        (\<forall>off len. 0 \<le> off \<longrightarrow> 0 \<le> len \<longrightarrow> bk_NewRangeReader bk s key off len = Inr (take (nat len) (drop (nat off) d))))"

lemma ranges_okD:
  assumes "ranges_ok bk objects" "objects s key = Some d"
  shows "bk_Attributes bk s key = Inr (int (length d))"
    and "0 \<le> off \<Longrightarrow> 0 \<le> len \<Longrightarrow> bk_NewRangeReader bk s key off len = Inr (take (nat len) (drop (nat off) d))"
  using assms by (auto simp: ranges_ok_def)

lemma mem_bucket_ranges: "ranges_ok mem_bucket map_of"
  by (simp add: ranges_ok_def mem_bucket_def)

lemma range_read:
  assumes "ranges_ok bk objects" "objects s key = Some d" "0 \<le> off" "0 < len" "off + len \<le> size'" "off + len \<le> int (length d)"
  shows "section_ReadAt bk s (key, size') off len = (take (nat len) (drop (nat off) d), True)"
proof -
  have "cloud_ReadAt bk s key off len = (take (nat len) (drop (nat off) d), None)"
    using assms ranges_okD(2) [OF assms(1,2), of off len] by (simp add: cloud_ReadAt_def min_def)
  then show ?thesis using assms(3-5) by (simp add: section_ReadAt_def)
qed

text \<open>C39: A handle of a cloud object reads whatever the key holds when each read is made: opened on one
  version, it returns the first bytes of that version and, once the object is replaced by
  one at least as long, the remaining bytes of the other, without an error. The documented
  guarantee that a scan sees one version in full does not hold on cloud backends.\<close>

theorem cloud_reader_mixes_versions:
  assumes "ranges_ok bk objects" and "objects s key = Some old" and "objects s' key = Some new"
    and "length old \<le> length new" and "0 < n" and "n < length old"
  shows "cloud_Open bk s key = Inr (key, int (length old)) \<and>
    section_ReadAt bk s (key, int (length old)) 0 (int n) = (take n old, True) \<and>
    section_ReadAt bk s' (key, int (length old)) (int n) (int (length old) - int n) =
      (take (length old - n) (drop n new), True)"
proof (intro conjI)
  show "cloud_Open bk s key = Inr (key, int (length old))"
    using ranges_okD(1) [OF assms(1,2)] by (simp add: cloud_Open_def)
  show "section_ReadAt bk s (key, int (length old)) 0 (int n) = (take n old, True)"
    using range_read [OF assms(1,2), of 0 "int n" "int (length old)"] assms(5,6) by simp
  show "section_ReadAt bk s' (key, int (length old)) (int n) (int (length old) - int n) =
      (take (length old - n) (drop n new), True)"
    using range_read [OF assms(1,3), of "int n" "int (length old) - int n" "int (length old)"] assms(4,6)
    by (simp add: nat_diff_distrib)
qed

text \<open>A scan's two reads around an insert: neither the old bytes \<open>9, 8\<close> nor a part of the new file.\<close>

theorem cloud_reader_mixes_versions_witness:
  "\<exists>rows s'. InsertInto (cloud_store mem_bucket map_of) tiny_writer (\<lambda>i. ()) tiny_scan ''t'' [] InsertAppend tiny_rows
      [(''t'', [9, 8])] = (Inr 2, rows, s') \<and>
    fst (section_ReadAt mem_bucket [(''t'', [9, 8])] (''t'', 2) 0 1) @ fst (section_ReadAt mem_bucket s' (''t'', 2) 1 1) = [9, 5]"
proof -
  let ?s = "[(''t'', [9, 8])] :: memStore"
  obtain res rows s' where run: "InsertInto (cloud_store mem_bucket map_of) tiny_writer (\<lambda>i. ()) tiny_scan ''t'' []
      InsertAppend tiny_rows ?s = (res, rows, s')" by (rule prod_cases3)
  then have s': "res = Inr 2" "map_of s' ''t'' = Some [80, 5, 2, 70]"
    unfolding cloud_store_def mem_bucket_def
    by (auto simp: insert_run mem_Create_def mem_Write_def mem_Close_def guard_begin_def rebindSchema_def
        cloud_Create_def cloud_Write_def cloud_Close_def)
  have old: "map_of ?s ''t'' = Some [9, 8]" by simp
  from cloud_reader_mixes_versions [OF mem_bucket_ranges old s'(2), of 1] run s'(1) show ?thesis by auto
qed

end
