(* ===== verification/Local_Inodes.thy ===== *)
theory Local_Inodes
  imports Contract_Correct
begin

text \<open>
  \<open>objectstore/local.go\<close> below the level of names: files are inodes, a writer and a reader
  hold an inode, and a rename moves a name. Every sequence of calls of any number of writers
  and readers gives the results it gives in \<open>Object_Store\<close>'s model, in which a handle is the
  bytes it was opened on; so a reader sees one version of an object, whatever is committed
  or removed while it reads.
\<close>

section \<open>Inodes\<close>

text \<open>An inode number is not used again while someone holds it; here, never.\<close>

record inode_fs =
  i_next :: nat
  i_names :: "string \<Rightarrow> nat option"
  i_data :: "nat \<Rightarrow> byte list"

record inodeWriter =
  iw_fd :: nat
  iw_file :: string
  iw_path :: string
  iw_done :: bool

text \<open>\<open>localObject\<close>: the open file and the size \<open>Stat\<close> gave.\<close>

record inodeObject =
  io_fd :: nat
  io_size :: int

definition inode_Open :: "open_outcome \<Rightarrow> inode_fs \<Rightarrow> string \<Rightarrow> store_err + inodeObject" where
  "inode_Open o' s path =
     (case o' of
        OpenDenied m \<Rightarrow> Inl (StoreError m)
      | IsDirectory \<Rightarrow> Inl (StoreError path)
      | StatFailed m \<Rightarrow> (if i_names s path = None then Inl (ErrNotExist path) else Inl (StoreError m))
      | Regular \<Rightarrow>
          (case i_names s path of
             None \<Rightarrow> Inl (ErrNotExist path)
           | Some i \<Rightarrow> Inr \<lparr>io_fd = i, io_size = int (length (i_data s i))\<rparr>))"

definition inode_ReadAt :: "inode_fs \<Rightarrow> inodeObject \<Rightarrow> int \<Rightarrow> int \<Rightarrow> byte list \<times> bool" where
  "inode_ReadAt s obj off len = bytes_ReadAt (i_data s (io_fd obj)) off len"

definition inode_Create :: "os_outcome \<Rightarrow> inode_fs \<Rightarrow> string \<Rightarrow> (inodeWriter \<times> inode_fs) option" where
  "inode_Create o' s path =
     (if \<not> os_mkdir o' then None
      else
        (case os_tmp_suffix o' of
           None \<Rightarrow> None
         | Some r \<Rightarrow>
             (case CreateTemp_name (Dir path) (localTmpPrefix @ Base path @ ''-'') r of
                None \<Rightarrow> None
              | Some tmp \<Rightarrow>
                  if i_names s tmp \<noteq> None then None
                  else Some (\<lparr>iw_fd = i_next s, iw_file = tmp, iw_path = path, iw_done = False\<rparr>,
                    s\<lparr>i_next := Suc (i_next s), i_names := (i_names s)(tmp \<mapsto> i_next s),
                      i_data := (i_data s)(i_next s := [])\<rparr>))))"

definition inode_Write :: "os_outcome \<Rightarrow> byte list \<Rightarrow> inodeWriter \<times> inode_fs \<Rightarrow> bool \<times> inodeWriter \<times> inode_fs" where
  "inode_Write o' p ws =
     (case ws of (w, s) \<Rightarrow>
        if iw_done w then (False, w, s)
        else (length p \<le> os_written o', w,
          s\<lparr>i_data := (i_data s)(iw_fd w := i_data s (iw_fd w) @ take (os_written o') p)\<rparr>))"

definition unlink :: "bool \<Rightarrow> inode_fs \<Rightarrow> string \<Rightarrow> inode_fs" where
  "unlink ok s name = (if ok then s\<lparr>i_names := (i_names s)(name := None)\<rparr> else s)"

definition inode_Close :: "os_outcome \<Rightarrow> inodeWriter \<times> inode_fs \<Rightarrow> bool \<times> inodeWriter \<times> inode_fs" where
  "inode_Close o' ws =
     (case ws of (w, s) \<Rightarrow>
        (case guard_begin (iw_done w) of
           (False, g) \<Rightarrow> (True, w, s)
         | (True, g) \<Rightarrow>
             (let w' = w\<lparr>iw_done := g\<rparr>
              in if os_sync o' \<and> os_fclose o' \<and> os_rename o'
                 then (True, w', s\<lparr>i_names := (i_names s)(iw_path w := i_names s (iw_file w), iw_file w := None)\<rparr>)
                 else (False, w', unlink (os_remove o') s (iw_file w)))))"

definition inode_Abort :: "os_outcome \<Rightarrow> inodeWriter \<times> inode_fs \<Rightarrow> bool \<times> inodeWriter \<times> inode_fs" where
  "inode_Abort o' ws =
     (case ws of (w, s) \<Rightarrow>
        (case guard_begin (iw_done w) of
           (False, g) \<Rightarrow> (True, w, s)
         | (True, g) \<Rightarrow> (os_remove o', w\<lparr>iw_done := g\<rparr>, unlink (os_remove o') s (iw_file w))))"

definition inode_Remove :: "bool \<Rightarrow> inode_fs \<Rightarrow> string \<Rightarrow> store_err option \<times> inode_fs" where
  "inode_Remove ok s path =
     (if i_names s path = None then (Some (ErrNotExist path), s)
      else if ok then (None, unlink True s path) else (Some (StoreError path), s))"

section \<open>Sequences of calls\<close>

text \<open>The calls of a program, on writers and handles it names by numbers, with the outcome of each.\<close>

datatype store_call =
    CallOpen nat open_outcome string
  | CallReadAt nat int int
  | CallCreate nat os_outcome string
  | CallWrite nat os_outcome "byte list"
  | CallClose nat os_outcome
  | CallAbort nat os_outcome
  | CallRemove bool string

datatype call_result =
    OpenResult "store_err + int"
  | ReadResult "(byte list \<times> bool) option"
  | WriterResult bool
  | RemoveResult "store_err option"

record ('s, 'w, 'h) io_world =
  wd_store :: 's
  wd_writers :: "nat \<Rightarrow> 'w option"
  wd_handles :: "nat \<Rightarrow> 'h option"

record ('s, 'w, 'h) local_ops =
  lo_Open :: "open_outcome \<Rightarrow> 's \<Rightarrow> string \<Rightarrow> store_err + 'h"
  lo_Size :: "'h \<Rightarrow> int"
  lo_ReadAt :: "'s \<Rightarrow> 'h \<Rightarrow> int \<Rightarrow> int \<Rightarrow> byte list \<times> bool"
  lo_Create :: "os_outcome \<Rightarrow> 's \<Rightarrow> string \<Rightarrow> ('w \<times> 's) option"
  lo_Write :: "os_outcome \<Rightarrow> byte list \<Rightarrow> 'w \<times> 's \<Rightarrow> bool \<times> 'w \<times> 's"
  lo_Close :: "os_outcome \<Rightarrow> 'w \<times> 's \<Rightarrow> bool \<times> 'w \<times> 's"
  lo_Abort :: "os_outcome \<Rightarrow> 'w \<times> 's \<Rightarrow> bool \<times> 'w \<times> 's"
  lo_Remove :: "bool \<Rightarrow> 's \<Rightarrow> string \<Rightarrow> store_err option \<times> 's"

definition on_writer ::
  "('s, 'w, 'h) io_world \<Rightarrow> nat \<Rightarrow> ('w \<times> 's \<Rightarrow> bool \<times> 'w \<times> 's) \<Rightarrow> call_result \<times> ('s, 'w, 'h) io_world" where
  "on_writer x k f =
     (case wd_writers x k of
        None \<Rightarrow> (WriterResult False, x)
      | Some w \<Rightarrow>
          (case f (w, wd_store x) of
             (ok, w', s') \<Rightarrow> (WriterResult ok, x\<lparr>wd_store := s', wd_writers := (wd_writers x)(k \<mapsto> w')\<rparr>)))"

definition do_call :: "('s, 'w, 'h) local_ops \<Rightarrow> store_call \<Rightarrow> ('s, 'w, 'h) io_world \<Rightarrow> call_result \<times> ('s, 'w, 'h) io_world" where
  "do_call lo c x =
     (case c of
        CallOpen k o' path \<Rightarrow>
          (case lo_Open lo o' (wd_store x) path of
             Inl e \<Rightarrow> (OpenResult (Inl e), x)
           | Inr obj \<Rightarrow> (OpenResult (Inr (lo_Size lo obj)), x\<lparr>wd_handles := (wd_handles x)(k \<mapsto> obj)\<rparr>))
      | CallReadAt k off len \<Rightarrow>
          (ReadResult (map_option (\<lambda>obj. lo_ReadAt lo (wd_store x) obj off len) (wd_handles x k)), x)
      | CallCreate k o' path \<Rightarrow>
          (case lo_Create lo o' (wd_store x) path of
             None \<Rightarrow> (WriterResult False, x)
           | Some (w, s') \<Rightarrow> (WriterResult True, x\<lparr>wd_store := s', wd_writers := (wd_writers x)(k \<mapsto> w)\<rparr>))
      | CallWrite k o' p \<Rightarrow> on_writer x k (lo_Write lo o' p)
      | CallClose k o' \<Rightarrow> on_writer x k (lo_Close lo o')
      | CallAbort k o' \<Rightarrow> on_writer x k (lo_Abort lo o')
      | CallRemove ok path \<Rightarrow>
          (case lo_Remove lo ok (wd_store x) path of (e, s') \<Rightarrow> (RemoveResult e, x\<lparr>wd_store := s'\<rparr>)))"

fun do_calls ::
  "('s, 'w, 'h) local_ops \<Rightarrow> store_call list \<Rightarrow> ('s, 'w, 'h) io_world \<Rightarrow> call_result list \<times> ('s, 'w, 'h) io_world" where
  "do_calls lo [] x = ([], x)"
| "do_calls lo (c # cs) x =
     (case do_call lo c x of (r, x') \<Rightarrow> (case do_calls lo cs x' of (rs, x'') \<Rightarrow> (r # rs, x'')))"

definition inode_ops :: "(inode_fs, inodeWriter, inodeObject) local_ops" where
  "inode_ops =
     \<lparr>lo_Open = inode_Open, lo_Size = io_size, lo_ReadAt = inode_ReadAt, lo_Create = inode_Create, lo_Write = inode_Write,
      lo_Close = inode_Close, lo_Abort = inode_Abort, lo_Remove = inode_Remove\<rparr>"

text \<open>The model by names, a handle being the bytes it was opened on.\<close>

definition name_ops :: "(file_system, localWriter, byte list) local_ops" where
  "name_ops =
     \<lparr>lo_Open = local_Open, lo_Size = (\<lambda>d. int (length d)), lo_ReadAt = (\<lambda>fs. bytes_ReadAt), lo_Create = local_Create,
      lo_Write = local_Write, lo_Close = local_Close, lo_Abort = local_Abort, lo_Remove = local_Remove\<rparr>"

section \<open>The refinement\<close>

definition files_of :: "inode_fs \<Rightarrow> file_system" where
  "files_of s = (\<lambda>p. map_option (i_data s) (i_names s p))"

definition writer_of :: "inodeWriter \<Rightarrow> localWriter" where
  "writer_of w = \<lparr>lw_file = iw_file w, lw_path = iw_path w, lw_done = iw_done w\<rparr>"

definition abs_world :: "(inode_fs, inodeWriter, inodeObject) io_world \<Rightarrow> (file_system, localWriter, byte list) io_world" where
  "abs_world x =
     \<lparr>wd_store = files_of (wd_store x), wd_writers = (\<lambda>k. map_option writer_of (wd_writers x k)),
      wd_handles = (\<lambda>k. map_option (\<lambda>obj. i_data (wd_store x) (io_fd obj)) (wd_handles x k))\<rparr>"

text \<open>Calls name objects, not the temporary files of the store.\<close>

fun call_ok :: "store_call \<Rightarrow> bool" where
  "call_ok (CallOpen k o' path) \<longleftrightarrow> \<not> is_temp path"
| "call_ok (CallCreate k o' path) \<longleftrightarrow> \<not> is_temp path"
| "call_ok (CallRemove ok path) \<longleftrightarrow> \<not> is_temp path"
| "call_ok _ \<longleftrightarrow> True"

text \<open>An inode has one name; a writer at work has a temporary file of its own, which no reader has open.\<close>

definition fs_ok :: "inode_fs \<Rightarrow> bool" where
  "fs_ok s \<longleftrightarrow> (\<forall>p i. i_names s p = Some i \<longrightarrow> i < i_next s \<and> (\<forall>q. i_names s q = Some i \<longrightarrow> q = p))"

definition writer_ok :: "inode_fs \<Rightarrow> inodeWriter \<Rightarrow> bool" where
  "writer_ok s w \<longleftrightarrow> iw_done w \<or> i_names s (iw_file w) = Some (iw_fd w) \<and> is_temp (iw_file w) \<and> \<not> is_temp (iw_path w)"

definition world_ok :: "(inode_fs, inodeWriter, inodeObject) io_world \<Rightarrow> bool" where
  "world_ok x \<longleftrightarrow> fs_ok (wd_store x) \<and>
     (\<forall>k w. wd_writers x k = Some w \<longrightarrow> writer_ok (wd_store x) w) \<and>
     (\<forall>k w k' w'. wd_writers x k = Some w \<longrightarrow> wd_writers x k' = Some w' \<longrightarrow> \<not> iw_done w \<longrightarrow> \<not> iw_done w' \<longrightarrow>
        iw_fd w = iw_fd w' \<longrightarrow> k = k') \<and>
     (\<forall>k obj. wd_handles x k = Some obj \<longrightarrow> io_fd obj < i_next (wd_store x) \<and>
        (\<forall>j w. wd_writers x j = Some w \<longrightarrow> \<not> iw_done w \<longrightarrow> iw_fd w \<noteq> io_fd obj))"

text \<open>What the primitive changes of the inodes do to the files by name.\<close>

lemma fs_okD: "fs_ok s \<Longrightarrow> i_names s p = Some i \<Longrightarrow> i_names s q = Some i \<Longrightarrow> p = q"
  "fs_ok s \<Longrightarrow> i_names s p = Some i \<Longrightarrow> i < i_next s"
  by (auto simp: fs_ok_def)

lemma files_of_append:
  assumes "fs_ok s" "i_names s f = Some i"
  shows "files_of (s\<lparr>i_data := (i_data s)(i := d)\<rparr>) = (files_of s)(f \<mapsto> d)"
proof
  fix p
  show "files_of (s\<lparr>i_data := (i_data s)(i := d)\<rparr>) p = ((files_of s)(f \<mapsto> d)) p"
    using fs_okD(1) [OF assms(1,2), of p] assms(2) by (cases "i_names s p") (auto simp: files_of_def)
qed

lemma files_of_unlink: "files_of (unlink ok s p) = remove_file ok (files_of s) p"
  by (auto simp: files_of_def unlink_def remove_file_def)

lemma unlink_sel [simp]:
  "i_data (unlink ok s p) = i_data s" "i_next (unlink ok s p) = i_next s"
  "i_names (unlink ok s p) = (if ok then (i_names s)(p := None) else i_names s)"
  by (simp_all add: unlink_def)

lemma files_of_rename:
  "files_of (s\<lparr>i_names := (i_names s)(p := i_names s q, q := None)\<rparr>) = (files_of s)(p := files_of s q, q := None)"
  by (auto simp: files_of_def)

lemma files_of_None: "files_of s p = None \<longleftrightarrow> i_names s p = None"
  by (simp add: files_of_def)

lemma files_of_create:
  assumes "fs_ok s" "i_names s f = None"
  shows "files_of (s\<lparr>i_next := Suc (i_next s), i_names := (i_names s)(f \<mapsto> i_next s), i_data := (i_data s)(i_next s := [])\<rparr>) =
    (files_of s)(f \<mapsto> [])"
proof -
  have "i_names s p \<noteq> Some (i_next s)" for p using fs_okD(2) [OF assms(1), of p] by auto
  then show ?thesis by (auto simp: files_of_def fun_eq_iff map_option_case split: option.splits)
qed

lemma file_data_files_of: "i_names s f = Some i \<Longrightarrow> file_data (files_of s) f = i_data s i"
  by (simp add: file_data_def files_of_def)

lemma fs_ok_steps:
  assumes "fs_ok s"
  shows "fs_ok (s\<lparr>i_data := d\<rparr>)"
    and "fs_ok (unlink ok s p)"
    and "fs_ok (s\<lparr>i_names := (i_names s)(p := i_names s q, q := None)\<rparr>)"
    and "fs_ok (s\<lparr>i_next := Suc (i_next s), i_names := (i_names s)(f \<mapsto> i_next s), i_data := d'\<rparr>)"
  using assms unfolding fs_ok_def unlink_def by (auto split: if_splits) (metis less_irrefl less_SucI)+

text \<open>The operations of a writer at work.\<close>

lemma write_refines:
  assumes "fs_ok s" "writer_ok s w" "inode_Write o' p (w, s) = (ok, w', s')"
  shows "local_Write o' p (writer_of w, files_of s) = (ok, writer_of w', files_of s')"
    and "fs_ok s'" and "w' = w" and "i_names s' = i_names s" and "i_next s' = i_next s"
    and "iw_fd w \<noteq> i \<or> iw_done w \<Longrightarrow> i_data s' i = i_data s i"
  using assms fs_ok_steps(1) [OF assms(1)] files_of_append [OF assms(1)] file_data_files_of [of s "iw_file w"]
  by (auto simp: inode_Write_def local_Write_def writer_of_def writer_ok_def split: if_splits)

lemma close_refines:
  assumes "fs_ok s" "inode_Close o' (w, s) = (ok, w', s')"
  shows "local_Close o' (writer_of w, files_of s) = (ok, writer_of w', files_of s')"
    and "fs_ok s'" and "iw_done w'" and "i_data s' = i_data s" and "i_next s' = i_next s"
    and "iw_done w \<Longrightarrow> s' = s" and "f \<noteq> iw_file w \<Longrightarrow> f \<noteq> iw_path w \<Longrightarrow> i_names s' f = i_names s f"
  using assms fs_ok_steps(2,3) [OF assms(1)]
  by (auto simp: inode_Close_def local_Close_def writer_of_def guard_begin_def files_of_unlink files_of_rename Let_def
      split: if_split_asm)

lemma abort_refines:
  assumes "fs_ok s" "inode_Abort o' (w, s) = (ok, w', s')"
  shows "local_Abort o' (writer_of w, files_of s) = (ok, writer_of w', files_of s')"
    and "fs_ok s'" and "iw_done w'" and "i_data s' = i_data s" and "i_next s' = i_next s"
    and "iw_done w \<Longrightarrow> s' = s" and "f \<noteq> iw_file w \<Longrightarrow> f \<noteq> iw_path w \<Longrightarrow> i_names s' f = i_names s f"
  using assms fs_ok_steps(2) [OF assms(1)]
  by (auto simp: inode_Abort_def local_Abort_def writer_of_def guard_begin_def files_of_unlink split: if_split_asm)

lemma create_refines:
  assumes "fs_ok s" "\<not> is_temp path"
  shows "local_Create o' (files_of s) path =
      map_option (\<lambda>(w, s'). (writer_of w, files_of s')) (inode_Create o' s path)"
    and "inode_Create o' s path = Some (w, s') \<Longrightarrow>
      fs_ok s' \<and> writer_ok s' w \<and> \<not> iw_done w \<and> iw_fd w = i_next s \<and> i_next s' = Suc (i_next s) \<and>
      (\<forall>i. i < i_next s \<longrightarrow> i_data s' i = i_data s i) \<and> (\<forall>f i. i_names s f = Some i \<longrightarrow> i_names s' f = Some i)"
  using assms fs_ok_steps(4) [OF assms(1)] files_of_create [OF assms(1)] temp_name [of _ "Base path"]
  by (auto simp: inode_Create_def local_Create_def writer_of_def writer_ok_def files_of_None Let_def
      split: option.splits if_split_asm)

lemma open_refines:
  "local_Open o' (files_of s) path = map_sum (\<lambda>e. e) (\<lambda>obj. i_data s (io_fd obj)) (inode_Open o' s path)"
  "inode_Open o' s path = Inr obj \<Longrightarrow> i_names s path = Some (io_fd obj) \<and> io_size obj = int (length (i_data s (io_fd obj)))"
  by (auto simp: inode_Open_def local_Open_def files_of_def split: open_outcome.splits option.splits if_splits)

lemma remove_refines:
  assumes "fs_ok s" "inode_Remove ok s path = (e, s')"
  shows "local_Remove ok (files_of s) path = (e, files_of s')" and "fs_ok s'" and "i_data s' = i_data s"
    and "i_next s' = i_next s" and "f \<noteq> path \<Longrightarrow> i_names s' f = i_names s f"
  using assms fs_ok_steps(2) [OF assms(1), of True path]
  by (auto simp: inode_Remove_def local_Remove_def files_of_None files_of_unlink remove_file_def split: if_split_asm)

lemma world_okE:
  assumes "world_ok x"
  obtains "fs_ok (wd_store x)" "\<And>k w. wd_writers x k = Some w \<Longrightarrow> writer_ok (wd_store x) w"
    "\<And>k w k' w'. wd_writers x k = Some w \<Longrightarrow> wd_writers x k' = Some w' \<Longrightarrow> \<not> iw_done w \<Longrightarrow> \<not> iw_done w' \<Longrightarrow>
        iw_fd w = iw_fd w' \<Longrightarrow> k = k'"
    "\<And>k obj. wd_handles x k = Some obj \<Longrightarrow> io_fd obj < i_next (wd_store x)"
    "\<And>k obj j w. wd_handles x k = Some obj \<Longrightarrow> wd_writers x j = Some w \<Longrightarrow> \<not> iw_done w \<Longrightarrow> iw_fd w \<noteq> io_fd obj"
  using assms unfolding world_ok_def by blast

lemma world_okI:
  assumes "fs_ok (wd_store x)" "\<And>k w. wd_writers x k = Some w \<Longrightarrow> writer_ok (wd_store x) w"
    "\<And>k w k' w'. wd_writers x k = Some w \<Longrightarrow> wd_writers x k' = Some w' \<Longrightarrow> \<not> iw_done w \<Longrightarrow> \<not> iw_done w' \<Longrightarrow>
        iw_fd w = iw_fd w' \<Longrightarrow> k = k'"
    "\<And>k obj. wd_handles x k = Some obj \<Longrightarrow> io_fd obj < i_next (wd_store x)"
    "\<And>k obj j w. wd_handles x k = Some obj \<Longrightarrow> wd_writers x j = Some w \<Longrightarrow> \<not> iw_done w \<Longrightarrow> iw_fd w \<noteq> io_fd obj"
  shows "world_ok x"
  using assms unfolding world_ok_def by blast

text \<open>
  A step of one writer keeps the others: their temporary files are other files than its own
  and than the object it commits.
\<close>

lemma writer_step_ok:
  assumes "world_ok x" "wd_writers x k = Some w" "fs_ok s'" "i_next s' = i_next (wd_store x)"
    and "iw_done w' \<and> (iw_done w \<longrightarrow> s' = wd_store x) \<and> (\<forall>f. f \<noteq> iw_file w \<longrightarrow> f \<noteq> iw_path w \<longrightarrow> i_names s' f = i_names (wd_store x) f) \<or>
      w' = w \<and> i_names s' = i_names (wd_store x)"
  shows "world_ok (x\<lparr>wd_store := s', wd_writers := (wd_writers x)(k \<mapsto> w')\<rparr>)"
  using assms(1)
proof (rule world_okE)
  assume inv: "\<And>k w. wd_writers x k = Some w \<Longrightarrow> writer_ok (wd_store x) w"
    "\<And>k w k' w'. wd_writers x k = Some w \<Longrightarrow> wd_writers x k' = Some w' \<Longrightarrow> \<not> iw_done w \<Longrightarrow> \<not> iw_done w' \<Longrightarrow>
        iw_fd w = iw_fd w' \<Longrightarrow> k = k'"
    "\<And>k obj. wd_handles x k = Some obj \<Longrightarrow> io_fd obj < i_next (wd_store x)"
    "\<And>k obj j w. wd_handles x k = Some obj \<Longrightarrow> wd_writers x j = Some w \<Longrightarrow> \<not> iw_done w \<Longrightarrow> iw_fd w \<noteq> io_fd obj"
  have same: "w' = w" if "\<not> iw_done w'" using assms(5) that by auto
  have others: "writer_ok s' v" if v: "wd_writers x j = Some v" and "j \<noteq> k" for j v
  proof (cases "iw_done v \<or> i_names s' = i_names (wd_store x)")
    case True
    then show ?thesis using inv(1) [OF v] by (auto simp: writer_ok_def)
  next
    case False
    then have v': "\<not> iw_done v" "\<not> iw_done w" "\<And>f. f \<noteq> iw_file w \<Longrightarrow> f \<noteq> iw_path w \<Longrightarrow> i_names s' f = i_names (wd_store x) f"
      using assms(5) by auto
    then have "iw_fd v \<noteq> iw_fd w" using inv(2) [OF v assms(2)] that(2) by blast
    then have "iw_file v \<noteq> iw_file w" "iw_file v \<noteq> iw_path w"
      using inv(1) [OF v] inv(1) [OF assms(2)] v' by (auto simp: writer_ok_def)
    then show ?thesis using v' inv(1) [OF v] by (auto simp: writer_ok_def)
  qed
  have own: "writer_ok s' w'" using assms(5) inv(1) [OF assms(2)] by (auto simp: writer_ok_def)
  show ?thesis
  proof (rule world_okI)
    fix j v j' v'
    assume "wd_writers (x\<lparr>wd_store := s', wd_writers := (wd_writers x)(k \<mapsto> w')\<rparr>) j = Some v"
      "wd_writers (x\<lparr>wd_store := s', wd_writers := (wd_writers x)(k \<mapsto> w')\<rparr>) j' = Some v'"
      "\<not> iw_done v" "\<not> iw_done v'" "iw_fd v = iw_fd v'"
    then have "wd_writers x j = Some v" "wd_writers x j' = Some v'" using same assms(2) by (auto split: if_splits)
    then show "j = j'" using inv(2) \<open>\<not> iw_done v\<close> \<open>\<not> iw_done v'\<close> \<open>iw_fd v = iw_fd v'\<close> by blast
  next
    fix j obj i v
    assume "wd_handles (x\<lparr>wd_store := s', wd_writers := (wd_writers x)(k \<mapsto> w')\<rparr>) j = Some obj"
      "wd_writers (x\<lparr>wd_store := s', wd_writers := (wd_writers x)(k \<mapsto> w')\<rparr>) i = Some v" "\<not> iw_done v"
    then show "iw_fd v \<noteq> io_fd obj" using same inv(4) assms(2) by (auto split: if_splits)
  qed (use assms(3,4) others own inv(3) in \<open>auto split: if_splits\<close>)
qed

text \<open>The effect of a writer's call on the world by names.\<close>

lemma abs_writer_step:
  assumes "world_ok x" "wd_writers x k = Some w"
    and "\<And>i. \<not> iw_done w \<longrightarrow> i \<noteq> iw_fd w \<Longrightarrow> i_data s' i = i_data (wd_store x) i"
  shows "abs_world (x\<lparr>wd_store := s', wd_writers := (wd_writers x)(k \<mapsto> w')\<rparr>) =
    (abs_world x)\<lparr>wd_store := files_of s', wd_writers := (wd_writers (abs_world x))(k \<mapsto> writer_of w')\<rparr>"
proof -
  have "i_data s' (io_fd obj) = i_data (wd_store x) (io_fd obj)" if "wd_handles x j = Some obj" for j obj
    using assms(1) by (rule world_okE) (metis assms(2,3) that)
  then show ?thesis by (auto simp: abs_world_def fun_eq_iff map_option_case split: option.splits)
qed

lemma abs_world_sel [simp]:
  "wd_store (abs_world x) = files_of (wd_store x)" "wd_writers (abs_world x) k = map_option writer_of (wd_writers x k)"
  "wd_handles (abs_world x) k = map_option (\<lambda>obj. i_data (wd_store x) (io_fd obj)) (wd_handles x k)"
  by (simp_all add: abs_world_def)

lemma on_writer_refines:
  assumes "world_ok x"
    and "\<And>w ok w' s'. wd_writers x k = Some w \<Longrightarrow> writer_ok (wd_store x) w \<Longrightarrow> f (w, wd_store x) = (ok, w', s') \<Longrightarrow>
      g (writer_of w, files_of (wd_store x)) = (ok, writer_of w', files_of s') \<and> fs_ok s' \<and> i_next s' = i_next (wd_store x) \<and>
      (\<forall>i. (\<not> iw_done w \<longrightarrow> i \<noteq> iw_fd w) \<longrightarrow> i_data s' i = i_data (wd_store x) i) \<and>
      (iw_done w' \<and> (iw_done w \<longrightarrow> s' = wd_store x) \<and>
         (\<forall>f. f \<noteq> iw_file w \<longrightarrow> f \<noteq> iw_path w \<longrightarrow> i_names s' f = i_names (wd_store x) f) \<or>
       w' = w \<and> i_names s' = i_names (wd_store x))"
    and "on_writer x k f = (r, x')"
  shows "on_writer (abs_world x) k g = (r, abs_world x') \<and> world_ok x'"
proof (cases "wd_writers x k")
  case None
  then show ?thesis using assms(1,3) by (simp add: on_writer_def)
next
  case (Some w)
  obtain ok w' s' where f: "f (w, wd_store x) = (ok, w', s')" by (rule prod_cases3)
  have ok: "writer_ok (wd_store x) w" using assms(1) Some by (simp add: world_ok_def)
  note step = assms(2) [OF Some ok f]
  have "abs_world (x\<lparr>wd_store := s', wd_writers := (wd_writers x)(k \<mapsto> w')\<rparr>) =
      (abs_world x)\<lparr>wd_store := files_of s', wd_writers := (wd_writers (abs_world x))(k \<mapsto> writer_of w')\<rparr>"
    using step by (intro abs_writer_step [OF assms(1) Some]) blast
  moreover have "world_ok (x\<lparr>wd_store := s', wd_writers := (wd_writers x)(k \<mapsto> w')\<rparr>)"
    using step by (intro writer_step_ok [OF assms(1) Some]) auto
  ultimately show ?thesis using assms(3) Some f step by (auto simp: on_writer_def)
qed

lemma world_fd_less:
  "world_ok x \<Longrightarrow> wd_writers x j = Some v \<Longrightarrow> \<not> iw_done v \<Longrightarrow> iw_fd v < i_next (wd_store x)"
  using fs_okD(2) [of "wd_store x"] unfolding world_ok_def writer_ok_def by blast

lemma create_step:
  fixes k
  assumes x: "world_ok x"
    and new: "fs_ok s'" "writer_ok s' w" "iw_fd w = i_next (wd_store x)" "i_next s' = Suc (i_next (wd_store x))"
      "\<And>i. i < i_next (wd_store x) \<Longrightarrow> i_data s' i = i_data (wd_store x) i"
      "\<And>f i. i_names (wd_store x) f = Some i \<Longrightarrow> i_names s' f = Some i"
  defines "x' \<equiv> x\<lparr>wd_store := s', wd_writers := (wd_writers x)(k \<mapsto> w)\<rparr>"
  shows "abs_world x' = (abs_world x)\<lparr>wd_store := files_of s', wd_writers := (wd_writers (abs_world x))(k \<mapsto> writer_of w)\<rparr>"
    and "world_ok x'"
proof -
  have h: "io_fd obj < i_next (wd_store x)" if "wd_handles x j = Some obj" for j obj
    using x that by (auto simp: world_ok_def)
  then show "abs_world x' = (abs_world x)\<lparr>wd_store := files_of s', wd_writers := (wd_writers (abs_world x))(k \<mapsto> writer_of w)\<rparr>"
    using new(5) by (auto simp: abs_world_def x'_def fun_eq_iff map_option_case split: option.splits)
  have old: "wd_writers x i = Some u" "\<not> iw_done u \<Longrightarrow> iw_fd u < i_next (wd_store x)"
    if "wd_writers x' i = Some u" "i \<noteq> k" for i u
    using that world_fd_less [OF x, of i u] by (simp_all add: x'_def)
  have own: "u = w" if "wd_writers x' k = Some u" for u using that by (simp add: x'_def)
  show "world_ok x'"
  proof (rule world_okI)
    show "fs_ok (wd_store x')" using new(1) by (simp add: x'_def)
    show "writer_ok (wd_store x') v" if v: "wd_writers x' j = Some v" for j v
    proof (cases "j = k")
      case False
      then have "writer_ok (wd_store x) v" using old(1) [OF v] x by (auto simp: world_ok_def)
      then show ?thesis using new(6) by (auto simp: x'_def writer_ok_def)
    qed (use v new(2) in \<open>simp add: x'_def\<close>)
    show "io_fd obj < i_next (wd_store x')" if "wd_handles x' j = Some obj" for j obj
      using that h [of j obj] new(4) by (simp add: x'_def)
    show "j = j'" if v: "wd_writers x' j = Some v" "wd_writers x' j' = Some v'" "\<not> iw_done v" "\<not> iw_done v'" "iw_fd v = iw_fd v'"
      for j v j' v'
    proof -
      have "j = k \<longleftrightarrow> iw_fd v = i_next (wd_store x)" "j' = k \<longleftrightarrow> iw_fd v' = i_next (wd_store x)"
        using old(2) [OF v(1)] old(2) [OF v(2)] own [of v] own [of v'] v new(3) by (metis less_irrefl)+
      then show ?thesis using v old(1) [of j v] old(1) [of j' v'] x unfolding world_ok_def by metis
    qed
    show "iw_fd v \<noteq> io_fd obj" if "wd_handles x' j = Some obj" "wd_writers x' i = Some v" "\<not> iw_done v" for j obj i v
    proof (cases "i = k")
      case True
      then show ?thesis using that h [of j obj] new(3) by (simp add: x'_def)
    next
      case False
      then show ?thesis using that x unfolding world_ok_def by (simp add: x'_def)
    qed
  qed
qed

lemma open_step:
  fixes k
  assumes x: "world_ok x" and i: "i_names (wd_store x) path = Some (io_fd obj)" "\<not> is_temp path"
  defines "x' \<equiv> x\<lparr>wd_handles := (wd_handles x)(k \<mapsto> obj)\<rparr>"
  shows "abs_world x' = (abs_world x)\<lparr>wd_handles := (wd_handles (abs_world x))(k \<mapsto> i_data (wd_store x) (io_fd obj))\<rparr>"
    and "world_ok x'"
proof -
  have fs: "fs_ok (wd_store x)" using x by (simp add: world_ok_def)
  show "abs_world x' = (abs_world x)\<lparr>wd_handles := (wd_handles (abs_world x))(k \<mapsto> i_data (wd_store x) (io_fd obj))\<rparr>"
    by (auto simp: abs_world_def x'_def fun_eq_iff)
  have "iw_fd w \<noteq> io_fd obj" if "wd_writers x j = Some w" "\<not> iw_done w" for j w
  proof
    assume "iw_fd w = io_fd obj"
    moreover have "i_names (wd_store x) (iw_file w) = Some (iw_fd w)" "is_temp (iw_file w)"
      using x that by (auto simp: world_ok_def writer_ok_def)
    ultimately show False using fs_okD(1) [OF fs i(1), of "iw_file w"] i(2) by auto
  qed
  then show "world_ok x'" using x fs_okD(2) [OF fs i(1)] unfolding world_ok_def x'_def by auto
qed

lemma remove_step:
  assumes "world_ok x" "fs_ok s'" "i_data s' = i_data (wd_store x)" "i_next s' = i_next (wd_store x)"
    and "\<And>f. f \<noteq> path \<Longrightarrow> i_names s' f = i_names (wd_store x) f" "\<not> is_temp path"
  shows "abs_world (x\<lparr>wd_store := s'\<rparr>) = (abs_world x)\<lparr>wd_store := files_of s'\<rparr>" and "world_ok (x\<lparr>wd_store := s'\<rparr>)"
proof -
  show "abs_world (x\<lparr>wd_store := s'\<rparr>) = (abs_world x)\<lparr>wd_store := files_of s'\<rparr>"
    using assms(3) by (simp add: abs_world_def)
  have "writer_ok s' w" if "writer_ok (wd_store x) w" for w
    using that assms(5) [of "iw_file w"] assms(6) by (cases "iw_file w = path") (auto simp: writer_ok_def)
  then show "world_ok (x\<lparr>wd_store := s'\<rparr>)" using assms unfolding world_ok_def by simp
qed

lemma do_call_refines:
  assumes "world_ok x" "call_ok c" "do_call inode_ops c x = (r, x')"
  shows "do_call name_ops c (abs_world x) = (r, abs_world x') \<and> world_ok x'"
proof -
  have fs: "fs_ok (wd_store x)" using assms(1) by (simp add: world_ok_def)
  note sel = do_call_def inode_ops_def name_ops_def
  show ?thesis
  proof (cases c)
    case (CallOpen k o' path)
    show ?thesis
    proof (cases "inode_Open o' (wd_store x) path")
      case (Inl e)
      then show ?thesis using assms CallOpen by (simp add: sel open_refines(1))
    next
      case (Inr obj)
      note obj = open_refines(2) [OF Inr]
      show ?thesis using assms CallOpen Inr obj open_step [OF assms(1), of path obj k]
        by (auto simp: sel open_refines(1))
    qed
  next
    case (CallReadAt k off len)
    then show ?thesis using assms by (auto simp: sel inode_ReadAt_def option.map_comp comp_def)
  next
    case (CallCreate k o' path)
    note cr = create_refines [OF fs, of path o'] assms(2) [unfolded CallCreate, simplified]
    show ?thesis
    proof (cases "inode_Create o' (wd_store x) path")
      case None
      then show ?thesis using assms CallCreate cr(1) by (simp add: sel)
    next
      case (Some ws)
      obtain w s' where ws: "ws = (w, s')" by (rule prod.exhaust)
      note new = cr(2) [OF cr(3) Some [unfolded ws]]
      then show ?thesis using assms(3) CallCreate Some ws cr(1,3) create_step [OF assms(1), of s' w k] by (auto simp: sel)
    qed
  next
    case (CallWrite k o' p)
    have "on_writer (abs_world x) k (local_Write o' p) = (r, abs_world x') \<and> world_ok x'"
      using assms(3) unfolding CallWrite
      by (intro on_writer_refines [OF assms(1), where f = "inode_Write o' p"]) (use write_refines [OF fs] in \<open>auto simp: sel\<close>)
    then show ?thesis by (simp add: sel CallWrite)
  next
    case (CallClose k o')
    have "on_writer (abs_world x) k (local_Close o') = (r, abs_world x') \<and> world_ok x'"
      using assms(3) unfolding CallClose
      by (intro on_writer_refines [OF assms(1), where f = "inode_Close o'"]) (use close_refines [OF fs] in \<open>auto simp: sel\<close>)
    then show ?thesis by (simp add: sel CallClose)
  next
    case (CallAbort k o')
    have "on_writer (abs_world x) k (local_Abort o') = (r, abs_world x') \<and> world_ok x'"
      using assms(3) unfolding CallAbort
      by (intro on_writer_refines [OF assms(1), where f = "inode_Abort o'"]) (use abort_refines [OF fs] in \<open>auto simp: sel\<close>)
    then show ?thesis by (simp add: sel CallAbort)
  next
    case (CallRemove ok path)
    obtain e s' where rm: "inode_Remove ok (wd_store x) path = (e, s')" by (rule prod.exhaust)
    note l = remove_refines [OF fs rm]
    show ?thesis using assms CallRemove rm l(1) remove_step [OF assms(1) l(2-5)] by (auto simp: sel)
  qed
qed

lemma do_calls_refine:
  "world_ok x \<Longrightarrow> list_all call_ok cs \<Longrightarrow>
   do_calls name_ops cs (abs_world x) =
     (fst (do_calls inode_ops cs x), abs_world (snd (do_calls inode_ops cs x))) \<and>
   world_ok (snd (do_calls inode_ops cs x))"
proof (induction cs arbitrary: x)
  case (Cons c cs)
  obtain r x' where r: "do_call inode_ops c x = (r, x')" by (rule prod.exhaust)
  note step = do_call_refines [OF Cons.prems(1) _ r]
  with Cons.IH [of x'] Cons.prems(2) r show ?case by (simp add: split_beta)
qed simp

section \<open>What readers see\<close>

definition start_world :: "'s \<Rightarrow> ('s, 'w, 'h) io_world" where
  "start_world s = \<lparr>wd_store = s, wd_writers = (\<lambda>k. None), wd_handles = (\<lambda>k. None)\<rparr>"

lemma start_ok: "fs_ok s \<Longrightarrow> world_ok (start_world s)" "abs_world (start_world s) = start_world (files_of s)"
  by (simp_all add: world_ok_def start_world_def abs_world_def)

text \<open>C14: Any sequence of calls of any number of writers and readers on the local store, whatever
  the outcomes of the calls below, gives on inodes with open file descriptors the results it gives in
  the model where a name maps to bytes and a handle is the bytes it was opened on, and leaves the same
  files with the same bytes. The calls open, create and remove no path whose base name has the prefix
  of the store's temporary files.\<close>

theorem inodes_refine_names:
  assumes "fs_ok s" and "list_all call_ok calls"
    and "do_calls inode_ops calls (start_world s) = (rs, x)"
    and "do_calls name_ops calls (start_world (files_of s)) = (rs', y)"
  shows "rs = rs' \<and> files_of (wd_store x) = wd_store y"
  using do_calls_refine [OF start_ok(1) [OF assms(1)] assms(2)] assms(3,4) by (auto simp: start_ok(2))

text \<open>A handle of the model by names stays as it is until it is opened anew.\<close>

definition reopens :: "nat \<Rightarrow> store_call \<Rightarrow> bool" where
  "reopens k c \<longleftrightarrow> (case c of CallOpen j o' path \<Rightarrow> j = k | _ \<Rightarrow> False)"

lemma call_handle: "\<not> reopens k c \<Longrightarrow> wd_handles (snd (do_call lo c x)) k = wd_handles x k"
  by (cases c) (auto simp: reopens_def do_call_def on_writer_def split: sum.splits option.splits prod.splits)

lemma calls_handle: "list_all (\<lambda>c. \<not> reopens k c) cs \<Longrightarrow> wd_handles (snd (do_calls lo cs x)) k = wd_handles x k"
proof (induction cs arbitrary: x)
  case (Cons c cs)
  then show ?case using call_handle [of k c lo x] by (simp add: split_beta)
qed simp

lemma do_calls_append:
  "do_calls lo (cs @ ds) x =
     (fst (do_calls lo cs x) @ fst (do_calls lo ds (snd (do_calls lo cs x))), snd (do_calls lo ds (snd (do_calls lo cs x))))"
  by (induction cs arbitrary: x) (simp_all add: split_beta)

lemma snapshot_run:
  assumes "fs_ok s" "list_all call_ok earlier" "list_all call_ok later" "list_all (\<lambda>c. \<not> reopens k c) later"
    and "do_calls inode_ops earlier (start_world s) = (rs, x)" "visible (files_of (wd_store x)) path = Some d"
  shows "fst (do_calls inode_ops (CallOpen k Regular path # later @ [CallReadAt k off len]) x) =
    OpenResult (Inr (int (length d))) #
      fst (do_calls inode_ops later (snd (do_call inode_ops (CallOpen k Regular path) x))) @
      [ReadResult (Some (bytes_ReadAt d off len))]"
proof -
  have x: "world_ok x" using do_calls_refine [OF start_ok(1) [OF assms(1)] assms(2)] assms(5) by simp
  obtain i where i: "i_names (wd_store x) path = Some i" "i_data (wd_store x) i = d" "\<not> is_temp path"
    using assms(6) by (auto simp: visible_def files_of_def split: if_splits)
  let ?open = "CallOpen k Regular path"
  obtain r y where y: "do_call inode_ops ?open x = (r, y)" by (rule prod.exhaust)
  have r: "r = OpenResult (Inr (int (length d)))" using y i by (auto simp: do_call_def inode_ops_def inode_Open_def)
  have h: "map_option (\<lambda>obj. i_data (wd_store y) (io_fd obj)) (wd_handles y k) = Some d" and y_ok: "world_ok y"
    using y i do_call_refines [OF x, of ?open] by (auto simp: do_call_def inode_ops_def inode_Open_def)
  let ?z = "snd (do_calls inode_ops later y)"
  have "wd_handles (abs_world ?z) k = wd_handles (abs_world y) k"
    using do_calls_refine [OF y_ok assms(3)] calls_handle [OF assms(4), of name_ops "abs_world y"] by simp
  then have "map_option (\<lambda>obj. i_data (wd_store ?z) (io_fd obj)) (wd_handles ?z k) = Some d" using h by simp
  then have "do_call inode_ops (CallReadAt k off len) ?z = (ReadResult (Some (bytes_ReadAt d off len)), ?z)"
    by (auto simp: do_call_def inode_ops_def inode_ReadAt_def)
  then show ?thesis using y r by (simp add: do_calls_append split_beta)
qed

text \<open>C15: A reader of a local file sees one version of it: after an object was opened, whatever the
  store's writers and removals do to it or to other objects, reads through the handle return
  the bytes the object had when it was opened.\<close>

theorem local_reads_one_version:
  assumes "fs_ok s" "list_all call_ok earlier" "list_all call_ok later" "list_all (\<lambda>c. \<not> reopens k c) later"
    and "do_calls inode_ops earlier (start_world s) = (rs, x)" "visible (files_of (wd_store x)) path = Some d"
  shows "fst (do_calls inode_ops (CallOpen k Regular path # later @ [CallReadAt k off len]) x) =
    OpenResult (Inr (int (length d))) #
      fst (do_calls inode_ops later (snd (do_call inode_ops (CallOpen k Regular path) x))) @
      [ReadResult (Some (bytes_ReadAt d off len))]"
  using assms by (rule snapshot_run)

text \<open>An object that is replaced while it is read.\<close>

definition one_file :: inode_fs where
  "one_file = \<lparr>i_next = 1, i_names = [''d/t'' \<mapsto> 0], i_data = (\<lambda>i. [1, 2, 3])\<rparr>"

definition replace_calls :: "store_call list" where
  "replace_calls =
     [CallCreate 0 good_os ''d/t'', CallWrite 0 good_os [7, 8, 9], CallClose 0 good_os, CallOpen 1 Regular ''d/t'',
      CallReadAt 1 0 3]"

lemma one_file_ok: "fs_ok one_file" "list_all call_ok replace_calls"
  "list_all (\<lambda>c. \<not> reopens 0 c) replace_calls" "visible (files_of one_file) ''d/t'' = Some [1, 2, 3]"
  by (auto simp: fs_ok_def one_file_def replace_calls_def reopens_def visible_def files_of_def is_temp_def path_simps
      has_prefix_def localTmpPrefix_def)

lemmas run_calls = do_call_def on_writer_def inode_ops_def inode_Open_def inode_ReadAt_def inode_Create_def inode_Write_def
  inode_Close_def guard_begin_def bytes_ReadAt_def good_os_def path_simps localTmpPrefix_def Let_def

lemma replace_results:
  "fst (do_calls inode_ops replace_calls (snd (do_call inode_ops (CallOpen 0 Regular ''d/t'') (start_world one_file)))) =
    [WriterResult True, WriterResult True, WriterResult True, OpenResult (Inr 3), ReadResult (Some ([7, 8, 9], True))]"
  by (simp add: replace_calls_def one_file_def start_world_def run_calls)

theorem local_reads_one_version_witness:
  "fst (do_calls inode_ops (CallOpen 0 Regular ''d/t'' # replace_calls @ [CallReadAt 0 1 2]) (start_world one_file)) =
    [OpenResult (Inr 3), WriterResult True, WriterResult True, WriterResult True, OpenResult (Inr 3),
     ReadResult (Some ([7, 8, 9], True)), ReadResult (Some ([2, 3], True))]"
proof -
  have run: "do_calls inode_ops [] (start_world one_file) = ([], start_world one_file)" by simp
  have d: "visible (files_of (wd_store (start_world one_file))) ''d/t'' = Some [1, 2, 3]"
    using one_file_ok(4) by (simp add: start_world_def)
  from local_reads_one_version [OF one_file_ok(1) _ one_file_ok(2,3) run d, of 1 2] show ?thesis
    by (simp add: replace_results bytes_ReadAt_def)
qed

lemma replace_names:
  "\<exists>y. do_calls name_ops (CallOpen 0 Regular ''d/t'' # replace_calls) (start_world (files_of one_file)) =
      ([OpenResult (Inr 3), WriterResult True, WriterResult True, WriterResult True, OpenResult (Inr 3),
        ReadResult (Some ([7, 8, 9], True))], y) \<and>
    wd_store y = [''d/t'' \<mapsto> [7, 8, 9]]"
  by (simp add: replace_calls_def one_file_def start_world_def files_of_def do_call_def on_writer_def name_ops_def
      local_Open_def local_Create_def local_Write_def local_Close_def file_data_def guard_begin_def bytes_ReadAt_def
      good_os_def path_simps localTmpPrefix_def Let_def) (auto simp: fun_eq_iff)

theorem inodes_refine_names_witness:
  "fst (do_calls inode_ops (CallOpen 0 Regular ''d/t'' # replace_calls) (start_world one_file)) =
      [OpenResult (Inr 3), WriterResult True, WriterResult True, WriterResult True, OpenResult (Inr 3),
       ReadResult (Some ([7, 8, 9], True))] \<and>
    files_of (wd_store (snd (do_calls inode_ops (CallOpen 0 Regular ''d/t'' # replace_calls) (start_world one_file)))) =
      [''d/t'' \<mapsto> [7, 8, 9]]"
proof -
  let ?calls = "CallOpen 0 Regular ''d/t'' # replace_calls"
  have ok: "list_all call_ok ?calls"
    using one_file_ok(2) by (simp add: is_temp_def path_simps has_prefix_def localTmpPrefix_def)
  obtain rs x where run: "do_calls inode_ops ?calls (start_world one_file) = (rs, x)" by (rule prod.exhaust)
  from replace_names inodes_refine_names [OF one_file_ok(1) ok run] show ?thesis by (auto simp: run simp del: do_calls.simps)
qed

end
