(* ===== verification/Insert_Concurrent.thy ===== *)
theory Insert_Concurrent
  imports Insert_Correct
begin

text \<open>
  Concurrent INSERTs: the mutex \<open>insertMu\<close> of \<open>providers/parquet/parquet.go\<close> and the phases of
  \<open>InsertInto\<close> in \<open>insert.go\<close> that others can see: taking the lock, reading the existing object,
  committing the new one or failing. Scans take no lock and change nothing, so they are not
  steps. An inductive step relation over any number of callers on any number of providers.
\<close>

section \<open>Callers and their steps\<close>

text \<open>Each caller's arguments, and the provider it calls; a provider has a path and a schema.\<close>

record 'p insert_env =
  ie_fw :: "'p FileWriter"
  ie_scan :: "byte list option \<Rightarrow> string + RecordReader"
  ie_path :: "nat \<Rightarrow> string"
  ie_schema :: "nat \<Rightarrow> Field list"
  ie_prov :: "nat \<Rightarrow> nat"
  ie_op :: "nat \<Rightarrow> InsertOp"
  ie_rows :: "nat \<Rightarrow> RecordReader"

datatype caller =
    Called
  | Locked                          \<comment> \<open>holds the provider's mutex\<close>
  | HasRead "byte list option"      \<comment> \<open>and has the existing object open\<close>
  | Returned "insert_err + u64"

text \<open>\<open>ins_log\<close> is not in the code: the callers that committed, in order.\<close>

record insert_world =
  ins_objects :: "string \<Rightarrow> byte list option"
  ins_mutex :: "nat \<Rightarrow> nat option"
  ins_callers :: "nat \<Rightarrow> caller"
  ins_log :: "nat list"

definition caller_path :: "'p insert_env \<Rightarrow> nat \<Rightarrow> string" where
  "caller_path env c = ie_path env (ie_prov env c)"

definition caller_schema :: "'p insert_env \<Rightarrow> nat \<Rightarrow> Field list" where
  "caller_schema env c = ie_schema env (ie_prov env c)"

text \<open>The file \<open>rewrite\<close> produces when nothing fails, from the object it has read.\<close>

definition new_file :: "'p insert_env \<Rightarrow> nat \<Rightarrow> byte list option \<Rightarrow> byte list option" where
  "new_file env c old =
     (case existing_batches (ie_op env c) (ie_scan env) old of
        None \<Rightarrow> None
      | Some olds \<Rightarrow>
          if final_err (ie_rows env c) = None
          then encode_file (ie_fw env) (caller_schema env c)
                 (olds @ map (\<lambda>b. rebindSchema b (caller_schema env c)) (rd_pending (ie_rows env c)))
          else None)"

definition unlock :: "'p insert_env \<Rightarrow> nat \<Rightarrow> insert_err + u64 \<Rightarrow> insert_world \<Rightarrow> insert_world" where
  "unlock env c res x =
     x\<lparr>ins_mutex := (ins_mutex x)(ie_prov env c := None), ins_callers := (ins_callers x)(c := Returned res)\<rparr>"

definition writable :: "InsertOp \<Rightarrow> bool" where
  "writable op \<longleftrightarrow> op = InsertAppend \<or> op = InsertOverwrite"

text \<open>The insert that returns 0 without touching the object.\<close>

definition no_rows :: "'p insert_env \<Rightarrow> nat \<Rightarrow> bool" where
  "no_rows env c \<longleftrightarrow> ie_op env c = InsertAppend \<and> rd_pending (ie_rows env c) = []"

inductive insert_step :: "'p insert_env \<Rightarrow> insert_world \<Rightarrow> insert_world \<Rightarrow> bool" for env where
  reject: "ins_callers x c = Called \<Longrightarrow> \<not> writable (ie_op env c) \<Longrightarrow>
    insert_step env x (x\<lparr>ins_callers := (ins_callers x)(c := Returned (Inl (UnsupportedInsert (ie_op env c))))\<rparr>)"
| lock: "ins_callers x c = Called \<Longrightarrow> writable (ie_op env c) \<Longrightarrow> ins_mutex x (ie_prov env c) = None \<Longrightarrow>
    insert_step env x (x\<lparr>ins_mutex := (ins_mutex x)(ie_prov env c \<mapsto> c), ins_callers := (ins_callers x)(c := Locked)\<rparr>)"
| nothing: "ins_callers x c = Locked \<Longrightarrow> no_rows env c \<Longrightarrow> final_err (ie_rows env c) = None \<Longrightarrow>
    insert_step env x (unlock env c (Inr 0) x)"
| read: "ins_callers x c = Locked \<Longrightarrow> \<not> no_rows env c \<Longrightarrow>
    insert_step env x (x\<lparr>ins_callers := (ins_callers x)(c := HasRead (ins_objects x (caller_path env c)))\<rparr>)"
| commit: "ins_callers x c = HasRead old \<Longrightarrow> new_file env c old = Some bytes \<Longrightarrow>
    insert_step env x
      (unlock env c (Inr (sum_rows (rd_pending (ie_rows env c))))
         (x\<lparr>ins_objects := (ins_objects x)(caller_path env c \<mapsto> bytes), ins_log := ins_log x @ [c]\<rparr>))"
| fail: "ins_callers x c = Locked \<or> (\<exists>old. ins_callers x c = HasRead old) \<Longrightarrow>
    insert_step env x (unlock env c (Inl e) x)"

definition insert_start :: "(string \<Rightarrow> byte list option) \<Rightarrow> insert_world" where
  "insert_start objects =
     \<lparr>ins_objects = objects, ins_mutex = (\<lambda>v. None), ins_callers = (\<lambda>c. Called), ins_log = []\<rparr>"

inductive insert_reach :: "'p insert_env \<Rightarrow> (string \<Rightarrow> byte list option) \<Rightarrow> insert_world \<Rightarrow> bool" for env objects where
  start: "insert_reach env objects (insert_start objects)"
| step: "insert_reach env objects x \<Longrightarrow> insert_step env x y \<Longrightarrow> insert_reach env objects y"

text \<open>An insert that meets no other and no failure.\<close>

definition inserted :: "'p insert_env \<Rightarrow> nat \<Rightarrow> byte list \<Rightarrow> insert_world \<Rightarrow> insert_world" where
  "inserted env c bytes x =
     unlock env c (Inr (sum_rows (rd_pending (ie_rows env c))))
       (x\<lparr>ins_objects := (ins_objects x)(caller_path env c \<mapsto> bytes), ins_log := ins_log x @ [c]\<rparr>)"

lemma run_alone:
  assumes "ins_callers x c = Called" and "writable (ie_op env c)" and "ins_mutex x (ie_prov env c) = None"
    and "\<not> no_rows env c" and "new_file env c (ins_objects x (caller_path env c)) = Some bytes"
  shows "rtranclp (insert_step env) x (inserted env c bytes x)"
proof -
  let ?x1 = "x\<lparr>ins_mutex := (ins_mutex x)(ie_prov env c \<mapsto> c), ins_callers := (ins_callers x)(c := Locked)\<rparr>"
  let ?x2 = "?x1\<lparr>ins_callers := (ins_callers ?x1)(c := HasRead (ins_objects ?x1 (caller_path env c)))\<rparr>"
  have "insert_step env x ?x1" by (rule lock) (use assms in auto)
  moreover have "insert_step env ?x1 ?x2" by (rule read) (use assms in auto)
  moreover have "insert_step env ?x2 (inserted env c bytes ?x2)"
    unfolding inserted_def by (rule commit) (use assms in \<open>auto simp: unlock_def\<close>)
  ultimately have "rtranclp (insert_step env) x (inserted env c bytes ?x2)"
    by (meson r_into_rtranclp rtranclp_trans)
  moreover have "inserted env c bytes ?x2 = inserted env c bytes x" by (simp add: inserted_def unlock_def)
  ultimately show ?thesis by (simp only:)
qed

lemma reach_steps: "rtranclp (insert_step env) x y \<Longrightarrow> insert_reach env objects x \<Longrightarrow> insert_reach env objects y"
  by (induction rule: rtranclp_induct) (auto intro: insert_reach.step)

section \<open>One provider: the inserts happen one after the other\<close>

text \<open>Nobody but the callers of one provider inserts into the path.\<close>

definition sole_writer :: "'p insert_env \<Rightarrow> nat \<Rightarrow> bool" where
  "sole_writer env v \<longleftrightarrow> (\<forall>c. caller_path env c = ie_path env v \<longrightarrow> ie_prov env c = v)"

text \<open>The callers of the provider in the order they committed.\<close>

definition commits :: "'p insert_env \<Rightarrow> nat \<Rightarrow> insert_world \<Rightarrow> nat list" where
  "commits env v x = filter (\<lambda>c. ie_prov env c = v) (ins_log x)"

text \<open>What a run of these inserts alone, in this order, makes of the object.\<close>

fun one_by_one :: "'p insert_env \<Rightarrow> nat list \<Rightarrow> byte list option \<Rightarrow> byte list option" where
  "one_by_one env [] old = old"
| "one_by_one env (c # cs) old = one_by_one env cs (new_file env c old)"

lemma one_by_one_append [simp]: "one_by_one env (cs @ ds) old = one_by_one env ds (one_by_one env cs old)"
  by (induction cs arbitrary: old) simp_all

definition running :: "caller \<Rightarrow> bool" where
  "running st \<longleftrightarrow> st = Locked \<or> (\<exists>old. st = HasRead old)"

lemma running_simps [simp]:
  "\<not> running Called" "running Locked" "running (HasRead old)" "\<not> running (Returned res)"
  by (auto simp: running_def)

text \<open>The mutex of a provider names exactly its running caller.\<close>

definition lock_inv :: "'p insert_env \<Rightarrow> insert_world \<Rightarrow> bool" where
  "lock_inv env x \<longleftrightarrow>
     (\<forall>p c. ins_mutex x p = Some c \<longleftrightarrow> ie_prov env c = p \<and> running (ins_callers x c))"

text \<open>An insert is in the log iff it returned a count and had something to do.\<close>

definition log_inv :: "'p insert_env \<Rightarrow> insert_world \<Rightarrow> bool" where
  "log_inv env x \<longleftrightarrow> distinct (ins_log x) \<and>
     (\<forall>c. c \<in> set (ins_log x) \<longleftrightarrow> (\<exists>n. ins_callers x c = Returned (Inr n)) \<and> \<not> no_rows env c) \<and>
     (\<forall>c n. ins_callers x c = Returned (Inr n) \<longrightarrow> n = sum_rows (rd_pending (ie_rows env c)))"

text \<open>What the running caller has read is what the object still holds.\<close>

definition data_inv :: "'p insert_env \<Rightarrow> (string \<Rightarrow> byte list option) \<Rightarrow> nat \<Rightarrow> insert_world \<Rightarrow> bool" where
  "data_inv env objects v x \<longleftrightarrow>
     (\<forall>c old. ins_callers x c = HasRead old \<longrightarrow>
        \<not> no_rows env c \<and> (ie_prov env c = v \<longrightarrow> old = ins_objects x (ie_path env v))) \<and>
     ins_objects x (ie_path env v) = one_by_one env (commits env v x) (objects (ie_path env v))"

lemma start_inv:
  "lock_inv env (insert_start objects)" "log_inv env (insert_start objects)"
  "data_inv env objects v (insert_start objects)"
  by (simp_all add: lock_inv_def log_inv_def data_inv_def insert_start_def commits_def)

lemma unlock_sel [simp]:
  "ins_mutex (unlock env c res x) = (ins_mutex x)(ie_prov env c := None)"
  "ins_callers (unlock env c res x) = (ins_callers x)(c := Returned res)"
  "ins_objects (unlock env c res x) = ins_objects x"
  "ins_log (unlock env c res x) = ins_log x"
  by (simp_all add: unlock_def)

lemma lock_holder:
  "lock_inv env x \<Longrightarrow> running (ins_callers x c) \<Longrightarrow> ins_mutex x (ie_prov env c) = Some c"
  by (simp add: lock_inv_def)

lemma only_holder:
  "lock_inv env x \<Longrightarrow> running (ins_callers x c) \<Longrightarrow> running (ins_callers x d) \<Longrightarrow> ie_prov env d = ie_prov env c \<Longrightarrow> d = c"
  by (metis lock_holder option.inject)

lemma unlock_lock_inv:
  assumes "lock_inv env x" and "running (ins_callers x c)"
  shows "lock_inv env (unlock env c res x)"
  unfolding lock_inv_def
proof (intro allI iffI)
  fix p d assume "ins_mutex (unlock env c res x) p = Some d"
  then have "p \<noteq> ie_prov env c" "ins_mutex x p = Some d" by (auto split: if_splits)
  then show "ie_prov env d = p \<and> running (ins_callers (unlock env c res x) d)"
    using assms(1) by (auto simp: lock_inv_def)
next
  fix p d assume d: "ie_prov env d = p \<and> running (ins_callers (unlock env c res x) d)"
  then have "d \<noteq> c" "running (ins_callers x d)" by (auto split: if_splits)
  with d only_holder [OF assms] have "p \<noteq> ie_prov env c" by auto
  with d \<open>running (ins_callers x d)\<close> show "ins_mutex (unlock env c res x) p = Some d"
    using assms(1) by (auto simp: lock_inv_def)
qed

lemma lock_inv_same:
  assumes "lock_inv env x" and "ins_mutex y = ins_mutex x"
    and "\<And>c. running (ins_callers y c) = running (ins_callers x c)"
  shows "lock_inv env y"
  using assms by (simp add: lock_inv_def)

lemma step_lock_inv:
  assumes "insert_step env x y" and "lock_inv env x"
  shows "lock_inv env y"
  using assms(1)
proof cases
  case (reject c)
  then show ?thesis using lock_inv_same [OF assms(2), of y] by auto
next
  case (lock c)
  show ?thesis
    unfolding lock_inv_def
  proof (intro allI)
    fix p d
    show "ins_mutex y p = Some d \<longleftrightarrow> ie_prov env d = p \<and> running (ins_callers y d)"
    proof (cases "d = c")
      case True
      then show ?thesis using lock assms(2) by (auto simp: lock_inv_def)
    next
      case False
      then have "running (ins_callers y d) = running (ins_callers x d)" using lock by simp
      moreover have "\<not> (ie_prov env d = ie_prov env c \<and> running (ins_callers x d))"
        using lock assms(2) by (metis lock_inv_def option.distinct(1))
      ultimately show ?thesis using lock assms(2) False by (auto simp: lock_inv_def)
    qed
  qed
next
  case (nothing c)
  then show ?thesis using unlock_lock_inv [OF assms(2), of c] by simp
next
  case (read c)
  then show ?thesis using lock_inv_same [OF assms(2), of y] by auto
next
  case (commit c old bytes)
  let ?z = "x\<lparr>ins_objects := (ins_objects x)(caller_path env c \<mapsto> bytes), ins_log := ins_log x @ [c]\<rparr>"
  have "lock_inv env ?z" using lock_inv_same [OF assms(2), of ?z] by simp
  then show ?thesis using unlock_lock_inv [of env ?z c] commit by simp
next
  case (fail c e)
  then show ?thesis using unlock_lock_inv [OF assms(2), of c] by (auto simp: running_def)
qed

lemma step_log_inv:
  assumes "insert_step env x y" and "log_inv env x" and "\<And>c old. ins_callers x c = HasRead old \<Longrightarrow> \<not> no_rows env c"
  shows "log_inv env y"
  using assms(1)
proof cases
  case (nothing c)
  then show ?thesis using assms(2) by (auto simp: log_inv_def no_rows_def)
next
  case (commit c old bytes)
  then have "c \<notin> set (ins_log x)" "\<not> no_rows env c" using assms(2,3) by (auto simp: log_inv_def)
  then show ?thesis using commit assms(2) by (auto simp: log_inv_def)
next
  case (fail c e)
  then have "c \<notin> set (ins_log x)" using assms(2) by (auto simp: log_inv_def)
  then show ?thesis using fail assms(2) by (auto simp: log_inv_def)
qed (use assms(2) in \<open>auto simp: log_inv_def\<close>)

lemma step_data_inv:
  assumes "insert_step env x y" and "data_inv env objects v x" and "lock_inv env x" and "sole_writer env v"
  shows "data_inv env objects v y"
  using assms(1)
proof cases
  case (commit c old bytes)
  have nr: "\<And>d old. ins_callers y d = HasRead old \<Longrightarrow> \<not> no_rows env d"
    using commit assms(2) by (auto simp: data_inv_def split: if_splits)
  show ?thesis
  proof (cases "ie_prov env c = v")
    case True
    then have "old = ins_objects x (ie_path env v)" using commit assms(2) by (auto simp: data_inv_def)
    then have "ins_objects y (ie_path env v) = one_by_one env (commits env v y) (objects (ie_path env v))"
      using commit True assms(2) by (simp add: data_inv_def commits_def caller_path_def)
    moreover have "ie_prov env d \<noteq> v" if "ins_callers y d = HasRead old'" for d old'
    proof
      assume "ie_prov env d = v"
      moreover have "d \<noteq> c" "ins_callers x d = HasRead old'" using that commit by (auto split: if_splits)
      ultimately show False using only_holder [OF assms(3), of c d] True commit by simp
    qed
    ultimately show ?thesis using nr by (auto simp: data_inv_def)
  next
    case False
    then have "caller_path env c \<noteq> ie_path env v" using assms(4) by (auto simp: sole_writer_def)
    then have "ins_objects y (ie_path env v) = ins_objects x (ie_path env v)" "commits env v y = commits env v x"
      using commit False by (simp_all add: commits_def)
    then show ?thesis using nr commit assms(2) by (auto simp: data_inv_def split: if_splits)
  qed
next
  case (read c)
  then show ?thesis using assms(2) by (auto simp: data_inv_def commits_def caller_path_def)
qed (use assms(2) in \<open>auto simp: data_inv_def commits_def\<close>)

lemma reach_inv:
  assumes "insert_reach env objects x"
  shows "lock_inv env x" and "log_inv env x" and "sole_writer env v \<Longrightarrow> data_inv env objects v x"
proof -
  have "lock_inv env x \<and> log_inv env x \<and> (\<forall>c old. ins_callers x c = HasRead old \<longrightarrow> \<not> no_rows env c) \<and>
      (sole_writer env v \<longrightarrow> data_inv env objects v x)"
    using assms
  proof induction
    case start
    then show ?case by (simp add: start_inv) (simp add: insert_start_def)
  next
    case (step x y)
    then have "\<forall>c old. ins_callers y c = HasRead old \<longrightarrow> \<not> no_rows env c"
      by (auto elim!: insert_step.cases split: if_splits)
    then show ?case using step step_lock_inv step_log_inv step_data_inv by metis
  qed
  then show "lock_inv env x" and "log_inv env x" and "sole_writer env v \<Longrightarrow> data_inv env objects v x" by auto
qed

section \<open>Every insert can come to its end\<close>

fun steps_left :: "caller \<Rightarrow> nat" where
  "steps_left Called = 3"
| "steps_left Locked = 2"
| "steps_left (HasRead old) = 1"
| "steps_left (Returned res) = 0"

text \<open>A step moves one caller forward and no other: an insert takes at most three of these steps.\<close>

lemma step_moves_one:
  assumes "insert_step env x y"
  shows "\<exists>c. steps_left (ins_callers y c) < steps_left (ins_callers x c) \<and>
    (\<forall>d. d \<noteq> c \<longrightarrow> ins_callers y d = ins_callers x d)"
  using assms by cases (auto intro: exI)

lemma running_can_stop:
  "running (ins_callers x c) \<Longrightarrow> insert_step env x (unlock env c (Inl CommitFailed) x)"
  by (rule fail) (simp add: running_def)

text \<open>No deadlock: whoever waits for a mutex waits for a caller that is free to go on.\<close>

lemma insert_can_finish:
  assumes "insert_reach env objects x"
  shows "\<exists>y res. rtranclp (insert_step env) x y \<and> ins_callers y c = Returned res"
proof -
  have free: "\<exists>y res. rtranclp (insert_step env) z y \<and> ins_callers y c = Returned res"
    if "ins_callers z c = Called" "ins_mutex z (ie_prov env c) = None" for z
  proof (cases "writable (ie_op env c)")
    case True
    let ?z1 = "z\<lparr>ins_mutex := (ins_mutex z)(ie_prov env c \<mapsto> c), ins_callers := (ins_callers z)(c := Locked)\<rparr>"
    have "insert_step env z ?z1" by (rule lock) (use that True in auto)
    moreover have "insert_step env ?z1 (unlock env c (Inl CommitFailed) ?z1)" by (rule running_can_stop) simp
    ultimately have "rtranclp (insert_step env) z (unlock env c (Inl CommitFailed) ?z1)"
      by (meson r_into_rtranclp rtranclp_trans)
    then show ?thesis by (intro exI conjI) auto
  next
    case False
    from reject [OF that(1) False] show ?thesis by (intro exI conjI) (rule r_into_rtranclp, auto)
  qed
  have stop: "\<exists>y res. rtranclp (insert_step env) x y \<and> ins_callers y c = Returned res" if "running (ins_callers x c)"
    using running_can_stop [OF that, of env] by (intro exI conjI) (rule r_into_rtranclp, auto)
  show ?thesis
  proof (cases "ins_callers x c")
    case (Returned res)
    then show ?thesis by blast
  next
    case Called
    show ?thesis
    proof (cases "ins_mutex x (ie_prov env c)")
      case None
      then show ?thesis using free Called by blast
    next
      case (Some d)
      then have d: "ie_prov env d = ie_prov env c" "running (ins_callers x d)"
        using reach_inv(1) [OF assms] by (auto simp: lock_inv_def)
      then have "d \<noteq> c" using Called by auto
      let ?z = "unlock env d (Inl CommitFailed) x"
      have "insert_step env x ?z" using d(2) by (rule running_can_stop)
      moreover have "\<exists>y res. rtranclp (insert_step env) ?z y \<and> ins_callers y c = Returned res"
        by (rule free) (use Called d \<open>d \<noteq> c\<close> in auto)
      ultimately show ?thesis by (meson converse_rtranclp_into_rtranclp)
    qed
  qed (use stop in simp_all)
qed

section \<open>The rows of the table\<close>

text \<open>
  What a scan of an object yields, \<open>rows_of\<close> being the rows of a batch, and what inserts running
  alone, one after the other, make of a table.
\<close>

definition table_rows ::
  "(Batch \<Rightarrow> 'r list) \<Rightarrow> (byte list option \<Rightarrow> string + RecordReader) \<Rightarrow> byte list option \<Rightarrow> 'r list option" where
  "table_rows rows_of scan old =
     map_option (\<lambda>bs. concat (map rows_of bs)) (existing_batches InsertAppend scan old)"

definition inserted_rows :: "(Batch \<Rightarrow> 'r list) \<Rightarrow> 'p insert_env \<Rightarrow> nat \<Rightarrow> 'r list" where
  "inserted_rows rows_of env c = concat (map rows_of (rd_pending (ie_rows env c)))"

fun table_after :: "(Batch \<Rightarrow> 'r list) \<Rightarrow> 'p insert_env \<Rightarrow> nat list \<Rightarrow> 'r list \<Rightarrow> 'r list" where
  "table_after rows_of env [] t = t"
| "table_after rows_of env (c # cs) t =
     table_after rows_of env cs ((if ie_op env c = InsertAppend then t else []) @ inserted_rows rows_of env c)"

lemma table_after_append [simp]:
  "table_after rows_of env (cs @ ds) t = table_after rows_of env ds (table_after rows_of env cs t)"
  by (induction cs arbitrary: t) simp_all

lemma table_after_appends:
  "(\<And>c. c \<in> set cs \<Longrightarrow> ie_op env c = InsertAppend) \<Longrightarrow>
   table_after rows_of env cs t = t @ concat (map (inserted_rows rows_of env) cs)"
  by (induction cs arbitrary: t) simp_all

text \<open>
  The Parquet writer and reader of the library: a file reads back as the rows written to it, and
  a batch under the table's schema has the same rows.
\<close>

definition codec_ok :: "(Batch \<Rightarrow> 'r list) \<Rightarrow> 'p FileWriter \<Rightarrow> Field list \<Rightarrow> (byte list option \<Rightarrow> string + RecordReader) \<Rightarrow> bool" where
  "codec_ok rows_of fw schema scan \<longleftrightarrow>
     (\<forall>bs bytes. encode_file fw schema bs = Some bytes \<longrightarrow>
        table_rows rows_of scan (Some bytes) = Some (concat (map rows_of bs))) \<and>
     (\<forall>b. rows_of (rebindSchema b schema) = rows_of b)"

lemma new_file_rows:
  assumes "codec_ok rows_of (ie_fw env) (caller_schema env c) (ie_scan env)"
    and "new_file env c old = Some bytes" and "table_rows rows_of (ie_scan env) old = Some t"
  shows "table_rows rows_of (ie_scan env) (Some bytes) = Some (table_after rows_of env [c] t)"
proof -
  let ?new = "map (\<lambda>b. rebindSchema b (caller_schema env c)) (rd_pending (ie_rows env c))"
  obtain olds where olds: "existing_batches (ie_op env c) (ie_scan env) old = Some olds"
    "encode_file (ie_fw env) (caller_schema env c) (olds @ ?new) = Some bytes"
    using assms(2) by (auto simp: new_file_def split: option.splits if_splits)
  then have rows: "table_rows rows_of (ie_scan env) (Some bytes) = Some (concat (map rows_of (olds @ ?new)))"
    using assms(1) by (simp add: codec_ok_def)
  have "rows_of \<circ> (\<lambda>b. rebindSchema b (caller_schema env c)) = rows_of"
    using assms(1) by (simp add: codec_ok_def o_def)
  moreover have "concat (map rows_of olds) = (if ie_op env c = InsertAppend then t else [])"
    using olds(1) assms(3) by (auto simp: table_rows_def existing_batches_def)
  ultimately show ?thesis using rows by (simp add: inserted_rows_def)
qed

lemma step_rows:
  assumes "insert_step env x y" and "data_inv env objects v x" and "sole_writer env v"
    and "codec_ok rows_of (ie_fw env) (ie_schema env v) (ie_scan env)"
    and "table_rows rows_of (ie_scan env) (ins_objects x (ie_path env v)) = Some (table_after rows_of env (commits env v x) t)"
  shows "table_rows rows_of (ie_scan env) (ins_objects y (ie_path env v)) = Some (table_after rows_of env (commits env v y) t)"
  using assms(1)
proof cases
  case (commit c old bytes)
  show ?thesis
  proof (cases "ie_prov env c = v")
    case True
    then have "old = ins_objects x (ie_path env v)" using commit assms(2) by (auto simp: data_inv_def)
    then show ?thesis
      using new_file_rows [of rows_of env c old bytes] assms(4,5) commit True
      by (simp add: commits_def caller_schema_def caller_path_def)
  next
    case False
    then have "caller_path env c \<noteq> ie_path env v" using assms(3) by (auto simp: sole_writer_def)
    then show ?thesis using commit False assms(5) by (simp add: commits_def)
  qed
qed (use assms(5) in \<open>simp_all add: commits_def\<close>)

lemma reach_rows:
  assumes "insert_reach env objects x" and "sole_writer env v"
    and "codec_ok rows_of (ie_fw env) (ie_schema env v) (ie_scan env)"
    and "table_rows rows_of (ie_scan env) (objects (ie_path env v)) = Some t"
  shows "table_rows rows_of (ie_scan env) (ins_objects x (ie_path env v)) = Some (table_after rows_of env (commits env v x) t)"
  using assms(1)
proof induction
  case start
  then show ?case using assms(4) by (simp add: insert_start_def commits_def)
next
  case (step x y)
  show ?case
    by (rule step_rows [OF step(2) reach_inv(3) [OF step(1) assms(2)] assms(2,3) step(3)])
qed

text \<open>C13: INSERTs into one table provider, however many run at once and whichever of them fail, leave
  the table that the ones which returned a count, each exactly once, would have left running alone
  one after the other: an append adds its rows to those the one before it left, an overwrite
  replaces them, and no insert's rows are lost to another's rewrite. Every count returned is that
  caller's number of rows. The writer and reader of the format are the library's; a file is taken
  to read back as the rows written to it.\<close>

theorem concurrent_inserts_serialized:
  assumes "insert_reach env objects x" and "sole_writer env v"
    and "codec_ok rows_of (ie_fw env) (ie_schema env v) (ie_scan env)"
    and "table_rows rows_of (ie_scan env) (objects (ie_path env v)) = Some t"
  shows "\<exists>cs. table_rows rows_of (ie_scan env) (ins_objects x (ie_path env v)) = Some (table_after rows_of env cs t) \<and>
    distinct cs \<and>
    set cs = {c. ie_prov env c = v \<and> (\<exists>n. ins_callers x c = Returned (Inr n)) \<and> \<not> no_rows env c} \<and>
    (\<forall>c n. ins_callers x c = Returned (Inr n) \<longrightarrow> n = sum_rows (rd_pending (ie_rows env c)))"
proof (intro exI conjI)
  show "table_rows rows_of (ie_scan env) (ins_objects x (ie_path env v)) = Some (table_after rows_of env (commits env v x) t)"
    by (rule reach_rows [OF assms])
qed (use reach_inv(2) [OF assms(1)] in \<open>auto simp: log_inv_def commits_def\<close>)

text \<open>A format for examples: a byte per batch, its number of rows, between a header and a footer.\<close>

definition count_writer :: "unit FileWriter" where
  "count_writer =
     \<lparr>fw_New = (\<lambda>fs. Inr ((), [[80]])),
      fw_Write = (\<lambda>p b. if uint (b_numRows b) < 256 then Inr ((), [[word_of_int (uint (b_numRows b))]])
                        else Inl ''too many rows''),
      fw_Close = (\<lambda>p. Inr [[70]])\<rparr>"

definition count_batch :: "byte \<Rightarrow> Batch" where
  "count_batch w = \<lparr>b_fields = [], b_columns = [], b_numRows = word_of_int (uint w)\<rparr>"

definition count_scan :: "byte list option \<Rightarrow> string + RecordReader" where
  "count_scan old =
     (case old of
        Some (w # ws) \<Rightarrow> Inr (LibReader [] (map count_batch (butlast ws)) None None 1)
      | _ \<Rightarrow> Inl ''not a file'')"

lemma count_batch_ok: "batch_ok (count_batch w)"
  using uint_lt2p [of w] bit_imp_le_length [of w 63]
  by (auto simp: count_batch_def batch_ok_def signed_ucast_eq signed_take_bit_int_eq_self bit_uint_iff)

lemma final_err_lib: "final_err (LibReader fs bs cur None n) = None"
proof (induction bs arbitrary: cur)
  case Nil
  then show ?case by (simp add: final_err_Nil)
next
  case (Cons b bs)
  then show ?case using final_err_Cons [of "LibReader fs (b # bs) cur None n" b bs "LibReader fs bs (Some b) None n"] by simp
qed

lemma count_encode:
  "encode_batches count_writer p bs = Some (p', out) \<Longrightarrow>
   map (\<lambda>w. b_numRows (count_batch w)) out = map b_numRows bs"
proof (induction bs arbitrary: p out)
  case (Cons b bs)
  then have lt: "uint (b_numRows b) < 256" by (auto simp: count_writer_def split: if_splits)
  have w: "word_of_int (uint (word_of_int (uint (b_numRows b)) :: byte)) = b_numRows b"
    using lt by (intro word_uint_eqI) (simp add: unsigned_ucast_eq take_bit_int_eq_self)
  from Cons.prems lt obtain out2 where "encode_batches count_writer () bs = Some (p', out2)"
    "out = word_of_int (uint (b_numRows b)) # out2"
    by (auto simp: count_writer_def)
  with Cons.IH w show ?case by (simp add: count_batch_def)
qed simp

lemma count_codec: "codec_ok (\<lambda>b. [b_numRows b]) count_writer schema count_scan"
  unfolding codec_ok_def
proof (intro conjI allI impI)
  fix bs bytes assume "encode_file count_writer schema bs = Some bytes"
  then obtain out where out: "encode_batches count_writer () bs = Some ((), out)" "bytes = 80 # out @ [70]"
    by (auto simp: encode_file_def count_writer_def split: option.splits)
  have "map (b_numRows \<circ> count_batch) out = map b_numRows bs"
    using count_encode [OF out(1)] by (simp add: o_def)
  then show "table_rows (\<lambda>b. [b_numRows b]) count_scan (Some bytes) = Some (concat (map (\<lambda>b. [b_numRows b]) bs))"
    using out(2) by (simp add: table_rows_def existing_batches_def count_scan_def final_err_lib o_def)
qed (simp add: rebindSchema_def)

definition count_env :: "(nat \<Rightarrow> nat) \<Rightarrow> unit insert_env" where
  "count_env prov =
     \<lparr>ie_fw = count_writer, ie_scan = count_scan, ie_path = (\<lambda>v. ''t''), ie_schema = (\<lambda>v. []), ie_prov = prov,
      ie_op = (\<lambda>c. InsertAppend),
      ie_rows = (\<lambda>c. LibReader [] [count_batch (of_nat (Suc c))] None None 1)\<rparr>"

lemma count_word:
  fixes w :: byte
  shows "word_of_int (uint (word_of_int (uint w) :: i64)) = w" "uint (word_of_int (uint w) :: i64) < 256"
proof -
  have "uint w < 256" using uint_lt2p [of w] by simp
  then have "uint (word_of_int (uint w) :: i64) = uint w"
    by (simp add: unsigned_ucast_eq take_bit_int_eq_self)
  with \<open>uint w < 256\<close> show "word_of_int (uint (word_of_int (uint w) :: i64)) = w"
    "uint (word_of_int (uint w) :: i64) < 256" by (simp_all only: word_of_int_uint)
qed

lemma count_encode_bytes: "encode_batches count_writer p (map count_batch ws) = Some ((), ws)"
proof (induction ws arbitrary: p)
  case (Cons w ws)
  then show ?case using count_word [of w] by (simp add: count_writer_def count_batch_def del: of_int_uint)
qed simp

lemma count_new_file:
  "new_file (count_env prov) c (Some (80 # ws @ [70])) = Some (80 # ws @ [of_nat (Suc c), 70])"
proof -
  have "encode_file count_writer [] (map count_batch (ws @ [of_nat (Suc c)])) = Some (80 # ws @ [of_nat (Suc c), 70])"
    unfolding encode_file_def count_encode_bytes by (simp add: count_writer_def)
  then show ?thesis
    by (simp add: new_file_def count_env_def existing_batches_def count_scan_def final_err_lib caller_schema_def
        rebindSchema_def count_batch_def)
qed

lemmas count_commit = count_new_file [of _ _ "[9]", simplified] count_new_file [of _ _ "[9, 1]", simplified]

lemma two_orders:
  assumes "distinct cs" and "set cs = {a, b}" and "a \<noteq> b"
  shows "cs = [a, b] \<or> cs = [b, a]"
proof -
  have "length cs = 2" using distinct_card [OF assms(1)] assms(2,3) by simp
  then obtain x y where "cs = [x, y]" by (auto simp: length_Suc_conv numeral_2_eq_2)
  then show ?thesis using assms by (auto simp: doubleton_eq_iff)
qed

theorem concurrent_inserts_serialized_witness:
  "\<exists>x. insert_reach (count_env (\<lambda>c. 0)) (\<lambda>p. Some [80, 9, 70]) x \<and>
    ins_callers x 0 = Returned (Inr 1) \<and> ins_callers x 1 = Returned (Inr 2) \<and>
    (table_rows (\<lambda>b. [b_numRows b]) count_scan (ins_objects x ''t'') = Some [9, 1, 2] \<or>
     table_rows (\<lambda>b. [b_numRows b]) count_scan (ins_objects x ''t'') = Some [9, 2, 1])"
proof -
  let ?env = "count_env (\<lambda>c. 0)"
  let ?x0 = "insert_start (\<lambda>p. Some [80, 9, 70])"
  let ?x1 = "inserted ?env 0 [80, 9, 1, 70] ?x0"
  let ?x2 = "inserted ?env 1 [80, 9, 1, 2, 70] ?x1"
  have path: "caller_path ?env c = ''t''" for c by (simp add: caller_path_def count_env_def)
  have free: "ie_prov ?env c = 0" "writable (ie_op ?env c)" "\<not> no_rows ?env c" for c
    by (simp_all add: count_env_def writable_def no_rows_def)
  have "rtranclp (insert_step ?env) ?x0 ?x1"
    by (rule run_alone) (simp_all add: insert_start_def path free count_commit)
  moreover have "rtranclp (insert_step ?env) ?x1 ?x2"
    by (rule run_alone) (simp_all add: insert_start_def inserted_def path free count_commit)
  ultimately have x2: "insert_reach ?env (\<lambda>p. Some [80, 9, 70]) ?x2"
    by (meson insert_reach.start reach_steps)
  have ret: "ins_callers ?x2 c = (if c = 0 then Returned (Inr 1) else if c = 1 then Returned (Inr 2) else Called)" for c
    by (simp add: inserted_def insert_start_def count_env_def count_batch_def)
  have "table_rows (\<lambda>b. [b_numRows b]) (ie_scan ?env) (Some [80, 9, 70]) = Some [9]"
    by (simp add: table_rows_def count_env_def existing_batches_def count_scan_def final_err_lib count_batch_def)
  then obtain cs where cs: "table_rows (\<lambda>b. [b_numRows b]) (ie_scan ?env) (ins_objects ?x2 (ie_path ?env 0)) =
      Some (table_after (\<lambda>b. [b_numRows b]) ?env cs [9])" "distinct cs"
    "set cs = {c. ie_prov ?env c = 0 \<and> (\<exists>n. ins_callers ?x2 c = Returned (Inr n)) \<and> \<not> no_rows ?env c}"
    using concurrent_inserts_serialized [OF x2, of 0 "\<lambda>b. [b_numRows b]" "[9]"] count_codec
    by (auto simp: sole_writer_def count_env_def)
  have "set cs = {0, 1}" using cs(3) ret by (auto simp: count_env_def no_rows_def split: if_splits)
  then have "cs = [0, 1] \<or> cs = [1, 0]" using two_orders [OF cs(2), of 0 1] by simp
  then show ?thesis using x2 ret cs(1) by (auto simp: count_env_def inserted_rows_def count_batch_def)
qed

text \<open>
  Two providers of one path, each with a mutex of its own, are not serialized: both inserts return
  a count and the table holds the second one's row only.
\<close>

lemma two_providers_lose_rows:
  "\<exists>x. insert_reach (count_env (\<lambda>c. c)) (\<lambda>p. Some [80, 9, 70]) x \<and>
    ins_callers x 0 = Returned (Inr 1) \<and> ins_callers x 1 = Returned (Inr 2) \<and>
    table_rows (\<lambda>b. [b_numRows b]) count_scan (ins_objects x ''t'') = Some [9, 2]"
proof -
  let ?env = "count_env (\<lambda>c. c)"
  let ?lock = "\<lambda>c x. x\<lparr>ins_mutex := (ins_mutex x)(ie_prov ?env c \<mapsto> c), ins_callers := (ins_callers x)(c := Locked)\<rparr>"
  let ?read = "\<lambda>c x. x\<lparr>ins_callers := (ins_callers x)(c := HasRead (ins_objects x (caller_path ?env c)))\<rparr>"
  let ?x0 = "insert_start (\<lambda>p. Some [80, 9, 70])"
  let ?x1 = "?lock 0 ?x0" let ?x2 = "?read 0 ?x1"
  let ?x3 = "?lock 1 ?x2" let ?x4 = "?read 1 ?x3"
  let ?x5 = "inserted ?env 0 [80, 9, 1, 70] ?x4"
  let ?x6 = "inserted ?env 1 [80, 9, 2, 70] ?x5"
  have path: "caller_path ?env c = ''t''" for c by (simp add: caller_path_def count_env_def)
  have free: "ie_prov ?env c = c" "writable (ie_op ?env c)" "\<not> no_rows ?env c" for c
    by (simp_all add: count_env_def writable_def no_rows_def)
  have r2: "insert_reach ?env (\<lambda>p. Some [80, 9, 70]) ?x2"
    by (rule insert_reach.step [OF insert_reach.step [OF insert_reach.start lock] read])
      (simp_all add: insert_start_def path free)
  have r4: "insert_reach ?env (\<lambda>p. Some [80, 9, 70]) ?x4"
    by (rule insert_reach.step [OF insert_reach.step [OF r2 lock] read]) (simp_all add: insert_start_def path free)
  have r5: "insert_reach ?env (\<lambda>p. Some [80, 9, 70]) ?x5"
    unfolding inserted_def
    by (rule insert_reach.step [OF r4 commit [where old = "Some [80, 9, 70]"]]) (simp_all add: insert_start_def path free count_commit)
  have r6: "insert_reach ?env (\<lambda>p. Some [80, 9, 70]) ?x6"
    unfolding inserted_def [of _ 1]
    by (rule insert_reach.step [OF r5 commit [where old = "Some [80, 9, 70]"]]) (simp_all add: insert_start_def inserted_def path free count_commit)
  have "table_rows (\<lambda>b. [b_numRows b]) count_scan (Some [80, 9, 2, 70]) = Some [9, 2]"
    by (simp add: table_rows_def existing_batches_def count_scan_def final_err_lib count_batch_def)
  moreover have "ins_objects ?x6 ''t'' = Some [80, 9, 2, 70]" by (simp add: inserted_def path)
  moreover have "ins_callers ?x6 0 = Returned (Inr 1)" "ins_callers ?x6 1 = Returned (Inr 2)"
    by (simp_all add: inserted_def count_env_def count_batch_def)
  ultimately show ?thesis using r6 by metis
qed

section \<open>InsertInto takes these steps\<close>

text \<open>
  A call that meets no other, on any store that keeps the commit contract: what \<open>InsertInto\<close>
  returns and what it leaves published is what some sequence of steps of its caller leaves.
\<close>

lemma unsupported_insert:
  "InsertInto st fw os scan path schema op rows s = (res, rows', s') \<Longrightarrow> \<not> writable op \<Longrightarrow>
   res = Inl (UnsupportedInsert op) \<and> s' = s"
  by (auto simp: InsertInto_def writable_def)

context object_store
begin

lemma InsertInto_steps:
  assumes run: "InsertInto ops (ie_fw env) os (ie_scan env) (caller_path env c) (caller_schema env c) (ie_op env c)
      (ie_rows env c) s = (res, rows', s')"
    and "valid_path (caller_path env c)" and "rd_ok (ie_rows env c)"
    and "\<And>r. ie_scan env (published s (caller_path env c)) = Inr r \<Longrightarrow> rd_ok r"
    and x: "ins_objects x = published s" "ins_callers x c = Called" "ins_mutex x (ie_prov env c) = None"
  shows "\<exists>y. rtranclp (insert_step env) x y \<and> ins_objects y = published s' \<and> ins_callers y c = Returned res \<and>
    ins_mutex y (ie_prov env c) = None"
proof (cases "writable (ie_op env c)")
  case False
  note un = unsupported_insert [OF run False]
  have "insert_step env x (x\<lparr>ins_callers := (ins_callers x)(c := Returned res)\<rparr>)"
    using reject [OF x(2) False] un by simp
  then show ?thesis using un x by (intro exI [of _ "x\<lparr>ins_callers := (ins_callers x)(c := Returned res)\<rparr>"]) auto
next
  case w: True
  note ok = InsertInto_ok [OF run assms(2-4)]
  let ?x1 = "x\<lparr>ins_mutex := (ins_mutex x)(ie_prov env c \<mapsto> c), ins_callers := (ins_callers x)(c := Locked)\<rparr>"
  have l: "insert_step env x ?x1" by (rule lock) (use w x in auto)
  show ?thesis
  proof (cases res)
    case (Inl e)
    have "insert_step env ?x1 (unlock env c (Inl e) ?x1)" by (rule fail) simp
    with l have "rtranclp (insert_step env) x (unlock env c (Inl e) ?x1)" by (meson r_into_rtranclp rtranclp_trans)
    then show ?thesis using Inl ok x by (intro exI [of _ "unlock env c (Inl e) ?x1"]) auto
  next
    case (Inr n)
    show ?thesis
    proof (cases "no_rows env c")
      case True
      have "insert_step env ?x1 (unlock env c (Inr 0) ?x1)" by (rule nothing) (use ok Inr True in auto)
      with l have "rtranclp (insert_step env) x (unlock env c (Inr 0) ?x1)" by (meson r_into_rtranclp rtranclp_trans)
      then show ?thesis using True Inr ok x
        by (intro exI [of _ "unlock env c (Inr 0) ?x1"]) (auto simp: no_rows_def)
    next
      case False
      then obtain bytes where bytes: "new_file env c (published s (caller_path env c)) = Some bytes"
        "published s' = (published s)(caller_path env c \<mapsto> bytes)" "n = sum_rows (rd_pending (ie_rows env c))"
        using ok Inr by (auto simp: no_rows_def new_file_def)
      have "rtranclp (insert_step env) x (inserted env c bytes x)"
        by (rule run_alone) (use w x False bytes in auto)
      then show ?thesis using Inr bytes x by (intro exI [of _ "inserted env c bytes x"]) (auto simp: inserted_def)
    qed
  qed
qed

end

text \<open>One INSERT into a file of the local file system that meets no other is a run of the steps of
  the concurrent model: it ends with the same result, the same visible files and the mutex free,
  whatever each call to the operating system returns.\<close>

theorem local_insert_takes_steps:
  assumes "InsertInto filesystem_store (ie_fw env) os (ie_scan env) (caller_path env c) (caller_schema env c)
      (ie_op env c) (ie_rows env c) fs = (res, rows', fs')"
    and "\<not> is_temp (caller_path env c)" and "rd_ok (ie_rows env c)"
    and "\<And>r. ie_scan env (visible fs (caller_path env c)) = Inr r \<Longrightarrow> rd_ok r"
  shows "\<exists>y. rtranclp (insert_step env) (insert_start (visible fs)) y \<and> ins_objects y = visible fs' \<and>
    ins_callers y c = Returned res \<and> ins_mutex y (ie_prov env c) = None"
  by (rule local_store.InsertInto_steps [OF assms(1) [unfolded store_ops(2)]])
    (use assms(2-4) in \<open>auto simp: insert_start_def\<close>)

theorem local_insert_takes_steps_witness:
  "\<exists>res rows fs' y. InsertInto filesystem_store count_writer (\<lambda>i. good_os) count_scan ''t'' [] InsertAppend
      (LibReader [] [count_batch 1] None None 1) (\<lambda>p. if p = ''t'' then Some [80, 9, 70] else None) = (res, rows, fs') \<and>
    rtranclp (insert_step (count_env (\<lambda>c. 0))) (insert_start (visible (\<lambda>p. if p = ''t'' then Some [80, 9, 70] else None))) y \<and>
    ins_objects y = visible fs' \<and> ins_callers y 0 = Returned res"
proof -
  let ?fs = "\<lambda>p. if p = ''t'' then Some [80, 9, 70] else (None :: byte list option)"
  let ?env = "count_env (\<lambda>c. 0)"
  have env: "ie_fw ?env = count_writer" "ie_scan ?env = count_scan" "caller_path ?env 0 = ''t''"
    "caller_schema ?env 0 = []" "ie_op ?env 0 = InsertAppend" "ie_rows ?env 0 = LibReader [] [count_batch 1] None None 1"
    by (simp_all add: count_env_def caller_path_def caller_schema_def)
  obtain res rows fs' where run: "InsertInto filesystem_store count_writer (\<lambda>i. good_os) count_scan ''t'' []
      InsertAppend (LibReader [] [count_batch 1] None None 1) ?fs = (res, rows, fs')" by (rule prod_cases3)
  have temp: "\<not> is_temp ''t''"
    by (simp add: is_temp_def path_simps has_prefix_def localTmpPrefix_def)
  have "\<exists>y. rtranclp (insert_step ?env) (insert_start (visible ?fs)) y \<and> ins_objects y = visible fs' \<and>
      ins_callers y 0 = Returned res \<and> ins_mutex y (ie_prov ?env 0) = None"
    by (rule local_insert_takes_steps [where env = ?env and c = 0, unfolded env, OF run temp])
      (auto simp: count_scan_def count_batch_ok list_all_iff split: option.splits list.splits)
  with run show ?thesis by blast
qed

end
