(* ===== verification/Engine_Insert.thy ===== *)
theory Engine_Insert
  imports Callbacks_Correct Insert_Correct
begin

text \<open>
  The writable Parquet provider behind a handle: what an INSERT of the engine leaves for its
  scans. The callbacks, \<open>InsertInto\<close>, the store's commit, the opening of the new file, the
  predicates' way over the wire and the pruned scan in one statement.
\<close>

section \<open>The provider\<close>

text \<open>
  \<open>t.Scan\<close> as \<open>streamExistingRows\<close> calls it; \<open>open_file\<close> is the library's opening of an
  object's bytes.
\<close>

definition own_scan :: "(byte list option \<Rightarrow> ('r, 'bf) open_result) \<Rightarrow> byte list option \<Rightarrow> string + RecordReader" where
  "own_scan open_file old =
     (case fst (Scan (open_file old)) of Inl e \<Rightarrow> Inl (scan_err_text e) | Inr r \<Rightarrow> Inr r)"

text \<open>The messages, without the operation's number and the store's errors.\<close>

definition insert_err_text :: "insert_err \<Rightarrow> string" where
  "insert_err_text e =
     (case e of
        UnsupportedInsert op \<Rightarrow> ''parquet: insert op not supported (only Append and Overwrite)''
      | ReadInput m \<Rightarrow> ''parquet: reading insert input: '' @ m
      | CreateWriter \<Rightarrow> ''parquet: creating writer for insert''
      | OpenWriter m \<Rightarrow> ''parquet: opening writer for insert: '' @ m
      | ReadExisting m \<Rightarrow> ''parquet: reading existing rows for append: '' @ m
      | WriteBatch m \<Rightarrow> ''parquet: writing insert batch: '' @ m
      | Finalize m \<Rightarrow> ''parquet: finalizing insert: '' @ m
      | CommitFailed \<Rightarrow> ''parquet: committing insert'')"

text \<open>The provider's methods on a store in state \<open>s\<close>, and the state an insert leaves.\<close>

definition parquet_provider ::
  "('o, 's, 'w) Store \<Rightarrow> 'p FileWriter \<Rightarrow> (nat \<Rightarrow> 'o) \<Rightarrow> (byte list option \<Rightarrow> ('r, 'bf) open_result) \<Rightarrow> string \<Rightarrow> Schema \<Rightarrow> 's \<Rightarrow>
   table_provider" where
  "parquet_provider st fw os open_file path sc s =
     (parquet_table sc (open_file (st_published st s path)))
       \<lparr>tp_InsertInto := Some (\<lambda>op rows.
          case InsertInto st fw os (own_scan open_file) path (schema_fields sc) op rows s of
            (res, rows', s') \<Rightarrow>
              (Returns (case res of Inl e \<Rightarrow> Inl (insert_err_text e) | Inr n \<Rightarrow> Inr n), rows'))\<rparr>"

definition after_insert ::
  "('o, 's, 'w) Store \<Rightarrow> 'p FileWriter \<Rightarrow> (nat \<Rightarrow> 'o) \<Rightarrow> (byte list option \<Rightarrow> ('r, 'bf) open_result) \<Rightarrow> string \<Rightarrow> Schema \<Rightarrow>
   InsertOp \<Rightarrow> RecordReader \<Rightarrow> 's \<Rightarrow> 's" where
  "after_insert st fw os open_file path sc op rows s =
     snd (snd (InsertInto st fw os (own_scan open_file) path (schema_fields sc) op rows s))"

section \<open>Files with rows\<close>

text \<open>The library's promises of an opened file, whose rows are \<open>t\<close> in order.\<close>

definition holds_rows :: "Schema \<Rightarrow> ('r, 'bf) open_result \<Rightarrow> row list \<Rightarrow> bool" where
  "holds_rows sc opened t \<longleftrightarrow>
     (\<exists>f rows full. opened = Opened f \<and> file_promise f sc rows \<and> manifest_ok f sc \<and> read_promise f sc full \<and>
        full_promise f rows full \<and> (\<forall>rgs. \<forall>b \<in> set (full rgs). length (b_columns b) = length (schema_fields sc)) \<and>
        t = concat (map rows [0..<length (pf_rowGroups f)]))"

text \<open>
  The Parquet writer: a file it finished, of rows without a NaN, opens as a file of these rows
  that its statistics describe.
\<close>

definition library_ok :: "'p FileWriter \<Rightarrow> Schema \<Rightarrow> (byte list option \<Rightarrow> ('r, 'bf) open_result) \<Rightarrow> bool" where
  "library_ok fw sc open_file \<longleftrightarrow>
     (\<forall>bs bytes. encode_file fw (schema_fields sc) bs = Some bytes \<and> rows_no_nan (concat (map batch_rows bs)) \<longrightarrow>
        holds_rows sc (open_file (Some bytes)) (concat (map batch_rows bs)))"

lemma batch_rows_project_all:
  assumes "length (b_columns b) = n"
  shows "batch_rows (project_batch fs (map int [0..<n]) b) = batch_rows b"
proof -
  have "b_columns (project_batch fs (map int [0..<n]) b) = b_columns b" "b_numRows (project_batch fs (map int [0..<n]) b) = b_numRows b"
    using assms map_nth [of "b_columns b"] by (simp_all add: project_batch_def comp_def)
  then show ?thesis unfolding batch_rows_def by (simp only:)
qed

lemma batch_rows_rebind [simp]: "batch_rows (rebindSchema b fs) = batch_rows b"
proof -
  have "b_columns (rebindSchema b fs) = b_columns b" "b_numRows (rebindSchema b fs) = b_numRows b"
    by (simp_all add: rebindSchema_def)
  then show ?thesis unfolding batch_rows_def by (simp only:)
qed

lemma no_nan_append [simp]: "rows_no_nan (xs @ ys) \<longleftrightarrow> rows_no_nan xs \<and> rows_no_nan ys"
  by (auto simp: rows_no_nan_def)

lemma no_nan_concat: "rows_no_nan (concat xss) \<longleftrightarrow> (\<forall>xs \<in> set xss. rows_no_nan xs)"
  by (auto simp: rows_no_nan_def)

lemma holds_rows_no_nan: "holds_rows sc opened t \<Longrightarrow> rows_no_nan t"
  by (auto simp: holds_rows_def file_promise_def group_promise_def no_nan_concat)

lemma own_scan_rows:
  assumes "holds_rows sc (open_file old) t" and "own_scan open_file old = Inr r"
  shows "rd_ok r" "concat (map batch_rows (rd_pending r)) = t"
proof -
  obtain f rows full where f: "open_file old = Opened f" "manifest_ok f sc" "read_promise f sc full"
    "full_promise f rows full" "\<And>rgs b. b \<in> set (full rgs) \<Longrightarrow> length (b_columns b) = length (schema_fields sc)"
    "t = concat (map rows [0..<length (pf_rowGroups f)])"
    using assms(1) unfolding holds_rows_def by blast
  have "getRecordReader f None None = Inr r"
    using assms(2) f(1) by (auto simp: own_scan_def Scan_def split: sum.splits)
  moreover have "read_fields f None = Some (map int [0..<length (schema_fields sc)])"
    using f(2) by (simp add: read_fields_def manifest_ok_def NumFields_def)
  ultimately have r: "rd_ok r" "rd_pending r = map (project_batch (rd_Schema r) (map int [0..<length (schema_fields sc)])) (full None)"
    using getRecordReader_exact [OF f(3)] by blast+
  then show "rd_ok r" by simp
  have "map batch_rows (rd_pending r) = map batch_rows (full None)"
    using r(2) f(5) batch_rows_project_all by simp
  then show "concat (map batch_rows (rd_pending r)) = t"
    using f(4,6) by (simp add: full_promise_def selected_def)
qed

section \<open>INSERT, then SELECT\<close>

lemma go_table_insert_result:
  assumes "h_live h n = Some (TableImpl (parquet_provider st fw os open_file path sc s))" and "insertOpFromC v = Inr op"
    and "go_table_insert h n (Inr (Some rows)) v = (Inr count, left)"
  shows "\<exists>rows'. InsertInto st fw os (own_scan open_file) path (schema_fields sc) op rows s =
    (Inr count, rows', after_insert st fw os open_file path sc op rows s)"
proof -
  obtain res rows' s' where run: "InsertInto st fw os (own_scan open_file) path (schema_fields sc) op rows s =
      (res, rows', s')" by (rule prod_cases3)
  then show ?thesis
    using assms
    by (cases res) (auto simp: go_table_insert_def handle_value_def as_writable_def parquet_provider_def
        trapCallbackPanic_def after_insert_def)
qed

lemma insert_leaves_rows:
  assumes "InsertInto filesystem_store fw os (own_scan open_file) path (schema_fields sc) op rows fs = (Inr count, rows', fs')"
    and "\<not> is_temp path" and "rd_ok rows" and "library_ok fw sc open_file"
    and "rows_no_nan (concat (map batch_rows (rd_pending rows)))"
    and "holds_rows sc (open_file (visible fs path)) t"
  shows "holds_rows sc (open_file (visible fs' path))
      ((if op = InsertAppend then t else []) @ concat (map batch_rows (rd_pending rows))) \<and>
    count = sum_rows (rd_pending rows) \<and> (\<forall>q. q \<noteq> path \<longrightarrow> visible fs' q = visible fs q) \<and>
    final_err rows = None"
proof -
  let ?new = "map (\<lambda>b. rebindSchema b (schema_fields sc)) (rd_pending rows)"
  note own = own_scan_rows [where open_file = open_file and old = "visible fs path", OF assms(6)]
  have "case (Inr count :: insert_err + u64) of
      Inl e \<Rightarrow> visible fs' = visible fs
    | Inr n \<Rightarrow> n = sum_rows (rd_pending rows) \<and> final_err rows = None \<and>
        (if op = InsertAppend \<and> rd_pending rows = [] then visible fs' = visible fs
         else \<exists>olds bytes. existing_batches op (own_scan open_file) (visible fs path) = Some olds \<and>
           encode_file fw (schema_fields sc) (olds @ ?new) = Some bytes \<and> visible fs' = (visible fs)(path \<mapsto> bytes))"
    by (rule local_store.InsertInto_ok [OF assms(1) [unfolded store_ops(2)] assms(2,3)]) (rule own(1))
  then have ok: "count = sum_rows (rd_pending rows) \<and> final_err rows = None"
      "if op = InsertAppend \<and> rd_pending rows = [] then visible fs' = visible fs
       else \<exists>olds bytes. existing_batches op (own_scan open_file) (visible fs path) = Some olds \<and>
         encode_file fw (schema_fields sc) (olds @ ?new) = Some bytes \<and> visible fs' = (visible fs)(path \<mapsto> bytes)"
    unfolding sum.case by blast+
  show ?thesis
  proof (cases "op = InsertAppend \<and> rd_pending rows = []")
    case True
    then show ?thesis using ok assms(6) by simp
  next
    case False
    then obtain olds bytes where new: "existing_batches op (own_scan open_file) (visible fs path) = Some olds"
      "encode_file fw (schema_fields sc) (olds @ ?new) = Some bytes" "visible fs' = (visible fs)(path \<mapsto> bytes)"
      using ok(2) by (simp only: if_False) blast
    have "concat (map batch_rows olds) = (if op = InsertAppend then t else [])"
      using new(1) own(2) by (auto simp: existing_batches_def split: sum.splits if_splits)
    then have rows: "concat (map batch_rows (olds @ ?new)) =
        (if op = InsertAppend then t else []) @ concat (map batch_rows (rd_pending rows))"
      by (simp add: comp_def)
    have "rows_no_nan (concat (map batch_rows (olds @ ?new)))"
      unfolding rows using assms(5) holds_rows_no_nan [OF assms(6)] by (cases "op = InsertAppend") (auto simp: rows_no_nan_def)
    then have "holds_rows sc (open_file (Some bytes)) (concat (map batch_rows (olds @ ?new)))"
      using assms(4) new(2) unfolding library_ok_def by blast
    then show ?thesis unfolding rows using new(3) ok(1) by simp
  qed
qed

lemma scan_of_rows:
  assumes "holds_rows sc opened t" and "ScanWithOptions sc opened (Some opts) = (Inr r, k)" and "sint (so_limit opts) < 0"
  shows "\<exists>bs. rd_Schema r = map (\<lambda>i. schema_fields sc ! nat i) (wanted sc (so_projection opts)) \<and>
    rd_pending r = map (project_batch (rd_Schema r) (wanted sc (so_projection opts))) bs \<and>
    filter (satisfies fo (schema_dts sc) (so_filters opts)) (concat (map batch_rows bs)) =
    filter (satisfies fo (schema_dts sc) (so_filters opts)) t"
proof -
  obtain f rows full where f: "opened = Opened f" "file_promise f sc rows" "manifest_ok f sc" "read_promise f sc full"
    "full_promise f rows full" "t = concat (map rows [0..<length (pf_rowGroups f)])"
    using assms(1) unfolding holds_rows_def by blast
  show ?thesis using ScanWithOptions_keeps [OF f(2-5) assms(2) [unfolded f(1)] assms(3)] unfolding f(6) .
qed

text \<open>After an INSERT that the engine makes through the C callback on a Parquet table in the local
  file system and that returns a count, every scan it makes through the callback, with whatever
  predicates serialized to JSON, returns the requested columns of batches whose matching rows are
  exactly those of the table's old rows followed by the inserted ones (operation 0, append), or of the
  inserted ones alone (overwrite); the count is the number of inserted rows and no other file changes.
  The Parquet library is taken to read back the rows it wrote and to describe them truthfully.\<close>

theorem engine_insert_then_scan:
  assumes "h_live h n = Some (TableImpl (parquet_provider filesystem_store fw os open_file path sc fs))"
    and "insertOpFromC v = Inr op"
    and "go_table_insert h n (Inr (Some rows)) v = (Inr count, left)"
    and "\<not> is_temp path" and "rd_ok rows" and "rows_no_nan (concat (map batch_rows (rd_pending rows)))"
    and "library_ok fw sc open_file"
    and "holds_rows sc (open_file (visible fs path)) t"
    and "fs' = after_insert filesystem_store fw os open_file path sc op rows fs"
    and "h_live h' n' = Some (TableImpl (parquet_provider filesystem_store fw os' open_file path sc fs'))"
    and "list_all wire_ok es"
    and "\<And>x. f32_mag x < f32_inf_mag \<Longrightarrow> parse_float32 (p32 x) = Some x"
    and "\<And>x. f64_mag x < f64_inf_mag \<Longrightarrow> parse_float64 (p64 x) = Some x"
    and "go_table_scan h' n' len proj (Some (Some (JArray (map (wire_expr p32 p64) es)))) limit = Inr r"
    and "sint limit < 0"
  shows "(\<exists>bs. rd_Schema r = map (\<lambda>i. schema_fields sc ! nat i) (requested sc len proj) \<and>
      rd_pending r = map (project_batch (rd_Schema r) (requested sc len proj)) bs \<and>
      filter (satisfies fo (schema_dts sc) es) (concat (map batch_rows bs)) =
      filter (satisfies fo (schema_dts sc) es)
        ((if v = 0 then t else []) @ concat (map batch_rows (rd_pending rows)))) \<and>
    count = sum_rows (rd_pending rows) \<and> (\<forall>q. q \<noteq> path \<longrightarrow> visible fs' q = visible fs q)"
proof -
  have append: "op = InsertAppend \<longleftrightarrow> v = 0"
    using assms(2) by (auto simp: insertOpFromC_def split: if_splits)
  let ?opts = "\<lparr>so_projection = scan_projection len proj, so_filters = es, so_limit = limit\<rparr>"
  obtain rows' where "InsertInto filesystem_store fw os (own_scan open_file) path (schema_fields sc) op rows fs =
      (Inr count, rows', fs')"
    using go_table_insert_result [OF assms(1-3)] assms(9) by blast
  note left = insert_leaves_rows [OF this assms(4,5,7,6,8), unfolded append]
  have dec: "decodeFilters (Some (JArray (map (wire_expr p32 p64) es))) = Inr es"
    using decode_from_wire [OF assms(11-13)] by (simp add: decodeFilters_def)
  have "provider_call (fst (ScanWithOptions sc (open_file (visible fs' path)) (Some ?opts))) = Returns (Inr (Some r))"
    using go_table_scan_pushdown [OF assms(10) _ dec assms(14)]
    by (simp add: parquet_provider_def parquet_table_def filesystem_store_def)
  then obtain k where scan: "ScanWithOptions sc (open_file (visible fs' path)) (Some ?opts) = (Inr r, k)"
    by (cases "ScanWithOptions sc (open_file (visible fs' path)) (Some ?opts)")
      (auto simp: provider_call_def split: sum.splits if_splits)
  have "sint (so_limit ?opts) < 0" using assms(15) by simp
  from scan_of_rows [OF left [THEN conjunct1] scan this, of fo] left show ?thesis
    by (simp only: ScanOptions.select_convs wanted_requested) blast
qed

section \<open>A concrete library\<close>

text \<open>
  Files of one column, a byte per row between a header and a footer: the writer refuses any other
  batch, the file is one row group without statistics.
\<close>

definition byte_batch :: "byte \<Rightarrow> Batch" where
  "byte_batch w = \<lparr>b_fields = [int64_field], b_columns = [[Some (IntCell (word_of_int (uint w)))]], b_numRows = 1\<rparr>"

definition byte_writer :: "unit FileWriter" where
  "byte_writer =
     \<lparr>fw_New = (\<lambda>fs. Inr ((), [[80]])),
      fw_Write = (\<lambda>p b.
        case b_columns b of
          [[Some (IntCell x)]] \<Rightarrow>
            if uint x < 256 \<and> b_numRows b = 1 then Inr ((), [[word_of_int (uint x)]]) else Inl ''refused''
        | _ \<Rightarrow> Inl ''refused''),
      fw_Close = (\<lambda>p. Inr [[70]])\<rparr>"

definition byte_base :: "byte list \<Rightarrow> (unit, i64) ParquetFile" where
  "byte_base ws =
     \<lparr>pf_rowGroups = map (\<lambda>w. \<lparr>rgm_NumRows = 1, rgm_ColumnChunk = (\<lambda>l. None)\<rparr>) ws, pf_numLeaves = 1,
      pf_manifest = [LeafField 0],
      pf_bloom = (\<lambda>_. \<lparr>open_rg = None, get_filter = (\<lambda>_ _. None), check = (\<lambda>_ _. True)\<rparr>),
      pf_GetRecordReader = (\<lambda>_ _. Inl [])\<rparr>"

definition byte_full :: "byte list \<Rightarrow> int list option \<Rightarrow> Batch list" where
  "byte_full ws rgs = map (\<lambda>i. byte_batch (ws ! i)) (case rgs of None \<Rightarrow> [0..<length ws] | Some is \<Rightarrow> map nat is)"

definition byte_open :: "byte list option \<Rightarrow> (unit, i64) open_result" where
  "byte_open old =
     (case old of
        Some (w # ws) \<Rightarrow> Opened (lib_file (byte_base (butlast ws)) sample_schema (byte_full (butlast ws)))
      | _ \<Rightarrow> OpenFailed ''not a file'')"

definition byte_row :: "byte \<Rightarrow> row" where
  "byte_row w = row_of (Some (IntCell (word_of_int (uint w))))"

lemma byte_batch_rows [simp]: "batch_rows (byte_batch w) = [byte_row w]"
  by (simp add: batch_rows_def byte_batch_def byte_row_def row_of_def fun_eq_iff)

lemma byte_holds: "holds_rows sample_schema (byte_open (Some (80 # ws @ [70]))) (map byte_row ws)"
proof -
  let ?f = "lib_file (byte_base ws) sample_schema (byte_full ws)"
  let ?rows = "\<lambda>i. [byte_row (ws ! i)]"
  have sel: "pf_rowGroups ?f = map (\<lambda>w. \<lparr>rgm_NumRows = 1, rgm_ColumnChunk = (\<lambda>l. None)\<rparr>) ws" "pf_numLeaves ?f = 1"
    "pf_manifest ?f = [LeafField 0]"
    "pf_bloom ?f = (\<lambda>_. \<lparr>open_rg = None, get_filter = (\<lambda>_ _. None), check = (\<lambda>_ _. True)\<rparr>)"
    by (simp_all add: lib_file_def byte_base_def)
  have "group_promise ?f sample_schema ?rows i" if "i < length ws" for i
    using that
    by (auto simp: group_promise_def meta_ok_def bloom_ok_def rows_ok_def rows_no_nan_def byte_row_def row_of_def sel
        demo_schema cell_ok_def cell_nan_def source_filter_def split: if_splits)
  then have "file_promise ?f sample_schema ?rows" by (simp add: file_promise_def sel)
  moreover have "manifest_ok ?f sample_schema" 
    unfolding manifest_ok_def sel by (simp add: NumFields_def sample_schema_def)
  moreover have "read_promise ?f sample_schema (byte_full ws)"
    by (rule lib_file_promise) (simp add: byte_full_def byte_batch_def batch_ok_def list_all_iff)
  moreover have "full_promise ?f ?rows (byte_full ws)"
    by (auto simp: full_promise_def byte_full_def selected_def sel comp_def split: option.splits)
  moreover have "\<forall>rgs. \<forall>b \<in> set (byte_full ws rgs). length (b_columns b) = length (schema_fields sample_schema)"
    by (auto simp: byte_full_def byte_batch_def sample_schema_def)
  moreover have "map byte_row ws = concat (map ?rows [0..<length (pf_rowGroups ?f)])"
    by (rule nth_equalityI) (simp_all add: sel length_concat comp_def concat_map_singleton)
  ultimately show ?thesis unfolding holds_rows_def byte_open_def by (auto intro!: exI)
qed

lemma byte_encode:
  "encode_batches byte_writer p bs = Some (p', out) \<Longrightarrow> concat (map batch_rows bs) = map byte_row out"
proof (induction bs arbitrary: p out)
  case (Cons b bs)
  obtain x where x: "b_columns b = [[Some (IntCell x)]]" "uint x < 256" "b_numRows b = 1"
    using Cons.prems
    by (auto simp: byte_writer_def split: list.splits option.splits cell.splits if_splits)
  then obtain out2 where out2: "encode_batches byte_writer () bs = Some (p', out2)" "out = word_of_int (uint x) # out2"
    using Cons.prems by (auto simp: byte_writer_def)
  have "word_of_int (uint (word_of_int (uint x) :: byte)) = x"
    using x(2) by (intro word_uint_eqI) (simp add: unsigned_ucast_eq take_bit_int_eq_self)
  then have "batch_rows b = [byte_row (word_of_int (uint x))]"
    using x(1,3) by (simp add: batch_rows_def byte_row_def row_of_def fun_eq_iff)
  then show ?case using Cons.IH [OF out2(1)] out2(2) by simp
qed simp

lemma byte_library: "library_ok byte_writer sample_schema byte_open"
  unfolding library_ok_def
proof (intro allI impI)
  fix bs bytes
  assume "encode_file byte_writer (schema_fields sample_schema) bs = Some bytes \<and> rows_no_nan (concat (map batch_rows bs))"
  then obtain out where "encode_batches byte_writer () bs = Some ((), out)" "bytes = 80 # out @ [70]"
    by (auto simp: encode_file_def byte_writer_def split: option.splits)
  then show "holds_rows sample_schema (byte_open (Some bytes)) (concat (map batch_rows bs))"
    using byte_encode byte_holds by metis
qed

definition byte_rows :: RecordReader where
  "byte_rows = LibReader [int64_field] [byte_batch 5] None None 1"

lemma byte_reader:
  "pf_GetRecordReader (lib_file (byte_base ws) sample_schema (byte_full ws)) None rgs =
     Inr (LibReader [int64_field] (map (project_batch [int64_field] [0]) (byte_full ws rgs)) None None 1)"
  by (simp add: lib_file_def read_fields_def byte_base_def sample_schema_def)

lemma byte_own_scan:
  "own_scan byte_open (Some [80, 9, 70]) =
     Inr (ClosingReader (LibReader [int64_field] [project_batch [int64_field] [0] (byte_batch 9)] None None 1) False 0)"
  by (simp add: own_scan_def byte_open_def Scan_def getRecordReader_def byte_reader byte_full_def)

definition byte_fs :: file_system where
  "byte_fs = (\<lambda>p. if p = ''d/t'' then Some [80, 9, 70] else None)"

lemma byte_create:
  "local_Create good_os byte_fs ''d/t'' =
     Some (\<lparr>lw_file = ''d/.objectstore-tmp-t-42'', lw_path = ''d/t'', lw_done = False\<rparr>,
       byte_fs(''d/.objectstore-tmp-t-42'' \<mapsto> []))"
  by (simp add: local_Create_def good_os_def byte_fs_def path_simps localTmpPrefix_def Let_def)

lemma byte_temp: "\<not> is_temp ''d/t''" "visible byte_fs ''d/t'' = Some [80, 9, 70]"
  by (simp_all add: visible_def byte_fs_def is_temp_def path_simps has_prefix_def localTmpPrefix_def)

definition byte_handles :: "file_system \<Rightarrow> handles" where
  "byte_handles fs = \<lparr>h_next = 1, h_live =
     [1 \<mapsto> TableImpl (parquet_provider filesystem_store byte_writer (\<lambda>i. good_os) byte_open ''d/t'' sample_schema fs)]\<rparr>"

lemma byte_visible_tmp:
  "visible (byte_fs(''d/.objectstore-tmp-t-42'' := x)) ''d/t'' = Some [80, 9, 70]"
  by (simp add: visible_def byte_fs_def is_temp_def path_simps has_prefix_def localTmpPrefix_def)

lemma byte_fs_path: "byte_fs ''d/t'' = Some [80, 9, 70]"
  by (simp add: byte_fs_def)

lemma byte_run:
  "\<exists>rows' fs'. InsertInto filesystem_store byte_writer (\<lambda>i. good_os) (own_scan byte_open) ''d/t'' (schema_fields sample_schema)
     InsertAppend byte_rows byte_fs = (Inr 1, rows', fs') \<and> visible fs' ''d/t'' = Some [80, 9, 5, 70]"
  using byte_temp(1)
  by (simp add: InsertInto_def rewrite_def rewriteFile_def rewriteBatches_def streamExistingRows_def writeAll.simps fwWrite_def
      byte_writer_def byte_rows_def filesystem_store_def byte_create local_Write_def local_Close_def guard_begin_def Let_def
      rebindSchema_def byte_visible_tmp byte_own_scan byte_batch_def project_batch_def visible_def byte_fs_path
      close_once_def file_data_def)

definition byte_after :: file_system where
  "byte_after = after_insert filesystem_store byte_writer (\<lambda>i. good_os) byte_open ''d/t'' sample_schema InsertAppend byte_rows byte_fs"

lemma byte_after_run:
  "visible byte_after ''d/t'' = Some [80, 9, 5, 70]"
  "go_table_insert (byte_handles byte_fs) 1 (Inr (Some byte_rows)) 0 = (Inr 1, snd (go_table_insert (byte_handles byte_fs) 1 (Inr (Some byte_rows)) 0))"
  using byte_run
  by (auto simp: byte_after_def after_insert_def go_table_insert_def handle_value_def as_writable_def byte_handles_def
      parquet_provider_def insertOpFromC_def trapCallbackPanic_def)

lemma byte_scan:
  "go_table_scan (byte_handles byte_after) 1 (- 1) []
     (Some (Some (JArray (map (wire_expr exact_fmt32 exact_fmt64) [])))) (- 1) =
   Inr (ClosingReader (LibReader [int64_field] (map (project_batch [int64_field] [0]) [byte_batch 9, byte_batch 5]) None None 1) False 0)"
proof -
  have "decodeFilters (Some (JArray [])) = Inr []" by (simp add: decodeFilters_def)
  moreover have "ScanWithOptions sample_schema (byte_open (Some [80, 9, 5, 70]))
      (Some \<lparr>so_projection = None, so_filters = [], so_limit = - 1\<rparr>) =
      (Inr (ClosingReader (LibReader [int64_field] (map (project_batch [int64_field] [0]) [byte_batch 9, byte_batch 5]) None None 1) False 0), 0)"
    by (simp add: ScanWithOptions_def byte_open_def selectRowGroups_def openProjectedReader_def getRecordReader_def byte_reader
        byte_full_def upt_rec Let_def)
  ultimately show ?thesis
    using byte_after_run(1)
    by (simp add: go_table_scan_def handle_value_def as_table_def byte_handles_def parquet_provider_def parquet_table_def
        filesystem_store_def provider_call_def trapCallbackPanic_def scan_projection_def)
qed

theorem engine_insert_then_scan_witness:
  "\<exists>left r bs. go_table_insert (byte_handles byte_fs) 1 (Inr (Some byte_rows)) 0 = (Inr 1, left) \<and>
    go_table_scan (byte_handles byte_after) 1 (- 1) []
      (Some (Some (JArray (map (wire_expr exact_fmt32 exact_fmt64) [])))) (- 1) = Inr r \<and>
    rd_pending r = map (project_batch (rd_Schema r) [0]) bs \<and> concat (map batch_rows bs) = [byte_row 9, byte_row 5]"
proof -
  have h: "h_live (byte_handles fs) 1 =
      Some (TableImpl (parquet_provider filesystem_store byte_writer (\<lambda>i. good_os) byte_open ''d/t'' sample_schema fs))" for fs
    by (simp add: byte_handles_def)
  have op: "insertOpFromC 0 = Inr InsertAppend" by (simp add: insertOpFromC_def)
  have rows: "rd_ok byte_rows" "concat (map batch_rows (rd_pending byte_rows)) = [byte_row 5]"
    by (simp add: byte_rows_def byte_batch_def batch_ok_def) (simp add: byte_rows_def)
  moreover have "rows_no_nan [byte_row 5]" by (simp add: rows_no_nan_def byte_row_def row_of_def cell_nan_def)
  ultimately have nan: "rows_no_nan (concat (map batch_rows (rd_pending byte_rows)))" by simp
  have holds: "holds_rows sample_schema (byte_open (visible byte_fs ''d/t'')) [byte_row 9]"
    using byte_holds [of "[9]"] by (simp add: byte_temp(2))
  have limit: "sint (- 1 :: i64) < 0" by simp
  have "requested sample_schema (- 1) [] = [0]" by (simp add: requested_def sample_schema_def)
  with engine_insert_then_scan [OF h op byte_after_run(2) byte_temp(1) rows(1) nan byte_library holds byte_after_def h
      list.pred_inject(1) parse_exact_fmt32 parse_exact_fmt64 byte_scan limit, of "\<lambda>_ _. None"]
    byte_after_run(2) byte_scan rows(2)
  show ?thesis by (auto simp: satisfies_def)
qed

end
