(* ===== verification/Iceberg_Convert.thy ===== *)
theory Iceberg_Convert
  imports Sql_Semantics
begin

text \<open>
  \<open>providers/iceberg/convert.go\<close>: pushed predicates as Iceberg boolean expressions. The
  expressions are kept as the terms the code builds with the library's constructors;
  \<open>ib_eval\<close> is what such a term says, in SQL's three-valued logic. Binding against the
  table's schema (\<open>iceberg.BindExpr\<close>) is a parameter.
\<close>

section \<open>Iceberg literals and expressions\<close>

text \<open>The \<open>any\<close> that \<open>convertLiteral\<close> returns, by its Go type.\<close>

datatype IbLiteral =
    IbBool bool | IbInt32 i32 | IbInt64 i64 | IbFloat32 float32 | IbFloat64 float64
  | IbString string | IbBytes "byte list" | IbDate i32 | IbTimestamp i64 | IbTimestampNano i64

datatype IbExpr =
    EqualTo string IbLiteral | NotEqualTo string IbLiteral
  | LessThan string IbLiteral | LessThanEqual string IbLiteral
  | GreaterThan string IbLiteral | GreaterThanEqual string IbLiteral
  | IbIsNull string | IbNotNull string
  | IbIsIn string "IbLiteral list" | IbNotIn string "IbLiteral list"
  | IbAnd IbExpr IbExpr | IbOr IbExpr IbExpr | IbNot IbExpr

section \<open>Literals\<close>

text \<open>Go's \<open>/\<close> truncates toward zero.\<close>

definition go_quot :: "int \<Rightarrow> int \<Rightarrow> int" where
  "go_quot a b = sgn a * sgn b * (\<bar>a\<bar> div \<bar>b\<bar>)"

definition scaleTimestamp :: "i64 \<Rightarrow> int \<Rightarrow> IbLiteral option" where
  "scaleTimestamp v factor =
     (if go_quot (2 ^ 63 - 1) factor < sint v \<or> sint v < go_quot (- (2 ^ 63)) factor then None
      else Some (IbTimestamp (v * word_of_int factor)))"

definition convertLiteral :: "Literal \<Rightarrow> IbLiteral option" where
  "convertLiteral l =
     (case lit_type l of
        LiteralBool \<Rightarrow> (case lit_value l of BoolV v \<Rightarrow> Some (IbBool v) | _ \<Rightarrow> None)
      | LiteralInt8 \<Rightarrow> (case lit_value l of Int8V v \<Rightarrow> Some (IbInt32 (scast v)) | _ \<Rightarrow> None)
      | LiteralInt16 \<Rightarrow> (case lit_value l of Int16V v \<Rightarrow> Some (IbInt32 (scast v)) | _ \<Rightarrow> None)
      | LiteralInt32 \<Rightarrow> (case lit_value l of Int32V v \<Rightarrow> Some (IbInt32 v) | _ \<Rightarrow> None)
      | LiteralInt64 \<Rightarrow> (case lit_value l of Int64V v \<Rightarrow> Some (IbInt64 v) | _ \<Rightarrow> None)
      | LiteralUint8 \<Rightarrow> (case lit_value l of Uint8V v \<Rightarrow> Some (IbInt64 (ucast v)) | _ \<Rightarrow> None)
      | LiteralUint16 \<Rightarrow> (case lit_value l of Uint16V v \<Rightarrow> Some (IbInt64 (ucast v)) | _ \<Rightarrow> None)
      | LiteralUint32 \<Rightarrow> (case lit_value l of Uint32V v \<Rightarrow> Some (IbInt64 (ucast v)) | _ \<Rightarrow> None)
      | LiteralUint64 \<Rightarrow>
          (case lit_value l of Uint64V v \<Rightarrow> if 2 ^ 63 - 1 < uint v then None else Some (IbInt64 v) | _ \<Rightarrow> None)
      | LiteralFloat32 \<Rightarrow> (case lit_value l of Float32V v \<Rightarrow> Some (IbFloat32 v) | _ \<Rightarrow> None)
      | LiteralFloat64 \<Rightarrow> (case lit_value l of Float64V v \<Rightarrow> Some (IbFloat64 v) | _ \<Rightarrow> None)
      | LiteralUtf8 \<Rightarrow> (case lit_value l of StringV v \<Rightarrow> Some (IbString v) | _ \<Rightarrow> None)
      | LiteralBinary \<Rightarrow> (case lit_value l of BytesV v \<Rightarrow> Some (IbBytes v) | _ \<Rightarrow> None)
      | LiteralDate32 \<Rightarrow> (case lit_value l of Int32V v \<Rightarrow> Some (IbDate v) | _ \<Rightarrow> None)
      | LiteralTimestamp \<Rightarrow>
          (case lit_value l of
             Int64V v \<Rightarrow>
               (case lit_unit l of
                  TimeUnitSecond \<Rightarrow> scaleTimestamp v 1000000
                | TimeUnitMillisecond \<Rightarrow> scaleTimestamp v 1000
                | TimeUnitMicrosecond \<Rightarrow> Some (IbTimestamp v)
                | TimeUnitNanosecond \<Rightarrow> Some (IbTimestampNano v)
                | OtherUnit _ \<Rightarrow> None)
           | _ \<Rightarrow> None)
      | LiteralDate64 \<Rightarrow> None
      | OtherType _ \<Rightarrow> None)"

section \<open>Expressions\<close>

definition comparePred :: "CompareOp \<Rightarrow> string \<Rightarrow> IbLiteral \<Rightarrow> IbExpr option" where
  "comparePred op ref v =
     (case op of
        CompareEq \<Rightarrow> Some (EqualTo ref v)
      | CompareNeq \<Rightarrow> Some (NotEqualTo ref v)
      | CompareLt \<Rightarrow> Some (LessThan ref v)
      | CompareLtEq \<Rightarrow> Some (LessThanEqual ref v)
      | CompareGt \<Rightarrow> Some (GreaterThan ref v)
      | CompareGtEq \<Rightarrow> Some (GreaterThanEqual ref v)
      | OtherOp _ \<Rightarrow> None)"

text \<open>The Go type a value has, for the assertions of \<open>inPred\<close>.\<close>

definition same_type :: "IbLiteral \<Rightarrow> IbLiteral \<Rightarrow> bool" where
  "same_type a b =
     (case (a, b) of
        (IbBool _, IbBool _) \<Rightarrow> True | (IbInt32 _, IbInt32 _) \<Rightarrow> True | (IbInt64 _, IbInt64 _) \<Rightarrow> True
      | (IbFloat32 _, IbFloat32 _) \<Rightarrow> True | (IbFloat64 _, IbFloat64 _) \<Rightarrow> True
      | (IbString _, IbString _) \<Rightarrow> True | (IbBytes _, IbBytes _) \<Rightarrow> True | (IbDate _, IbDate _) \<Rightarrow> True
      | (IbTimestamp _, IbTimestamp _) \<Rightarrow> True | (IbTimestampNano _, IbTimestampNano _) \<Rightarrow> True
      | _ \<Rightarrow> False)"

definition inPred :: "string \<Rightarrow> bool \<Rightarrow> IbLiteral \<Rightarrow> IbLiteral list \<Rightarrow> IbExpr option" where
  "inPred ref negated v0 vals =
     (if list_all (same_type v0) vals then Some (if negated then IbNotIn ref vals else IbIsIn ref vals) else None)"

definition convertBetween :: "Column \<Rightarrow> bool \<Rightarrow> Literal \<Rightarrow> Literal \<Rightarrow> IbExpr option" where
  "convertBetween c negated lo hi =
     Option.bind (convertLiteral lo) (\<lambda>low. Option.bind (convertLiteral hi) (\<lambda>high.
       if negated
       then Option.bind (comparePred CompareLt (col_name c) low) (\<lambda>lt.
              Option.bind (comparePred CompareGt (col_name c) high) (\<lambda>gt. Some (IbOr lt gt)))
       else Option.bind (comparePred CompareGtEq (col_name c) low) (\<lambda>ge.
              Option.bind (comparePred CompareLtEq (col_name c) high) (\<lambda>le. Some (IbAnd ge le)))))"

definition convertInList :: "Column \<Rightarrow> bool \<Rightarrow> Literal list \<Rightarrow> IbExpr option" where
  "convertInList c negated ls =
     (if ls = [] then None
      else Option.bind (omap convertLiteral ls) (\<lambda>vals. inPred (col_name c) negated (hd vals) vals))"

fun convertExpr :: "Expr \<Rightarrow> IbExpr option" where
  "convertExpr (Compare c op l) = Option.bind (convertLiteral l) (comparePred op (col_name c))"
| "convertExpr (IsNull c negated) = Some (if negated then IbNotNull (col_name c) else IbIsNull (col_name c))"
| "convertExpr (Between c negated lo hi) = convertBetween c negated lo hi"
| "convertExpr (InList c negated ls) = convertInList c negated ls"
| "convertExpr (And a b) =
     Option.bind (convertExpr a) (\<lambda>l. Option.bind (convertExpr b) (\<lambda>r. Some (IbAnd l r)))"
| "convertExpr (Or a b) =
     Option.bind (convertExpr a) (\<lambda>l. Option.bind (convertExpr b) (\<lambda>r. Some (IbOr l r)))"
| "convertExpr (NotE e) = map_option IbNot (convertExpr e)"
| "convertExpr NilExpr = None"

text \<open>One conjunct of \<open>convertFilters\<close>: \<open>bind\<close> is whether \<open>BindExpr\<close> succeeds on the schema.\<close>

definition convert_step :: "(IbExpr \<Rightarrow> bool) \<Rightarrow> Expr \<Rightarrow> IbExpr option \<Rightarrow> IbExpr option" where
  "convert_step bind f result =
     (case convertExpr f of
        None \<Rightarrow> result
      | Some e \<Rightarrow> if \<not> bind e then result
                  else (case result of None \<Rightarrow> Some e | Some r \<Rightarrow> Some (IbAnd r e)))"

definition convertFilters :: "Expr list \<Rightarrow> (IbExpr \<Rightarrow> bool) \<Rightarrow> IbExpr option" where
  "convertFilters filters bind = fold (convert_step bind) filters None"

section \<open>What an Iceberg expression says\<close>

definition ib_meaning :: "IbLiteral \<Rightarrow> sqlval" where
  "ib_meaning v =
     (case v of
        IbBool b \<Rightarrow> QBool b | IbInt32 w \<Rightarrow> QInt (sint w) | IbInt64 w \<Rightarrow> QInt (sint w)
      | IbFloat32 f \<Rightarrow> QFloat (f64_of_f32 f) | IbFloat64 f \<Rightarrow> QFloat f
      | IbString s \<Rightarrow> QText (bytes_of_string s) | IbBytes b \<Rightarrow> QBinary b
      | IbDate w \<Rightarrow> QDate (sint w) | IbTimestamp w \<Rightarrow> QTime (sint w * 10 ^ 3) | IbTimestampNano w \<Rightarrow> QTime (sint w))"

text \<open>A reference is a field name; \<open>pos\<close> is its position in the table's schema.\<close>

definition ib_compare ::
  "foreign \<Rightarrow> (int \<Rightarrow> dtype) \<Rightarrow> (string \<Rightarrow> int option) \<Rightarrow> row \<Rightarrow> CompareOp \<Rightarrow> string \<Rightarrow> IbLiteral \<Rightarrow> bool option" where
  "ib_compare fo dts pos r op ref v =
     (case pos ref of
        None \<Rightarrow> None
      | Some i \<Rightarrow>
          (case r i of
             None \<Rightarrow> None
           | Some x \<Rightarrow> map_option (op_holds op) (sql_compare fo (cell_value (dts i) x) (ib_meaning v))))"

definition ib_null :: "(string \<Rightarrow> int option) \<Rightarrow> row \<Rightarrow> string \<Rightarrow> bool option" where
  "ib_null pos r ref = map_option (\<lambda>i. r i = None) (pos ref)"

definition ib_in ::
  "foreign \<Rightarrow> (int \<Rightarrow> dtype) \<Rightarrow> (string \<Rightarrow> int option) \<Rightarrow> row \<Rightarrow> string \<Rightarrow> IbLiteral list \<Rightarrow> bool option" where
  "ib_in fo dts pos r ref vs =
     (if ib_null pos r ref = Some False
      then foldr (\<lambda>v acc. or3 (ib_compare fo dts pos r CompareEq ref v) acc) vs (Some False) else None)"

fun ib_eval :: "foreign \<Rightarrow> (int \<Rightarrow> dtype) \<Rightarrow> (string \<Rightarrow> int option) \<Rightarrow> row \<Rightarrow> IbExpr \<Rightarrow> bool option" where
  "ib_eval fo dts pos r (EqualTo ref v) = ib_compare fo dts pos r CompareEq ref v"
| "ib_eval fo dts pos r (NotEqualTo ref v) = ib_compare fo dts pos r CompareNeq ref v"
| "ib_eval fo dts pos r (LessThan ref v) = ib_compare fo dts pos r CompareLt ref v"
| "ib_eval fo dts pos r (LessThanEqual ref v) = ib_compare fo dts pos r CompareLtEq ref v"
| "ib_eval fo dts pos r (GreaterThan ref v) = ib_compare fo dts pos r CompareGt ref v"
| "ib_eval fo dts pos r (GreaterThanEqual ref v) = ib_compare fo dts pos r CompareGtEq ref v"
| "ib_eval fo dts pos r (IbIsNull ref) = ib_null pos r ref"
| "ib_eval fo dts pos r (IbNotNull ref) = not3 (ib_null pos r ref)"
| "ib_eval fo dts pos r (IbIsIn ref vs) = ib_in fo dts pos r ref vs"
| "ib_eval fo dts pos r (IbNotIn ref vs) = not3 (ib_in fo dts pos r ref vs)"
| "ib_eval fo dts pos r (IbAnd a b) = and3 (ib_eval fo dts pos r a) (ib_eval fo dts pos r b)"
| "ib_eval fo dts pos r (IbOr a b) = or3 (ib_eval fo dts pos r a) (ib_eval fo dts pos r b)"
| "ib_eval fo dts pos r (IbNot e) = not3 (ib_eval fo dts pos r e)"

text \<open>Every column of a predicate carries the name of the field at its index.\<close>

fun cols_resolved :: "(string \<Rightarrow> int option) \<Rightarrow> Expr \<Rightarrow> bool" where
  "cols_resolved pos (Compare c op l) \<longleftrightarrow> pos (col_name c) = Some (col_index c)"
| "cols_resolved pos (IsNull c n) \<longleftrightarrow> pos (col_name c) = Some (col_index c)"
| "cols_resolved pos (Between c n lo hi) \<longleftrightarrow> pos (col_name c) = Some (col_index c)"
| "cols_resolved pos (InList c n ls) \<longleftrightarrow> pos (col_name c) = Some (col_index c)"
| "cols_resolved pos (And a b) \<longleftrightarrow> cols_resolved pos a \<and> cols_resolved pos b"
| "cols_resolved pos (Or a b) \<longleftrightarrow> cols_resolved pos a \<and> cols_resolved pos b"
| "cols_resolved pos (NotE e) \<longleftrightarrow> cols_resolved pos e"
| "cols_resolved pos NilExpr \<longleftrightarrow> True"

section \<open>Literals are converted exactly\<close>

lemma go_quot_pos: "0 < b \<Longrightarrow> go_quot a b = (if 0 \<le> a then a div b else - (- a div b))"
  by (auto simp: go_quot_def sgn_if)

lemma int_le_div_iff: "0 < f \<Longrightarrow> (v :: int) \<le> n div f \<longleftrightarrow> v * f \<le> n"
proof
  assume f: "0 < f" and "v \<le> n div f"
  then have "v * f \<le> n div f * f" by simp
  also have "\<dots> \<le> n" using f pos_mod_sign [of f n] by (simp add: minus_mod_eq_div_mult [symmetric] del: pos_mod_sign)
  finally show "v * f \<le> n" .
next
  assume f: "0 < f" and "v * f \<le> n"
  then show "v \<le> n div f" using zdiv_mono1 [of "v * f" n f] by simp
qed

lemma scale_bounds:
  assumes "0 < f"
  shows "\<not> (go_quot (2 ^ 63 - 1) f < v \<or> v < go_quot (- (2 ^ 63)) f) \<longleftrightarrow> - (2 ^ 63) \<le> v * f \<and> v * f < 2 ^ 63"
proof -
  have up: "v \<le> (2 ^ 63 - 1) div f \<longleftrightarrow> v * f \<le> 2 ^ 63 - 1"
    using assms by (rule int_le_div_iff)
  have "- v \<le> 2 ^ 63 div f \<longleftrightarrow> - v * f \<le> 2 ^ 63"
    using assms by (rule int_le_div_iff)
  with up show ?thesis using assms by (auto simp: go_quot_pos)
qed

lemma sint_of_int_64: "- (2 ^ 63) \<le> n \<Longrightarrow> n < 2 ^ 63 \<Longrightarrow> sint (word_of_int n :: i64) = n"
  by (simp add: int_word_sint)

lemma scale_mult:
  assumes "- (2 ^ 63) \<le> sint (v :: i64) * f" "sint v * f < 2 ^ 63"
  shows "sint (v * word_of_int f) = sint v * f"
proof -
  have "v * word_of_int f = word_of_int (sint v * f)" by simp
  then show ?thesis using sint_of_int_64 [OF assms] by metis
qed

lemma scaleTimestamp_value:
  assumes "0 < f"
  shows "scaleTimestamp v f =
    (if - (2 ^ 63) \<le> sint v * f \<and> sint v * f < 2 ^ 63 then Some (IbTimestamp (word_of_int (sint v * f))) else None)"
  using scale_bounds [OF assms, of "sint v"] by (auto simp: scaleTimestamp_def)

lemma sint_ucast_up:
  "LENGTH('a::len) < LENGTH('b::len) \<Longrightarrow> sint (ucast (w :: 'a word) :: 'b word) = uint w"
proof -
  assume less: "LENGTH('a::len) < LENGTH('b::len)"
  have "uint w < 2 ^ LENGTH('a)" by (rule uint_lt2p)
  also have "\<dots> \<le> 2 ^ (LENGTH('b) - Suc 0)" using less by (intro power_increasing) simp_all
  finally have "uint w < 2 ^ (LENGTH('b) - Suc 0)" .
  moreover have "- (2 ^ (LENGTH('b) - Suc 0)) \<le> uint w" by (rule order_trans [of _ 0]) simp_all
  ultimately show ?thesis using less by (simp add: sint_uint uint_ucast_up signed_take_bit_int_eq_self)
qed

lemma ib_meaning_simps [simp]:
  "ib_meaning (IbBool b) = QBool b" "ib_meaning (IbInt32 x) = QInt (sint x)" "ib_meaning (IbInt64 y) = QInt (sint y)"
  "ib_meaning (IbFloat32 f) = QFloat (f64_of_f32 f)" "ib_meaning (IbFloat64 d) = QFloat d"
  "ib_meaning (IbString s) = QText (bytes_of_string s)" "ib_meaning (IbBytes bs) = QBinary bs"
  "ib_meaning (IbDate x) = QDate (sint x)" "ib_meaning (IbTimestamp y) = QTime (sint y * 10 ^ 3)"
  "ib_meaning (IbTimestampNano y) = QTime (sint y)"
  by (simp_all add: ib_meaning_def)

lemma uint64_as_int64: "uint (v :: u64) < 2 ^ 63 \<Longrightarrow> sint v = uint v"
  using sint_of_int_64 [of "uint v"] uint_ge_0 [of v] by simp

lemma scaleTimestamp_meaning:
  assumes "0 < f" and "scaleTimestamp v f = Some x"
  shows "ib_meaning x = QTime (sint v * f * 10 ^ 3)"
  using assms(2) by (auto simp: scaleTimestamp_value [OF assms(1)] sint_of_int_64 split: if_splits
      simp del: of_int_mult)

lemma convertLiteral_meaning:
  assumes "convertLiteral l = Some v"
  shows "ib_meaning v = literal_meaning l"
proof (cases "lit_type l = LiteralTimestamp")
  case True
  then show ?thesis using assms
    by (auto simp: convertLiteral_def literal_meaning_def lit_nanos_per_def
        dest: scaleTimestamp_meaning [rotated] split: GoValue.splits TimeUnit.splits)
next
  case False
  then show ?thesis using assms
    by (cases "lit_type l"; cases "lit_value l")
      (auto simp: convertLiteral_def literal_meaning_def sint_scast_up uint64_as_int64
        sint_ucast_up split: if_splits)
qed

text \<open>A well-formed literal is converted to an Iceberg literal with exactly its meaning, and it is
  refused only when it has no exact Iceberg form: a date64, an unsigned integer of at least
  2^63, or a timestamp whose count of microseconds does not fit 64 bits.\<close>

theorem convertLiteral_exact:
  assumes "wf_literal l"
  shows "case convertLiteral l of
      Some v \<Rightarrow> ib_meaning v = literal_meaning l
    | None \<Rightarrow> lit_type l = LiteralDate64 \<or> (\<exists>w. lit_value l = Uint64V w \<and> 2 ^ 63 \<le> uint w) \<or>
        (\<exists>w f. lit_value l = Int64V w \<and> f \<in> {10 ^ 3, 10 ^ 6} \<and> lit_nanos_per (lit_unit l) = f * 10 ^ 3 \<and>
           \<not> (- (2 ^ 63) \<le> sint w * f \<and> sint w * f < 2 ^ 63))"
proof (cases "convertLiteral l")
  case (Some v)
  then show ?thesis by (simp add: convertLiteral_meaning)
next
  case None
  then show ?thesis using assms
    by (cases "lit_type l"; cases "lit_value l"; cases "lit_unit l")
      (auto simp: wf_literal_def value_fits_def known_unit_def convertLiteral_def scaleTimestamp_value lit_nanos_per_def
        split: if_splits)
qed

text \<open>A literal outside Iceberg's range of microseconds, one inside, and one exactly on the edge.\<close>

theorem convertLiteral_exact_witness:
  "ib_meaning (IbTimestamp (word_of_int (- 3000000))) =
     literal_meaning \<lparr>lit_type = LiteralTimestamp, lit_value = Int64V (- 3), lit_unit = TimeUnitSecond, lit_tz = []\<rparr> \<and>
   convertLiteral \<lparr>lit_type = LiteralTimestamp, lit_value = Int64V 9223372036855, lit_unit = TimeUnitSecond, lit_tz = []\<rparr>
     = None"
proof
  let ?l = "\<lparr>lit_type = LiteralTimestamp, lit_value = Int64V (- 3), lit_unit = TimeUnitSecond, lit_tz = []\<rparr>"
  have wf: "wf_literal ?l" by (simp add: wf_literal_def value_fits_def known_unit_def)
  have c: "convertLiteral ?l = Some (IbTimestamp (word_of_int (- 3000000)))"
    by (simp add: convertLiteral_def scaleTimestamp_value)
  from convertLiteral_exact [OF wf] show "ib_meaning (IbTimestamp (word_of_int (- 3000000))) = literal_meaning ?l"
    unfolding c option.case .
qed (simp add: convertLiteral_def scaleTimestamp_value)

section \<open>Expressions are converted exactly\<close>

lemma comparePred_eval:
  "comparePred op ref v = Some b \<Longrightarrow> ib_eval fo dts pos r b = ib_compare fo dts pos r op ref v \<and> known_op op"
  by (auto simp: comparePred_def known_op_def split: CompareOp.splits)

lemma ib_compare_resolved:
  assumes "pos (col_name c) = Some (col_index c)" and "ib_meaning v = literal_meaning l" and "known_op op"
  shows "ib_compare fo dts pos r op (col_name c) v = eval_compare fo dts r c op l"
  using assms by (simp add: ib_compare_def eval_compare_def split: option.splits)

lemma omap_meaning: "omap convertLiteral ls = Some vs \<Longrightarrow> map ib_meaning vs = map literal_meaning ls"
  by (induction ls arbitrary: vs) (auto simp: bind_eq_Some_conv convertLiteral_meaning)

lemma ib_in_resolved:
  assumes "pos (col_name c) = Some (col_index c)" and "map ib_meaning vs = map literal_meaning ls"
  shows "ib_in fo dts pos r (col_name c) vs = eval_in fo dts r c ls"
proof (cases "r (col_index c)")
  case None
  then show ?thesis using assms(1) by (simp add: ib_in_def eval_in_def ib_null_def)
next
  case (Some x)
  have "foldr (\<lambda>v acc. or3 (ib_compare fo dts pos r CompareEq (col_name c) v) acc) vs (Some False) =
      foldr (\<lambda>l acc. or3 (eval_compare fo dts r c CompareEq l) acc) ls (Some False)"
    using assms(2)
  proof (induction vs arbitrary: ls)
    case (Cons v vs)
    then obtain l ls' where "ls = l # ls'" "ib_meaning v = literal_meaning l" "map ib_meaning vs = map literal_meaning ls'"
      by auto
    then show ?case
      using Cons.IH ib_compare_resolved [where pos = pos and c = c, OF assms(1)] by (simp add: known_op_def)
  qed simp
  then show ?thesis using assms(1) Some by (simp add: ib_in_def eval_in_def ib_null_def)
qed

lemma eval_compare_not:
  "eval_compare fo dts r c CompareLt l = not3 (eval_compare fo dts r c CompareGtEq l)"
  "eval_compare fo dts r c CompareGt l = not3 (eval_compare fo dts r c CompareLtEq l)"
  by (auto simp: eval_compare_def known_op_def op_holds_def not3_def option.map_comp comp_def not_le
      split: option.splits intro!: option.map_cong)

lemma convertBetween_eval:
  assumes "convertBetween c n lo hi = Some b" and "pos (col_name c) = Some (col_index c)"
  shows "ib_eval fo dts pos r b = eval fo dts r (Between c n lo hi)"
proof -
  from assms(1) obtain low high where v: "convertLiteral lo = Some low" "convertLiteral hi = Some high"
    by (auto simp: convertBetween_def bind_eq_Some_conv)
  note cmp = ib_compare_resolved [where pos = pos and c = c, OF assms(2) convertLiteral_meaning [OF v(1)]]
    ib_compare_resolved [where pos = pos and c = c, OF assms(2) convertLiteral_meaning [OF v(2)]]
  have b: "b = (if n then IbOr (LessThan (col_name c) low) (GreaterThan (col_name c) high)
      else IbAnd (GreaterThanEqual (col_name c) low) (LessThanEqual (col_name c) high))"
    using assms(1) v by (simp add: convertBetween_def comparePred_def split: if_splits)
  show ?thesis
    by (cases n) (simp_all add: b cmp known_op_def negate_if_def not3_and3 eval_compare_not)
qed

lemma convertExpr_eval:
  "convertExpr e = Some b \<Longrightarrow> cols_resolved pos e \<Longrightarrow> ib_eval fo dts pos r b = eval fo dts r e"
proof (induction e arbitrary: b)
  case (Compare c op l)
  then obtain v where v: "convertLiteral l = Some v" "comparePred op (col_name c) v = Some b"
    by (auto simp: bind_eq_Some_conv)
  then show ?case
    using comparePred_eval [OF v(2)] ib_compare_resolved [OF _ convertLiteral_meaning [OF v(1)]] Compare.prems(2) by simp
next
  case (IsNull c n)
  then show ?case by (auto simp: ib_null_def negate_if_def split: if_splits)
next
  case (Between c n lo hi)
  then show ?case using convertBetween_eval by (metis convertExpr.simps(3) cols_resolved.simps(3))
next
  case (InList c n ls)
  then obtain vs where "omap convertLiteral ls = Some vs" "inPred (col_name c) n (hd vs) vs = Some b"
    by (auto simp: convertInList_def bind_eq_Some_conv split: if_splits)
  then show ?case using ib_in_resolved [OF _ omap_meaning] InList.prems(2)
    by (auto simp: inPred_def negate_if_def split: if_splits)
qed (auto simp: bind_eq_Some_conv)

text \<open>C16: A predicate that converts keeps its meaning: on every row the Iceberg expression is TRUE, FALSE
  or NULL exactly where the predicate is, NOT, BETWEEN and IN included, whatever comparison
  foreign values have.\<close>

theorem convertExpr_exact:
  assumes "convertExpr e = Some b" and "cols_resolved pos e"
  shows "ib_eval fo dts pos r b = eval fo dts r e"
  using assms by (rule convertExpr_eval)

theorem convertExpr_exact_witness:
  "ib_eval (\<lambda>a b. None) (\<lambda>i. Int64DT) [''x'' \<mapsto> 4] (\<lambda>i. Some (IntCell 7))
     (IbNot (IbOr (LessThan ''x'' (IbInt64 3)) (GreaterThan ''x'' (IbInt64 9)))) = Some True"
proof -
  let ?int = "\<lambda>n. \<lparr>lit_type = LiteralInt64, lit_value = Int64V n, lit_unit = OtherUnit [], lit_tz = []\<rparr>"
  have c: "convertExpr (NotE (Between \<lparr>col_name = ''x'', col_index = 4\<rparr> True (?int 3) (?int 9))) =
      Some (IbNot (IbOr (LessThan ''x'' (IbInt64 3)) (GreaterThan ''x'' (IbInt64 9))))"
    by (simp add: convertBetween_def convertLiteral_def comparePred_def)
  have "cols_resolved [''x'' \<mapsto> 4] (NotE (Between \<lparr>col_name = ''x'', col_index = 4\<rparr> True (?int 3) (?int 9)))"
    by simp
  from convertExpr_exact [OF c this] show ?thesis
    by (simp only:) (simp add: eval_compare_def known_op_def op_holds_def sql_compare_def cell_value_def
        literal_meaning_def negate_if_def order_int_def)
qed

section \<open>The pushed filter only widens\<close>

text \<open>The conjuncts that reach the scan.\<close>

definition pushed :: "(IbExpr \<Rightarrow> bool) \<Rightarrow> Expr \<Rightarrow> bool" where
  "pushed bind f \<longleftrightarrow> (\<exists>b. convertExpr f = Some b \<and> bind b)"

lemma convert_fold:
  assumes "\<forall>f \<in> set fs. cols_resolved pos f"
  shows "(fold (convert_step bind) fs acc = None \<longleftrightarrow> acc = None \<and> (\<forall>f \<in> set fs. \<not> pushed bind f)) \<and>
    (\<forall>e. fold (convert_step bind) fs acc = Some e \<longrightarrow>
      (ib_eval fo dts pos r e = Some True \<longleftrightarrow>
         (\<forall>a. acc = Some a \<longrightarrow> ib_eval fo dts pos r a = Some True) \<and>
         (\<forall>f \<in> set fs. pushed bind f \<longrightarrow> eval fo dts r f = Some True)))"
  using assms
proof (induction fs arbitrary: acc)
  case (Cons f fs)
  show ?case
  proof (cases "pushed bind f")
    case False
    then have "convert_step bind f acc = acc"
      by (auto simp: convert_step_def pushed_def split: option.splits)
    then show ?thesis using Cons False by simp
  next
    case True
    then obtain b where b: "convertExpr f = Some b" "bind b" by (auto simp: pushed_def)
    have ev: "ib_eval fo dts pos r b = eval fo dts r f" using b(1) Cons.prems by (intro convertExpr_eval) simp_all
    show ?thesis
    proof (cases acc)
      case None
      then have "convert_step bind f acc = Some b" using b by (simp add: convert_step_def)
      then show ?thesis using Cons.IH [of "Some b"] Cons.prems True None ev by simp
    next
      case (Some a)
      then have "convert_step bind f acc = Some (IbAnd a b)" using b by (simp add: convert_step_def)
      then show ?thesis using Cons.IH [of "Some (IbAnd a b)"] Cons.prems True Some ev by simp
    qed
  qed
qed simp

text \<open>C25: The row filter pushed to Iceberg is TRUE on exactly the rows that satisfy every conjunct that
  converts and binds, and there is none only when no conjunct does; so a scan that keeps the
  rows on which its filter is TRUE keeps every row that satisfies the query's filters.\<close>

theorem convertFilters_widens:
  assumes "\<forall>f \<in> set filters. cols_resolved pos f"
  shows "(case convertFilters filters bind of
      None \<Rightarrow> \<forall>f \<in> set filters. \<not> pushed bind f
    | Some e \<Rightarrow> (ib_eval fo dts pos r e = Some True \<longleftrightarrow>
        (\<forall>f \<in> set filters. pushed bind f \<longrightarrow> eval fo dts r f = Some True)) \<and>
        (satisfies fo dts filters r \<longrightarrow> ib_eval fo dts pos r e = Some True))"
  using convert_fold [OF assms, of bind None fo dts r]
  by (auto simp: convertFilters_def satisfies_def split: option.splits)

theorem convertFilters_widens_witness:
  "ib_eval (\<lambda>a b. None) (\<lambda>i. Int64DT) [''x'' \<mapsto> 0] (\<lambda>i. Some (IntCell 7)) (IbNotNull ''x'') = Some True \<and>
   convertFilters [Compare \<lparr>col_name = ''x'', col_index = 0\<rparr> CompareEq
       \<lparr>lit_type = LiteralUint64, lit_value = Uint64V 0xFFFFFFFFFFFFFFFF, lit_unit = OtherUnit [], lit_tz = []\<rparr>,
      IsNull \<lparr>col_name = ''x'', col_index = 0\<rparr> True] (\<lambda>b. True) = Some (IbNotNull ''x'')"
proof -
  let ?fs = "[Compare \<lparr>col_name = ''x'', col_index = 0\<rparr> CompareEq
       \<lparr>lit_type = LiteralUint64, lit_value = Uint64V 0xFFFFFFFFFFFFFFFF, lit_unit = OtherUnit [], lit_tz = []\<rparr>,
      IsNull \<lparr>col_name = ''x'', col_index = 0\<rparr> True]"
  have c: "convertFilters ?fs (\<lambda>b. True) = Some (IbNotNull ''x'')"
    by (simp add: convertFilters_def convert_step_def convertLiteral_def)
  have "\<forall>f \<in> set ?fs. cols_resolved [''x'' \<mapsto> 0] f" by simp
  from convertFilters_widens [OF this, of "\<lambda>b. True" "\<lambda>a b. None" "\<lambda>i. Int64DT" "\<lambda>i. Some (IntCell 7)"] c
  show ?thesis by (simp add: pushed_def convertLiteral_def negate_if_def)
qed

end
