(* ===== verification/Iceberg_Reader.thy ===== *)
theory Iceberg_Reader
  imports Prelude "HOL-Library.Multiset" "HOL-Library.Sublist"
begin

text \<open>
  \<open>providers/iceberg/reader.go\<close>: the reader that pumps the Iceberg library's iterator on a
  goroutine of its own and hands its items over an unbuffered channel. Producer and
  consumer are one step relation; the batches are tokens, so that leaks and double
  releases show.
\<close>

section \<open>The state\<close>

record 'b seqItem =
  si_rec :: "'b option"
  si_err :: "string option"

text \<open>
  The producer is asking the iterator for an item, in its \<open>select\<close> with one in hand, or
  gone (with the channel closed).
\<close>

datatype 'b producer = Fetching | Offering "'b seqItem" | Exited

text \<open>
  The consumer's goroutine is outside the reader, in the receive of \<open>Next\<close>, in the drain
  loop of the last \<open>Release\<close>, or past it.
\<close>

datatype consumer = Outside | Receiving | Draining | Gone

text \<open>
  \<open>source\<close> is what the iterator has left. The last three fields record what happened:
  the batches taken from the iterator, those released, and what each \<open>Next\<close> returned,
  with the batch it left current.
\<close>

record 'b seqReader =
  source :: "'b seqItem list"
  producer :: "'b producer"
  cancelled :: bool
  cur :: "'b option"
  err :: "string option"
  refCount :: int
  consumer :: consumer
  taken :: "'b list"
  freed :: "'b list"
  nexts :: "(bool \<times> 'b option) list"

definition readerFromSeq :: "'b seqItem list \<Rightarrow> 'b seqReader" where
  "readerFromSeq itr =
     \<lparr>source = itr, producer = Fetching, cancelled = False, cur = None, err = None, refCount = 1,
      consumer = Outside, taken = [], freed = [], nexts = []\<rparr>"

definition opt_list :: "'b option \<Rightarrow> 'b list" where
  "opt_list x = (case x of None \<Rightarrow> [] | Some b \<Rightarrow> [b])"

section \<open>Steps\<close>

text \<open>The producer after its item was received: it stops at the first error.\<close>

definition after_send :: "'b seqItem \<Rightarrow> 'b producer" where
  "after_send it = (if si_err it = None then Fetching else Exited)"

text \<open>\<open>Next\<close> up to its receive, and after it.\<close>

definition begin_Next :: "'b seqReader \<Rightarrow> 'b seqReader" where
  "begin_Next r =
     (let r1 = r\<lparr>freed := freed r @ opt_list (cur r), cur := None\<rparr>
      in if err r1 \<noteq> None then r1\<lparr>nexts := nexts r1 @ [(False, None)]\<rparr> else r1\<lparr>consumer := Receiving\<rparr>)"

definition end_Next :: "'b seqReader \<Rightarrow> 'b seqItem option \<Rightarrow> 'b seqReader" where
  "end_Next r item =
     (case item of
        None \<Rightarrow> r\<lparr>consumer := Outside, nexts := nexts r @ [(False, None)]\<rparr>
      | Some it \<Rightarrow>
          (case si_err it of
             Some e \<Rightarrow> r\<lparr>err := Some e, freed := freed r @ opt_list (si_rec it), consumer := Outside,
                         nexts := nexts r @ [(False, None)]\<rparr>
           | None \<Rightarrow> r\<lparr>cur := si_rec it, consumer := Outside, nexts := nexts r @ [(True, si_rec it)]\<rparr>))"

definition begin_Release :: "'b seqReader \<Rightarrow> 'b seqReader" where
  "begin_Release r =
     (let r1 = r\<lparr>refCount := refCount r - 1\<rparr>
      in if refCount r1 \<noteq> 0 then r1 else r1\<lparr>cancelled := True, consumer := Draining\<rparr>)"

definition end_Release :: "'b seqReader \<Rightarrow> 'b seqReader" where
  "end_Release r = r\<lparr>freed := freed r @ opt_list (cur r), cur := None, consumer := Gone\<rparr>"

text \<open>What goes on between calls: the producer, and the two ends of the channel meeting.\<close>

inductive pump_step :: "'b seqReader \<Rightarrow> 'b seqReader \<Rightarrow> bool" where
  fetch: "producer r = Fetching \<Longrightarrow> source r = it # rest \<Longrightarrow>
    pump_step r (r\<lparr>source := rest, producer := Offering it, taken := taken r @ opt_list (si_rec it)\<rparr>)"
| exhaust: "producer r = Fetching \<Longrightarrow> source r = [] \<Longrightarrow> pump_step r (r\<lparr>producer := Exited\<rparr>)"
| give_up: "producer r = Offering it \<Longrightarrow> cancelled r \<Longrightarrow>
    pump_step r (r\<lparr>producer := Exited, freed := freed r @ opt_list (si_rec it)\<rparr>)"
| hand_over: "producer r = Offering it \<Longrightarrow> consumer r = Receiving \<Longrightarrow>
    pump_step r (end_Next (r\<lparr>producer := after_send it\<rparr>) (Some it))"
| ended: "producer r = Exited \<Longrightarrow> consumer r = Receiving \<Longrightarrow> pump_step r (end_Next r None)"
| drain: "producer r = Offering it \<Longrightarrow> consumer r = Draining \<Longrightarrow>
    pump_step r (r\<lparr>producer := after_send it, freed := freed r @ opt_list (si_rec it)\<rparr>)"
| drained: "producer r = Exited \<Longrightarrow> consumer r = Draining \<Longrightarrow> pump_step r (end_Release r)"

inductive_cases pump_stepE: "pump_step r r'"

text \<open>The consumer's calls, made one at a time while it holds a reference.\<close>

inductive call_step :: "'b seqReader \<Rightarrow> 'b seqReader \<Rightarrow> bool" where
  next_call: "consumer r = Outside \<Longrightarrow> call_step r (begin_Next r)"
| release_call: "consumer r = Outside \<Longrightarrow> call_step r (begin_Release r)"
| retain_call: "consumer r = Outside \<Longrightarrow> call_step r (r\<lparr>refCount := refCount r + 1\<rparr>)"

inductive seq_reach :: "'b seqItem list \<Rightarrow> 'b seqReader \<Rightarrow> bool" for itr where
  seq_start: "seq_reach itr (readerFromSeq itr)"
| seq_pump: "seq_reach itr r \<Longrightarrow> pump_step r r' \<Longrightarrow> seq_reach itr r'"
| seq_call: "seq_reach itr r \<Longrightarrow> call_step r r' \<Longrightarrow> seq_reach itr r'"

section \<open>Every batch is released exactly once\<close>

definition offered :: "'b producer \<Rightarrow> 'b seqItem list" where
  "offered p = (case p of Offering it \<Rightarrow> [it] | _ \<Rightarrow> [])"

lemma offered_simps [simp]:
  "offered Fetching = []" "offered Exited = []" "offered (Offering it) = [it]" "offered (after_send it) = []"
  by (simp_all add: offered_def after_send_def)

lemma opt_list_simps [simp]: "opt_list None = []" "opt_list (Some b) = [b]"
  by (simp_all add: opt_list_def)

definition held :: "'b seqReader \<Rightarrow> 'b list" where
  "held r = opt_list (cur r) @ concat (map (\<lambda>it. opt_list (si_rec it)) (offered (producer r)))"

definition owned_ok :: "'b seqReader \<Rightarrow> bool" where
  "owned_ok r \<longleftrightarrow> mset (taken r) = mset (freed r) + mset (held r) \<and>
     (consumer r = Receiving \<longrightarrow> cur r = None) \<and>
     (consumer r = Gone \<longrightarrow> cur r = None \<and> producer r = Exited)"

lemmas call_defs = begin_Next_def end_Next_def begin_Release_def end_Release_def Let_def

lemma pump_owned: "pump_step r r' \<Longrightarrow> owned_ok r \<Longrightarrow> owned_ok r'"
  by (induction rule: pump_step.induct)
    (auto simp: owned_ok_def held_def call_defs after_send_def split: option.splits)

lemma call_owned: "call_step r r' \<Longrightarrow> owned_ok r \<Longrightarrow> owned_ok r'"
  by (induction rule: call_step.induct) (auto simp: owned_ok_def held_def call_defs)

lemma seq_owned: "seq_reach itr r \<Longrightarrow> owned_ok r"
proof (induction rule: seq_reach.induct)
  case seq_start
  show ?case by (simp add: owned_ok_def held_def readerFromSeq_def)
qed (auto intro: pump_owned call_owned)

text \<open>C18: However the producer, the consumer's calls and the last \<open>Release\<close> interleave, every batch taken
  from the iterator is either released once or still held, by the reader or by the producer;
  and once the last \<open>Release\<close> has returned, each has been released exactly once and the
  producer is gone.\<close>

theorem batches_released_once:
  assumes "seq_reach itr r"
  shows "mset (taken r) = mset (freed r) + mset (held r) \<and>
    (consumer r = Gone \<longrightarrow> mset (freed r) = mset (taken r) \<and> producer r = Exited)"
  using seq_owned [OF assms] by (auto simp: owned_ok_def held_def)

section \<open>What the consumer sees\<close>

text \<open>The batches before the first error, and that error.\<close>

fun seq_batches :: "'b seqItem list \<Rightarrow> 'b option list" where
  "seq_batches [] = []"
| "seq_batches (it # its) = (if si_err it = None then si_rec it # seq_batches its else [])"

fun seq_error :: "'b seqItem list \<Rightarrow> string option" where
  "seq_error [] = None"
| "seq_error (it # its) = (if si_err it = None then seq_error its else si_err it)"

text \<open>
  \<open>produced\<close>: the batches of the successful \<open>Next\<close> calls. What the iterator yielded at
  first is those, then what is on its way, until an error or the end was seen.
\<close>

definition produced :: "'b seqReader \<Rightarrow> 'b option list" where
  "produced r = map snd (filter fst (nexts r))"

definition upcoming :: "'b seqReader \<Rightarrow> 'b seqItem list" where
  "upcoming r = offered (producer r) @ (if producer r = Exited then [] else source r)"

definition seen_ok :: "'b seqItem list \<Rightarrow> 'b seqReader \<Rightarrow> bool" where
  "seen_ok itr r \<longleftrightarrow>
     (if cancelled r then prefix (produced r) (seq_batches itr)
      else if err r = None
      then seq_batches itr = produced r @ seq_batches (upcoming r) \<and> seq_error itr = seq_error (upcoming r)
      else seq_batches itr = produced r \<and> seq_error itr = err r) \<and>
     (cancelled r \<longleftrightarrow> consumer r = Draining \<or> consumer r = Gone) \<and>
     (consumer r = Receiving \<longrightarrow> err r = None)"

definition ended_ok :: "'b seqItem list \<Rightarrow> 'b seqReader \<Rightarrow> bool" where
  "ended_ok itr r \<longleftrightarrow>
     (\<forall>x. (False, x) \<in> set (nexts r) \<longrightarrow>
        producer r = Exited \<and> produced r = seq_batches itr \<and> err r = seq_error itr)"

lemma produced_append [simp]: "produced (r\<lparr>nexts := xs @ ys\<rparr>) = map snd (filter fst xs) @ map snd (filter fst ys)"
  by (simp add: produced_def)

lemma pump_seen: "pump_step r r' \<Longrightarrow> seen_ok itr r \<Longrightarrow> seen_ok itr r'"
proof (induction rule: pump_step.induct)
  case (fetch r it rest)
  then show ?case by (auto simp: seen_ok_def upcoming_def produced_def)
next
  case (exhaust r)
  then show ?case by (auto simp: seen_ok_def upcoming_def produced_def)
next
  case (give_up r it)
  then show ?case by (auto simp: seen_ok_def produced_def)
next
  case (hand_over r it)
  then show ?case
    by (auto simp: seen_ok_def upcoming_def produced_def end_Next_def after_send_def split: option.splits if_splits)
next
  case (ended r)
  then show ?case by (auto simp: seen_ok_def upcoming_def produced_def end_Next_def)
next
  case (drain r it)
  then show ?case by (auto simp: seen_ok_def produced_def)
next
  case (drained r)
  then show ?case by (auto simp: seen_ok_def produced_def end_Release_def)
qed

lemma call_seen: "call_step r r' \<Longrightarrow> seen_ok itr r \<Longrightarrow> seen_ok itr r'"
proof (induction rule: call_step.induct)
  case (next_call r)
  then show ?case by (auto simp: seen_ok_def upcoming_def produced_def begin_Next_def Let_def)
next
  case (release_call r)
  then show ?case by (auto simp: seen_ok_def upcoming_def produced_def begin_Release_def Let_def split: if_splits)
next
  case (retain_call r)
  then show ?case by (simp add: seen_ok_def upcoming_def produced_def)
qed

lemma seq_seen: "seq_reach itr r \<Longrightarrow> seen_ok itr r"
proof (induction rule: seq_reach.induct)
  case seq_start
  show ?case by (simp add: seen_ok_def upcoming_def produced_def readerFromSeq_def)
qed (auto intro: pump_seen call_seen)

lemma pump_ended: "pump_step r r' \<Longrightarrow> seen_ok itr r \<Longrightarrow> ended_ok itr r \<Longrightarrow> ended_ok itr r'"
proof (induction rule: pump_step.induct)
  case (hand_over r it)
  then show ?case
    by (auto simp: ended_ok_def seen_ok_def upcoming_def produced_def end_Next_def after_send_def split: option.splits)
next
  case (ended r)
  then show ?case by (auto simp: ended_ok_def seen_ok_def upcoming_def produced_def end_Next_def)
qed (auto simp: ended_ok_def produced_def end_Release_def)

lemma seq_err_exited: "seq_reach itr r \<Longrightarrow> err r \<noteq> None \<Longrightarrow> (False, None) \<in> set (nexts r)"
  by (induction rule: seq_reach.induct)
    (auto simp: readerFromSeq_def call_defs elim!: pump_stepE call_step.cases split: option.splits if_splits)

lemma call_ended: "call_step r r' \<Longrightarrow> (err r \<noteq> None \<longrightarrow> (False, None) \<in> set (nexts r)) \<Longrightarrow> ended_ok itr r \<Longrightarrow> ended_ok itr r'"
  by (induction rule: call_step.induct)
    (auto simp: ended_ok_def produced_def begin_Next_def begin_Release_def Let_def)

lemma seq_ended: "seq_reach itr r \<Longrightarrow> ended_ok itr r"
proof (induction rule: seq_reach.induct)
  case seq_start
  show ?case by (simp add: ended_ok_def readerFromSeq_def)
next
  case (seq_pump r r')
  then show ?case using seq_seen pump_ended by blast
next
  case (seq_call r r')
  then show ?case using seq_err_exited call_ended by blast
qed

text \<open>C19: In every interleaving the batches that \<open>Next\<close> delivered are, in order, the first ones of the
  iterator; and once a \<open>Next\<close> has returned false they are all the batches before the
  iterator's first error, and \<open>Err\<close> is that error, or nil if there is none.\<close>

theorem seq_reader_exact:
  assumes "seq_reach itr r"
  shows "prefix (produced r) (seq_batches itr) \<and>
    ((False, None) \<in> set (nexts r) \<longrightarrow> produced r = seq_batches itr \<and> err r = seq_error itr)"
proof -
  have "prefix (produced r) (seq_batches itr)"
    using seq_seen [OF assms] by (auto simp: seen_ok_def split: if_splits)
  then show ?thesis using seq_ended [OF assms] by (auto simp: ended_ok_def)
qed

section \<open>Next and Release return\<close>

definition pump_work :: "'b seqReader \<Rightarrow> nat" where
  "pump_work r = 2 * length (source r) +
     (case producer r of Fetching \<Rightarrow> 1 | Offering it \<Rightarrow> 2 | Exited \<Rightarrow> 0) +
     (case consumer r of Receiving \<Rightarrow> 1 | Draining \<Rightarrow> 1 | _ \<Rightarrow> 0)"

lemma pump_work_less: "pump_step r r' \<Longrightarrow> pump_work r' < pump_work r"
  by (induction rule: pump_step.induct)
    (auto simp: pump_work_def end_Next_def end_Release_def after_send_def split: option.splits consumer.splits)

lemma pump_progress:
  assumes "consumer r = Receiving \<or> consumer r = Draining"
  shows "\<exists>r'. pump_step r r'"
proof (cases "producer r")
  case Fetching
  then show ?thesis by (cases "source r") (blast intro: fetch exhaust)+
next
  case (Offering it)
  then show ?thesis using assms by (blast intro: hand_over drain)
next
  case Exited
  then show ?thesis using assms by (blast intro: ended drained)
qed

text \<open>C23: A \<open>Next\<close> or a last \<open>Release\<close> under way always returns: the producer and the channel can make at
  most \<open>pump_work\<close> steps, two per item the iterator has left and three more, and when they
  can make no more, no call of the consumer is under way.\<close>

theorem seq_reader_returns:
  assumes "(pump_step ^^ n) r r'"
  shows "n \<le> pump_work r \<and> (consumer r' = Receiving \<or> consumer r' = Draining \<longrightarrow> (\<exists>r''. pump_step r' r''))"
proof -
  have "n + pump_work r' \<le> pump_work r" using assms
  proof (induction n arbitrary: r')
    case (Suc n)
    then obtain r1 where r1: "(pump_step ^^ n) r r1" "pump_step r1 r'" by auto
    show ?case using Suc.IH [OF r1(1)] pump_work_less [OF r1(2)] by simp
  qed simp
  then show ?thesis using pump_progress by auto
qed

section \<open>Example runs\<close>

definition demo_items :: "nat seqItem list" where
  "demo_items = [\<lparr>si_rec = Some 7, si_err = None\<rparr>, \<lparr>si_rec = None, si_err = Some ''disk''\<rparr>]"

text \<open>One batch delivered, then the error.\<close>

definition demo_run :: "nat seqReader" where
  "demo_run = \<lparr>source = [], producer = Exited, cancelled = False, cur = None, err = Some ''disk'', refCount = 1,
     consumer = Outside, taken = [7], freed = [7], nexts = [(True, Some 7), (False, None)]\<rparr>"

lemma demo_reached: "seq_reach demo_items demo_run"
proof -
  note defs = readerFromSeq_def demo_items_def demo_run_def begin_Next_def end_Next_def after_send_def
  have "seq_reach demo_items (begin_Next (readerFromSeq demo_items))" (is "seq_reach _ ?r1")
    by (rule seq_call [OF seq_start]) (rule next_call, simp add: defs)
  then have "seq_reach demo_items (?r1\<lparr>source := tl demo_items, producer := Offering (hd demo_items),
      taken := taken ?r1 @ opt_list (si_rec (hd demo_items))\<rparr>)" (is "seq_reach _ ?r2")
    by (rule seq_pump) (rule fetch; simp add: defs)
  then have "seq_reach demo_items (end_Next (?r2\<lparr>producer := after_send (hd demo_items)\<rparr>) (Some (hd demo_items)))"
    (is "seq_reach _ ?r3") by (rule seq_pump) (rule hand_over; simp add: defs)
  then have "seq_reach demo_items (begin_Next ?r3)" (is "seq_reach _ ?r4")
    by (rule seq_call) (rule next_call, simp add: defs)
  then have "seq_reach demo_items (?r4\<lparr>source := [], producer := Offering (last demo_items),
      taken := taken ?r4 @ opt_list (si_rec (last demo_items))\<rparr>)" (is "seq_reach _ ?r5")
    by (rule seq_pump) (rule fetch; simp add: defs)
  then have "seq_reach demo_items (end_Next (?r5\<lparr>producer := after_send (last demo_items)\<rparr>) (Some (last demo_items)))"
    by (rule seq_pump) (rule hand_over; simp add: defs)
  also have "end_Next (?r5\<lparr>producer := after_send (last demo_items)\<rparr>) (Some (last demo_items)) = demo_run"
    by (simp add: defs)
  finally show ?thesis .
qed

theorem seq_reader_exact_witness:
  "produced demo_run = seq_batches demo_items \<and> err demo_run = seq_error demo_items \<and> seq_batches demo_items = [Some 7]"
  using seq_reader_exact [OF demo_reached] by (simp add: demo_run_def demo_items_def)

text \<open>Released at once, with the first batch on offer: it is released, not delivered.\<close>

definition demo_dropped :: "nat seqReader" where
  "demo_dropped = \<lparr>source = tl demo_items, producer = Exited, cancelled = True, cur = None, err = None, refCount = 0,
     consumer = Gone, taken = [7], freed = [7], nexts = []\<rparr>"

lemma demo_dropped_reached: "seq_reach demo_items demo_dropped"
proof -
  note defs = readerFromSeq_def demo_items_def demo_dropped_def begin_Release_def end_Release_def
  have "seq_reach demo_items ((readerFromSeq demo_items)\<lparr>source := tl demo_items, producer := Offering (hd demo_items),
      taken := taken (readerFromSeq demo_items) @ opt_list (si_rec (hd demo_items))\<rparr>)" (is "seq_reach _ ?r1")
    by (rule seq_pump [OF seq_start]) (rule fetch; simp add: defs)
  then have "seq_reach demo_items (begin_Release ?r1)" (is "seq_reach _ ?r2")
    by (rule seq_call) (rule release_call, simp add: defs)
  then have "seq_reach demo_items (?r2\<lparr>producer := Exited, freed := freed ?r2 @ opt_list (si_rec (hd demo_items))\<rparr>)"
    (is "seq_reach _ ?r3") by (rule seq_pump) (rule give_up; simp add: defs)
  then have "seq_reach demo_items (end_Release ?r3)" by (rule seq_pump) (rule drained; simp add: defs)
  also have "end_Release ?r3 = demo_dropped" by (simp add: defs)
  finally show ?thesis .
qed

theorem batches_released_once_witness: "mset (freed demo_dropped) = {#7#} \<and> nexts demo_dropped = []"
  using batches_released_once [OF demo_dropped_reached] by (simp add: demo_dropped_def)

theorem seq_reader_returns_witness:
  "\<exists>r'. (pump_step ^^ 1) (begin_Release (readerFromSeq demo_items)) r' \<and> 1 \<le> pump_work (begin_Release (readerFromSeq demo_items))"
proof -
  have "\<exists>r'. pump_step (begin_Release (readerFromSeq demo_items)) r'"
    by (rule pump_progress) (simp add: begin_Release_def readerFromSeq_def)
  then obtain r' where "(pump_step ^^ 1) (begin_Release (readerFromSeq demo_items)) r'" by auto
  then show ?thesis using seq_reader_returns by blast
qed

end
