(* ===== verification/Iceberg_Scan.thy ===== *)
theory Iceberg_Scan
  imports Iceberg_Convert Iceberg_Reader Parquet_Pushdown
begin

text \<open>
  \<open>providers/iceberg/iceberg.go\<close> and \<open>pushdown.go\<close>: opening a table and its scans. The
  table handle, its scan planner and the catalog are the Iceberg library's; what the code
  asks of them is a record of functions.
\<close>

section \<open>The table handle\<close>

text \<open>The options of \<open>tbl.Scan\<close>.\<close>

record IbScan =
  sc_caseSensitive :: bool
  sc_filter :: "IbExpr option"
  sc_limit :: "i64 option"
  sc_selected :: "string list option"

definition plain_scan :: IbScan where
  "plain_scan = \<lparr>sc_caseSensitive = False, sc_filter = None, sc_limit = None, sc_selected = None\<rparr>"

record IbTable =
  tb_bind :: "IbExpr \<Rightarrow> bool"
  tb_arrow_schema :: "string + Field list"
  tb_ToArrowRecords :: "IbScan \<Rightarrow> string + (Field list \<times> Batch seqItem list)"

text \<open>\<open>ip_load\<close> is one outcome of the provider's \<open>load\<close>, which runs afresh for each scan.\<close>

datatype ib_err =
    LoadError string
  | DeriveSchema string
  | IbScanError string
  | IbOutOfRange int
  | IbPanic

definition newProvider :: "string + IbTable \<Rightarrow> ib_err + Field list" where
  "newProvider loaded =
     (case loaded of
        Inl e \<Rightarrow> Inl (LoadError e)
      | Inr tbl \<Rightarrow> (case tb_arrow_schema tbl of Inl e \<Rightarrow> Inl (DeriveSchema e) | Inr schema \<Rightarrow> Inr schema))"

text \<open>\<open>cat.LoadTable\<close> wrapped with the identifier, and the direct \<open>metadata.json\<close> location.\<close>

definition intersperse_dots :: "string list \<Rightarrow> string" where
  "intersperse_dots xs = (case xs of [] \<Rightarrow> [] | y # ys \<Rightarrow> fold (\<lambda>x acc. acc @ ''.'' @ x) ys y)"

definition load_from_catalog :: "(string list \<Rightarrow> string + IbTable) \<Rightarrow> string list \<Rightarrow> string + IbTable" where
  "load_from_catalog LoadTable ident =
     (case LoadTable ident of
        Inl e \<Rightarrow> Inl (''iceberg: load catalog table '' @ intersperse_dots ident @ '': '' @ e)
      | Inr tbl \<Rightarrow> Inr tbl)"

section \<open>Readers over the pumped iterator\<close>

text \<open>
  The reader of \<open>Iceberg_Reader\<close> as its consumer sees it when nobody releases it early.
\<close>

definition seq_record_reader :: "Field list \<Rightarrow> Batch seqItem list \<Rightarrow> RecordReader" where
  "seq_record_reader schema itr = LibReader schema (map the (seq_batches itr)) None (seq_error itr) 1"

lemma seq_record_reader_faithful:
  assumes "seq_reach itr r" and "(False, None) \<in> set (nexts r)" and "None \<notin> set (seq_batches itr)"
  shows "produced r = map Some (rd_pending (seq_record_reader schema itr)) \<and> err r = seq_error itr"
proof -
  have "map Some (map the xs) = xs" if "None \<notin> set xs" for xs :: "'b option list"
    using that by (induction xs) auto
  then show ?thesis
    using assms seq_ended [OF assms(1)] by (auto simp: ended_ok_def seq_record_reader_def)
qed

definition Scan_iceberg :: "string + IbTable \<Rightarrow> ib_err + RecordReader" where
  "Scan_iceberg loaded =
     (case loaded of
        Inl e \<Rightarrow> Inl (LoadError e)
      | Inr tbl \<Rightarrow>
          (case tb_ToArrowRecords tbl plain_scan of
             Inl e \<Rightarrow> Inl (IbScanError e)
           | Inr (schema, itr) \<Rightarrow> Inr (seq_record_reader schema itr)))"

section \<open>Projection\<close>

text \<open>The loop over the requested indices; \<open>seen\<close> is the set of the ones kept.\<close>

fun uniqueLoop :: "int \<Rightarrow> int list \<Rightarrow> int list \<Rightarrow> ib_err + int list" where
  "uniqueLoop n unique [] = Inr unique"
| "uniqueLoop n unique (idx # rest) =
     (if idx < 0 \<or> n \<le> idx then Inl (IbOutOfRange idx)
      else uniqueLoop n (if idx \<in> set unique then unique else unique @ [idx]) rest)"

definition projectionPlan :: "Field list \<Rightarrow> int list \<Rightarrow> ib_err + (string list \<times> int list option)" where
  "projectionPlan schema projection =
     (if projection = [] then
        (if schema = [] then Inl IbPanic else Inr ([field_name (schema ! 0)], Some []))
      else
        sbind (uniqueLoop (int (length schema)) [] projection) (\<lambda>unique.
          let outputOrder = sort unique;
              posInOutput = map_of (zip outputOrder (map int [0..<length outputOrder]));
              names = map (\<lambda>idx. field_name (schema ! nat idx)) outputOrder;
              perm = map (\<lambda>idx. case posInOutput idx of Some p \<Rightarrow> p | None \<Rightarrow> 0) projection
          in if length projection = length outputOrder \<and> perm = map int [0..<length perm]
             then Inr (names, None) else Inr (names, Some perm)))"

definition ScanWithOptions_iceberg ::
  "Field list \<Rightarrow> string + IbTable \<Rightarrow> ScanOptions option \<Rightarrow> ib_err + RecordReader" where
  "ScanWithOptions_iceberg schema loaded opts =
     (case opts of
        None \<Rightarrow> Scan_iceberg loaded
      | Some o' \<Rightarrow>
          (case loaded of
             Inl e \<Rightarrow> Inl (LoadError e)
           | Inr tbl \<Rightarrow>
               sbind (case so_projection o' of
                        None \<Rightarrow> Inr (None, None)
                      | Some ps \<Rightarrow> sbind (projectionPlan schema ps) (\<lambda>(names, perm). Inr (Some names, perm)))
                 (\<lambda>(selected, perm).
                    case tb_ToArrowRecords tbl
                           \<lparr>sc_caseSensitive = True, sc_filter = convertFilters (so_filters o') (tb_bind tbl),
                            sc_limit = (if 0 \<le> sint (so_limit o') then Some (so_limit o') else None),
                            sc_selected = selected\<rparr> of
                      Inl e \<Rightarrow> Inl (IbScanError e)
                    | Inr (sch, itr) \<Rightarrow>
                        (case perm of
                           None \<Rightarrow> Inr (seq_record_reader sch itr)
                         | Some p \<Rightarrow>
                             (case ProjectReader (seq_record_reader sch itr) p of
                                None \<Rightarrow> Inl IbPanic | Some r \<Rightarrow> Inr r)))))"

section \<open>The plan restores the requested order\<close>

text \<open>The positions, in schema order, of the fields with the selected names.\<close>

definition selected_fields :: "Field list \<Rightarrow> string list \<Rightarrow> nat list" where
  "selected_fields schema names = filter (\<lambda>i. field_name (schema ! i) \<in> set names) [0..<length schema]"

lemma uniqueLoop_inv:
  "uniqueLoop n u ps = Inr u' \<Longrightarrow> distinct u \<Longrightarrow> \<forall>i \<in> set u. 0 \<le> i \<and> i < n \<Longrightarrow>
   distinct u' \<and> set u' = set u \<union> set ps \<and> (\<forall>i \<in> set u'. 0 \<le> i \<and> i < n)"
proof (induction n u ps rule: uniqueLoop.induct)
  case (2 n u idx rest)
  let ?u = "if idx \<in> set u then u else u @ [idx]"
  have ok: "\<not> (idx < 0 \<or> n \<le> idx)" using "2.prems"(1) by (simp split: if_splits)
  then have step: "uniqueLoop n ?u rest = Inr u'" using "2.prems"(1) by simp
  have u: "distinct ?u" "\<forall>i \<in> set ?u. 0 \<le> i \<and> i < n" "set ?u = insert idx (set u)"
    using "2.prems"(2,3) ok by auto
  have "distinct u' \<and> set u' = set ?u \<union> set rest \<and> (\<forall>i \<in> set u'. 0 \<le> i \<and> i < n)"
    by (rule "2.IH" [OF ok step u(1,2)])
  then show ?case unfolding u(3) by simp
qed simp

lemma uniqueLoop_fails:
  "(\<exists>e. uniqueLoop n u ps = Inl e) \<longleftrightarrow> (\<exists>i \<in> set ps. i < 0 \<or> n \<le> i)"
  by (induction n u ps rule: uniqueLoop.induct) auto

lemma map_of_positions:
  assumes "distinct xs" and "x \<in> set xs"
  obtains p where "map_of (zip xs (map int [0..<length xs])) x = Some (int p)" "p < length xs" "xs ! p = x"
proof -
  obtain p where p: "p < length xs" "xs ! p = x" using assms(2) by (metis in_set_conv_nth)
  have "map_of (zip xs (map int [0..<length xs])) (xs ! p) = Some (map int [0..<length xs] ! p)"
    using assms(1) p(1) by (intro map_of_zip_nth) simp_all
  also have "map int [0..<length xs] ! p = int p" using p(1) by simp
  finally show ?thesis using p by (intro that [of p]) simp_all
qed

lemma selected_sorted:
  assumes "distinct (map field_name schema)" and "distinct u" and "\<forall>i \<in> set u. 0 \<le> i \<and> i < int (length schema)"
  shows "map int (selected_fields schema (map (\<lambda>idx. field_name (schema ! nat idx)) (sort u))) = sort u"
proof -
  have mem: "field_name (schema ! i) \<in> (\<lambda>idx. field_name (schema ! nat idx)) ` set u \<longleftrightarrow> int i \<in> set u"
    if i: "i < length schema" for i
  proof
    assume "field_name (schema ! i) \<in> (\<lambda>idx. field_name (schema ! nat idx)) ` set u"
    then obtain j where j: "j \<in> set u" "field_name (schema ! i) = field_name (schema ! nat j)" by auto
    then have "nat j < length schema" using assms(3) by auto
    then have "i = nat j" using assms(1) i j(2) by (auto simp: distinct_conv_nth)
    then show "int i \<in> set u" using j assms(3) by auto
  qed force
  let ?s = "filter (\<lambda>i. int i \<in> set u) [0..<length schema]"
  have "selected_fields schema (map (\<lambda>idx. field_name (schema ! nat idx)) (sort u)) = ?s"
    unfolding selected_fields_def by (intro filter_cong) (auto simp: mem)
  moreover have "map int ?s = sort u"
  proof (rule sorted_distinct_set_unique)
    show "set (map int ?s) = set (sort u)"
    proof -
      have "x \<in> int ` {i. i < length schema \<and> int i \<in> set u}" if "x \<in> set u" for x
        using that assms(3) by (intro image_eqI [of _ _ "nat x"]) auto
      then show ?thesis by auto
    qed
    show "sorted (map int ?s)" by (simp add: sorted_map sorted_wrt_filter)
  qed (simp_all add: assms(2) distinct_map inj_on_def)
  ultimately show ?thesis by simp
qed

lemma projectionPlan_restores:
  assumes "projectionPlan schema ps = Inr (names, perm)" and "distinct (map field_name schema)"
  defines "sel \<equiv> selected_fields schema names"
  shows "case perm of
      None \<Rightarrow> map int sel = ps
    | Some p \<Rightarrow> (\<forall>j \<in> set p. 0 \<le> j \<and> j < int (length sel)) \<and> map (\<lambda>j. int (sel ! nat j)) p = ps"
proof (cases "ps = []")
  case True
  then show ?thesis using assms(1) by (auto simp: projectionPlan_def split: if_splits)
next
  case False
  then obtain u where u: "uniqueLoop (int (length schema)) [] ps = Inr u"
    using assms(1) by (auto simp: projectionPlan_def sbind_eq_Inr)
  let ?xs = "sort u" and ?P = "map_of (zip (sort u) (map int [0..<length (sort u)]))"
  let ?perm = "map (\<lambda>idx. case ?P idx of Some p \<Rightarrow> p | None \<Rightarrow> 0) ps"
  have inv: "distinct u" "set u = set ps" "\<forall>i \<in> set u. 0 \<le> i \<and> i < int (length schema)"
    using uniqueLoop_inv [OF u] by auto
  have names: "names = map (\<lambda>idx. field_name (schema ! nat idx)) ?xs"
    and perm: "perm = (if length ps = length ?xs \<and> ?perm = map int [0..<length ?perm] then None else Some ?perm)"
    using assms(1) False u by (auto simp: projectionPlan_def Let_def split: if_splits)
  have sel: "map int sel = ?xs"
    unfolding sel_def names by (rule selected_sorted [OF assms(2) inv(1,3)])
  have pos: "0 \<le> (case ?P i of Some p \<Rightarrow> p | None \<Rightarrow> 0) \<and> (case ?P i of Some p \<Rightarrow> p | None \<Rightarrow> 0) < int (length sel) \<and>
      int (sel ! nat (case ?P i of Some p \<Rightarrow> p | None \<Rightarrow> 0)) = i" if i: "i \<in> set ps" for i
  proof -
    have "distinct ?xs" "i \<in> set ?xs" using i inv by simp_all
    then obtain p where p: "?P i = Some (int p)" "p < length ?xs" "?xs ! p = i" by (rule map_of_positions)
    moreover have "length sel = length ?xs" "int (sel ! p) = ?xs ! p" using p(2) sel by (metis length_map, metis length_map nth_map)
    ultimately show ?thesis by simp
  qed
  have restored: "map (\<lambda>j. int (sel ! nat j)) ?perm = ps"
    using pos by (simp add: map_idI)
  have range: "\<forall>j \<in> set ?perm. 0 \<le> j \<and> j < int (length sel)"
    using pos by simp
  show ?thesis
  proof (cases "length ps = length ?xs \<and> ?perm = map int [0..<length ?perm]")
    case True
    have len: "length sel = length ps" using sel True by (metis length_map)
    then have "?perm = map int [0..<length sel]" using True by (simp only: length_map)
    then have "map (\<lambda>j. int (sel ! nat j)) ?perm = map (\<lambda>j. int (sel ! j)) [0..<length sel]"
      by (simp only: map_map comp_def nat_int)
    also have "\<dots> = map int sel" by (rule nth_equalityI) simp_all
    finally show ?thesis using restored perm True by simp
  next
    case False
    then have "perm = Some ?perm" using perm by (simp only: if_False)
    then show ?thesis using restored range by (simp only: option.case simp_thms)
  qed
qed

text \<open>
  What the library promises of a scan: \<open>full\<close> is what it reads for a filter and a limit
  with nothing selected away, and selecting fields keeps them in table-schema order.
\<close>

definition lib_scan_ok :: "Field list \<Rightarrow> IbTable \<Rightarrow> (IbExpr option \<Rightarrow> i64 option \<Rightarrow> Batch list) \<Rightarrow> bool" where
  "lib_scan_ok schema tbl full \<longleftrightarrow>
     (\<forall>cfg fs itr. tb_ToArrowRecords tbl cfg = Inr (fs, itr) \<longrightarrow>
        (\<forall>b \<in> set (full (sc_filter cfg) (sc_limit cfg)). length (b_columns b) = length schema) \<and>
        (let sel = (case sc_selected cfg of None \<Rightarrow> [0..<length schema] | Some names \<Rightarrow> selected_fields schema names)
         in map field_name fs = map (\<lambda>i. field_name (schema ! i)) sel \<and>
            map (\<lambda>b. (b_columns (the b), b_numRows (the b))) (seq_batches itr) =
              map (\<lambda>b. (map (\<lambda>i. b_columns b ! i) sel, b_numRows b)) (full (sc_filter cfg) (sc_limit cfg))))"

lemma lib_scan_okD:
  assumes "lib_scan_ok schema tbl full" and "tb_ToArrowRecords tbl cfg = Inr (fs, itr)"
  defines "sel \<equiv> (case sc_selected cfg of None \<Rightarrow> [0..<length schema] | Some names \<Rightarrow> selected_fields schema names)"
  shows "map field_name fs = map (\<lambda>i. field_name (schema ! i)) sel"
    and "map (\<lambda>b. (b_columns b, b_numRows b)) (map the (seq_batches itr)) =
      map (\<lambda>b. (map (\<lambda>i. b_columns b ! i) sel, b_numRows b)) (full (sc_filter cfg) (sc_limit cfg))"
  using assms(1,2) unfolding lib_scan_ok_def sel_def Let_def by (simp_all add: comp_def)

text \<open>The columns a scan must produce, by position.\<close>

definition wanted_fields :: "Field list \<Rightarrow> int list option \<Rightarrow> nat list" where
  "wanted_fields schema projection = (case projection of None \<Rightarrow> [0..<length schema] | Some ps \<Rightarrow> map nat ps)"

lemma project_batches:
  assumes "map (\<lambda>b. (b_columns b, b_numRows b)) bs = map (\<lambda>b. (map (\<lambda>i. b_columns b ! i) sel, b_numRows b)) full"
    and "\<forall>j \<in> set p. 0 \<le> j \<and> j < int (length sel)"
  shows "map (\<lambda>b. (b_columns b, b_numRows b)) (map (project_batch fs p) bs) =
    map (\<lambda>b. (map (\<lambda>j. b_columns b ! (sel ! nat j)) p, b_numRows b)) full"
proof -
  have "map (\<lambda>b. (b_columns b, b_numRows b)) (map (project_batch fs p) bs) =
      map (\<lambda>(cols, n). (map (\<lambda>i. cols ! nat i) p, n)) (map (\<lambda>b. (b_columns b, b_numRows b)) bs)"
    by (simp add: project_batch_def)
  then show ?thesis unfolding assms(1) using assms(2) by (auto simp: nat_less_iff)
qed

lemma seq_reader_batches:
  "rd_pending (seq_record_reader sch itr) = map the (seq_batches itr)" "rd_Schema (seq_record_reader sch itr) = sch"
  by (simp_all add: seq_record_reader_def)

lemma iceberg_scan_batches:
  assumes "ScanWithOptions_iceberg schema (Inr tbl) (Some o') = Inr reader"
    and "lib_scan_ok schema tbl full" and "distinct (map field_name schema)"
  defines "batches \<equiv> full (convertFilters (so_filters o') (tb_bind tbl))
      (if 0 \<le> sint (so_limit o') then Some (so_limit o') else None)"
  shows "map field_name (rd_Schema reader) = map (\<lambda>i. field_name (schema ! i)) (wanted_fields schema (so_projection o')) \<and>
    map (\<lambda>b. (b_columns b, b_numRows b)) (rd_pending reader) =
      map (\<lambda>b. (map (\<lambda>i. b_columns b ! i) (wanted_fields schema (so_projection o')), b_numRows b)) batches"
proof (cases "so_projection o'")
  case None
  then obtain sch itr where lib: "tb_ToArrowRecords tbl
      \<lparr>sc_caseSensitive = True, sc_filter = convertFilters (so_filters o') (tb_bind tbl),
       sc_limit = (if 0 \<le> sint (so_limit o') then Some (so_limit o') else None), sc_selected = None\<rparr> = Inr (sch, itr)"
    and reader: "reader = seq_record_reader sch itr"
    using assms(1) by (auto simp: ScanWithOptions_iceberg_def split: sum.splits)
  show ?thesis
    using lib_scan_okD [OF assms(2) lib] None by (simp add: reader seq_reader_batches batches_def wanted_fields_def)
next
  case (Some ps)
  then obtain names perm where plan: "projectionPlan schema ps = Inr (names, perm)"
    using assms(1) by (auto simp: ScanWithOptions_iceberg_def sbind_eq_Inr)
  define sel where "sel = selected_fields schema names"
  obtain sch itr where lib: "tb_ToArrowRecords tbl
      \<lparr>sc_caseSensitive = True, sc_filter = convertFilters (so_filters o') (tb_bind tbl),
       sc_limit = (if 0 \<le> sint (so_limit o') then Some (so_limit o') else None), sc_selected = Some names\<rparr> = Inr (sch, itr)"
    and reader: "case perm of None \<Rightarrow> reader = seq_record_reader sch itr
      | Some p \<Rightarrow> ProjectReader (seq_record_reader sch itr) p = Some reader"
    using assms(1) Some plan by (auto simp: ScanWithOptions_iceberg_def split: sum.splits option.splits)
  have sch: "map field_name sch = map (\<lambda>i. field_name (schema ! i)) sel"
    and cols: "map (\<lambda>b. (b_columns b, b_numRows b)) (map the (seq_batches itr)) =
      map (\<lambda>b. (map (\<lambda>i. b_columns b ! i) sel, b_numRows b)) batches"
    using lib_scan_okD [OF assms(2) lib] by (simp_all add: batches_def sel_def)
  note restores = projectionPlan_restores [OF plan assms(3), folded sel_def]
  show ?thesis
  proof (cases perm)
    case None
    then have "map nat ps = sel" using restores by (auto simp: comp_def)
    then show ?thesis using None reader sch cols Some by (simp add: seq_reader_batches wanted_fields_def)
  next
    fix p assume p: "perm = Some p"
    note pr = ProjectReader_fields [of "seq_record_reader sch itr" p reader] reader
    have range: "\<forall>j \<in> set p. 0 \<le> j \<and> j < int (length sel)" and back_map: "map (\<lambda>j. sel ! nat j) p = map nat ps"
      using restores p by (auto simp: comp_def)
    have fields: "reader = ProjectedReader (seq_record_reader sch itr) (map (\<lambda>i. sch ! nat i) p) p None"
      using pr p by (simp add: seq_reader_batches)
    have "map field_name (map (\<lambda>i. sch ! nat i) p) = map (\<lambda>j. field_name (schema ! (sel ! nat j))) p"
    proof -
      have "field_name (sch ! nat j) = field_name (schema ! (sel ! nat j))" if "j \<in> set p" for j
      proof -
        have "nat j < length sel" using range that by auto
        moreover from this have "nat j < length sch" using sch by (metis length_map)
        ultimately show ?thesis using sch by (metis nth_map)
      qed
      then show ?thesis by simp
    qed
    also have "\<dots> = map (\<lambda>i. field_name (schema ! i)) (map (\<lambda>j. sel ! nat j) p)" by simp
    finally have names_ok: "map field_name (rd_Schema reader) = map (\<lambda>i. field_name (schema ! i)) (map nat ps)"
      unfolding back_map fields by simp
    have "map (\<lambda>b. (b_columns b, b_numRows b)) (rd_pending reader) =
        map (\<lambda>b. (map (\<lambda>j. b_columns b ! (sel ! nat j)) p, b_numRows b)) batches"
      unfolding fields rd_pending.simps seq_reader_batches by (rule project_batches [OF cols range])
    also have "\<dots> = map (\<lambda>b. (map (\<lambda>i. b_columns b ! i) (map (\<lambda>j. sel ! nat j) p), b_numRows b)) batches"
      by (simp add: comp_def)
    finally show ?thesis using names_ok Some by (simp add: wanted_fields_def back_map)
  qed
qed

text \<open>The permutation never runs out of the schema of the library's reader.\<close>

lemma iceberg_scan_panics:
  assumes "lib_scan_ok schema tbl full" and "distinct (map field_name schema)"
  shows "ScanWithOptions_iceberg schema (Inr tbl) (Some o') = Inl IbPanic \<longleftrightarrow> schema = [] \<and> so_projection o' = Some []"
proof (cases "so_projection o'")
  case None
  then show ?thesis by (auto simp: ScanWithOptions_iceberg_def split: sum.splits)
next
  case (Some ps)
  have unique: "uniqueLoop n u qs \<noteq> Inl IbPanic" for n u qs by (induction n u qs rule: uniqueLoop.induct) auto
  show ?thesis
  proof (cases "projectionPlan schema ps")
    case (Inl e)
    then have "e = IbPanic \<longleftrightarrow> schema = [] \<and> ps = []"
      using unique [of "int (length schema)" "[]" ps]
      by (auto simp: projectionPlan_def Let_def sbind_def split: if_splits sum.splits)
    then show ?thesis using Inl Some by (auto simp: ScanWithOptions_iceberg_def)
  next
    case (Inr plan)
    obtain names perm where plan: "plan = (names, perm)" by (cases plan)
    define cfg where "cfg = \<lparr>sc_caseSensitive = True, sc_filter = convertFilters (so_filters o') (tb_bind tbl),
      sc_limit = (if 0 \<le> sint (so_limit o') then Some (so_limit o') else None), sc_selected = Some names\<rparr>"
    have "\<exists>r. ProjectReader (seq_record_reader sch itr) p = Some r"
      if lib: "tb_ToArrowRecords tbl cfg = Inr (sch, itr)" and p: "perm = Some p" for sch itr p
    proof (rule ProjectReader_total)
      have "length sch = length (selected_fields schema names)"
        using lib_scan_okD(1) [OF assms(1) lib] by (simp add: cfg_def) (metis length_map)
      then show "\<forall>i \<in> set p. 0 \<le> i \<and> i < int (length (rd_Schema (seq_record_reader sch itr)))"
        using projectionPlan_restores [OF Inr [unfolded plan] assms(2)] p by (simp add: seq_reader_batches)
    qed
    then have "ScanWithOptions_iceberg schema (Inr tbl) (Some o') \<noteq> Inl IbPanic"
      using Inr Some plan unfolding ScanWithOptions_iceberg_def
      by (fastforce simp: cfg_def split: sum.splits option.splits)
    moreover have "\<not> (schema = [] \<and> ps = [])" using Inr by (auto simp: projectionPlan_def)
    ultimately show ?thesis using Some by simp
  qed
qed

text \<open>C22: An Iceberg scan with options that returns a reader yields exactly the requested columns in the
  requested order, repeats included, of the batches the library reads for the converted filters and
  the limit hint, with their row counts. The scan panics only when no column is asked for of a table
  that has none; the permutation never runs out of the reader's schema. The field names of the table
  are distinct, and the library reads the selected fields in the table's order.\<close>

theorem iceberg_scan_exact:
  assumes "ScanWithOptions_iceberg schema (Inr tbl) (Some o') = res"
    and "lib_scan_ok schema tbl full" and "distinct (map field_name schema)"
  defines "batches \<equiv> full (convertFilters (so_filters o') (tb_bind tbl))
      (if 0 \<le> sint (so_limit o') then Some (so_limit o') else None)"
  shows "(res = Inl IbPanic \<longleftrightarrow> schema = [] \<and> so_projection o' = Some []) \<and>
    (\<forall>reader. res = Inr reader \<longrightarrow>
       map field_name (rd_Schema reader) = map (\<lambda>i. field_name (schema ! i)) (wanted_fields schema (so_projection o')) \<and>
       map (\<lambda>b. (b_columns b, b_numRows b)) (rd_pending reader) =
         map (\<lambda>b. (map (\<lambda>i. b_columns b ! i) (wanted_fields schema (so_projection o')), b_numRows b)) batches)"
  using iceberg_scan_panics [OF assms(2,3), of o'] iceberg_scan_batches [OF _ assms(2,3), of o']
  unfolding assms(1) batches_def by blast

section \<open>A table to scan\<close>

definition abc_schema :: "Field list" where
  "abc_schema = map int_field [''a'', ''b'', ''c'']"

definition abc_batch :: Batch where
  "abc_batch = \<lparr>b_fields = [], b_columns = [[Some (IntCell 1)], [None], [Some (IntCell 3)]], b_numRows = 1\<rparr>"

definition abc_table :: IbTable where
  "abc_table =
     \<lparr>tb_bind = (\<lambda>e. True), tb_arrow_schema = Inr abc_schema,
      tb_ToArrowRecords = (\<lambda>cfg.
        let sel = (case sc_selected cfg of None \<Rightarrow> [0..<3] | Some names \<Rightarrow> selected_fields abc_schema names)
        in Inr (map (\<lambda>i. abc_schema ! i) sel,
             [\<lparr>si_rec = Some (abc_batch\<lparr>b_columns := map (\<lambda>i. b_columns abc_batch ! i) sel\<rparr>), si_err = None\<rparr>]))\<rparr>"

lemma abc_lengths: "length abc_schema = 3" "length (b_columns abc_batch) = 3"
  by (simp_all add: abc_schema_def abc_batch_def)

lemma abc_ok: "lib_scan_ok abc_schema abc_table (\<lambda>f l. [abc_batch])"
  by (auto simp: lib_scan_ok_def abc_table_def Let_def abc_lengths comp_def split: option.splits)

lemma abc_names: "distinct (map field_name abc_schema)"
  by (simp add: abc_schema_def int_field_def)

lemma abc_plan: "projectionPlan abc_schema [2, 0, 2] = Inr ([''a'', ''c''], Some [1, 0, 1])"
  by (simp add: projectionPlan_def abc_schema_def int_field_def numeral_2_eq_2)

theorem iceberg_scan_exact_witness:
  "\<exists>reader. ScanWithOptions_iceberg abc_schema (Inr abc_table)
       (Some \<lparr>so_projection = Some [2, 0, 2], so_filters = [], so_limit = - 1\<rparr>) = Inr reader \<and>
     map b_columns (rd_pending reader) = [[[Some (IntCell 3)], [Some (IntCell 1)], [Some (IntCell 3)]]]"
proof -
  let ?o = "\<lparr>so_projection = Some [2, 0, 2], so_filters = [], so_limit = - 1\<rparr>"
  have sel: "selected_fields abc_schema [''a'', ''c''] = [0, 2]"
    by (simp add: selected_fields_def abc_schema_def int_field_def upt_rec)
  obtain reader where scan: "ScanWithOptions_iceberg abc_schema (Inr abc_table) (Some ?o) = Inr reader"
    by (simp add: ScanWithOptions_iceberg_def abc_plan abc_table_def sel ProjectReader_def seq_record_reader_def)
  from iceberg_scan_exact [OF scan abc_ok abc_names, THEN conjunct2, rule_format, OF refl, THEN conjunct2]
  have "map fst (map (\<lambda>b. (b_columns b, b_numRows b)) (rd_pending reader)) = [[[Some (IntCell 3)], [Some (IntCell 1)], [Some (IntCell 3)]]]"
    by (simp only:) (simp add: wanted_fields_def abc_batch_def)
  then show ?thesis using scan by (simp add: comp_def)
qed

end
