(* ===== verification/Engine_Iceberg.thy ===== *)
theory Engine_Iceberg
  imports Engine_Insert Iceberg_Scan
begin

text \<open>
  The catalog-backed Iceberg provider behind a handle: scans through the C callback on the
  table's current snapshot, and what an INSERT of the engine leaves for them.
\<close>

section \<open>The provider\<close>

text \<open>The messages, without names and numbers.\<close>

definition ib_err_text :: "ib_err \<Rightarrow> string" where
  "ib_err_text e =
     (case e of LoadError m \<Rightarrow> m | DeriveSchema m \<Rightarrow> m | IbScanError m \<Rightarrow> ''iceberg: scan: '' @ m
      | IbOutOfRange i \<Rightarrow> ''iceberg: projection index out of range'' | IbPanic \<Rightarrow> [])"

definition ib_insert_err_text :: "ib_insert_err \<Rightarrow> string" where
  "ib_insert_err_text e =
     (case e of IbUnsupported op \<Rightarrow> ''iceberg: insert op not supported (only Append and Overwrite)''
      | IbReadInput m \<Rightarrow> ''iceberg: reading insert input: '' @ m
      | IbLoad m \<Rightarrow> ''iceberg: loading for insert: '' @ m
      | IbCommit verb m \<Rightarrow> ''iceberg: '' @ verb @ '': '' @ m)"

definition ib_call :: "ib_err + RecordReader \<Rightarrow> (string + RecordReader option) call" where
  "ib_call res =
     (case res of
        Inl e \<Rightarrow> if e = IbPanic then Panics ''index out of range'' else Returns (Inl (ib_err_text e))
      | Inr r \<Rightarrow> Returns (Inr (Some r)))"

text \<open>\<open>t.load\<close> of a catalog-backed provider, and its methods on a catalog in state \<open>c\<close>.\<close>

definition ib_load :: "('c, IbTable) Catalog \<Rightarrow> string list \<Rightarrow> 'c \<Rightarrow> string + IbTable" where
  "ib_load cat ident c = load_from_catalog (ct_LoadTable cat c) ident"

definition iceberg_provider :: "('c, IbTable) Catalog \<Rightarrow> string list \<Rightarrow> Schema \<Rightarrow> 'c \<Rightarrow> table_provider" where
  "iceberg_provider cat ident sc c =
     \<lparr>tp_Schema = Returns (Some sc),
      tp_Scan = ib_call (Scan_iceberg (ib_load cat ident c)),
      tp_ScanWithOptions =
        Some (\<lambda>opts. ib_call (ScanWithOptions_iceberg (schema_fields sc) (ib_load cat ident c) (Some opts))),
      tp_InsertInto = Some (\<lambda>op rows.
        case InsertInto_iceberg cat ident (schema_fields sc) op rows c of
          (res, rows', c') \<Rightarrow>
            (Returns (case res of Inl e \<Rightarrow> Inl (ib_insert_err_text e) | Inr n \<Rightarrow> Inr n), rows'))\<rparr>"

definition after_insert_iceberg ::
  "('c, IbTable) Catalog \<Rightarrow> string list \<Rightarrow> Schema \<Rightarrow> InsertOp \<Rightarrow> RecordReader \<Rightarrow> 'c \<Rightarrow> 'c" where
  "after_insert_iceberg cat ident sc op rows c = snd (snd (InsertInto_iceberg cat ident (schema_fields sc) op rows c))"

section \<open>What the library reads\<close>

definition table_rows_iceberg :: "Batch list \<Rightarrow> row list" where
  "table_rows_iceberg bs = concat (map batch_rows bs)"

text \<open>
  A loaded table reads the catalog's content: the rows on which the row filter is TRUE, all of
  them without one, when there is no limit.
\<close>

definition row_passes ::
  "foreign \<Rightarrow> (int \<Rightarrow> dtype) \<Rightarrow> (string \<Rightarrow> int option) \<Rightarrow> IbExpr option \<Rightarrow> row \<Rightarrow> bool" where
  "row_passes fo dts pos f r = (case f of None \<Rightarrow> True | Some e \<Rightarrow> ib_eval fo dts pos r e = Some True)"

definition catalog_reads ::
  "foreign \<Rightarrow> (string \<Rightarrow> int option) \<Rightarrow> Schema \<Rightarrow> ('c, IbTable) Catalog \<Rightarrow> ('c \<Rightarrow> string list \<Rightarrow> Batch list) \<Rightarrow>
   string list \<Rightarrow> bool" where
  "catalog_reads fo pos sc cat content ident \<longleftrightarrow>
     (\<forall>c tbl. ct_LoadTable cat c ident = Inr tbl \<longrightarrow>
        (\<exists>full. lib_scan_ok (schema_fields sc) tbl full \<and>
           (\<forall>f. table_rows_iceberg (full f None) =
              filter (row_passes fo (schema_dts sc) pos f) (table_rows_iceberg (content c ident)))))"

lemma pushed_filter_keeps:
  assumes "\<forall>f \<in> set es. cols_resolved pos f" and "satisfies fo dts es r"
  shows "row_passes fo dts pos (convertFilters es bind) r"
  using convert_fold [OF assms(1), of bind None fo dts r] assms(2)
  by (auto simp: row_passes_def convertFilters_def satisfies_def split: option.splits)

lemma filter_keeps:
  assumes "\<And>x. P x \<Longrightarrow> Q x"
  shows "filter P (filter Q xs) = filter P xs"
  using assms by (induction xs) auto

section \<open>Scans\<close>

lemma iceberg_scan_rows:
  assumes "ScanWithOptions_iceberg (schema_fields sc) (ib_load cat ident c) (Some opts) = Inr r"
    and "catalog_reads fo pos sc cat content ident" and "distinct (map field_name (schema_fields sc))"
    and "\<forall>f \<in> set (so_filters opts). cols_resolved pos f" and "sint (so_limit opts) < 0"
  shows "\<exists>bs. map field_name (rd_Schema r) =
      map (\<lambda>i. field_name (schema_fields sc ! i)) (wanted_fields (schema_fields sc) (so_projection opts)) \<and>
    map (\<lambda>b. (b_columns b, b_numRows b)) (rd_pending r) =
      map (\<lambda>b. (map (\<lambda>i. b_columns b ! i) (wanted_fields (schema_fields sc) (so_projection opts)), b_numRows b)) bs \<and>
    filter (satisfies fo (schema_dts sc) (so_filters opts)) (table_rows_iceberg bs) =
    filter (satisfies fo (schema_dts sc) (so_filters opts)) (table_rows_iceberg (content c ident))"
proof -
  obtain tbl where load: "ib_load cat ident c = Inr tbl" "ct_LoadTable cat c ident = Inr tbl"
    using assms(1) by (auto simp: ScanWithOptions_iceberg_def ib_load_def load_from_catalog_def split: sum.splits)
  then obtain full where full: "lib_scan_ok (schema_fields sc) tbl full"
    "\<And>f. table_rows_iceberg (full f None) = filter (row_passes fo (schema_dts sc) pos f) (table_rows_iceberg (content c ident))"
    using assms(2) unfolding catalog_reads_def by blast
  let ?f = "convertFilters (so_filters opts) (tb_bind tbl)"
  have "filter (satisfies fo (schema_dts sc) (so_filters opts)) (table_rows_iceberg (full ?f None)) =
      filter (satisfies fo (schema_dts sc) (so_filters opts)) (table_rows_iceberg (content c ident))"
    unfolding full(2) by (rule filter_keeps) (rule pushed_filter_keeps [OF assms(4)])
  moreover have "(if 0 \<le> sint (so_limit opts) then Some (so_limit opts) else None) = None" using assms(5) by simp
  ultimately show ?thesis
    using iceberg_scan_batches [OF assms(1) [unfolded load(1)] full(1) assms(3)] by (intro exI [of _ "full ?f None"]) simp
qed

section \<open>INSERT, then SELECT\<close>

lemma iceberg_insert_result:
  assumes "h_live h n = Some (TableImpl (iceberg_provider cat ident sc c))" and "insertOpFromC v = Inr op"
    and "go_table_insert h n (Inr (Some rows)) v = (Inr k, left)"
  shows "\<exists>rows'. InsertInto_iceberg cat ident (schema_fields sc) op rows c =
    (Inr k, rows', after_insert_iceberg cat ident sc op rows c)"
proof -
  obtain res rows' c' where run: "InsertInto_iceberg cat ident (schema_fields sc) op rows c = (res, rows', c')"
    by (rule prod_cases3)
  then show ?thesis
    using assms
    by (cases res) (auto simp: go_table_insert_def handle_value_def as_writable_def iceberg_provider_def
        trapCallbackPanic_def after_insert_iceberg_def)
qed

text \<open>C3: The same for a catalog-backed Iceberg table: after an INSERT through the C callback that returns a
  count, every scan through the callback with the engine's serialized predicates returns the
  requested columns, by name and position, of batches whose matching rows are those of the
  table's old rows followed by the inserted ones, or of the inserted ones alone for an overwrite;
  the predicates that convert to the Iceberg row filter lose none. The scan has no limit hint and every
  float literal of its predicates is finite. The Iceberg library is taken to commit all or nothing and to
  read the rows on which the row filter is TRUE, comparing floats, NaN included, as the engine does.\<close>

theorem engine_iceberg_insert_then_scan:
  assumes "h_live h n = Some (TableImpl (iceberg_provider cat ident sc c))"
    and "insertOpFromC v = Inr op"
    and "go_table_insert h n (Inr (Some rows)) v = (Inr k, left)" and "rd_ok rows"
    and "catalog_ok cat content" and "catalog_reads fo pos sc cat content ident"
    and "distinct (map field_name (schema_fields sc))"
    and "c' = after_insert_iceberg cat ident sc op rows c"
    and "h_live h' n' = Some (TableImpl (iceberg_provider cat ident sc c'))"
    and "list_all wire_ok es" and "\<forall>f \<in> set es. cols_resolved pos f"
    and "\<And>x. f32_mag x < f32_inf_mag \<Longrightarrow> parse_float32 (p32 x) = Some x"
    and "\<And>x. f64_mag x < f64_inf_mag \<Longrightarrow> parse_float64 (p64 x) = Some x"
    and "go_table_scan h' n' len proj (Some (Some (JArray (map (wire_expr p32 p64) es)))) limit = Inr r"
    and "sint limit < 0"
  shows "(\<exists>bs. map field_name (rd_Schema r) =
        map (\<lambda>i. field_name (schema_fields sc ! nat i)) (requested sc len proj) \<and>
      map (\<lambda>b. (b_columns b, b_numRows b)) (rd_pending r) =
        map (\<lambda>b. (map (\<lambda>i. b_columns b ! nat i) (requested sc len proj), b_numRows b)) bs \<and>
      filter (satisfies fo (schema_dts sc) es) (table_rows_iceberg bs) =
      filter (satisfies fo (schema_dts sc) es)
        ((if v = 0 then table_rows_iceberg (content c ident) else []) @ table_rows_iceberg (rd_pending rows))) \<and>
    k = sum_rows (rd_pending rows)"
proof -
  have append: "op = InsertAppend \<longleftrightarrow> v = 0"
    using assms(2) by (auto simp: insertOpFromC_def split: if_splits)
  let ?opts = "\<lparr>so_projection = scan_projection len proj, so_filters = es, so_limit = limit\<rparr>"
  obtain rows' where ins: "InsertInto_iceberg cat ident (schema_fields sc) op rows c = (Inr k, rows', c')"
    using iceberg_insert_result [OF assms(1-3)] assms(8) by blast
  have new: "table_rows_iceberg (map (\<lambda>b. rebindSchema b (schema_fields sc)) (rd_pending rows)) =
      table_rows_iceberg (rd_pending rows)"
    by (simp add: table_rows_iceberg_def comp_def)
  have left: "k = sum_rows (rd_pending rows)"
    "table_rows_iceberg (content c' ident) =
      (if v = 0 then table_rows_iceberg (content c ident) else []) @ table_rows_iceberg (rd_pending rows)"
    using iceberg_insert_ok [OF ins assms(5,4)] new append
    by (auto simp: table_rows_iceberg_def split: if_splits)
  have dec: "decodeFilters (Some (JArray (map (wire_expr p32 p64) es))) = Inr es"
    using decode_from_wire [OF assms(10,12,13)] by (simp add: decodeFilters_def)
  have "ib_call (ScanWithOptions_iceberg (schema_fields sc) (ib_load cat ident c') (Some ?opts)) = Returns (Inr (Some r))"
    using go_table_scan_pushdown [OF assms(9) _ dec assms(14)] by (simp add: iceberg_provider_def)
  then have scan: "ScanWithOptions_iceberg (schema_fields sc) (ib_load cat ident c') (Some ?opts) = Inr r"
    by (auto simp: ib_call_def split: sum.splits if_splits)
  have wanted: "wanted_fields (schema_fields sc) (scan_projection len proj) = map nat (requested sc len proj)"
    by (simp add: wanted_fields_def scan_projection_def requested_def comp_def)
  have "\<forall>f \<in> set (so_filters ?opts). cols_resolved pos f" "sint (so_limit ?opts) < 0" using assms(11,15) by simp_all
  from iceberg_scan_rows [OF scan assms(6,7) this] show ?thesis
    using left by (simp add: wanted comp_def)
qed

section \<open>A concrete catalog\<close>

text \<open>
  One table of one column, of which it keeps the integers: a commit refuses batches of another
  shape, a scan filters by row.
\<close>

definition int_batch :: "i64 \<Rightarrow> Batch" where
  "int_batch x = \<lparr>b_fields = [int64_field], b_columns = [[Some (IntCell x)]], b_numRows = 1\<rparr>"

definition int_of_batch :: "Batch \<Rightarrow> i64" where
  "int_of_batch b = (case b_columns b of [[Some (IntCell x)]] \<Rightarrow> x | _ \<Rightarrow> 0)"

definition ints_commit ::
  "i64 list \<Rightarrow> RecordReader \<Rightarrow> i64 list \<Rightarrow> string option \<times> RecordReader \<times> i64 list" where
  "ints_commit old r c =
     (if list_all (\<lambda>b. b = int_batch (int_of_batch b)) (rd_pending r)
      then (None, rd_Release (snd (readers.drain (Suc (length (rd_pending r))) r)), old @ map int_of_batch (rd_pending r))
      else (Some ''refused'', rd_Release r, c))"

definition ints_keep :: "IbExpr option \<Rightarrow> i64 list \<Rightarrow> i64 list" where
  "ints_keep f c =
     filter (\<lambda>x. row_passes (\<lambda>_ _. None) (schema_dts sample_schema) [''x'' \<mapsto> 0] f (row_of (Some (IntCell x)))) c"

definition ints_table :: "i64 list \<Rightarrow> IbTable" where
  "ints_table c =
     \<lparr>tb_bind = (\<lambda>e. True), tb_arrow_schema = Inr [int64_field],
      tb_ToArrowRecords = (\<lambda>cfg.
        let sel = (case sc_selected cfg of None \<Rightarrow> [0..<1] | Some names \<Rightarrow> selected_fields [int64_field] names)
        in Inr (map (\<lambda>i. [int64_field] ! i) sel,
             map (\<lambda>x. \<lparr>si_rec = Some ((int_batch x)\<lparr>b_columns := map (\<lambda>i. b_columns (int_batch x) ! i) sel\<rparr>), si_err = None\<rparr>)
               (ints_keep (sc_filter cfg) c)))\<rparr>"

definition ints_catalog :: "(i64 list, IbTable) Catalog" where
  "ints_catalog =
     \<lparr>ct_LoadTable = (\<lambda>c ident. if ident = [''t''] then Inr (ints_table c) else Inl ''no such table''),
      ct_Append = (\<lambda>tbl r c. ints_commit c r c), ct_Overwrite = (\<lambda>tbl r c. ints_commit [] r c)\<rparr>"

definition ints_content :: "i64 list \<Rightarrow> string list \<Rightarrow> Batch list" where
  "ints_content c ident = (if ident = [''t''] then map int_batch c else [])"

lemma ints_ok: "catalog_ok ints_catalog ints_content"
proof -
  have "map (int_batch \<circ> int_of_batch) bs = bs" if "list_all (\<lambda>b. b = int_batch (int_of_batch b)) bs" for bs
    using that by (intro map_idI) (simp add: list_all_iff)
  then have ok: "commit_ok ints_content (\<lambda>bs. map int_batch old @ bs) [''t''] r c (ints_commit old r c)" for old r c
    by (auto simp: commit_ok_def ints_commit_def ints_content_def fun_eq_iff Let_def simp del: readers.drain.simps)
  have "commit_ok ints_content (\<lambda>bs. bs) [''t''] r c (ints_commit [] r c)" for r c
    using ok [of "[]" r c] by simp
  with ok show ?thesis
    by (auto simp: catalog_ok_def ints_catalog_def ints_content_def split: if_splits)
qed

lemma int_batch_rows [simp]: "batch_rows (int_batch x) = [row_of (Some (IntCell x))]"
  by (simp add: batch_rows_def int_batch_def row_of_def fun_eq_iff)

lemma ints_rows: "table_rows_iceberg (map int_batch c) = map (\<lambda>x. row_of (Some (IntCell x))) c"
  by (simp add: table_rows_iceberg_def comp_def)

lemma ints_batches:
  "seq_batches (map (\<lambda>x. \<lparr>si_rec = Some (g x), si_err = None\<rparr>) c) = map (\<lambda>x. Some (g x)) c"
  by (induction c) simp_all

lemma ints_reads:
  "catalog_reads (\<lambda>_ _. None) [''x'' \<mapsto> 0] sample_schema ints_catalog ints_content [''t'']"
proof -
  have "lib_scan_ok (schema_fields sample_schema) (ints_table c) (\<lambda>f l. map int_batch (ints_keep f c))" for c
    by (auto simp: lib_scan_ok_def ints_table_def Let_def sample_schema_def int_batch_def ints_batches comp_def
        split: option.splits)
  moreover have "table_rows_iceberg (map int_batch (ints_keep f c)) =
      filter (row_passes (\<lambda>_ _. None) (schema_dts sample_schema) [''x'' \<mapsto> 0] f) (table_rows_iceberg (map int_batch c))" for f c
    by (simp add: ints_rows ints_keep_def filter_map comp_def)
  ultimately show ?thesis
    unfolding catalog_reads_def by (auto simp: ints_catalog_def ints_content_def split: if_splits)
qed

definition ints_handles :: "i64 list \<Rightarrow> handles" where
  "ints_handles c =
     \<lparr>h_next = 1, h_live = [1 \<mapsto> TableImpl (iceberg_provider ints_catalog [''t''] sample_schema c)]\<rparr>"

definition ints_reader :: RecordReader where
  "ints_reader = LibReader [int64_field] [int_batch 5, int_batch 7] None None 1"

lemma ints_insert:
  "after_insert_iceberg ints_catalog [''t''] sample_schema InsertAppend ints_reader [9] = [9, 5, 7]"
  "go_table_insert (ints_handles [9]) 1 (Inr (Some ints_reader)) 0 =
     (Inr 2, snd (go_table_insert (ints_handles [9]) 1 (Inr (Some ints_reader)) 0))"
proof -
  have "\<exists>rows'. InsertInto_iceberg ints_catalog [''t''] [int64_field] InsertAppend ints_reader [9] = (Inr 2, rows', [9, 5, 7])"
    by (simp add: InsertInto_iceberg_def ints_reader_def commitInsert_def ints_catalog_def ints_commit_def
        commitOffCgoCallbackThread_def newFieldIDStrippingReader_def rebindSchema_def int_batch_def int_of_batch_def)
  then show "after_insert_iceberg ints_catalog [''t''] sample_schema InsertAppend ints_reader [9] = [9, 5, 7]"
    "go_table_insert (ints_handles [9]) 1 (Inr (Some ints_reader)) 0 =
       (Inr 2, snd (go_table_insert (ints_handles [9]) 1 (Inr (Some ints_reader)) 0))"
    by (auto simp: after_insert_iceberg_def go_table_insert_def handle_value_def as_writable_def ints_handles_def
        iceberg_provider_def insertOpFromC_def trapCallbackPanic_def sample_schema_def)
qed

lemma ints_scan:
  "\<exists>r. go_table_scan (ints_handles [9, 5, 7]) 1 (- 1) []
     (Some (Some (JArray (map (wire_expr exact_fmt32 exact_fmt64) [demo_filter])))) (- 1) = Inr r"
proof -
  have "decodeFilters (Some (JArray (map (wire_expr exact_fmt32 exact_fmt64) [demo_filter]))) = Inr [demo_filter]"
    using decode_from_wire [OF wire_ok_demo parse_exact_fmt32 parse_exact_fmt64] by (simp add: decodeFilters_def)
  then show ?thesis
    by (simp add: go_table_scan_def handle_value_def as_table_def ints_handles_def iceberg_provider_def ib_call_def
        ScanWithOptions_iceberg_def ib_load_def load_from_catalog_def ints_catalog_def ints_table_def scan_projection_def
        trapCallbackPanic_def)
qed

theorem engine_iceberg_insert_then_scan_witness:
  "\<exists>left r bs. go_table_insert (ints_handles [9]) 1 (Inr (Some ints_reader)) 0 = (Inr 2, left) \<and>
    go_table_scan (ints_handles [9, 5, 7]) 1 (- 1) []
      (Some (Some (JArray (map (wire_expr exact_fmt32 exact_fmt64) [demo_filter])))) (- 1) = Inr r \<and>
    map (\<lambda>b. (b_columns b, b_numRows b)) (rd_pending r) = map (\<lambda>b. ([b_columns b ! 0], b_numRows b)) bs \<and>
    filter (satisfies (\<lambda>_ _. None) (schema_dts sample_schema) [demo_filter]) (table_rows_iceberg bs) =
    filter (satisfies (\<lambda>_ _. None) (schema_dts sample_schema) [demo_filter])
      [row_of (Some (IntCell 9)), row_of (Some (IntCell 5)), row_of (Some (IntCell 7))]"
proof -
  have h: "h_live (ints_handles c) 1 = Some (TableImpl (iceberg_provider ints_catalog [''t''] sample_schema c))" for c
    by (simp add: ints_handles_def)
  have op: "insertOpFromC 0 = Inr InsertAppend" by (simp add: insertOpFromC_def)
  have ok: "rd_ok ints_reader" by (simp add: ints_reader_def int_batch_def batch_ok_def)
  have names: "distinct (map field_name (schema_fields sample_schema))" by (simp add: sample_schema_def)
  have cols: "\<forall>f \<in> set [demo_filter]. cols_resolved [''x'' \<mapsto> 0] f" by (simp add: demo_filter_def col0_def)
  have limit: "sint (- 1 :: i64) < 0" by simp
  obtain r where r: "go_table_scan (ints_handles [9, 5, 7]) 1 (- 1) []
      (Some (Some (JArray (map (wire_expr exact_fmt32 exact_fmt64) [demo_filter])))) (- 1) = Inr r"
    using ints_scan by blast
  have rows: "table_rows_iceberg (ints_content [9] [''t'']) = [row_of (Some (IntCell 9))]"
    "table_rows_iceberg (rd_pending ints_reader) = [row_of (Some (IntCell 5)), row_of (Some (IntCell 7))]"
    by (simp_all add: ints_content_def ints_reader_def table_rows_iceberg_def)
  have req: "requested sample_schema (- 1) [] = [0]" by (simp add: requested_def sample_schema_def)
  from engine_iceberg_insert_then_scan [OF h op ints_insert(2) ok ints_ok ints_reads names ints_insert(1) [symmetric] h
      wire_ok_demo cols parse_exact_fmt32 parse_exact_fmt64 r limit]
  show ?thesis using ints_insert(2) r unfolding rows req by simp blast
qed

section \<open>Who releases the rows of an insert\<close>

text \<open>C36: An insert the engine delivers through the C callback releases its rows twice: the provider
  releases them once on every path, as its contract demands, and the callback does it again
  when the provider has returned.\<close>

theorem insert_callback_releases_twice:
  assumes "h_live h n = Some (TableImpl (iceberg_provider cat ident sc c))" and "catalog_ok cat content"
    and "insertOpFromC v = Inr op" and "rd_ok rows"
    and "go_table_insert h n (Inr (Some rows)) v = (res, left)"
  shows "\<exists>r. left = Some r \<and> rd_refs r = rd_refs rows - 2"
proof -
  obtain res0 rows' c' where ins: "InsertInto_iceberg cat ident (schema_fields sc) op rows c = (res0, rows', c')"
    by (rule prod_cases3)
  from iceberg_insert_ok [OF ins assms(2,4)] have "rd_refs rows' = rd_refs rows - 1" by blast
  moreover have "left = Some (rd_Release rows')"
    using assms(1,3,5) ins
    by (auto simp: go_table_insert_def handle_value_def as_writable_def iceberg_provider_def split: if_splits)
  ultimately show ?thesis by simp
qed

theorem insert_callback_releases_twice_witness:
  "\<exists>r. snd (go_table_insert (ints_handles [9]) 1 (Inr (Some ints_reader)) 0) = Some r \<and> rd_refs r = - 1"
proof -
  obtain res left where run: "go_table_insert (ints_handles [9]) 1 (Inr (Some ints_reader)) 0 = (res, left)"
    by (rule prod.exhaust)
  have h: "h_live (ints_handles [9]) 1 = Some (TableImpl (iceberg_provider ints_catalog [''t''] sample_schema [9]))"
    by (simp add: ints_handles_def)
  have op: "insertOpFromC 0 = Inr InsertAppend" by (simp add: insertOpFromC_def)
  have ok: "rd_ok ints_reader" "rd_refs ints_reader = 1" by (simp_all add: ints_reader_def int_batch_def batch_ok_def)
  from insert_callback_releases_twice [OF h ints_ok op ok(1) run] show ?thesis using run ok(2) by simp
qed

end
