(* ===== verification/Engine_Limit.thy ===== *)
theory Engine_Limit
  imports Callbacks_Correct
begin

text \<open>
  The engine's LIMIT and the limit hint it passes through the C callback: the hinted scan may
  stop early, and the rows the engine keeps of it are those of the whole scan.
\<close>

section \<open>A hinted scan is cut to enough rows\<close>

lemma batch_rows_length: "length (batch_rows b) = nat (sint (b_numRows b))"
  by (simp add: batch_rows_def)

lemma rows_total:
  "list_all batch_ok bs \<Longrightarrow> int (length (concat (map batch_rows bs))) = total_rows bs"
  by (induction bs) (simp_all add: batch_rows_length batch_ok_def)

lemma limit_keeps_rows:
  assumes "list_all batch_ok bs"
  shows "take (nat m) (concat (map batch_rows (limit_batches m bs))) = take (nat m) (concat (map batch_rows bs))"
proof -
  obtain rest where rest: "bs = limit_batches m bs @ rest" using limit_prefix by blast
  show ?thesis
  proof (cases "limit_batches m bs = bs")
    case False
    then have "m \<le> total_rows (limit_batches m bs)" using limit_enough [of m bs] by blast
    then have "nat m \<le> length (concat (map batch_rows (limit_batches m bs)))"
      using rows_total [OF limit_ok [OF assms], of m] by simp
    moreover have "concat (map batch_rows bs) = concat (map batch_rows (limit_batches m bs)) @ concat (map batch_rows rest)"
      by (subst rest) simp
    ultimately show ?thesis by simp
  qed simp
qed

text \<open>The same scan without the hint.\<close>

lemma ScanWithOptions_limit:
  assumes "0 \<le> sint k" and "ScanWithOptions sc opened (Some (opts\<lparr>so_limit := - 1\<rparr>)) = (Inr r, c)"
  shows "\<exists>r'. ScanWithOptions sc opened (Some (opts\<lparr>so_limit := k\<rparr>)) = (Inr r', c) \<and> rd_Schema r' = rd_Schema r \<and>
    (r' = r \<and> rd_pending r = [] \<or> r' = LimitReader r k)"
proof (cases opened)
  case (Opened f)
  let ?rgs = "selectRowGroups f sc (so_filters opts)"
  show ?thesis
  proof (cases "?rgs = Some []")
    case True
    then show ?thesis
      using assms Opened by (auto simp: ScanWithOptions_def emptyProjectedReader_def sbind_eq_Inr)
  next
    case False
    then show ?thesis
      using assms Opened by (cases "openProjectedReader f (so_projection opts) ?rgs") (auto simp: ScanWithOptions_def Let_def)
  qed
qed (use assms(2) in \<open>auto simp: ScanWithOptions_def\<close>)

text \<open>C9: The limit hint of a scan through the C callback is invisible behind the engine's LIMIT: whenever
  the scan without the hint returns a reader, the scan with a hint of \<open>k\<close> does, of the same
  schema, and its first \<open>k\<close> rows are the first \<open>k\<close> rows of the whole scan; it ends with the batch
  that reaches the hint.\<close>

theorem engine_limit_transparent:
  assumes "h_live h n = Some (TableImpl (parquet_table sc opened))"
    and "go_table_scan h n len proj filters (- 1) = Inr r" and "rd_ok r" and "0 \<le> sint k"
  shows "\<exists>r'. go_table_scan h n len proj filters k = Inr r' \<and> rd_Schema r' = rd_Schema r \<and>
    take (nat (sint k)) (concat (map batch_rows (rd_pending r'))) = take (nat (sint k)) (concat (map batch_rows (rd_pending r))) \<and>
    (\<exists>rest. rd_pending r = rd_pending r' @ rest) \<and>
    (rd_pending r' = [] \<or> int (length (concat (map batch_rows (butlast (rd_pending r'))))) < sint k)"
proof -
  obtain es where es: "(case filters of None \<Rightarrow> Inr [] | Some doc \<Rightarrow> decodeFilters doc) = Inr es"
    using assms(1,2)
    by (cases "case filters of None \<Rightarrow> Inr [] | Some doc \<Rightarrow> decodeFilters doc")
      (auto simp: go_table_scan_def handle_value_def as_table_def parquet_table_def trapCallbackPanic_def)
  let ?opts = "\<lparr>so_projection = scan_projection len proj, so_filters = es, so_limit = - 1\<rparr>"
  have run: "go_table_scan h n len proj filters l = Inr x \<longleftrightarrow>
      (\<exists>c. ScanWithOptions sc opened (Some (?opts\<lparr>so_limit := l\<rparr>)) = (Inr x, c))" for l x
  proof (cases "ScanWithOptions sc opened (Some (?opts\<lparr>so_limit := l\<rparr>))")
    case (Pair res c)
    then show ?thesis
      using assms(1) es
      by (cases res) (auto simp: go_table_scan_def handle_value_def as_table_def parquet_table_def provider_call_def
          trapCallbackPanic_def)
  qed
  obtain c where "ScanWithOptions sc opened (Some (?opts\<lparr>so_limit := - 1\<rparr>)) = (Inr r, c)"
    using assms(2) run by blast
  from ScanWithOptions_limit [OF assms(4) this]
  obtain r' where r': "go_table_scan h n len proj filters k = Inr r'" "rd_Schema r' = rd_Schema r"
    "r' = r \<and> rd_pending r = [] \<or> r' = LimitReader r k"
    using run by blast
  note ok = pending_ok [OF assms(3)]
  from r'(3) have "take (nat (sint k)) (concat (map batch_rows (rd_pending r'))) =
        take (nat (sint k)) (concat (map batch_rows (rd_pending r))) \<and>
      (\<exists>rest. rd_pending r = rd_pending r' @ rest) \<and>
      (rd_pending r' = [] \<or> int (length (concat (map batch_rows (butlast (rd_pending r'))))) < sint k)"
  proof
    assume lim: "r' = LimitReader r k"
    have "list_all batch_ok (butlast (limit_batches (sint k) (rd_pending r)))"
      using limit_ok [OF ok, of "sint k"] by (auto simp: list_all_iff dest: in_set_butlastD)
    from rows_total [OF this] show ?thesis
      using lim limit_keeps_rows [OF ok] limit_prefix [of "rd_pending r" "sint k"] limit_tight [OF ok, of "sint k"] by auto
  qed simp
  with r'(1,2) show ?thesis by blast
qed

theorem engine_limit_transparent_witness:
  "\<exists>r'. go_table_scan demo_handles 1 2 [0, 0]
       (Some (Some (JArray (map (wire_expr exact_fmt32 exact_fmt64) [demo_filter])))) 1 = Inr r' \<and>
     concat (map batch_rows (rd_pending r')) \<noteq> []"
proof -
  have h: "h_live demo_handles 1 = Some (TableImpl (parquet_table sample_schema (Opened demo_file)))"
    by (simp add: demo_handles_def)
  let ?r = "ProjectedReader (ClosingReader (LibReader [int64_field]
       [project_batch [int64_field] [0] (demo_batch 1)] None None 1) False 0) [int64_field, int64_field] [0, 0] None"
  have ok: "rd_ok ?r" by (simp add: batch_ok_def demo_batch_def project_batch_def)
  have k: "0 \<le> sint (1 :: i64)" "nat (sint (1 :: i64)) = 1" by simp_all
  have "concat (map batch_rows (rd_pending ?r)) \<noteq> []"
    by (simp add: batch_rows_def demo_batch_def project_batch_def)
  then have "take 1 (concat (map batch_rows (rd_pending ?r))) \<noteq> []" by simp
  with engine_limit_transparent [OF h demo_call ok k(1)] show ?thesis unfolding k(2) by fastforce
qed

end
