(* ===== verification/Reader_References.thy ===== *)
theory Reader_References
  imports Iceberg_Insert
begin

text \<open>
  \<open>Retain\<close> and \<open>Release\<close> of the repository's readers. Arrow's contract counts references and
  frees on the last release, so a \<open>Retain\<close> followed by a \<open>Release\<close> changes nothing for those
  who still hold the reader. The wrappers that pass \<open>Retain\<close> on but act on every \<open>Release\<close> break it.
\<close>

section \<open>Retain\<close>

text \<open>The Parquet, JSON and limit readers inherit \<open>Retain\<close> from the reader they embed.\<close>

fun rd_Retain :: "RecordReader \<Rightarrow> RecordReader" where
  "rd_Retain (LibReader fs bs cur e n) = LibReader fs bs cur e (n + 1)"
| "rd_Retain (ClosingReader r cl k) = ClosingReader (rd_Retain r) cl k"
| "rd_Retain (ProjectedReader r fs idx cur) = ProjectedReader (rd_Retain r) fs idx cur"
| "rd_Retain (LimitReader r m) = LimitReader (rd_Retain r) m"
| "rd_Retain (StrippingReader r fs first cur m) = StrippingReader (rd_Retain r) fs first cur m"

lemma retain_refs: "rd_refs (rd_Retain r) = rd_refs r + 1"
  by (induction r) simp_all

lemma retain_pending [simp]: "rd_pending (rd_Retain r) = rd_pending r" "rd_Schema (rd_Retain r) = rd_Schema r"
  by (induction r) (simp_all split: option.splits)

text \<open>The batches that a reader holds itself, ahead of those of the reader inside.\<close>

fun held_first :: "RecordReader \<Rightarrow> bool" where
  "held_first (LibReader fs bs cur e n) = False"
| "held_first (ClosingReader r cl k) = held_first r"
| "held_first (ProjectedReader r fs idx cur) = held_first r"
| "held_first (LimitReader r m) = held_first r"
| "held_first (StrippingReader r fs first cur m) = (first \<noteq> None \<or> held_first r)"

lemma release_pending: "\<not> held_first r \<Longrightarrow> rd_pending (rd_Release r) = rd_pending r"
  by (induction r) (auto simp: close_once_def)

lemma retain_held [simp]: "held_first (rd_Retain r) = held_first r"
  by (induction r) simp_all

text \<open>Readers that hold no batch ahead lose none to a reference taken and given back.\<close>

lemma extra_reference_neutral:
  assumes "\<not> held_first r"
  shows "rd_pending (rd_Release (rd_Retain r)) = rd_pending r" and "rd_refs (rd_Release (rd_Retain r)) = rd_refs r"
  using assms by (simp_all add: release_pending retain_refs)

section \<open>Two readers that do not count\<close>

text \<open>
  The insert's reader: a reference taken and given back, and the first batch, which was waiting
  to be written, is gone, neither delivered nor counted.
\<close>

lemma extra_reference_loses_first_batch:
  assumes "\<not> held_first r"
  shows "rd_pending (newFieldIDStrippingReader r schema (Some b)) = rebindSchema b schema # map (\<lambda>b. rebindSchema b schema) (rd_pending r)"
    and "rd_pending (rd_Release (rd_Retain (newFieldIDStrippingReader r schema (Some b)))) = map (\<lambda>b. rebindSchema b schema) (rd_pending r)"
    and "rd_refs (rd_Release (rd_Retain (newFieldIDStrippingReader r schema (Some b)))) =
      rd_refs (newFieldIDStrippingReader r schema (Some b))"
  using extra_reference_neutral [OF assms] by (simp_all add: newFieldIDStrippingReader_def)

text \<open>A scan's reader: the file is closed although a reference is left and batches are pending.\<close>

lemma extra_reference_closes_file:
  assumes "\<not> held_first r"
  shows "\<exists>r'. rd_Release (rd_Retain (ClosingReader r False 0)) = ClosingReader r' True 1 \<and>
    rd_refs r' = rd_refs r \<and> rd_pending r' = rd_pending r"
  using extra_reference_neutral [OF assms] by (simp add: close_once_def)

end
