(* ===== verification/Provider_Test.thy ===== *)
theory Provider_Test
  imports Contract_Correct Readers
begin

text \<open>
  \<open>providers/internal/providertest\<close>: the doubles the providers are tested with. A reader that
  fails on purpose implements \<open>record_reader\<close> like any other.
\<close>

section \<open>Writing a fixture\<close>

text \<open>\<open>resolved\<close> is what \<open>Resolve\<close> gives: the store, its state and the path in it.\<close>

definition WriteObject ::
  "string + ('o, 's, 'w, 'h) StoreAPI \<times> ('s \<Rightarrow> 'o) \<times> 's \<times> string \<Rightarrow> string \<Rightarrow> string + 's" where
  "WriteObject resolved contents =
     (case resolved of
        Inl e \<Rightarrow> Inl ''Resolve''
      | Inr (api, env, s, path) \<Rightarrow>
          (case sa_Create api (env s) s path of
             None \<Rightarrow> Inl ''Create''
           | Some (w, s1) \<Rightarrow>
               (case sa_Write api (env s1) (bytes_of contents) (w, s1) of
                  (False, w2, s2) \<Rightarrow> Inl ''Write''
                | (True, w2, s2) \<Rightarrow>
                    (case sa_Close api (env s2) (w2, s2) of
                       (False, w3, s3) \<Rightarrow> Inl ''Close''
                     | (True, w3, s3) \<Rightarrow> Inr s3))))"

section \<open>A reader that fails\<close>

record 'r ErrAfterReader =
  ea_inner :: 'r
  ea_FailAfter :: int
  ea_calls :: int
  ea_err :: "string option"

definition ErrAfter_Next :: "('r \<Rightarrow> bool \<times> 'r) \<Rightarrow> 'r ErrAfterReader \<Rightarrow> bool \<times> 'r ErrAfterReader" where
  "ErrAfter_Next next_op r =
     (if ea_FailAfter r \<le> ea_calls r then (False, r\<lparr>ea_err := Some ''injected read failure''\<rparr>)
      else
        (case next_op (ea_inner r) of
           (True, r') \<Rightarrow> (True, r\<lparr>ea_inner := r', ea_calls := ea_calls r + 1\<rparr>)
         | (False, r') \<Rightarrow> (False, r\<lparr>ea_inner := r'\<rparr>)))"

definition ErrAfter_Err :: "('r \<Rightarrow> string option) \<Rightarrow> 'r ErrAfterReader \<Rightarrow> string option" where
  "ErrAfter_Err err r = (case ea_err r of Some e \<Rightarrow> Some e | None \<Rightarrow> err (ea_inner r))"

definition NewRowsReader :: "Field list \<Rightarrow> Batch list \<Rightarrow> RecordReader" where
  "NewRowsReader schema batches = LibReader schema batches None None 1"

text \<open>The count an INSERT returns, or the failure of the test; the reader is released either way.\<close>

definition count_column :: "Batch \<Rightarrow> string + u64" where
  "count_column rec =
     (case b_columns rec of
        [] \<Rightarrow> Inl ''index out of range''
      | col # rest \<Rightarrow>
          if map field_type (take 1 (b_fields rec)) \<noteq> [Uint64DT]
          then Inl ''expected count column to be uint64''
          else
            (case col of
               [c] \<Rightarrow> (case c of Some (UintCell v) \<Rightarrow> Inr v | _ \<Rightarrow> Inr 0)
             | _ \<Rightarrow> Inl ''expected a single count row''))"

definition CountResult :: "RecordReader \<Rightarrow> (string + u64) \<times> RecordReader" where
  "CountResult reader =
     (case rd_Next reader of
        (False, r') \<Rightarrow> (Inl ''expected one DML result batch'', rd_Release r')
      | (True, r') \<Rightarrow>
          ((case rd_RecordBatch r' of
              None \<Rightarrow> Inl ''nil record''
            | Some rec \<Rightarrow>
                (case count_column rec of
                   Inl e \<Rightarrow> Inl e
                 | Inr v \<Rightarrow> (case rd_Err r' of Some e \<Rightarrow> Inl ''unexpected error'' | None \<Rightarrow> Inr v))),
           rd_Release r'))"

section \<open>What they do\<close>

definition err_after_pending :: "RecordReader ErrAfterReader \<Rightarrow> Batch list" where
  "err_after_pending r = take (nat (ea_FailAfter r - ea_calls r)) (rd_pending (ea_inner r))"

interpretation err_after: record_reader "ErrAfter_Next rd_Next" "\<lambda>r. rd_RecordBatch (ea_inner r)" err_after_pending
  "\<lambda>r. rd_ok (ea_inner r)"
proof
  fix r :: "RecordReader ErrAfterReader" and b bs
  assume ok: "rd_ok (ea_inner r)" and p: "err_after_pending r = b # bs"
  then obtain rest m where m: "nat (ea_FailAfter r - ea_calls r) = Suc m" "rd_pending (ea_inner r) = b # rest" "bs = take m rest"
    unfolding err_after_pending_def by (cases "nat (ea_FailAfter r - ea_calls r)"; cases "rd_pending (ea_inner r)") auto
  obtain r' where r': "rd_Next (ea_inner r) = (True, r')" "rd_RecordBatch r' = Some b" "rd_pending r' = rest" "rd_ok r'"
    using Next_more [OF ok m(2)] by blast
  have "nat (ea_FailAfter r - (ea_calls r + 1)) = m" "\<not> ea_FailAfter r \<le> ea_calls r" using m(1) by linarith+
  then show "\<exists>q. ErrAfter_Next rd_Next r = (True, q) \<and> rd_RecordBatch (ea_inner q) = Some b \<and> err_after_pending q = bs \<and>
      rd_ok (ea_inner q)"
    using r' m(3) by (simp add: ErrAfter_Next_def err_after_pending_def)
next
  fix r :: "RecordReader ErrAfterReader"
  assume ok: "rd_ok (ea_inner r)" and p: "err_after_pending r = []"
  show "\<exists>q. ErrAfter_Next rd_Next r = (False, q) \<and> err_after_pending q = [] \<and> rd_ok (ea_inner q)"
  proof (cases "ea_FailAfter r \<le> ea_calls r")
    case True
    then show ?thesis using ok by (simp add: ErrAfter_Next_def err_after_pending_def)
  next
    case False
    then have "rd_pending (ea_inner r) = []" using p by (simp add: err_after_pending_def)
    then show ?thesis using Next_end [OF ok] False by (auto simp: ErrAfter_Next_def err_after_pending_def)
  qed
qed

text \<open>So a client reads the first \<open>FailAfter\<close> batches; then the injected error is there.\<close>

lemma ErrAfter_yields:
  assumes "rd_ok r" "length (rd_pending r) < n"
  shows "fst (err_after.drain n \<lparr>ea_inner = r, ea_FailAfter = int k, ea_calls = 0, ea_err = None\<rparr>) = take k (rd_pending r)"
  using err_after.drain_all [of "\<lparr>ea_inner = r, ea_FailAfter = int k, ea_calls = 0, ea_err = None\<rparr>" n] assms
  by (simp add: err_after_pending_def)

lemma ErrAfter_fails:
  "ea_FailAfter r \<le> ea_calls r \<Longrightarrow>
   ErrAfter_Next next_op r = (False, q) \<Longrightarrow> ErrAfter_Err err q = Some ''injected read failure''"
  by (auto simp: ErrAfter_Next_def ErrAfter_Err_def)

lemma WriteObject_writes:
  "WriteObject (Inr (api, env, s, path)) contents = mustWrite api env s path (bytes_of contents)"
  by (simp add: WriteObject_def mustWrite_def)

text \<open>A short fixture is readable in each backend.\<close>

lemma WriteObject_memory:
  assumes "mem_ok s" "length contents \<le> 64"
  shows "\<exists>s'. WriteObject (Inr (memory_api, (\<lambda>s. ()), s, path)) contents = Inr s' \<and>
    mustRead memory_api (\<lambda>s. ()) s' path = Inr (bytes_of contents)"
proof -
  have fine: "mem_full.fine (\<lambda>s. ())" by (simp add: mem_full.fine_def)
  obtain s' where s': "mustWrite mem_full.api (\<lambda>s. ()) s path (bytes_of contents) = Inr s'"
    "map_of s' path = Some (bytes_of contents)" "mem_ok s'"
    using mem_full.mustWrite_good [OF fine assms(1), of "bytes_of contents" path] assms(2) by (auto simp: bytes_of_def)
  then show ?thesis using mem_full.mustRead_good [OF fine s'(3) _ s'(2)]
    by (simp add: WriteObject_writes memory_api)
qed

lemma CountResult_counts:
  "map field_type fs = [Uint64DT] \<Longrightarrow>
   fst (CountResult (NewRowsReader fs [\<lparr>b_fields = fs, b_columns = [[Some (UintCell n)]], b_numRows = 1\<rparr>])) = Inr n"
  by (cases fs) (simp_all add: CountResult_def NewRowsReader_def count_column_def)

end
