(* ===== verification/File_Providers.thy ===== *)
theory File_Providers
  imports Registry Readers
begin

text \<open>
  The table providers of whole files: \<open>providers/csv\<close>, \<open>providers/json\<close>, \<open>providers/jsonl\<close>, and
  the construction of the Parquet provider (\<open>providers/parquet/parquet.go\<close>). An object is
  the bytes it holds, as characters, and the error its reads end with (\<open>None\<close>: the end of
  the file). The Arrow and Parquet readers over it are the libraries'. The number beside
  a result counts the calls of the object's \<open>Close\<close>.
\<close>

section \<open>Providers\<close>

type_synonym object = "string \<times> string option"

record 'st file_provider =
  fp_store :: 'st
  fp_path :: string
  fp_schema :: "Field list"

record 'st csv_provider = "'st file_provider" +
  cp_inferred :: bool

datatype csv_err = CsvBareQuote | CsvQuote | CsvEOF

datatype provider_err =
    ResolveError registry_err
  | OpenFailed store_err
  | HeaderUnreadable string
  | NoHeaderRow
  | HeaderUnparsable csv_err
  | HeaderColumns nat nat
  | InferFailed string
  | NoDataRows
  | DecodeFailed string
  | CloseFailed string
  | ReadSchemaFailed string
  | ReaderFailed string

text \<open>
  What every constructor does first: resolve the location and open the object. \<open>local\<close> is
  \<open>objectstore.Local\<close>; \<open>None\<close> is a resolution that never returns.
\<close>

definition open_location ::
  "(nat \<Rightarrow> url \<Rightarrow> string + 'st) \<Rightarrow> 'st \<Rightarrow> ('st \<Rightarrow> string \<Rightarrow> store_err + object) \<Rightarrow> 'st registry \<Rightarrow>
   string \<Rightarrow> url option \<Rightarrow> 'st option list \<Rightarrow>
   ((provider_err + ('st \<times> string \<times> object)) \<times> 'st registry) option" where
  "open_location run local opn g location parsed opts =
     (case ResolveWithOptions run g location parsed opts of
        None \<Rightarrow> None
      | Some (Inl e, called, g') \<Rightarrow> Some (Inl (ResolveError e), g')
      | Some (Inr r, called, g') \<Rightarrow>
          (let (store, path) = (case r of ResolvedLocal p \<Rightarrow> (local, p) | Resolved st p \<Rightarrow> (st, p))
           in Some (case opn store path of Inl e \<Rightarrow> Inl (OpenFailed e) | Inr obj \<Rightarrow> Inr (store, path, obj), g')))"

text \<open>The rest of a constructor, which closes the object when it returns.\<close>

definition constructed ::
  "((provider_err + ('st \<times> string \<times> object)) \<times> 'st registry) option \<Rightarrow>
   ('st \<Rightarrow> string \<Rightarrow> object \<Rightarrow> provider_err + 'p) \<Rightarrow> ((provider_err + 'p) \<times> nat \<times> 'st registry) option" where
  "constructed opened validate =
     (case opened of
        None \<Rightarrow> None
      | Some (Inl e, g') \<Rightarrow> Some (Inl e, 0, g')
      | Some (Inr (store, path, obj), g') \<Rightarrow> Some (validate store path obj, 1, g'))"

section \<open>The CSV header\<close>

text \<open>
  \<open>encoding/csv\<close>'s \<open>Read\<close> of one line: the fields, where in one the parser is, and the two
  ways it fails. A line break can only be the line's last character.
\<close>

datatype csv_mode = AtStart | InPlain string | InQuoted string | AfterQuote string

abbreviation quote_char :: char where "quote_char \<equiv> CHR 0x22"
abbreviation newline :: char where "newline \<equiv> CHR 0x0A"
abbreviation carriage :: char where "carriage \<equiv> CHR 0x0D"

definition next_field :: "string \<Rightarrow> csv_err + string list \<Rightarrow> csv_err + string list" where
  "next_field f rest = (case rest of Inl e \<Rightarrow> Inl e | Inr fs \<Rightarrow> Inr (f # fs))"

fun csv_fields :: "csv_mode \<Rightarrow> string \<Rightarrow> csv_err + string list" where
  "csv_fields AtStart [] = Inr [[]]"
| "csv_fields AtStart (c # cs) =
     (if c = quote_char then csv_fields (InQuoted []) cs
      else if c = CHR '','' then next_field [] (csv_fields AtStart cs)
      else if c = newline \<and> cs = [] then Inr [[]]
      else csv_fields (InPlain [c]) cs)"
| "csv_fields (InPlain f) [] = Inr [f]"
| "csv_fields (InPlain f) (c # cs) =
     (if c = quote_char then Inl CsvBareQuote
      else if c = CHR '','' then next_field f (csv_fields AtStart cs)
      else if c = newline \<and> cs = [] then Inr [f]
      else csv_fields (InPlain (f @ [c])) cs)"
| "csv_fields (InQuoted f) [] = Inl CsvQuote"
| "csv_fields (InQuoted f) (c # cs) =
     (if c = quote_char then csv_fields (AfterQuote f) cs else csv_fields (InQuoted (f @ [c])) cs)"
| "csv_fields (AfterQuote f) [] = Inr [f]"
| "csv_fields (AfterQuote f) (c # cs) =
     (if c = quote_char then csv_fields (InQuoted (f @ [c])) cs
      else if c = CHR '','' then next_field f (csv_fields AtStart cs)
      else if c = newline \<and> cs = [] then Inr [f]
      else Inl CsvQuote)"

text \<open>A carriage return before the line's end is dropped, and an empty line is no record.\<close>

definition csv_line :: "string \<Rightarrow> string" where
  "csv_line line =
     (case rev line of
        [] \<Rightarrow> []
      | c # r \<Rightarrow>
          if c = newline then (case r of c' # r' \<Rightarrow> if c' = carriage then rev r' @ [newline] else line | [] \<Rightarrow> line)
          else if c = carriage then rev r else line)"

definition csv_Read :: "string \<Rightarrow> csv_err + string list" where
  "csv_Read line =
     (let l = csv_line line in if l = [] \<or> l = [newline] then Inl CsvEOF else csv_fields AtStart l)"

text \<open>\<open>ReadString\<close>: up to and including the first line break, and what is left.\<close>

definition read_line :: "string \<Rightarrow> string \<times> string" where
  "read_line s =
     (case dropWhile (\<lambda>c. c \<noteq> newline) s of
        [] \<Rightarrow> (s, [])
      | c # rest \<Rightarrow> (takeWhile (\<lambda>c. c \<noteq> newline) s @ [c], rest))"

definition skipHeader :: "object \<Rightarrow> Field list \<Rightarrow> provider_err + object" where
  "skipHeader obj schema =
     (case obj of (s, e) \<Rightarrow>
        (case read_line s of (line, rest) \<Rightarrow>
           (case (if newline \<in> set s then None else e) of
              Some m \<Rightarrow> Inl (HeaderUnreadable m)
            | None \<Rightarrow>
                if line = [] then Inl NoHeaderRow
                else
                  (case csv_Read line of
                     Inl m \<Rightarrow> Inl (HeaderUnparsable m)
                   | Inr fs \<Rightarrow>
                       if length fs \<noteq> length schema then Inl (HeaderColumns (length fs) (length schema))
                       else Inr (rest, e)))))"

section \<open>The CSV provider\<close>

definition csv_validate :: "Field list \<Rightarrow> 'st \<Rightarrow> string \<Rightarrow> object \<Rightarrow> provider_err + 'st csv_provider" where
  "csv_validate schema store path obj =
     (case skipHeader obj schema of
        Inl e \<Rightarrow> Inl e
      | Inr rest \<Rightarrow> Inr \<lparr>fp_store = store, fp_path = path, fp_schema = schema, cp_inferred = False\<rparr>)"

definition csv_NewTableProvider where
  "csv_NewTableProvider run local opn g location parsed schema opts =
     constructed (open_location run local opn g location parsed opts) (csv_validate schema)"

text \<open>
  \<open>infer\<close> is what an inferring reader knows after one \<open>Next\<close>: its error and its schema, nil
  when there was no row to infer from.
\<close>

definition csv_infer ::
  "(object \<Rightarrow> string option \<times> Field list option) \<Rightarrow> 'st \<Rightarrow> string \<Rightarrow> object \<Rightarrow> provider_err + 'st csv_provider" where
  "csv_infer infer store path obj =
     (case infer obj of
        (Some e, sc) \<Rightarrow> Inl (InferFailed e)
      | (None, None) \<Rightarrow> Inl NoDataRows
      | (None, Some schema) \<Rightarrow>
          Inr \<lparr>fp_store = store, fp_path = path, fp_schema = schema, cp_inferred = True\<rparr>)"

definition csv_NewTableProviderWithInferredSchema where
  "csv_NewTableProviderWithInferredSchema infer run local opn g location parsed opts =
     constructed (open_location run local opn g location parsed opts) (csv_infer infer)"

definition csv_Scan ::
  "('st \<Rightarrow> string \<Rightarrow> store_err + object) \<Rightarrow> (object \<Rightarrow> RecordReader) \<Rightarrow> (object \<Rightarrow> Field list \<Rightarrow> RecordReader) \<Rightarrow>
   'st csv_provider \<Rightarrow> (provider_err + RecordReader) \<times> nat" where
  "csv_Scan opn newInferringReader newReader t =
     (case opn (fp_store t) (fp_path t) of
        Inl e \<Rightarrow> (Inl (OpenFailed e), 0)
      | Inr obj \<Rightarrow>
          if cp_inferred t then (Inr (ClosingReader (newInferringReader obj) False 0), 0)
          else
            (case skipHeader obj (fp_schema t) of
               Inl e \<Rightarrow> (Inl e, 1)
             | Inr rest \<Rightarrow> (Inr (ClosingReader (newReader rest (fp_schema t)) False 0), 0)))"

section \<open>The JSON providers\<close>

text \<open>
  \<open>decode\<close> is \<open>array.RecordFromJSON\<close>, \<open>first\<close> the error of a JSON reader after one \<open>Next\<close>.
\<close>

definition json_validate ::
  "(Field list \<Rightarrow> object \<Rightarrow> string + Batch) \<Rightarrow> Field list \<Rightarrow> 'st \<Rightarrow> string \<Rightarrow> object \<Rightarrow> provider_err + 'st file_provider" where
  "json_validate decode schema store path obj =
     (case decode schema obj of
        Inl e \<Rightarrow> Inl (DecodeFailed e)
      | Inr rec \<Rightarrow> Inr \<lparr>fp_store = store, fp_path = path, fp_schema = schema\<rparr>)"

definition json_NewTableProvider where
  "json_NewTableProvider decode run local opn g location parsed schema opts =
     constructed (open_location run local opn g location parsed opts) (json_validate decode schema)"

text \<open>
  \<open>closeErr\<close> is the outcome of the object's \<open>Close\<close>, \<open>newReader\<close> is \<open>array.NewRecordReader\<close>. The
  last component counts the releases of the decoded batch.
\<close>

definition json_Scan ::
  "('st \<Rightarrow> string \<Rightarrow> store_err + object) \<Rightarrow> (Field list \<Rightarrow> object \<Rightarrow> string + Batch) \<Rightarrow> string option \<Rightarrow>
   (Field list \<Rightarrow> Batch list \<Rightarrow> string + RecordReader) \<Rightarrow> 'st file_provider \<Rightarrow>
   (provider_err + RecordReader) \<times> nat \<times> nat" where
  "json_Scan opn decode closeErr newReader t =
     (case opn (fp_store t) (fp_path t) of
        Inl e \<Rightarrow> (Inl (OpenFailed e), 0, 0)
      | Inr obj \<Rightarrow>
          (case decode (fp_schema t) obj of
             Inl e \<Rightarrow> (Inl (DecodeFailed e), 1, 0)
           | Inr rec \<Rightarrow>
               (case closeErr of
                  Some e \<Rightarrow> (Inl (CloseFailed e), 1, 1)
                | None \<Rightarrow>
                    (case newReader (fp_schema t) [rec] of
                       Inl e \<Rightarrow> (Inl (ReaderFailed e), 1, 1)
                     | Inr r \<Rightarrow> (Inr r, 1, 1)))))"

definition jsonl_validate ::
  "(Field list \<Rightarrow> object \<Rightarrow> string option) \<Rightarrow> Field list \<Rightarrow> 'st \<Rightarrow> string \<Rightarrow> object \<Rightarrow> provider_err + 'st file_provider" where
  "jsonl_validate first schema store path obj =
     (case first schema obj of
        Some e \<Rightarrow> Inl (DecodeFailed e)
      | None \<Rightarrow> Inr \<lparr>fp_store = store, fp_path = path, fp_schema = schema\<rparr>)"

definition jsonl_NewTableProvider where
  "jsonl_NewTableProvider first run local opn g location parsed schema opts =
     constructed (open_location run local opn g location parsed opts) (jsonl_validate first schema)"

definition jsonl_Scan ::
  "('st \<Rightarrow> string \<Rightarrow> store_err + object) \<Rightarrow> (object \<Rightarrow> Field list \<Rightarrow> RecordReader) \<Rightarrow> 'st file_provider \<Rightarrow>
   (provider_err + RecordReader) \<times> nat" where
  "jsonl_Scan opn newReader t =
     (case opn (fp_store t) (fp_path t) of
        Inl e \<Rightarrow> (Inl (OpenFailed e), 0)
      | Inr obj \<Rightarrow> (Inr (ClosingReader (newReader obj (fp_schema t)) False 0), 0))"

section \<open>Constructing the Parquet provider\<close>

text \<open>
  \<open>openReader\<close>: closing the Parquet reader closes the object under it. \<open>parse\<close> is
  \<open>NewParquetReader\<close>, \<open>arrow\<close> is \<open>NewFileReader\<close> and \<open>schemaOf\<close> its \<open>Schema\<close>.
\<close>

definition openReader ::
  "('st \<Rightarrow> string \<Rightarrow> store_err + object) \<Rightarrow> (object \<Rightarrow> string + 'f) \<Rightarrow> 'st \<Rightarrow> string \<Rightarrow> (provider_err + 'f) \<times> nat" where
  "openReader opn parse store path =
     (case opn store path of
        Inl e \<Rightarrow> (Inl (OpenFailed e), 0)
      | Inr obj \<Rightarrow> (case parse obj of Inl e \<Rightarrow> (Inl (ReaderFailed e), 1) | Inr rdr \<Rightarrow> (Inr rdr, 0)))"

definition parquet_NewTableProvider ::
  "('f \<Rightarrow> string + 'a) \<Rightarrow> ('a \<Rightarrow> string + Field list) \<Rightarrow> (object \<Rightarrow> string + 'f) \<Rightarrow> (nat \<Rightarrow> url \<Rightarrow> string + 'st) \<Rightarrow> 'st \<Rightarrow>
   ('st \<Rightarrow> string \<Rightarrow> store_err + object) \<Rightarrow> 'st registry \<Rightarrow> string \<Rightarrow> url option \<Rightarrow> 'st option list \<Rightarrow>
   ((provider_err + 'st file_provider) \<times> nat \<times> 'st registry) option" where
  "parquet_NewTableProvider arrow schemaOf parse run local opn g location parsed opts =
     (case ResolveWithOptions run g location parsed opts of
        None \<Rightarrow> None
      | Some (Inl e, called, g') \<Rightarrow> Some (Inl (ResolveError e), 0, g')
      | Some (Inr r, called, g') \<Rightarrow>
          (let (store, path) = (case r of ResolvedLocal p \<Rightarrow> (local, p) | Resolved st p \<Rightarrow> (st, p))
           in Some (case openReader opn parse store path of
                (Inl e, n) \<Rightarrow> (Inl e, n, g')
              | (Inr rdr, n) \<Rightarrow>
                  (case arrow rdr of
                     Inl e \<Rightarrow> (Inl (ReadSchemaFailed e), Suc n, g')
                   | Inr fr \<Rightarrow>
                       (case schemaOf fr of
                          Inl e \<Rightarrow> (Inl (ReadSchemaFailed e), Suc n, g')
                        | Inr schema \<Rightarrow>
                            (Inr \<lparr>fp_store = store, fp_path = path, fp_schema = schema\<rparr>, Suc n, g'))))))"

section \<open>Headers are read as they were written\<close>

text \<open>A field as a CSV writer quotes it, and a header line of quoted names.\<close>

fun escape_quotes :: "string \<Rightarrow> string" where
  "escape_quotes [] = []"
| "escape_quotes (c # cs) = (if c = quote_char then [c, c] else [c]) @ escape_quotes cs"

definition quoted :: "string \<Rightarrow> string" where
  "quoted f = [quote_char] @ escape_quotes f @ [quote_char]"

fun header_of :: "string list \<Rightarrow> string" where
  "header_of [] = []"
| "header_of [f] = quoted f"
| "header_of (f # fs) = quoted f @ [CHR '',''] @ header_of fs"

lemma fields_quoted:
  "csv_fields (InQuoted acc) (escape_quotes f @ quote_char # rest) = csv_fields (AfterQuote (acc @ f)) rest"
  if "\<And>cs. rest \<noteq> quote_char # cs"
proof (induction f arbitrary: acc)
  case (Cons c f)
  then show ?case by (cases "c = quote_char") simp_all
qed simp

lemma header_fields: "names \<noteq> [] \<Longrightarrow> csv_fields AtStart (header_of names @ [newline]) = Inr names"
proof (induction names rule: header_of.induct)
  case (2 f)
  then show ?case using fields_quoted [of "[newline]" "[]" f] by (simp add: quoted_def)
next
  case (3 f g fs)
  then show ?case
    using fields_quoted [of "CHR '','' # header_of (g # fs) @ [newline]" "[]" f]
    by (simp add: quoted_def next_field_def)
qed simp

lemma escape_no_newline: "newline \<notin> set f \<Longrightarrow> newline \<notin> set (escape_quotes f)"
  by (induction f) auto

lemma header_no_newline: "\<forall>f\<in>set names. newline \<notin> set f \<Longrightarrow> newline \<notin> set (header_of names)"
  by (induction names rule: header_of.induct) (auto simp: quoted_def escape_no_newline)

lemma header_last_quote: "names \<noteq> [] \<Longrightarrow> \<exists>h. header_of names = h @ [quote_char]"
proof (induction names rule: header_of.induct)
  case (2 f)
  show ?case by (simp add: quoted_def)
next
  case (3 f g fs)
  then obtain h where "header_of (g # fs) = h @ [quote_char]" by auto
  then show ?case by simp
qed simp

lemma read_line_header:
  assumes "newline \<notin> set h"
  shows "read_line (h @ newline # body) = (h @ [newline], body)"
proof -
  have "takeWhile (\<lambda>c. c \<noteq> newline) (h @ newline # body) = h"
    "dropWhile (\<lambda>c. c \<noteq> newline) (h @ newline # body) = newline # body"
    using assms by (induction h) auto
  then show ?thesis by (simp add: read_line_def)
qed

lemma csv_Read_header:
  assumes "names \<noteq> []"
  shows "csv_Read (header_of names @ [newline]) = Inr names"
proof -
  obtain h where h: "header_of names = h @ [quote_char]" using header_last_quote [OF assms] by blast
  have "csv_line (header_of names @ [newline]) = header_of names @ [newline]"
    by (simp add: csv_line_def h)
  then show ?thesis using header_fields [OF assms] by (simp add: csv_Read_def h)
qed

lemma skipHeader_header:
  assumes "names \<noteq> []" and "\<forall>f\<in>set names. newline \<notin> set f"
  shows "skipHeader (header_of names @ newline # body, e) schema =
    (if length names = length schema then Inr (body, e) else Inl (HeaderColumns (length names) (length schema)))"
  using read_line_header [OF header_no_newline [OF assms(2)]] csv_Read_header [OF assms(1)]
  by (simp add: skipHeader_def)

lemma open_location_opens:
  "open_location run local opn g location parsed opts = Some (Inr (store, path, obj), g') \<Longrightarrow>
   opn store path = Inr obj"
  by (auto simp: open_location_def Let_def split: option.splits sum.splits prod.splits resolved.splits)

section \<open>What construction promises of scans\<close>

text \<open>C30: The header line of a CSV object that quotes any column names without a line break reads back
  as those names; the object is accepted exactly when the schema has as many fields, is closed once by
  the constructor, and every scan of the provider then reads exactly the bytes after the header, under
  the caller's schema. A line break in a quoted name, which CSV allows, is outside this: the header is
  read up to the first one.\<close>

theorem csv_header_roundtrip:
  fixes run :: "nat \<Rightarrow> url \<Rightarrow> string + 'st"
  assumes "names \<noteq> []" and "\<forall>f\<in>set names. newline \<notin> set f"
    and "open_location run local opn g location parsed opts =
      Some (Inr (store, path, header_of names @ newline # body, e), g')"
  shows "(case read_line (header_of names @ newline # body) of
        (line, rest) \<Rightarrow> csv_Read line = Inr names \<and> rest = body) \<and>
    csv_NewTableProvider run local opn g location parsed schema opts =
      Some (if length names = length schema
            then Inr \<lparr>fp_store = store, fp_path = path, fp_schema = schema, cp_inferred = False\<rparr>
            else Inl (HeaderColumns (length names) (length schema)), 1, g') \<and>
    (length names = length schema \<longrightarrow>
      csv_Scan opn infer newReader \<lparr>fp_store = store, fp_path = path, fp_schema = schema, cp_inferred = False\<rparr> =
        (Inr (ClosingReader (newReader (body, e) schema) False 0), 0))"
  using assms(3) open_location_opens [OF assms(3)] read_line_header [OF header_no_newline [OF assms(2)]]
    csv_Read_header [OF assms(1)]
  by (auto simp: csv_NewTableProvider_def constructed_def csv_validate_def csv_Scan_def
      skipHeader_header [OF assms(1,2)])

definition text_field :: "string \<Rightarrow> Field" where
  "text_field n = \<lparr>field_name = n, field_type = StringDT, field_nullable = True, field_metadata = []\<rparr>"

theorem csv_header_roundtrip_witness:
  "csv_Read (fst (read_line (''\"a\",\"b\"'' @ newline # ''1,2''))) = Inr [''a'', ''b''] \<and>
   csv_NewTableProvider (\<lambda>opener u. Inl []) (7 :: nat) (\<lambda>st p. Inr (''\"a\",\"b\"'' @ newline # ''1,2'', None))
     empty_registry ''t.csv'' None [text_field ''a'', text_field ''b''] [] =
   Some (Inr \<lparr>fp_store = 7, fp_path = ''t.csv'', fp_schema = [text_field ''a'', text_field ''b''], cp_inferred = False\<rparr>, 1,
     empty_registry)"
proof -
  have "open_location (\<lambda>opener u. Inl []) (7 :: nat) (\<lambda>st p. Inr (''\"a\",\"b\"'' @ newline # ''1,2'', None))
      empty_registry ''t.csv'' None [] =
    Some (Inr (7, ''t.csv'', header_of [''a'', ''b''] @ newline # ''1,2'', None), empty_registry)"
    by (simp add: open_location_def ResolveWithOptions_def Resolve_def locate_def quoted_def)
  note header = csv_header_roundtrip [OF _ _ this, of "[text_field ''a'', text_field ''b'']"]
  from header [THEN conjunct1] header [THEN conjunct2, THEN conjunct1]
  show ?thesis by (simp add: quoted_def case_prod_beta)
qed

text \<open>
  However construction and the scans of the other providers end, the opened object is
  closed exactly once, or belongs to the returned reader.
\<close>

lemma json_Scan_closes:
  assumes "opn (fp_store t) (fp_path t) = Inr obj"
    and "json_Scan opn decode closeErr newReader t = (res, closes, releases)"
  shows "closes = 1 \<and> (releases = 1 \<longleftrightarrow> (\<exists>rec. decode (fp_schema t) obj = Inr rec))"
  using assms by (auto simp: json_Scan_def split: sum.splits option.splits)

lemma jsonl_Scan_closes:
  assumes "opn (fp_store t) (fp_path t) = Inr obj" and "jsonl_Scan opn newReader t = (res, closes)"
  shows "\<exists>r. res = Inr (ClosingReader r False 0) \<and> closes = 0"
  using assms by (auto simp: jsonl_Scan_def)

lemma csv_Scan_closes:
  assumes "opn (fp_store t) (fp_path t) = Inr obj" and "csv_Scan opn infer newReader t = (res, closes)"
  shows "(case res of Inl e \<Rightarrow> closes = 1 | Inr r \<Rightarrow> \<exists>r'. r = ClosingReader r' False 0 \<and> closes = 0)"
  using assms by (auto simp: csv_Scan_def split: sum.splits if_splits)

lemma parquet_NewTableProvider_closes:
  assumes "parquet_NewTableProvider arrow schemaOf parse run local opn g location parsed opts = Some (Inr p, closes, g')"
  shows "closes = 1 \<and> (\<exists>obj. opn (fp_store p) (fp_path p) = Inr obj)"
  using assms
  by (auto simp: parquet_NewTableProvider_def openReader_def Let_def
      split: option.splits sum.splits prod.splits resolved.splits)

end
