(* ===== verification/Iceberg_Open.thy ===== *)
theory Iceberg_Open
  imports Iceberg_Scan Object_Store
begin

text \<open>
  Opening an Iceberg table by the location of its metadata (\<open>providers/iceberg/iceberg.go\<close>).
\<close>

section \<open>Opening by location\<close>

definition tableNameFromMetadataLocation :: "string \<Rightarrow> string" where
  "tableNameFromMetadataLocation loc =
     (let name = Base (Dir (Dir loc)) in if name = [] \<or> name = ''.'' \<or> name = ''/'' then ''table'' else name)"

text \<open>\<open>NewFromLocation\<close> takes the identifier, the location and the properties of the file IO.\<close>

definition loadTableFromLocation ::
  "(string list \<Rightarrow> string \<Rightarrow> 'p option \<Rightarrow> string + IbTable) \<Rightarrow> string \<Rightarrow> 'p option \<Rightarrow> string + IbTable" where
  "loadTableFromLocation NewFromLocation loc ioProps =
     (case NewFromLocation [''default'', tableNameFromMetadataLocation loc] loc ioProps of
        Inl e \<Rightarrow> Inl (''iceberg: load table metadata at '' @ loc @ '': '' @ e)
      | Inr tbl \<Rightarrow> Inr tbl)"

text \<open>Each option sets the properties, so the last one counts.\<close>

definition iceberg_options :: "'p option list \<Rightarrow> 'p option" where
  "iceberg_options opts = fold (\<lambda>props o'. props) opts None"

definition NewTableProvider_iceberg ::
  "(string list \<Rightarrow> string \<Rightarrow> 'p option \<Rightarrow> string + IbTable) \<Rightarrow> string \<Rightarrow> 'p option list \<Rightarrow> ib_err + Field list" where
  "NewTableProvider_iceberg NewFromLocation loc opts =
     newProvider (loadTableFromLocation NewFromLocation loc (iceberg_options opts))"

definition NewTableProviderFromCatalog :: "(string list \<Rightarrow> string + IbTable) \<Rightarrow> string list \<Rightarrow> ib_err + Field list" where
  "NewTableProviderFromCatalog LoadTable ident = newProvider (load_from_catalog LoadTable ident)"

section \<open>The name of a table\<close>

text \<open>A table laid out as documented is named after its root directory.\<close>

lemma table_named_after_root:
  assumes "list_all plain_name es" "plain_name rt" "CHR ''/'' \<notin> set fname"
  shows "tableNameFromMetadataLocation (join_slash (es @ [rt, ''metadata'', fname])) = rt"
proof -
  have m: "plain_name ''metadata''" by (simp add: plain_name_def)
  have "Dir (join_slash (es @ [rt, ''metadata'', fname])) = join_slash (es @ [rt, ''metadata''])"
    using Dir_join [of "es @ [rt, ''metadata'']" fname] assms m by simp
  moreover have "Dir (join_slash (es @ [rt, ''metadata''])) = join_slash (es @ [rt])"
    using Dir_join [of "es @ [rt]" "''metadata''"] assms(1,2) by simp
  ultimately show ?thesis using Base_join [OF assms(2), of es] assms(2)
    by (auto simp: tableNameFromMetadataLocation_def plain_name_def Let_def)
qed

lemma short_location_named_table: "CHR ''/'' \<notin> set fname \<Longrightarrow> tableNameFromMetadataLocation fname = ''table''"
proof -
  assume "CHR ''/'' \<notin> set fname"
  then have "dropWhile (\<lambda>c. c \<noteq> CHR ''/'') (rev fname) = []" by auto
  then have "Dir fname = ''.''" by (simp add: Dir_def before_base_def Clean_def clean_step_def del: dropWhile_eq_Nil_conv)
  moreover have "Dir ''.'' = ''.''" by (simp add: Dir_def before_base_def Clean_def clean_step_def)
  moreover have "Base ''.'' = ''.''" by (simp add: Base_def after_slash_def)
  ultimately show ?thesis by (simp add: tableNameFromMetadataLocation_def)
qed

end
