(* ===== verification/Engine_Classify.thy ===== *)
theory Engine_Classify
  imports Wire_Roundtrip Sql_Semantics
begin

text \<open>
  The engine's side of filter pushdown, \<open>rust/datafusion-c-abi/src/pushdown.rs\<close>: which of the
  query engine's expressions can cross to Go and what becomes of them. The engine's own
  evaluation of its expressions is stated as a specification, over whatever its other
  operators and functions do; an expression that crosses means there what it meant here.
\<close>

section \<open>The query engine's expressions\<close>

text \<open>
  \<open>ScalarValue\<close> and \<open>Expr\<close> of the query engine, with the constructors \<open>classify\<close> tells apart;
  the rest (casts, functions, LIKE, and decimal or nested literals) is \<open>DfOther\<close> and \<open>OtherScalar\<close>.
\<close>

datatype ScalarValue =
    BooleanS "bool option"
  | Int8S "i8 option" | Int16S "i16 option" | Int32S "i32 option" | Int64S "i64 option"
  | UInt8S "u8 option" | UInt16S "u16 option" | UInt32S "u32 option" | UInt64S "u64 option"
  | Float32S "float32 option" | Float64S "float64 option"
  | Utf8S "string option" | LargeUtf8S "string option" | Utf8ViewS "string option"
  | BinaryS "byte list option" | LargeBinaryS "byte list option" | BinaryViewS "byte list option"
  | Date32S "i32 option" | Date64S "i64 option"
  | TimestampSecond "i64 option" "string option" | TimestampMillisecond "i64 option" "string option"
  | TimestampMicrosecond "i64 option" "string option" | TimestampNanosecond "i64 option" "string option"
  | OtherScalar "sqlval option"

datatype Operator = OpEq | OpNotEq | OpLt | OpLtEq | OpGt | OpGtEq | OpAnd | OpOr | OtherOperator string

datatype DfExpr =
    BinaryExpr DfExpr Operator DfExpr
  | DfIsNull DfExpr
  | DfIsNotNull DfExpr
  | DfNot DfExpr
  | DfBetween DfExpr bool DfExpr DfExpr
  | DfInList DfExpr "DfExpr list" bool
  | DfColumn string
  | DfLiteral ScalarValue
  | DfOther string "DfExpr list"

section \<open>The classifier\<close>

text \<open>
  The wire's literals and expressions are those of \<open>Filter_Expr\<close>; an absent time zone is the
  empty one, which Go cannot tell from it. \<open>wire_value\<close> does the base64 encoding.
\<close>

definition push_literal :: "LiteralType \<Rightarrow> GoValue \<Rightarrow> Literal" where
  "push_literal t v = \<lparr>lit_type = t, lit_value = v, lit_unit = OtherUnit [], lit_tz = []\<rparr>"

definition timestamp_literal :: "i64 option \<Rightarrow> TimeUnit \<Rightarrow> string option \<Rightarrow> Literal option" where
  "timestamp_literal v u tz =
     map_option (\<lambda>w. \<lparr>lit_type = LiteralTimestamp, lit_value = Int64V w, lit_unit = u,
       lit_tz = (case tz of None \<Rightarrow> [] | Some z \<Rightarrow> z)\<rparr>) v"

definition scalar_to_literal :: "ScalarValue \<Rightarrow> Literal option" where
  "scalar_to_literal s =
     (case s of
        BooleanS v \<Rightarrow> map_option (\<lambda>b. push_literal LiteralBool (BoolV b)) v
      | Int8S v \<Rightarrow> map_option (\<lambda>w. push_literal LiteralInt8 (Int8V w)) v
      | Int16S v \<Rightarrow> map_option (\<lambda>w. push_literal LiteralInt16 (Int16V w)) v
      | Int32S v \<Rightarrow> map_option (\<lambda>w. push_literal LiteralInt32 (Int32V w)) v
      | Int64S v \<Rightarrow> map_option (\<lambda>w. push_literal LiteralInt64 (Int64V w)) v
      | UInt8S v \<Rightarrow> map_option (\<lambda>w. push_literal LiteralUint8 (Uint8V w)) v
      | UInt16S v \<Rightarrow> map_option (\<lambda>w. push_literal LiteralUint16 (Uint16V w)) v
      | UInt32S v \<Rightarrow> map_option (\<lambda>w. push_literal LiteralUint32 (Uint32V w)) v
      | UInt64S v \<Rightarrow> map_option (\<lambda>w. push_literal LiteralUint64 (Uint64V w)) v
      | Float32S v \<Rightarrow> map_option (\<lambda>f. push_literal LiteralFloat32 (Float32V f)) v
      | Float64S v \<Rightarrow> map_option (\<lambda>f. push_literal LiteralFloat64 (Float64V f)) v
      | Utf8S v \<Rightarrow> map_option (\<lambda>t. push_literal LiteralUtf8 (StringV t)) v
      | LargeUtf8S v \<Rightarrow> map_option (\<lambda>t. push_literal LiteralUtf8 (StringV t)) v
      | Utf8ViewS v \<Rightarrow> map_option (\<lambda>t. push_literal LiteralUtf8 (StringV t)) v
      | BinaryS v \<Rightarrow> map_option (\<lambda>b. push_literal LiteralBinary (BytesV b)) v
      | LargeBinaryS v \<Rightarrow> map_option (\<lambda>b. push_literal LiteralBinary (BytesV b)) v
      | BinaryViewS v \<Rightarrow> map_option (\<lambda>b. push_literal LiteralBinary (BytesV b)) v
      | Date32S v \<Rightarrow> map_option (\<lambda>w. push_literal LiteralDate32 (Int32V w)) v
      | Date64S v \<Rightarrow> map_option (\<lambda>w. push_literal LiteralDate64 (Int64V w)) v
      | TimestampSecond v tz \<Rightarrow> timestamp_literal v TimeUnitSecond tz
      | TimestampMillisecond v tz \<Rightarrow> timestamp_literal v TimeUnitMillisecond tz
      | TimestampMicrosecond v tz \<Rightarrow> timestamp_literal v TimeUnitMicrosecond tz
      | TimestampNanosecond v tz \<Rightarrow> timestamp_literal v TimeUnitNanosecond tz
      | OtherScalar v \<Rightarrow> None)"

definition literal :: "DfExpr \<Rightarrow> Literal option" where
  "literal e = (case e of DfLiteral s \<Rightarrow> scalar_to_literal s | _ \<Rightarrow> None)"

text \<open>\<open>Schema::index_of\<close>: the first field of the name.\<close>

fun index_of :: "Field list \<Rightarrow> string \<Rightarrow> nat option" where
  "index_of [] name = None"
| "index_of (f # fs) name = (if field_name f = name then Some 0 else map_option Suc (index_of fs name))"

definition column_ref :: "Field list \<Rightarrow> DfExpr \<Rightarrow> Column option" where
  "column_ref fs e =
     (case e of
        DfColumn name \<Rightarrow> map_option (\<lambda>i. \<lparr>col_name = name, col_index = int i\<rparr>) (index_of fs name)
      | _ \<Rightarrow> None)"

definition compare_op :: "Operator \<Rightarrow> CompareOp option" where
  "compare_op op =
     (case op of
        OpEq \<Rightarrow> Some CompareEq | OpNotEq \<Rightarrow> Some CompareNeq | OpLt \<Rightarrow> Some CompareLt
      | OpLtEq \<Rightarrow> Some CompareLtEq | OpGt \<Rightarrow> Some CompareGt | OpGtEq \<Rightarrow> Some CompareGtEq
      | _ \<Rightarrow> None)"

text \<open>\<open>swap\<close> is the query engine's \<open>Operator::swap\<close>.\<close>

definition classify_compare ::
  "(Operator \<Rightarrow> Operator option) \<Rightarrow> Field list \<Rightarrow> DfExpr \<Rightarrow> Operator \<Rightarrow> DfExpr \<Rightarrow> Expr option" where
  "classify_compare swap fs l op r =
     (case (column_ref fs l, literal r) of
        (Some c, Some v) \<Rightarrow> Option.bind (compare_op op) (\<lambda>cop. Some (Compare c cop v))
      | _ \<Rightarrow>
          (case (literal l, column_ref fs r) of
             (Some v, Some c) \<Rightarrow>
               Option.bind (Option.bind (swap op) compare_op) (\<lambda>cop. Some (Compare c cop v))
           | _ \<Rightarrow> None))"

fun classify :: "(Operator \<Rightarrow> Operator option) \<Rightarrow> Field list \<Rightarrow> DfExpr \<Rightarrow> Expr option" where
  "classify swap fs (BinaryExpr l op r) =
     (case op of
        OpAnd \<Rightarrow> Option.bind (classify swap fs l) (\<lambda>a. Option.bind (classify swap fs r) (\<lambda>b. Some (And a b)))
      | OpOr \<Rightarrow> Option.bind (classify swap fs l) (\<lambda>a. Option.bind (classify swap fs r) (\<lambda>b. Some (Or a b)))
      | OtherOperator _ \<Rightarrow> None
      | _ \<Rightarrow> classify_compare swap fs l op r)"
| "classify swap fs (DfIsNull e) = map_option (\<lambda>c. IsNull c False) (column_ref fs e)"
| "classify swap fs (DfIsNotNull e) = map_option (\<lambda>c. IsNull c True) (column_ref fs e)"
| "classify swap fs (DfNot e) = map_option NotE (classify swap fs e)"
| "classify swap fs (DfBetween e n lo hi) =
     Option.bind (column_ref fs e) (\<lambda>c. Option.bind (literal lo) (\<lambda>l. Option.bind (literal hi) (\<lambda>h.
       Some (Between c n l h))))"
| "classify swap fs (DfInList e es n) =
     Option.bind (column_ref fs e) (\<lambda>c. Option.bind (omap literal es) (\<lambda>ls. Some (InList c n ls)))"
| "classify swap fs (DfColumn name) = None"
| "classify swap fs (DfLiteral s) = None"
| "classify swap fs (DfOther f es) = None"

text \<open>The document for a scan, one JSON array, if any filter can cross; \<open>fmt32\<close> and \<open>fmt64\<close> print floats.\<close>

definition filters_to_json ::
  "(Operator \<Rightarrow> Operator option) \<Rightarrow> (float32 \<Rightarrow> string) \<Rightarrow> (float64 \<Rightarrow> string) \<Rightarrow> DfExpr list \<Rightarrow> Field list \<Rightarrow> json option" where
  "filters_to_json swap fmt32 fmt64 filters fs =
     (let nodes = List.map_filter (classify swap fs) filters
      in if nodes = [] then None else Some (JArray (map (wire_expr fmt32 fmt64) nodes)))"

section \<open>What an expression means\<close>

text \<open>
  The value of an expression on a row, NULL being \<open>None\<close>: three-valued logic, and the
  comparisons of \<open>Sql_Semantics\<close>. \<open>env\<close> is the row's columns by name, \<open>other\<close> the meaning of all
  operators and functions that are not of the forms above.
\<close>

definition scalar_value :: "ScalarValue \<Rightarrow> sqlval option" where
  "scalar_value s =
     (case s of
        BooleanS v \<Rightarrow> map_option QBool v
      | Int8S v \<Rightarrow> map_option (\<lambda>w. QInt (sint w)) v | Int16S v \<Rightarrow> map_option (\<lambda>w. QInt (sint w)) v
      | Int32S v \<Rightarrow> map_option (\<lambda>w. QInt (sint w)) v | Int64S v \<Rightarrow> map_option (\<lambda>w. QInt (sint w)) v
      | UInt8S v \<Rightarrow> map_option (\<lambda>w. QInt (uint w)) v | UInt16S v \<Rightarrow> map_option (\<lambda>w. QInt (uint w)) v
      | UInt32S v \<Rightarrow> map_option (\<lambda>w. QInt (uint w)) v | UInt64S v \<Rightarrow> map_option (\<lambda>w. QInt (uint w)) v
      | Float32S v \<Rightarrow> map_option (\<lambda>f. QFloat (f64_of_f32 f)) v | Float64S v \<Rightarrow> map_option QFloat v
      | Utf8S v \<Rightarrow> map_option (\<lambda>t. QText (bytes_of_string t)) v
      | LargeUtf8S v \<Rightarrow> map_option (\<lambda>t. QText (bytes_of_string t)) v
      | Utf8ViewS v \<Rightarrow> map_option (\<lambda>t. QText (bytes_of_string t)) v
      | BinaryS v \<Rightarrow> map_option QBinary v | LargeBinaryS v \<Rightarrow> map_option QBinary v
      | BinaryViewS v \<Rightarrow> map_option QBinary v
      | Date32S v \<Rightarrow> map_option (\<lambda>w. QDate (sint w)) v
      | Date64S v \<Rightarrow> map_option (\<lambda>w. QTime (sint w * 10 ^ 6)) v
      | TimestampSecond v tz \<Rightarrow> map_option (\<lambda>w. QTime (sint w * 10 ^ 9)) v
      | TimestampMillisecond v tz \<Rightarrow> map_option (\<lambda>w. QTime (sint w * 10 ^ 6)) v
      | TimestampMicrosecond v tz \<Rightarrow> map_option (\<lambda>w. QTime (sint w * 10 ^ 3)) v
      | TimestampNanosecond v tz \<Rightarrow> map_option (\<lambda>w. QTime (sint w)) v
      | OtherScalar v \<Rightarrow> v)"

definition truth :: "sqlval option \<Rightarrow> bool option" where
  "truth v = (case v of Some (QBool b) \<Rightarrow> Some b | _ \<Rightarrow> None)"

definition df_compare :: "foreign \<Rightarrow> CompareOp \<Rightarrow> sqlval option \<Rightarrow> sqlval option \<Rightarrow> bool option" where
  "df_compare fo op a b =
     Option.bind a (\<lambda>x. Option.bind b (\<lambda>y. map_option (op_holds op) (sql_compare fo x y)))"

fun df_value ::
  "foreign \<Rightarrow> (string \<Rightarrow> sqlval option list \<Rightarrow> sqlval option) \<Rightarrow> (string \<Rightarrow> sqlval option) \<Rightarrow> DfExpr \<Rightarrow> sqlval option" where
  "df_value fo other env (BinaryExpr l op r) =
     (let a = df_value fo other env l; b = df_value fo other env r in
      case op of
        OpAnd \<Rightarrow> map_option QBool (and3 (truth a) (truth b))
      | OpOr \<Rightarrow> map_option QBool (or3 (truth a) (truth b))
      | OpEq \<Rightarrow> map_option QBool (df_compare fo CompareEq a b)
      | OpNotEq \<Rightarrow> map_option QBool (df_compare fo CompareNeq a b)
      | OpLt \<Rightarrow> map_option QBool (df_compare fo CompareLt a b)
      | OpLtEq \<Rightarrow> map_option QBool (df_compare fo CompareLtEq a b)
      | OpGt \<Rightarrow> map_option QBool (df_compare fo CompareGt a b)
      | OpGtEq \<Rightarrow> map_option QBool (df_compare fo CompareGtEq a b)
      | OtherOperator f \<Rightarrow> other f [a, b])"
| "df_value fo other env (DfIsNull e) = Some (QBool (df_value fo other env e = None))"
| "df_value fo other env (DfIsNotNull e) = Some (QBool (df_value fo other env e \<noteq> None))"
| "df_value fo other env (DfNot e) = map_option QBool (not3 (truth (df_value fo other env e)))"
| "df_value fo other env (DfBetween e n lo hi) =
     (let a = df_value fo other env e in
      map_option QBool (negate_if n
        (and3 (df_compare fo CompareGtEq a (df_value fo other env lo))
              (df_compare fo CompareLtEq a (df_value fo other env hi)))))"
| "df_value fo other env (DfInList e es n) =
     (let a = df_value fo other env e in
      map_option QBool (negate_if n
        (if a = None then None
         else foldr (\<lambda>b acc. or3 (df_compare fo CompareEq a b) acc) (map (df_value fo other env) es) (Some False))))"
| "df_value fo other env (DfColumn name) = env name"
| "df_value fo other env (DfLiteral s) = scalar_value s"
| "df_value fo other env (DfOther f es) = other f (map (df_value fo other env) es)"

text \<open>The columns of a row, by the name of its fields; the rows where every filter is TRUE.\<close>

definition col_env :: "Field list \<Rightarrow> row \<Rightarrow> string \<Rightarrow> sqlval option" where
  "col_env fs r name =
     (case index_of fs name of
        None \<Rightarrow> None
      | Some i \<Rightarrow> map_option (cell_value (field_type (fs ! i))) (r (int i)))"

definition where_true ::
  "foreign \<Rightarrow> (string \<Rightarrow> sqlval option list \<Rightarrow> sqlval option) \<Rightarrow> DfExpr list \<Rightarrow> Field list \<Rightarrow> row \<Rightarrow> bool" where
  "where_true fo other filters fs r \<longleftrightarrow>
     list_all (\<lambda>e. truth (df_value fo other (col_env fs r) e) = Some True) filters"

text \<open>\<open>dts\<close> gives the fields' types by position.\<close>

definition fields_typed :: "Field list \<Rightarrow> (int \<Rightarrow> dtype) \<Rightarrow> bool" where
  "fields_typed fs dts \<longleftrightarrow> (\<forall>i < length fs. dts (int i) = field_type (fs ! i))"

text \<open>
  What the translation of a mirrored comparison rests on: comparing the other way round
  gives the opposite, and \<open>swap\<close> turns an operator into its mirror image.
\<close>

definition mirrored :: "foreign \<Rightarrow> bool" where
  "mirrored fo \<longleftrightarrow> (\<forall>a b. fo b a = map_option uminus (fo a b))"

definition swap_ok :: "(Operator \<Rightarrow> Operator option) \<Rightarrow> bool" where
  "swap_ok swap \<longleftrightarrow>
     (\<forall>op op' c c'. swap op = Some op' \<and> compare_op op = Some c \<and> compare_op op' = Some c' \<longrightarrow>
        (\<forall>n. op_holds c' n = op_holds c (- n)))"

section \<open>Classification keeps the meaning\<close>

lemma index_of_Some:
  "index_of fs name = Some i \<Longrightarrow> i < length fs \<and> field_name (fs ! i) = name"
  by (induction fs arbitrary: i) (auto split: if_splits)

lemma compare_op_known: "compare_op op = Some c \<Longrightarrow> known_op c"
  by (cases op) (auto simp: compare_op_def known_op_def)

lemma truth_QBool [simp]: "truth (map_option QBool v) = v" "truth (Some (QBool b)) = Some b"
  by (cases v) (simp_all add: truth_def)

lemma sql_compare_mirror:
  assumes "mirrored fo"
  shows "sql_compare fo b a = map_option uminus (sql_compare fo a b)"
proof -
  have fo: "fo b a = map_option uminus (fo a b)" using assms unfolding mirrored_def by blast
  show ?thesis
  proof (cases a)
    case (QBool x) then show ?thesis using fo by (cases b) (simp_all add: sql_compare_def order_int_def)
  next case (QInt x) then show ?thesis using fo by (cases b) (simp_all add: sql_compare_def order_int_def)
  next case (QFloat x) then show ?thesis using fo by (cases b) (simp_all add: sql_compare_def order_int_def)
  next case (QText x) then show ?thesis using fo bytes_compare_swap [of _ x] by (cases b) (simp_all add: sql_compare_def)
  next case (QBinary x) then show ?thesis using fo bytes_compare_swap [of _ x] by (cases b) (simp_all add: sql_compare_def)
  next case (QDate x) then show ?thesis using fo by (cases b) (simp_all add: sql_compare_def order_int_def)
  next case (QTime x) then show ?thesis using fo by (cases b) (simp_all add: sql_compare_def order_int_def)
  next case (QOther x) then show ?thesis using fo by (cases b) (simp_all add: sql_compare_def)
  qed
qed

lemma timestamp_literal_value:
  "timestamp_literal v u tz = Some l \<Longrightarrow> map_option (\<lambda>w. QTime (sint w * lit_nanos_per u)) v = Some (literal_meaning l)"
  by (cases v) (auto simp: timestamp_literal_def literal_meaning_def)

lemma scalar_to_literal_value:
  "scalar_to_literal s = Some l \<Longrightarrow> scalar_value s = Some (literal_meaning l)"
  by (cases s; simp add: scalar_to_literal_def scalar_value_def;
      (drule timestamp_literal_value, simp add: lit_nanos_per_def
       | force simp: push_literal_def literal_meaning_def))

lemma literal_value:
  "literal e = Some l \<Longrightarrow> df_value fo other env e = Some (literal_meaning l)"
  by (cases e) (simp_all add: literal_def scalar_to_literal_value)

lemma column_ref_value:
  assumes "column_ref fs e = Some c" and "fields_typed fs dts"
  shows "df_value fo other (col_env fs r) e = map_option (cell_value (dts (col_index c))) (r (col_index c))"
proof -
  obtain name i where e: "e = DfColumn name" "index_of fs name = Some i" "c = \<lparr>col_name = name, col_index = int i\<rparr>"
    using assms(1) by (cases e) (auto simp: column_ref_def)
  with index_of_Some [OF e(2)] assms(2) show ?thesis by (simp add: col_env_def fields_typed_def)
qed

lemma compare_value:
  assumes "column_ref fs e = Some c" and "literal l = Some v" and "known_op op"
    and "fields_typed fs dts"
  shows "df_compare fo op (df_value fo other (col_env fs r) e) (df_value fo other env' l) = eval_compare fo dts r c op v"
  unfolding column_ref_value [OF assms(1,4)] literal_value [OF assms(2)]
  using assms(3) by (cases "r (col_index c)") (simp_all add: df_compare_def eval_compare_def)

lemma compare_mirror:
  assumes "mirrored fo" and "swap_ok swap"
    and "swap op = Some op'" and "compare_op op = Some c" and "compare_op op' = Some c'"
  shows "df_compare fo c a b = df_compare fo c' b a"
proof -
  have flip: "op_holds c' n = op_holds c (- n)" for n
    using assms(2-5) unfolding swap_ok_def by blast
  show ?thesis
  proof (cases a; cases b)
    fix x y assume ab: "a = Some x" "b = Some y"
    show ?thesis
      unfolding ab using sql_compare_mirror [OF assms(1), of x y]
      by (cases "sql_compare fo y x") (simp_all add: df_compare_def flip)
  qed (simp_all add: df_compare_def)
qed

lemma in_list_value:
  assumes "column_ref fs e = Some c" and "omap literal es = Some ls"
    and "fields_typed fs dts"
  shows "foldr (\<lambda>b acc. or3 (df_compare fo CompareEq (df_value fo other (col_env fs r) e) b) acc)
      (map (df_value fo other env') es) (Some False) =
    foldr (\<lambda>l acc. or3 (eval_compare fo dts r c CompareEq l) acc) ls (Some False)"
  using assms(2)
proof (induction es arbitrary: ls)
  case (Cons a es)
  then obtain l ls' where l: "literal a = Some l" "omap literal es = Some ls'" "ls = l # ls'"
    by (auto simp: bind_eq_Some_conv)
  have "known_op CompareEq" by (simp add: known_op_def)
  from compare_value [OF assms(1) l(1) this assms(3)] Cons.IH [OF l(2)] show ?case by (simp add: l(3))
qed simp

text \<open>The operators \<open>classify_compare\<close> is called with, and what they evaluate to.\<close>

lemma comparison_value:
  assumes "compare_op op = Some c"
  shows "df_value fo other env (BinaryExpr l op r) =
    map_option QBool (df_compare fo c (df_value fo other env l) (df_value fo other env r))"
  using assms by (cases op) (auto simp: compare_op_def Let_def)

lemma classify_compare_sound:
  assumes "classify_compare swap fs l op r = Some p" and "compare_op op = Some cop"
    and "mirrored fo" and "swap_ok swap"
    and dts: "fields_typed fs dts"
  shows "truth (df_value fo other (col_env fs row) (BinaryExpr l op r)) = eval fo dts row p"
proof -
  consider (plain) c v where "column_ref fs l = Some c" "literal r = Some v" "p = Compare c cop v"
    | (mirror) c v op' cop' where "literal l = Some v" "column_ref fs r = Some c" "swap op = Some op'"
      "compare_op op' = Some cop'" "p = Compare c cop' v"
    using assms(1,2) by (auto simp: classify_compare_def bind_eq_Some_conv split: option.splits)
  then show ?thesis
  proof cases
    case plain
    then show ?thesis
      using comparison_value [OF assms(2)] compare_value [OF plain(1,2) compare_op_known [OF assms(2)] dts] by simp
  next
    case mirror
    have "df_compare fo cop (df_value fo other (col_env fs row) l) (df_value fo other (col_env fs row) r) =
        df_compare fo cop' (df_value fo other (col_env fs row) r) (df_value fo other (col_env fs row) l)"
      by (rule compare_mirror [OF assms(3,4) mirror(3) assms(2) mirror(4)])
    then show ?thesis
      using comparison_value [OF assms(2)] compare_value [OF mirror(2,1) compare_op_known [OF mirror(4)] dts] mirror(5)
      by simp
  qed
qed

lemma classify_meaning:
  assumes "mirrored fo" and "swap_ok swap"
    and dts: "fields_typed fs dts"
  shows "classify swap fs e = Some p \<Longrightarrow> truth (df_value fo other (col_env fs row) e) = eval fo dts row p"
proof (induction e arbitrary: p)
  case (BinaryExpr l op r)
  show ?case
  proof (cases "compare_op op")
    case None
    then consider "op = OpAnd" | "op = OpOr"
      using BinaryExpr.prems by (cases op) (auto simp: compare_op_def)
    then show ?thesis
      by cases (use BinaryExpr in \<open>auto simp: bind_eq_Some_conv\<close>)
  next
    case (Some c)
    then have "classify_compare swap fs l op r = Some p"
      using BinaryExpr.prems by (cases op) (auto simp: compare_op_def)
    from classify_compare_sound [OF this Some assms(1,2) dts] show ?thesis by simp
  qed
next
  case (DfBetween e n lo hi)
  then obtain c l h where c: "column_ref fs e = Some c" "literal lo = Some l" "literal hi = Some h" "p = Between c n l h"
    by (auto simp: bind_eq_Some_conv)
  have "known_op CompareGtEq" "known_op CompareLtEq" by (simp_all add: known_op_def)
  with compare_value [OF c(1,2) _ dts] compare_value [OF c(1,3) _ dts] show ?case
    by (simp add: c(4) Let_def)
next
  case (DfInList e es n)
  then obtain c ls where c: "column_ref fs e = Some c" "omap literal es = Some ls" "p = InList c n ls"
    by (auto simp: bind_eq_Some_conv)
  from in_list_value [OF c(1,2) dts] column_ref_value [OF c(1) dts] show ?case
    by (auto simp: c(3) Let_def eval_in_def)
next
  case (DfIsNull e)
  then obtain c where "column_ref fs e = Some c" "p = IsNull c False" by auto
  with column_ref_value [OF this(1) dts] show ?case by (simp add: negate_if_def)
next
  case (DfIsNotNull e)
  then obtain c where "column_ref fs e = Some c" "p = IsNull c True" by auto
  with column_ref_value [OF this(1) dts] show ?case by (simp add: negate_if_def)
qed auto

section \<open>What is classified can be sent\<close>

text \<open>JSON has no infinite numbers: a literal that is one crosses as \<open>null\<close>.\<close>

definition finite_scalar :: "ScalarValue \<Rightarrow> bool" where
  "finite_scalar s =
     (case s of
        Float32S (Some f) \<Rightarrow> f32_mag f < f32_inf_mag
      | Float64S (Some f) \<Rightarrow> f64_mag f < f64_inf_mag
      | _ \<Rightarrow> True)"

fun finite_literals :: "DfExpr \<Rightarrow> bool" where
  "finite_literals (BinaryExpr l op r) \<longleftrightarrow> finite_literals l \<and> finite_literals r"
| "finite_literals (DfIsNull e) \<longleftrightarrow> finite_literals e"
| "finite_literals (DfIsNotNull e) \<longleftrightarrow> finite_literals e"
| "finite_literals (DfNot e) \<longleftrightarrow> finite_literals e"
| "finite_literals (DfBetween e n lo hi) \<longleftrightarrow> finite_literals e \<and> finite_literals lo \<and> finite_literals hi"
| "finite_literals (DfInList e es n) \<longleftrightarrow> finite_literals e \<and> list_all finite_literals es"
| "finite_literals (DfColumn name) \<longleftrightarrow> True"
| "finite_literals (DfLiteral s) \<longleftrightarrow> finite_scalar s"
| "finite_literals (DfOther f es) \<longleftrightarrow> list_all finite_literals es"

lemma scalar_to_literal_wire_ok:
  "scalar_to_literal s = Some l \<Longrightarrow> finite_scalar s \<Longrightarrow> wire_ok_literal l"
  by (cases s)
    (auto simp: scalar_to_literal_def push_literal_def timestamp_literal_def finite_scalar_def
      wire_ok_literal_def wf_literal_def value_fits_def known_unit_def)

lemma literal_wire_ok: "literal e = Some l \<Longrightarrow> finite_literals e \<Longrightarrow> wire_ok_literal l"
  by (cases e) (simp_all add: literal_def scalar_to_literal_wire_ok)

lemma literals_wire_ok: "omap literal es = Some ls \<Longrightarrow> list_all finite_literals es \<Longrightarrow> list_all wire_ok_literal ls"
  by (induction es arbitrary: ls) (auto simp: bind_eq_Some_conv literal_wire_ok)

lemma column_ref_wire_ok: "column_ref fs e = Some c \<Longrightarrow> length fs < 2 ^ 63 \<Longrightarrow> wire_ok_column c"
  by (cases e) (auto simp: column_ref_def wire_ok_column_def dest!: index_of_Some)

lemma classify_wire_ok:
  assumes "length fs < 2 ^ 63"
  shows "classify swap fs e = Some p \<Longrightarrow> finite_literals e \<Longrightarrow> wire_ok p"
proof (induction e arbitrary: p)
  case (BinaryExpr l op r)
  show ?case
  proof (cases "compare_op op")
    case None
    with BinaryExpr show ?thesis
      by (cases op) (auto simp: compare_op_def bind_eq_Some_conv)
  next
    case (Some c)
    then have "classify_compare swap fs l op r = Some p"
      using BinaryExpr.prems by (cases op) (auto simp: compare_op_def)
    with BinaryExpr.prems show ?thesis
      by (auto simp: classify_compare_def bind_eq_Some_conv compare_op_known column_ref_wire_ok [OF _ assms] literal_wire_ok
          split: option.splits)
  qed
qed (auto simp: bind_eq_Some_conv column_ref_wire_ok [OF _ assms] literal_wire_ok literals_wire_ok)

end
