(* ===== verification/Engine_Table.thy ===== *)
theory Engine_Table
  imports Engine_Classify Engine_Insert
begin

text \<open>
  The engine's table over a handle, \<open>rust/datafusion-c-abi/src/table.rs\<close>: which filters it takes,
  the scan it plans, the call of \<open>go_table_scan\<close> when the plan runs, the check of the schema
  that comes back, and the bridge that feeds an INSERT's rows to \<open>go_table_insert\<close>.
\<close>

section \<open>Planning a scan\<close>

record GoTableProvider =
  gt_handle :: nat
  gt_schema :: "Field list"
  gt_supports_pushdown :: bool
  gt_supports_insert :: bool

text \<open>
  What a table answers the planner for each filter. The planner hands the scan the filters that
  are not unsupported, and keeps above it a filter of those that are not exact.
\<close>

datatype FilterPushDown = PushUnsupported | PushInexact | PushExact

definition supports_filters_pushdown ::
  "(Operator \<Rightarrow> Operator option) \<Rightarrow> GoTableProvider \<Rightarrow> DfExpr list \<Rightarrow> FilterPushDown list" where
  "supports_filters_pushdown swap t filters =
     (if \<not> gt_supports_pushdown t then replicate (length filters) PushUnsupported
      else map (\<lambda>e. if classify swap (gt_schema t) e \<noteq> None then PushInexact else PushUnsupported) filters)"

definition planner_pushes :: "FilterPushDown list \<Rightarrow> DfExpr list \<Rightarrow> DfExpr list" where
  "planner_pushes answers filters = map snd (filter (\<lambda>(a, e). a \<noteq> PushUnsupported) (zip answers filters))"

definition planner_keeps :: "FilterPushDown list \<Rightarrow> DfExpr list \<Rightarrow> DfExpr list" where
  "planner_keeps answers filters = map snd (filter (\<lambda>(a, e). a \<noteq> PushExact) (zip answers filters))"

record PushdownArgs =
  pa_filters_json :: "json option"
  pa_limit :: i64

record GoTableExec =
  ge_handle :: nat
  ge_projection :: "nat list option"
  ge_pushdown :: "PushdownArgs option"
  ge_projected_schema :: "Field list"

text \<open>\<open>Schema::project\<close>: \<open>None\<close> for an index out of range, at which \<open>GoTableExec::new\<close> panics.\<close>

definition project_fields :: "Field list \<Rightarrow> nat list \<Rightarrow> Field list option" where
  "project_fields fs is = (if list_all (\<lambda>i. i < length fs) is then Some (map ((!) fs) is) else None)"

definition GoTableExec_new ::
  "nat \<Rightarrow> Field list \<Rightarrow> nat list option \<Rightarrow> PushdownArgs option \<Rightarrow> GoTableExec option" where
  "GoTableExec_new handle table_schema projection pushdown =
     map_option (\<lambda>fs. \<lparr>ge_handle = handle, ge_projection = projection, ge_pushdown = pushdown,
         ge_projected_schema = fs\<rparr>)
       (case projection of None \<Rightarrow> Some table_schema | Some is \<Rightarrow> project_fields table_schema is)"

text \<open>\<open>scan\<close>; a limit of \<open>usize\<close> is cast to \<open>i64\<close>, the same 64 bits.\<close>

definition plan_scan ::
  "(Operator \<Rightarrow> Operator option) \<Rightarrow> (float32 \<Rightarrow> string) \<Rightarrow> (float64 \<Rightarrow> string) \<Rightarrow> GoTableProvider \<Rightarrow>
   nat list option \<Rightarrow> DfExpr list \<Rightarrow> u64 option \<Rightarrow> GoTableExec option" where
  "plan_scan swap fmt32 fmt64 t projection filters limit =
     GoTableExec_new (gt_handle t) (gt_schema t) projection
       (if gt_supports_pushdown t then
          Some \<lparr>pa_filters_json = filters_to_json swap fmt32 fmt64 filters (gt_schema t),
                pa_limit = (case limit of None \<Rightarrow> - 1 | Some l \<Rightarrow> l)\<rparr>
        else None)"

section \<open>Running a scan\<close>

record ScanRequest =
  sq_handle :: nat
  sq_pushdown :: bool
  sq_projection :: "i32 list option"
  sq_filters_json :: "json option"
  sq_limit :: i64
  sq_expected_schema :: "Field list"

datatype schema_mismatch = ColumnCount nat nat | ColumnName nat string string | ColumnType nat dtype dtype

fun first_mismatch :: "nat \<Rightarrow> Field list \<Rightarrow> Field list \<Rightarrow> schema_mismatch option" where
  "first_mismatch i (want # ws) (got # gs) =
     (if field_name want \<noteq> field_name got then Some (ColumnName i (field_name want) (field_name got))
      else if field_type want \<noteq> field_type got then Some (ColumnType i (field_type want) (field_type got))
      else first_mismatch (Suc i) ws gs)"
| "first_mismatch i _ _ = None"

definition validate_projected_schema :: "Field list \<Rightarrow> Field list \<Rightarrow> schema_mismatch option" where
  "validate_projected_schema expected actual =
     (if length actual \<noteq> length expected then Some (ColumnCount (length expected) (length actual))
      else first_mismatch 0 expected actual)"

datatype exec_err =
    ScanFailed callback_err
  | ImportingStream string
  | ProjectionContract schema_mismatch
  | StreamFailed string
  | ProjectingBatch
  | NoSuchPartition nat

text \<open>\<open>import_err\<close> is the outcome of importing the exported stream. A NULL projection has length -1.\<close>

definition open_go_scan :: "handles \<Rightarrow> ScanRequest \<Rightarrow> string option \<Rightarrow> exec_err + RecordReader" where
  "open_go_scan h request import_err =
     (let (projection, len) =
        (case sq_projection request of Some is \<Rightarrow> (is, int (length is)) | None \<Rightarrow> ([], - 1))
      in case go_table_scan h (sq_handle request) len projection (map_option Some (sq_filters_json request))
                (sq_limit request) of
           Inl e \<Rightarrow> Inl (ScanFailed e)
         | Inr reader \<Rightarrow>
             (case import_err of
                Some e \<Rightarrow> Inl (ImportingStream e)
              | None \<Rightarrow>
                  if sq_pushdown request then
                    (case validate_projected_schema (sq_expected_schema request) (rd_Schema reader) of
                       Some m \<Rightarrow> Inl (ProjectionContract m)
                     | None \<Rightarrow> Inr reader)
                  else Inr reader))"

text \<open>\<open>RecordBatch::project\<close>, of the batches of a table without pushdown.\<close>

definition project_legacy :: "nat list \<Rightarrow> Batch \<Rightarrow> Batch option" where
  "project_legacy is b =
     (if list_all (\<lambda>i. i < length (b_columns b)) is
      then map_option (\<lambda>fs. project_batch fs (map int is) b) (project_fields (b_fields b) is) else None)"

definition request_of :: "GoTableExec \<Rightarrow> ScanRequest" where
  "request_of x =
     \<lparr>sq_handle = ge_handle x, sq_pushdown = (ge_pushdown x \<noteq> None),
      sq_projection = (if ge_pushdown x \<noteq> None then map_option (map of_nat) (ge_projection x) else None),
      sq_filters_json = Option.bind (ge_pushdown x) pa_filters_json,
      sq_limit = (case ge_pushdown x of None \<Rightarrow> - 1 | Some p \<Rightarrow> pa_limit p),
      sq_expected_schema = ge_projected_schema x\<rparr>"

text \<open>
  The stream read to its end: the batches the reader delivers, then its error if it has one. Each
  call of \<open>Next\<close> takes one of the pending batches, so one more call than there are reaches the end.
\<close>

definition read_stream :: "RecordReader \<Rightarrow> Batch list \<times> RecordReader" where
  "read_stream reader = readers.drain (Suc (length (rd_pending reader))) reader"

definition execute :: "handles \<Rightarrow> GoTableExec \<Rightarrow> nat \<Rightarrow> string option \<Rightarrow> exec_err + Batch list" where
  "execute h x part import_err =
     (if part \<noteq> 0 then Inl (NoSuchPartition part)
      else
        (let legacy_projection = (if ge_pushdown x = None then ge_projection x else None) in
         sbind (open_go_scan h (request_of x) import_err) (\<lambda>reader.
           let (bs, reader') = read_stream reader in
           sbind (smap (\<lambda>b. case legacy_projection of
                    None \<Rightarrow> Inr b
                  | Some is \<Rightarrow> (case project_legacy is b of None \<Rightarrow> Inl ProjectingBatch | Some b' \<Rightarrow> Inr b')) bs)
             (\<lambda>out. case rd_Err reader' of Some e \<Rightarrow> Inl (StreamFailed e) | None \<Rightarrow> Inr out))))"

section \<open>Inserting\<close>

datatype DfInsertOp = DfAppend | DfOverwrite | DfReplace

definition insert_op_to_i32 :: "DfInsertOp \<Rightarrow> i32" where
  "insert_op_to_i32 op = (case op of DfAppend \<Rightarrow> 0 | DfOverwrite \<Rightarrow> 1 | DfReplace \<Rightarrow> 2)"

text \<open>
  The input of the statement: its batches and how it ends. The pump task forwards batches and an
  error through the channel; a panic of the input closes the channel like a normal end.
\<close>

datatype input_end = EndOfInput | InputError string | InputPanic string

record insert_input =
  in_batches :: "Batch list"
  in_end :: input_end

definition channel_reader :: "Field list \<Rightarrow> insert_input \<Rightarrow> RecordReader" where
  "channel_reader schema inp =
     LibReader schema (in_batches inp) None (case in_end inp of InputError e \<Rightarrow> Some e | _ \<Rightarrow> None) 1"

text \<open>
  The pump is joined on every path. It meets the input's panic when Go has read every batch, and
  it may when Go stopped before: \<open>ahead\<close> says whether it was that far when the receiver was dropped.
\<close>

definition pump_panic :: "insert_input \<Rightarrow> RecordReader option \<Rightarrow> bool \<Rightarrow> string option" where
  "pump_panic inp left ahead =
     (case in_end inp of
        InputPanic m \<Rightarrow> if ahead \<or> (case left of None \<Rightarrow> False | Some r \<Rightarrow> rd_left r = 0) then Some m else None
      | _ \<Rightarrow> None)"

datatype write_err = InsertFailed callback_err | PumpFailed string | InsertUnsupported | SchemaNotEquivalent

text \<open>
  What \<open>ImportCRecordReader\<close> makes of the stream over the channel: an error, something that is no
  record reader, or the reader.
\<close>

datatype stream_import = ImportFails string | NotAReader | Imported

definition imported_stream :: "stream_import \<Rightarrow> RecordReader \<Rightarrow> string + RecordReader option" where
  "imported_stream im reader =
     (case im of ImportFails m \<Rightarrow> Inl m | NotAReader \<Rightarrow> Inr None | Imported \<Rightarrow> Inr (Some reader))"

definition write_all ::
  "handles \<Rightarrow> GoTableProvider \<Rightarrow> DfInsertOp \<Rightarrow> insert_input \<Rightarrow> stream_import \<Rightarrow> bool \<Rightarrow> write_err + u64" where
  "write_all h t op inp im ahead =
     (case go_table_insert h (gt_handle t) (imported_stream im (channel_reader (gt_schema t) inp)) (insert_op_to_i32 op) of
        (Inl e, left) \<Rightarrow> Inl (InsertFailed e)
      | (Inr rows, left) \<Rightarrow>
          (case pump_panic inp left ahead of
             None \<Rightarrow> Inr rows
           | Some m \<Rightarrow> Inl (PumpFailed m)))"

text \<open>\<open>insert_into\<close>: \<open>equivalent\<close> compares the input's schema with the registered one.\<close>

definition insert_into ::
  "(Field list \<Rightarrow> Field list \<Rightarrow> bool) \<Rightarrow> handles \<Rightarrow> GoTableProvider \<Rightarrow> Field list \<Rightarrow> DfInsertOp \<Rightarrow> insert_input \<Rightarrow>
   stream_import \<Rightarrow> bool \<Rightarrow> write_err + u64" where
  "insert_into equivalent h t input_schema op inp im ahead =
     (if \<not> gt_supports_insert t then Inl InsertUnsupported
      else if \<not> equivalent (gt_schema t) input_schema then Inl SchemaNotEquivalent
      else write_all h t op inp im ahead)"

text \<open>An insert that Go reported a count for was given the reader.\<close>

lemma insert_imported:
  assumes "go_table_insert h n (imported_stream im reader) v = (Inr count, left)"
  shows "im = Imported"
  using assms by (cases im) (auto simp: go_table_insert_def imported_stream_def split: call.splits sum.splits)

section \<open>Facts\<close>

lemma planner_keeps_all [simp]:
  "planner_keeps (supports_filters_pushdown swap t filters) filters = filters"
proof -
  have "list_all (\<lambda>a. a \<noteq> PushExact) (supports_filters_pushdown swap t filters)"
    and "length (supports_filters_pushdown swap t filters) = length filters"
    by (auto simp: supports_filters_pushdown_def list_all_iff)
  moreover have "map snd (filter (\<lambda>(a, e). a \<noteq> PushExact) (zip as es)) = es"
    if "list_all (\<lambda>a. a \<noteq> PushExact) as" "length as = length es" for as and es :: "DfExpr list"
    using that(2,1) by (induction as es rule: list_induct2) auto
  ultimately show ?thesis by (simp add: planner_keeps_def)
qed

lemma planner_pushes_subset: "set (planner_pushes answers filters) \<subseteq> set filters"
  by (auto simp: planner_pushes_def dest: set_zip_rightD)

lemma read_stream_all: "rd_ok r \<Longrightarrow> fst (read_stream r) = rd_pending r"
  using read_all [of r "Suc (length (rd_pending r))"] by (simp add: read_stream_def)

text \<open>A table without pushdown is projected batch by batch.\<close>

lemma execute_batches:
  assumes "execute h x 0 import_err = Inr out"
  shows "\<exists>reader. open_go_scan h (request_of x) import_err = Inr reader \<and>
    (case (if ge_pushdown x = None then ge_projection x else None) of
       None \<Rightarrow> out = fst (read_stream reader)
     | Some is \<Rightarrow> list_all2 (\<lambda>b b'. project_legacy is b = Some b') (fst (read_stream reader)) out)"
proof -
  let ?legacy = "if ge_pushdown x = None then ge_projection x else None"
  let ?each = "\<lambda>b. case ?legacy of None \<Rightarrow> Inr b
      | Some is \<Rightarrow> (case project_legacy is b of None \<Rightarrow> Inl ProjectingBatch | Some b' \<Rightarrow> Inr b')"
  obtain reader where reader: "open_go_scan h (request_of x) import_err = Inr reader"
    "smap ?each (fst (read_stream reader)) = Inr out"
    using assms by (auto simp: execute_def Let_def sbind_eq_Inr case_prod_beta split: option.splits)
  have each: "list_all2 (\<lambda>b b'. ?each b = Inr b') (fst (read_stream reader)) out"
    using reader(2) by (simp only: smap_Inr_iff)
  show ?thesis
  proof (intro exI [of _ reader] conjI reader(1), cases ?legacy)
    case None
    then show "case ?legacy of None \<Rightarrow> out = fst (read_stream reader)
        | Some is \<Rightarrow> list_all2 (\<lambda>b b'. project_legacy is b = Some b') (fst (read_stream reader)) out"
      using each unfolding None by (simp add: list.rel_eq)
  next
    case (Some js)
    then show "case ?legacy of None \<Rightarrow> out = fst (read_stream reader)
        | Some is \<Rightarrow> list_all2 (\<lambda>b b'. project_legacy is b = Some b') (fst (read_stream reader)) out"
      using each unfolding Some by (auto elim!: list_all2_mono split: option.splits)
  qed
qed

lemma insert_op_roundtrip:
  "insertOpFromC (insert_op_to_i32 op) =
     Inr (case op of DfAppend \<Rightarrow> InsertAppend | DfOverwrite \<Rightarrow> InsertOverwrite | DfReplace \<Rightarrow> InsertReplace)"
  by (cases op) (simp_all add: insertOpFromC_def insert_op_to_i32_def)

lemma first_mismatch_None:
  "length ws = length gs \<Longrightarrow> first_mismatch i ws gs = None \<longleftrightarrow>
   map field_name ws = map field_name gs \<and> map field_type ws = map field_type gs"
  by (induction i ws gs rule: first_mismatch.induct) auto

lemma validate_None:
  "validate_projected_schema expected actual = None \<longleftrightarrow>
   map field_name actual = map field_name expected \<and> map field_type actual = map field_type expected"
proof (cases "length actual = length expected")
  case True
  then show ?thesis using first_mismatch_None [of expected actual 0] by (auto simp: validate_projected_schema_def)
next
  case False
  then show ?thesis by (auto simp: validate_projected_schema_def dest: map_eq_imp_length_eq)
qed

end
