(* ===== verification/Engine_Query.thy ===== *)
theory Engine_Query
  imports Engine_Table
begin

text \<open>
  SQL over a Parquet table, from the planner's filters to the rows of the answer: classification,
  the wire, the callback, the pruned and projected read, and the filters applied again on what
  comes back.
\<close>

section \<open>Projected rows\<close>

text \<open>The columns of a row at the given positions.\<close>

definition project_row :: "nat list \<Rightarrow> row \<Rightarrow> row" where
  "project_row is r = (\<lambda>j. if 0 \<le> j \<and> j < int (length is) then r (int (is ! nat j)) else None)"

text \<open>The positions a projection stands for.\<close>

definition projected :: "Field list \<Rightarrow> nat list option \<Rightarrow> nat list" where
  "projected fs projection = (case projection of None \<Rightarrow> [0..<length fs] | Some is \<Rightarrow> is)"

fun df_columns :: "DfExpr \<Rightarrow> string list" where
  "df_columns (BinaryExpr l op r) = df_columns l @ df_columns r"
| "df_columns (DfIsNull e) = df_columns e"
| "df_columns (DfIsNotNull e) = df_columns e"
| "df_columns (DfNot e) = df_columns e"
| "df_columns (DfBetween e n lo hi) = df_columns e @ df_columns lo @ df_columns hi"
| "df_columns (DfInList e es n) = df_columns e @ concat (map df_columns es)"
| "df_columns (DfColumn name) = [name]"
| "df_columns (DfLiteral s) = []"
| "df_columns (DfOther f es) = concat (map df_columns es)"

lemma df_value_cong:
  "(\<And>c. c \<in> set (df_columns e) \<Longrightarrow> env c = env' c) \<Longrightarrow> df_value fo other env e = df_value fo other env' e"
proof (induction e)
  case (DfInList e es n)
  then have "map (df_value fo other env) es = map (df_value fo other env') es" by (auto intro!: map_cong)
  moreover have "df_value fo other env e = df_value fo other env' e" using DfInList by simp
  ultimately show ?case by (simp only: df_value.simps)
next
  case (DfOther f es)
  then have "map (df_value fo other env) es = map (df_value fo other env') es" by (auto intro!: map_cong)
  then show ?case by (simp only: df_value.simps)
qed simp_all

lemma index_of_distinct:
  "distinct (map field_name fs) \<Longrightarrow> i < length fs \<Longrightarrow> index_of fs (field_name (fs ! i)) = Some i"
proof (induction fs arbitrary: i)
  case (Cons f fs)
  then show ?case by (cases i) auto
qed simp

lemma index_of_found: "name \<in> field_name ` set fs \<Longrightarrow> \<exists>i. index_of fs name = Some i"
  by (induction fs) auto

lemma col_env_projected:
  assumes names: "distinct (map field_name fs)" and "list_all (\<lambda>i. i < length fs) is"
    and "name \<in> field_name ` set (map ((!) fs) is)"
  shows "col_env (map ((!) fs) is) (project_row is r) name = col_env fs r name"
proof -
  obtain j where j: "index_of (map ((!) fs) is) name = Some j" using index_of_found [OF assms(3)] by blast
  from index_of_Some [OF this] have at: "j < length is" "field_name (fs ! (is ! j)) = name" by auto
  moreover have "is ! j < length fs" using assms(2) at(1) by (simp add: list_all_length)
  ultimately have "index_of fs name = Some (is ! j)" using index_of_distinct [OF names, of "is ! j"] by simp
  then show ?thesis using j at(1) by (simp add: col_env_def project_row_def)
qed

lemma where_true_projected:
  assumes "distinct (map field_name fs)" and "list_all (\<lambda>i. i < length fs) is"
    and "\<forall>e \<in> set filters. set (df_columns e) \<subseteq> field_name ` set (map ((!) fs) is)"
  shows "where_true fo other filters (map ((!) fs) is) (project_row is r) \<longleftrightarrow> where_true fo other filters fs r"
proof -
  have "df_value fo other (col_env (map ((!) fs) is) (project_row is r)) e = df_value fo other (col_env fs r) e"
    if "e \<in> set filters" for e
    using that assms(3) col_env_projected [OF assms(1,2)] by (intro df_value_cong) blast
  then show ?thesis by (auto simp: where_true_def list_all_iff)
qed

lemma batch_rows_project:
  assumes "list_all (\<lambda>i. i < length (b_columns b)) is"
  shows "batch_rows (project_batch fs (map int is) b) = map (project_row is) (batch_rows b)"
  using assms
  by (auto simp: batch_rows_def project_batch_def project_row_def list_all_length fun_eq_iff nat_less_iff)

lemma concat_rows_project:
  assumes "\<forall>b \<in> set bs. list_all (\<lambda>i. i < length (b_columns b)) is"
  shows "concat (map batch_rows (map (project_batch fs (map int is)) bs)) = map (project_row is) (concat (map batch_rows bs))"
  using assms by (induction bs) (simp_all add: batch_rows_project)

section \<open>A scan through the engine\<close>

text \<open>A Go table that reads a Parquet file, with or without the optional pushdown interface.\<close>

definition parquet_behind :: "Schema \<Rightarrow> ('r, 'bf) open_result \<Rightarrow> table_provider \<Rightarrow> bool" where
  "parquet_behind sc opened p \<longleftrightarrow>
     tp_Scan p = provider_call (fst (Scan opened)) \<and>
     (tp_ScanWithOptions p = None \<or>
      tp_ScanWithOptions p = Some (\<lambda>opts. provider_call (fst (ScanWithOptions sc opened (Some opts)))))"

lemma provider_call_Inr:
  "provider_call res = Returns (Inr (Some r)) \<longleftrightarrow> res = Inr r"
  by (auto simp: provider_call_def split: sum.splits)

lemma satisfies_classified:
  assumes "mirrored fo" and "swap_ok swap" and "set pushed \<subseteq> set filters"
    and "where_true fo other filters (schema_fields sc) r"
  shows "satisfies fo (schema_dts sc) (List.map_filter (classify swap (schema_fields sc)) pushed) r"
proof -
  have typed: "fields_typed (schema_fields sc) (schema_dts sc)"
    by (simp add: fields_typed_def schema_dts_def NumFields_def)
  show ?thesis
    using assms(3,4) classify_meaning [OF assms(1,2) typed, of _ _ other r]
    by (force simp: satisfies_def where_true_def list_all_iff List.map_filter_def)
qed

lemma filter_stronger:
  assumes "\<And>x. P x \<Longrightarrow> Q x" and "filter Q xs = filter Q ys"
  shows "filter P xs = filter P ys"
proof -
  have "filter P zs = filter P (filter Q zs)" for zs using assms(1) by (induction zs) auto
  then show ?thesis using assms(2) by metis
qed

text \<open>The document decodes to the filters that were classified; no document to no filters.\<close>

lemma decode_filters_to_json:
  assumes "length fs < 2 ^ 63" and "list_all finite_literals filters"
    and "\<And>x. f32_mag x < f32_inf_mag \<Longrightarrow> parse_float32 (p32 x) = Some x"
    and "\<And>x. f64_mag x < f64_inf_mag \<Longrightarrow> parse_float64 (p64 x) = Some x"
  shows "(case map_option Some (filters_to_json swap p32 p64 filters fs) of None \<Rightarrow> Inr []
      | Some doc \<Rightarrow> decodeFilters doc) = Inr (List.map_filter (classify swap fs) filters)"
proof -
  let ?nodes = "List.map_filter (classify swap fs) filters"
  have "list_all wire_ok ?nodes"
    using assms(2) classify_wire_ok [OF assms(1)] by (auto simp: list_all_iff List.map_filter_def)
  from decode_from_wire [OF this assms(3,4)] show ?thesis
    by (simp add: filters_to_json_def Let_def decodeFilters_def)
qed

lemma go_table_scan_options:
  assumes "h_live h n = Some (TableImpl p)" and "tp_ScanWithOptions p = Some scan"
    and "(case filters of None \<Rightarrow> Inr [] | Some doc \<Rightarrow> decodeFilters doc) = Inr es"
    and "go_table_scan h n len proj filters limit = Inr r"
  shows "scan \<lparr>so_projection = scan_projection len proj, so_filters = es, so_limit = limit\<rparr> = Returns (Inr (Some r))"
  using assms
  by (auto simp: go_table_scan_def handle_value_def as_table_def trapCallbackPanic_def call_bind_def
      split: call.splits sum.splits option.splits)

lemma go_table_scan_plain:
  assumes "h_live h n = Some (TableImpl p)" and "tp_ScanWithOptions p = None"
    and "go_table_scan h n len proj filters limit = Inr r"
  shows "tp_Scan p = Returns (Inr (Some r))"
  using assms
  by (auto simp: go_table_scan_def handle_value_def as_table_def trapCallbackPanic_def call_bind_def
      split: call.splits sum.splits option.splits)

lemma scan_projection_i32:
  assumes "list_all (\<lambda>i. i < 2 ^ 31) is"
  shows "scan_projection (int (length is)) (map of_nat is) = Some (map int is)"
proof -
  have "sint (of_nat i :: i32) = int i" if "i < 2 ^ 31" for i
    using that by (simp add: signed_of_nat signed_take_bit_int_eq_self)
  with assms show ?thesis by (simp add: scan_projection_def list_all_iff)
qed

text \<open>What the table is registered as: its schema, and the capability its Go value has.\<close>

definition registered_as :: "GoTableProvider \<Rightarrow> nat \<Rightarrow> Schema \<Rightarrow> table_provider \<Rightarrow> bool" where
  "registered_as tb n sc p \<longleftrightarrow>
     gt_handle tb = n \<and> gt_schema tb = schema_fields sc \<and>
     gt_supports_pushdown tb = (tp_ScanWithOptions p \<noteq> None)"

lemma plan_scan_pushdown:
  assumes "plan_scan swap p32 p64 tb projection pushed None = Some x"
    and "gt_supports_pushdown tb"
  shows "request_of x = \<lparr>sq_handle = gt_handle tb, sq_pushdown = True, sq_projection = map_option (map of_nat) projection,
      sq_filters_json = filters_to_json swap p32 p64 pushed (gt_schema tb), sq_limit = - 1,
      sq_expected_schema = map ((!) (gt_schema tb)) (projected (gt_schema tb) projection)\<rparr>"
    and "ge_pushdown x \<noteq> None" and "list_all (\<lambda>i. i < length (gt_schema tb)) (projected (gt_schema tb) projection)"
  using assms
  by (auto simp: plan_scan_def GoTableExec_new_def request_of_def project_fields_def projected_def map_nth list_all_iff
      split: option.splits if_splits)

lemma plan_scan_plain:
  assumes "plan_scan swap p32 p64 tb projection pushed None = Some x"
    and "\<not> gt_supports_pushdown tb"
  shows "request_of x = \<lparr>sq_handle = gt_handle tb, sq_pushdown = False, sq_projection = None,
      sq_filters_json = None, sq_limit = - 1,
      sq_expected_schema = map ((!) (gt_schema tb)) (projected (gt_schema tb) projection)\<rparr>"
    and "ge_pushdown x = None" and "ge_projection x = projection"
    and "list_all (\<lambda>i. i < length (gt_schema tb)) (projected (gt_schema tb) projection)"
  using assms
  by (auto simp: plan_scan_def GoTableExec_new_def request_of_def project_fields_def projected_def map_nth list_all_iff
      split: option.splits if_splits)

lemma open_go_scan_Inr:
  assumes "open_go_scan h rq import_err = Inr reader"
  shows "go_table_scan h (sq_handle rq)
      (case sq_projection rq of None \<Rightarrow> - 1 | Some is \<Rightarrow> int (length is))
      (case sq_projection rq of None \<Rightarrow> [] | Some is \<Rightarrow> is)
      (map_option Some (sq_filters_json rq)) (sq_limit rq) = Inr reader"
  using assms by (auto simp: open_go_scan_def Let_def split: option.splits sum.splits if_splits)

section \<open>The rows of an executed scan\<close>

lemma pushdown_rows:
  assumes live: "h_live h n = Some (TableImpl p)" and behind: "parquet_behind sc opened p"
    and holds: "holds_rows sc opened t" and reg: "registered_as tb n sc p" and push: "tp_ScanWithOptions p \<noteq> None"
    and small: "length (schema_fields sc) < 2 ^ 31"
    and wire: "list_all finite_literals pushed"
      "\<And>x. f32_mag x < f32_inf_mag \<Longrightarrow> parse_float32 (p32 x) = Some x"
      "\<And>x. f64_mag x < f64_inf_mag \<Longrightarrow> parse_float64 (p64 x) = Some x"
    and plan: "plan_scan swap p32 p64 tb projection pushed None = Some x"
    and run: "execute h x 0 import_err = Inr out"
  shows "\<exists>bs. concat (map batch_rows out) =
      map (project_row (projected (schema_fields sc) projection)) (concat (map batch_rows bs)) \<and>
    filter (satisfies fo (schema_dts sc) (List.map_filter (classify swap (schema_fields sc)) pushed)) (concat (map batch_rows bs)) =
    filter (satisfies fo (schema_dts sc) (List.map_filter (classify swap (schema_fields sc)) pushed)) t"
proof -
  let ?fs = "schema_fields sc" let ?is = "projected ?fs projection"
  let ?es = "List.map_filter (classify swap ?fs) pushed"
  let ?ps = "case projection of None \<Rightarrow> None | Some is \<Rightarrow> Some (map int is)"
  have tb: "gt_handle tb = n" "gt_schema tb = ?fs" "gt_supports_pushdown tb"
    using reg push by (simp_all add: registered_as_def)
  note pl = plan_scan_pushdown [OF plan tb(3), unfolded tb(1,2)]
  obtain reader where reader: "open_go_scan h (request_of x) import_err = Inr reader" "out = fst (read_stream reader)"
    using execute_batches [OF run] pl(2) by auto
  have small_is: "list_all (\<lambda>i. i < 2 ^ 31) is" if "projection = Some is" for "is"
    using pl(3) small that by (auto simp: projected_def list_all_iff)
  have dec: "(case map_option Some (filters_to_json swap p32 p64 pushed ?fs) of None \<Rightarrow> Inr []
      | Some doc \<Rightarrow> decodeFilters doc) = Inr ?es"
    by (rule decode_filters_to_json [OF _ wire]) (use small in simp_all)
  have ps: "scan_projection (case map_option (map of_nat) projection of None \<Rightarrow> - 1 | Some is \<Rightarrow> int (length (is :: i32 list)))
      (case map_option (map of_nat) projection of None \<Rightarrow> [] | Some is \<Rightarrow> is) = ?ps"
    using scan_projection_i32 small_is by (cases projection) (auto simp: scan_projection_def)
  have call: "tp_ScanWithOptions p = Some (\<lambda>opts. provider_call (fst (ScanWithOptions sc opened (Some opts))))"
    using behind push by (auto simp: parquet_behind_def)
  let ?opts = "\<lparr>so_projection = ?ps, so_filters = ?es, so_limit = - 1\<rparr>"
  have "provider_call (fst (ScanWithOptions sc opened (Some ?opts))) = Returns (Inr (Some reader))"
    using go_table_scan_options [OF live call dec open_go_scan_Inr [OF reader(1), unfolded pl(1) ScanRequest.select_convs]]
    by (simp only: ps)
  then obtain k where scan: "ScanWithOptions sc opened (Some ?opts) = (Inr reader, k)"
    by (cases "ScanWithOptions sc opened (Some ?opts)") (auto simp: provider_call_Inr)
  obtain f rows full where f: "opened = Opened f" "file_promise f sc rows" "manifest_ok f sc" "read_promise f sc full"
    "full_promise f rows full" "\<And>rgs b. b \<in> set (full rgs) \<Longrightarrow> length (b_columns b) = length ?fs"
    "t = concat (map rows [0..<length (pf_rowGroups f)])"
    using holds unfolding holds_rows_def by blast
  have "sint (so_limit ?opts) < 0" by simp
  from ScanWithOptions_source [OF f(2-5) scan [unfolded f(1)] this, of fo] obtain bs where
    bs: "projected_to sc (wanted sc ?ps) bs reader" "bs = [] \<or> (\<exists>rgs. bs = full rgs)"
    "filter (satisfies fo (schema_dts sc) ?es) (concat (map batch_rows bs)) = filter (satisfies fo (schema_dts sc) ?es) t"
    unfolding f(7) by auto
  have "wanted sc ?ps = map int ?is" by (simp add: wanted_def projected_def split: option.splits)
  then have "out = map (project_batch (rd_Schema reader) (map int ?is)) bs"
    using bs(1) reader(2) read_stream_all by (simp add: projected_to_def)
  moreover have "\<forall>b \<in> set bs. list_all (\<lambda>i. i < length (b_columns b)) ?is"
    using bs(2) f(6) pl(3) by auto
  ultimately show ?thesis using concat_rows_project bs(3) by blast
qed

lemma plain_rows:
  assumes live: "h_live h n = Some (TableImpl p)" and behind: "parquet_behind sc opened p"
    and holds: "holds_rows sc opened t" and reg: "registered_as tb n sc p" and plain: "tp_ScanWithOptions p = None"
    and plan: "plan_scan swap p32 p64 tb projection pushed None = Some x"
    and run: "execute h x 0 import_err = Inr out"
  shows "concat (map batch_rows out) = map (project_row (projected (schema_fields sc) projection)) t"
proof -
  let ?fs = "schema_fields sc" let ?is = "projected ?fs projection"
  have tb: "gt_handle tb = n" "gt_schema tb = ?fs" "\<not> gt_supports_pushdown tb"
    using reg plain by (simp_all add: registered_as_def)
  note pl = plan_scan_plain [OF plan tb(3), unfolded tb(1,2)]
  obtain reader where reader: "open_go_scan h (request_of x) import_err = Inr reader"
    "case projection of None \<Rightarrow> out = fst (read_stream reader)
     | Some is \<Rightarrow> list_all2 (\<lambda>b b'. project_legacy is b = Some b') (fst (read_stream reader)) out"
    using execute_batches [OF run] pl(2,3) by auto
  have "tp_Scan p = Returns (Inr (Some reader))"
    using go_table_scan_plain [OF live plain] open_go_scan_Inr [OF reader(1), unfolded pl(1) ScanRequest.select_convs] .
  then have "provider_call (fst (Scan opened)) = Returns (Inr (Some reader))"
    using behind by (simp add: parquet_behind_def)
  then have scan: "fst (Scan opened) = Inr reader" by (simp add: provider_call_Inr)
  obtain f rows full where f: "opened = Opened f" "manifest_ok f sc" "read_promise f sc full"
    "full_promise f rows full" "\<And>rgs b. b \<in> set (full rgs) \<Longrightarrow> length (b_columns b) = length ?fs"
    "t = concat (map rows [0..<length (pf_rowGroups f)])"
    using holds unfolding holds_rows_def by blast
  have t: "t = concat (map batch_rows (full None))"
    using f(4,6) by (simp add: full_promise_def selected_def)
  have "getRecordReader f None None = Inr reader"
    using scan f(1) by (auto simp: Scan_def split: sum.splits)
  moreover have "read_fields f None = Some (map int [0..<length ?fs])"
    using f(2) by (simp add: read_fields_def manifest_ok_def NumFields_def)
  ultimately have r: "rd_ok reader" "rd_pending reader = map (project_batch (rd_Schema reader) (map int [0..<length ?fs])) (full None)"
    using getRecordReader_exact [OF f(3)] by blast+
  note stream = read_stream_all [OF r(1), unfolded r(2)]
  have rows: "map batch_rows (fst (read_stream reader)) = map batch_rows (full None)"
    using stream f(5) batch_rows_project_all by simp
  show ?thesis
  proof (cases projection)
    case None
    have "\<forall>b \<in> set (full None). list_all (\<lambda>i. i < length (b_columns b)) [0..<length ?fs]"
      using f(5) by (auto simp: list_all_iff)
    from concat_rows_project [OF this] show ?thesis
      using None reader(2) stream t by (simp add: projected_def)
  next
    case (Some js)
    then have "list_all2 (\<lambda>b b'. project_legacy js b = Some b') (fst (read_stream reader)) out" using reader(2) by simp
    then have "map batch_rows out = map (map (project_row js)) (map batch_rows (fst (read_stream reader)))"
      by induction (auto simp: project_legacy_def batch_rows_project split: if_splits)
    then show ?thesis unfolding rows using t Some by (simp add: projected_def map_concat)
  qed
qed

lemma query_rows:
  assumes live: "h_live h n = Some (TableImpl p)" and behind: "parquet_behind sc opened p"
    and holds: "holds_rows sc opened t" and reg: "registered_as tb n sc p"
    and names: "distinct (map field_name (schema_fields sc))" and small: "length (schema_fields sc) < 2 ^ 31"
    and sem: "mirrored fo" "swap_ok swap"
    and wire: "list_all finite_literals filters"
      "\<And>x. f32_mag x < f32_inf_mag \<Longrightarrow> parse_float32 (p32 x) = Some x"
      "\<And>x. f64_mag x < f64_inf_mag \<Longrightarrow> parse_float64 (p64 x) = Some x"
    and pushed: "set pushed \<subseteq> set filters"
    and plan: "plan_scan swap p32 p64 tb projection pushed None = Some x"
    and cols: "\<forall>e \<in> set filters. set (df_columns e) \<subseteq> field_name ` set (ge_projected_schema x)"
    and run: "execute h x 0 import_err = Inr out"
  shows "filter (where_true fo other filters (ge_projected_schema x)) (concat (map batch_rows out)) =
    map (project_row (projected (schema_fields sc) projection)) (filter (where_true fo other filters (schema_fields sc)) t)"
proof -
  let ?fs = "schema_fields sc" let ?is = "projected ?fs projection"
  have schema: "ge_projected_schema x = map ((!) ?fs) ?is" "list_all (\<lambda>i. i < length ?fs) ?is"
    using plan reg
    by (auto simp: plan_scan_def GoTableExec_new_def project_fields_def projected_def registered_as_def map_nth list_all_iff
        split: option.splits if_splits)
  have "\<exists>bs. concat (map batch_rows out) = map (project_row ?is) (concat (map batch_rows bs)) \<and>
      filter (where_true fo other filters ?fs) (concat (map batch_rows bs)) = filter (where_true fo other filters ?fs) t"
  proof (cases "tp_ScanWithOptions p")
    case None
    then have "concat (map batch_rows out) = map (project_row ?is) t"
      by (rule plain_rows [OF live behind holds reg _ plan run])
    moreover have "\<exists>bs. t = concat (map batch_rows bs)"
      using holds by (auto simp: holds_rows_def full_promise_def selected_def dest!: spec [of _ None]) metis
    ultimately show ?thesis by auto
  next
    case (Some scan)
    then have push: "tp_ScanWithOptions p \<noteq> None" by simp
    have fin: "list_all finite_literals pushed" using wire(1) pushed by (auto simp: list_all_iff)
    from pushdown_rows [OF live behind holds reg push small fin wire(2,3) plan run, of fo] obtain bs where
      bs: "concat (map batch_rows out) = map (project_row ?is) (concat (map batch_rows bs))"
      "filter (satisfies fo (schema_dts sc) (List.map_filter (classify swap ?fs) pushed)) (concat (map batch_rows bs)) =
       filter (satisfies fo (schema_dts sc) (List.map_filter (classify swap ?fs) pushed)) t"
      by blast
    have "filter (where_true fo other filters ?fs) (concat (map batch_rows bs)) = filter (where_true fo other filters ?fs) t"
      by (rule filter_stronger [OF _ bs(2)]) (rule satisfies_classified [OF sem pushed])
    with bs(1) show ?thesis by blast
  qed
  then show ?thesis
    using where_true_projected [OF names schema(2), of filters fo other] cols
    unfolding schema(1) by (auto simp: filter_map comp_def)
qed

section \<open>Queries\<close>

text \<open>C1: A query on a Parquet table through the engine is exact. For any filters of its WHERE clause, of
  which the engine pushes down those it can express, and for any projection that has their columns:
  the filters it keeps above the scan, applied to the batches the scan delivers, leave exactly the
  projected rows of the file that satisfy the whole WHERE clause, in order, whatever row groups
  were skipped. It holds for a provider with or without the pushdown interface, so the two are
  interchangeable. The query has no LIMIT, every float literal of the clause is finite (an infinite or
  NaN one is sent as null and decoded as zero), no cell of the file is a NaN, and the file's statistics
  bound a column on both sides where they bound it (else the reader can skip a matching row); the
  library otherwise keeps what it documents.\<close>

theorem engine_query_exact:
  assumes "h_live h n = Some (TableImpl p)" and "parquet_behind sc opened p" and "holds_rows sc opened t"
    and "registered_as tb n sc p"
    and "distinct (map field_name (schema_fields sc))" and "length (schema_fields sc) < 2 ^ 31"
    and "mirrored fo" and "swap_ok swap"
    and "list_all finite_literals filters"
    and "\<And>x. f32_mag x < f32_inf_mag \<Longrightarrow> parse_float32 (p32 x) = Some x"
    and "\<And>x. f64_mag x < f64_inf_mag \<Longrightarrow> parse_float64 (p64 x) = Some x"
    and "plan_scan swap p32 p64 tb projection
      (planner_pushes (supports_filters_pushdown swap tb filters) filters) None = Some x"
    and "\<forall>e \<in> set filters. set (df_columns e) \<subseteq> field_name ` set (ge_projected_schema x)"
    and "execute h x 0 import_err = Inr out"
  shows "filter (where_true fo other (planner_keeps (supports_filters_pushdown swap tb filters) filters)
      (ge_projected_schema x)) (concat (map batch_rows out)) =
    map (project_row (projected (schema_fields sc) projection))
      (filter (where_true fo other filters (schema_fields sc)) t)"
  unfolding planner_keeps_all
  by (rule query_rows [OF assms(1-11) planner_pushes_subset assms(12-14)])

section \<open>Examples\<close>

lemma smap_Inr [simp]: "smap Inr xs = Inr xs"
  by (induction xs) simp_all

lemma execute_pushed:
  assumes "open_go_scan h (request_of x) import_err = Inr r" and "ge_pushdown x \<noteq> None"
    and "fst (read_stream r) = bs" and "rd_Err (snd (read_stream r)) = None"
  shows "execute h x 0 import_err = Inr bs"
  using assms by (cases "ge_pushdown x") (simp_all add: execute_def case_prod_beta)

text \<open>\<open>5 < x\<close> on the sample file; its first row group is skipped.\<close>

definition demo_swap :: "Operator \<Rightarrow> Operator option" where
  "demo_swap op =
     (case op of
        OpEq \<Rightarrow> Some OpEq | OpNotEq \<Rightarrow> Some OpNotEq | OpLt \<Rightarrow> Some OpGt | OpLtEq \<Rightarrow> Some OpGtEq
      | OpGt \<Rightarrow> Some OpLt | OpGtEq \<Rightarrow> Some OpLtEq | _ \<Rightarrow> None)"

lemma demo_swap_ok: "swap_ok demo_swap"
proof -
  have "op_holds c' n = op_holds c (- n)"
    if "demo_swap op = Some op'" "compare_op op = Some c" "compare_op op' = Some c'" for op op' c c' n
    using that by (cases op) (auto simp: demo_swap_def compare_op_def op_holds_def)
  then show ?thesis unfolding swap_ok_def by blast
qed

definition demo_where :: DfExpr where
  "demo_where = BinaryExpr (DfLiteral (Int64S (Some 5))) OpLt (DfColumn (field_name int64_field))"

definition demo_provider :: GoTableProvider where
  "demo_provider = \<lparr>gt_handle = 1, gt_schema = schema_fields sample_schema, gt_supports_pushdown = True,
     gt_supports_insert = False\<rparr>"

lemma demo_classify: "classify demo_swap (schema_fields sample_schema) demo_where = Some demo_filter"
  by (simp add: demo_where_def sample_schema_def classify_compare_def column_ref_def literal_def scalar_to_literal_def
      demo_swap_def compare_op_def demo_filter_def col0_def int64_lit_def push_literal_def int64_field_def)

lemma demo_plan:
  "plan_scan demo_swap exact_fmt32 exact_fmt64 demo_provider (Some [0, 0])
     (planner_pushes (supports_filters_pushdown demo_swap demo_provider [demo_where]) [demo_where]) None =
   Some \<lparr>ge_handle = 1, ge_projection = Some [0, 0], ge_pushdown = Some
     \<lparr>pa_filters_json = Some (JArray (map (wire_expr exact_fmt32 exact_fmt64) [demo_filter])), pa_limit = - 1\<rparr>,
     ge_projected_schema = [int64_field, int64_field]\<rparr>"
  using demo_classify
  by (simp add: plan_scan_def GoTableExec_new_def planner_pushes_def supports_filters_pushdown_def demo_provider_def
      filters_to_json_def Let_def project_fields_def sample_schema_def List.map_filter_def)

definition demo_exec :: GoTableExec where
  "demo_exec = \<lparr>ge_handle = 1, ge_projection = Some [0, 0], ge_pushdown = Some
     \<lparr>pa_filters_json = Some (JArray (map (wire_expr exact_fmt32 exact_fmt64) [demo_filter])), pa_limit = - 1\<rparr>,
     ge_projected_schema = [int64_field, int64_field]\<rparr>"

lemma demo_execute:
  "execute demo_handles demo_exec 0 None =
     Inr [project_batch [int64_field, int64_field] [0, 0] (project_batch [int64_field] [0] (demo_batch 1))]"
proof -
  let ?r = "ProjectedReader (ClosingReader (LibReader [int64_field]
       [project_batch [int64_field] [0] (demo_batch 1)] None None 1) False 0) [int64_field, int64_field] [0, 0] None"
  have "open_go_scan demo_handles (request_of demo_exec) None = Inr ?r"
    using demo_call
    by (simp add: open_go_scan_def request_of_def demo_exec_def validate_projected_schema_def del: wire_expr.simps)
  moreover have "fst (read_stream ?r) = rd_pending ?r" "rd_Err (snd (read_stream ?r)) = None"
    by (simp_all add: read_stream_def close_once_def)
  ultimately show ?thesis by (simp add: execute_pushed demo_exec_def)
qed

theorem engine_query_exact_witness:
  "\<exists>x out. plan_scan demo_swap exact_fmt32 exact_fmt64 demo_provider (Some [0, 0])
      (planner_pushes (supports_filters_pushdown demo_swap demo_provider [demo_where]) [demo_where]) None = Some x \<and>
    execute demo_handles x 0 None = Inr out \<and>
    filter (where_true (\<lambda>_ _. None) (\<lambda>_ _. None) [demo_where] (ge_projected_schema x)) (concat (map batch_rows out)) =
      [project_row [0, 0] (row_of (Some (IntCell 7)))]"
proof -
  have h: "h_live demo_handles 1 = Some (TableImpl (parquet_table sample_schema (Opened demo_file)))"
    by (simp add: demo_handles_def)
  have behind: "parquet_behind sample_schema (Opened demo_file) (parquet_table sample_schema (Opened demo_file))"
    by (simp add: parquet_behind_def parquet_table_def)
  have width: "\<forall>rgs. \<forall>b \<in> set (demo_full rgs). length (b_columns b) = length (schema_fields sample_schema)"
    by (auto simp: demo_full_def demo_batch_def sample_schema_def)
  have holds: "holds_rows sample_schema (Opened demo_file) (concat (map demo_rows [0..<length (pf_rowGroups demo_file)]))"
    unfolding holds_rows_def using demo_promises width by blast
  have reg: "registered_as demo_provider 1 sample_schema (parquet_table sample_schema (Opened demo_file))"
    by (simp add: registered_as_def demo_provider_def parquet_table_def)
  have names: "distinct (map field_name (schema_fields sample_schema))" "length (schema_fields sample_schema) < 2 ^ 31"
    by (simp_all add: sample_schema_def)
  have sem: "mirrored (\<lambda>_ _. None)" by (simp add: mirrored_def)
  have fin: "list_all finite_literals [demo_where]" by (simp add: demo_where_def finite_scalar_def)
  have cols: "\<forall>e \<in> set [demo_where]. set (df_columns e) \<subseteq> field_name ` set (ge_projected_schema demo_exec)"
    by (simp add: demo_where_def demo_exec_def)
  have matching: "filter (where_true (\<lambda>_ _. None) (\<lambda>_ _. None) [demo_where] (schema_fields sample_schema))
      (concat (map demo_rows [0..<length (pf_rowGroups demo_file)])) = [row_of (Some (IntCell 7))]"
    by (simp add: demo_rows_def where_true_def demo_where_def df_compare_def scalar_value_def col_env_def sample_schema_def
        row_of_def cell_value_def int64_field_def sql_compare_def op_holds_def order_int_def truth_def)
  have at: "map (project_row (projected (schema_fields sample_schema) (Some [0, 0]))) [row_of (Some (IntCell 7))] =
      [project_row [0, 0] (row_of (Some (IntCell 7)))]" by (simp add: projected_def)
  show ?thesis
    using engine_query_exact [OF h behind holds reg names sem demo_swap_ok fin parse_exact_fmt32 parse_exact_fmt64
        demo_plan [folded demo_exec_def] cols demo_execute, of "\<lambda>_ _. None", unfolded planner_keeps_all matching at]
      demo_plan [folded demo_exec_def] demo_execute
    by blast
qed

end
