(* ===== verification/Engine_Statement.thy ===== *)
theory Engine_Statement
  imports Engine_Query
begin

text \<open>
  INSERT statements of the engine: the input, the channel that bridges it to Go, the provider's
  insert, and what later queries see. The statement's outcome is compared with the table's.
\<close>

section \<open>An INSERT reads all its input\<close>

lemma writeAll_lib:
  "writeAll st fw os bnd (LibReader fs bs cur e n) p count k = (Inr x, r', k') \<Longrightarrow> r' = LibReader fs [] None e n"
proof (induction bs arbitrary: cur p count k)
  case Nil
  then show ?case by (auto simp: writeAll.simps [of st fw os bnd "LibReader fs [] cur e n"])
next
  case (Cons b bs)
  obtain res k1 where w: "fwWrite st fw os (bnd b) p k = (res, k1)" by (rule prod.exhaust)
  then show ?case
    using Cons.prems Cons.IH
    by (cases res) (auto simp: writeAll.simps [of st fw os bnd "LibReader fs (b # bs) cur e n"])
qed

lemma rewriteBatches_lib:
  "rewriteBatches st fw os schema (LibReader fs bs cur e n) hasFirst p k = (Inr x, r', k') \<Longrightarrow>
   r' = LibReader fs [] None e n"
  by (auto simp: rewriteBatches_def dest: writeAll_lib
      split: option.splits prod.splits sum.splits if_splits)

lemma rewriteFile_lib:
  assumes "rewriteFile st fw os scan path schema op (LibReader fs bs cur e n) hasFirst k = (Inr count, r', k')"
  shows "r' = LibReader fs [] None e n"
proof -
  obtain p0 cs0 where new: "fw_New fw schema = Inr (p0, cs0)"
    using assms by (auto simp: rewriteFile_def split: sum.splits)
  obtain ok1 k1 where sink: "sinkWrite st os cs0 k = (ok1, k1)" by (rule prod.exhaust)
  with new assms have ok1: "ok1" by (cases ok1) (auto simp: rewriteFile_def)
  obtain old k2 where old: "(if op = InsertAppend then streamExistingRows st fw os scan path p0 k1 else (Inr p0, k1)) = (old, k2)"
    by (rule prod.exhaust)
  then obtain p2 where p2: "old = Inr p2"
    using new sink ok1 assms by (cases old) (auto simp: rewriteFile_def)
  obtain res r3 k3 where b: "rewriteBatches st fw os schema (LibReader fs bs cur e n) hasFirst p2 k2 = (res, r3, k3)"
    by (rule prod_cases3)
  then obtain x where "res = Inr x" "r3 = r'"
    using new sink ok1 old p2 assms by (cases res) (auto simp: rewriteFile_def split: prod.splits sum.splits if_splits)
  with b have "rewriteBatches st fw os schema (LibReader fs bs cur e n) hasFirst p2 k2 = (Inr x, r', k3)" by simp
  then show ?thesis by (rule rewriteBatches_lib)
qed

lemma rewrite_lib:
  assumes "rewrite st fw os scan path schema op (LibReader fs bs cur e n) hasFirst s = (Inr count, r', s')"
  shows "r' = LibReader fs [] None e n"
proof -
  obtain w s1 where create: "st_Create st (os 0) s path = Some (w, s1)"
    using assms by (auto simp: rewrite_def split: option.splits)
  obtain res r2 k where run: "rewriteFile st fw os scan path schema op (LibReader fs bs cur e n) hasFirst (w, s1, 1) = (res, r2, k)"
    by (rule prod_cases3)
  then obtain c where "res = Inr c" "r2 = r'"
    using assms create by (cases res) (auto simp: rewrite_def split: prod.splits bool.splits)
  with run have "rewriteFile st fw os scan path schema op (LibReader fs bs cur e n) hasFirst (w, s1, 1) = (Inr c, r', k)" by simp
  then show ?thesis by (rule rewriteFile_lib)
qed

text \<open>An insert that succeeds has read its input to the end.\<close>

lemma InsertInto_reads_all:
  assumes "InsertInto st fw os scan path schema op (LibReader fs bs cur e n) s = (Inr count, r', s')"
  shows "rd_left r' = 0"
proof (cases bs)
  case Nil
  then show ?thesis
    using assms rewrite_lib [of st fw os scan path schema op fs "[]" None e n False s]
    by (auto simp: InsertInto_def split: prod.splits option.splits if_splits)
next
  case (Cons b bs')
  then show ?thesis
    using assms rewrite_lib [of st fw os scan path schema op fs bs' "Some b" e n True s]
    by (auto simp: InsertInto_def split: prod.splits option.splits if_splits)
qed


lemma go_table_insert_left:
  assumes "h_live h n = Some (TableImpl (parquet_provider st fw os open_file path sc s))" and "insertOpFromC v = Inr op"
    and "go_table_insert h n (Inr (Some (channel_reader (schema_fields sc) inp))) v = (Inr count, left)"
  shows "\<exists>r. left = Some r \<and> rd_left r = 0"
proof -
  obtain res rows' s' where run: "InsertInto st fw os (own_scan open_file) path (schema_fields sc) op
      (channel_reader (schema_fields sc) inp) s = (res, rows', s')" by (rule prod_cases3)
  with assms have ok: "res = Inr count" "left = Some (rd_Release rows')"
    by (cases res; auto simp: go_table_insert_def handle_value_def as_writable_def parquet_provider_def trapCallbackPanic_def)+
  have "rd_left rows' = 0"
    using InsertInto_reads_all [OF run [unfolded channel_reader_def ok(1)]] .
  moreover have "rd_left (rd_Release r) \<le> rd_left r" for r
    by (induction r) (auto simp: close_once_def split: option.splits)
  ultimately show ?thesis using ok(2) by (metis le_zero_eq)
qed

section \<open>An INSERT statement, then queries\<close>

lemma final_err_channel:
  "final_err (LibReader fs bs cur e n) = e"
proof (induction bs arbitrary: cur)
  case Nil
  then show ?case by (simp add: final_err_Nil)
next
  case (Cons b bs)
  then show ?case using final_err_Cons [of "LibReader fs (b # bs) cur e n" b bs "LibReader fs bs (Some b) e n"] by simp
qed

text \<open>What the Go side of a statement has done when it reports a count.\<close>

lemma statement_commits:
  assumes "h_live h n = Some (TableImpl (parquet_provider filesystem_store fw os open_file path sc fs))"
    and "insertOpFromC (insert_op_to_i32 op) = Inr gop"
    and "go_table_insert h n (Inr (Some (channel_reader (schema_fields sc) inp))) (insert_op_to_i32 op) = (Inr count, left)"
    and "\<not> is_temp path" and "list_all batch_ok (in_batches inp)" and "rows_no_nan (concat (map batch_rows (in_batches inp)))"
    and "library_ok fw sc open_file" and "holds_rows sc (open_file (visible fs path)) t"
  shows "holds_rows sc (open_file (visible (after_insert filesystem_store fw os open_file path sc gop
        (channel_reader (schema_fields sc) inp) fs) path))
      ((if op = DfAppend then t else []) @ concat (map batch_rows (in_batches inp))) \<and>
    count = sum_rows (in_batches inp) \<and> (\<forall>e. in_end inp \<noteq> InputError e)"
proof -
  have gop: "gop = InsertAppend \<longleftrightarrow> op = DfAppend"
    using assms(2) by (cases op) (auto simp: insert_op_roundtrip)
  have reader: "rd_ok (channel_reader (schema_fields sc) inp)" "rd_pending (channel_reader (schema_fields sc) inp) = in_batches inp"
    using assms(5) by (simp_all add: channel_reader_def)
  obtain rows' where run: "InsertInto filesystem_store fw os (own_scan open_file) path (schema_fields sc) gop
      (channel_reader (schema_fields sc) inp) fs =
      (Inr count, rows', after_insert filesystem_store fw os open_file path sc gop (channel_reader (schema_fields sc) inp) fs)"
    using go_table_insert_result [OF assms(1-3)] by blast
  have nan: "rows_no_nan (concat (map batch_rows (rd_pending (channel_reader (schema_fields sc) inp))))"
    using assms(6) unfolding reader(2) .
  note left = insert_leaves_rows [OF run assms(4) reader(1) assms(7) nan assms(8), unfolded reader(2) gop]
  moreover have "in_end inp \<noteq> InputError e" for e
    using left by (auto simp: channel_reader_def final_err_channel)
  ultimately show ?thesis by blast
qed

text \<open>C2: What an INSERT statement of the engine into a Parquet table on the local file system reports is what
  later queries see. When it returns a count, its input ended normally (it neither failed nor panicked
  on the way), the count is the number of its rows, and any query of the table is exact on the old rows
  followed by the new ones (APPEND) or on the new ones alone (OVERWRITE). The queries are those without
  a LIMIT and without an infinite or NaN literal, no inserted or old cell is a NaN, and the files' statistics
  bound a column on both sides where they bound it.\<close>

theorem engine_insert_then_query:
  assumes "h_live h n = Some (TableImpl (parquet_provider filesystem_store fw os open_file path sc fs))"
    and "registered_as tb n sc (parquet_provider filesystem_store fw os open_file path sc fs)"
    and "write_all h tb op inp im ahead = Inr count"
    and "insertOpFromC (insert_op_to_i32 op) = Inr gop"
    and "\<not> is_temp path" and "list_all batch_ok (in_batches inp)"
    and "rows_no_nan (concat (map batch_rows (in_batches inp)))"
    and "library_ok fw sc open_file" and "holds_rows sc (open_file (visible fs path)) t"
    and "h_live h' n = Some (TableImpl (parquet_provider filesystem_store fw os' open_file path sc
      (after_insert filesystem_store fw os open_file path sc gop (channel_reader (schema_fields sc) inp) fs)))"
    and "distinct (map field_name (schema_fields sc))" and "length (schema_fields sc) < 2 ^ 31"
    and "mirrored fo" and "swap_ok swap"
    and "list_all finite_literals filters"
    and "\<And>x. f32_mag x < f32_inf_mag \<Longrightarrow> parse_float32 (p32 x) = Some x"
    and "\<And>x. f64_mag x < f64_inf_mag \<Longrightarrow> parse_float64 (p64 x) = Some x"
    and "plan_scan swap p32 p64 tb projection
      (planner_pushes (supports_filters_pushdown swap tb filters) filters) None = Some x"
    and "\<forall>e \<in> set filters. set (df_columns e) \<subseteq> field_name ` set (ge_projected_schema x)"
    and "execute h' x 0 import_err = Inr out"
  shows "in_end inp = EndOfInput \<and> count = sum_rows (in_batches inp) \<and>
    filter (where_true fo other (planner_keeps (supports_filters_pushdown swap tb filters) filters)
      (ge_projected_schema x)) (concat (map batch_rows out)) =
    map (project_row (projected (schema_fields sc) projection))
      (filter (where_true fo other filters (schema_fields sc))
        ((if op = DfAppend then t else []) @ concat (map batch_rows (in_batches inp))))"
proof -
  have tb: "gt_handle tb = n" "gt_schema tb = schema_fields sc" using assms(2) by (simp_all add: registered_as_def)
  obtain res left where run: "go_table_insert h n (imported_stream im (channel_reader (schema_fields sc) inp)) (insert_op_to_i32 op) = (res, left)"
    by (rule prod.exhaust)
  then have res: "res = Inr count" "pump_panic inp left ahead = None"
    using assms(3) by (cases res; auto simp: write_all_def tb split: option.splits)+
  note go = run [unfolded insert_imported [OF run [unfolded res(1)]] imported_stream_def stream_import.case]
  note com = statement_commits [OF assms(1,4) go [unfolded res(1)] assms(5-9)]
  obtain r where left: "left = Some r" "rd_left r = 0"
    using go_table_insert_left [OF assms(1,4) go [unfolded res(1)]] by blast
  have input: "in_end inp = EndOfInput"
    using com res(2) left by (cases "in_end inp") (auto simp: pump_panic_def split: if_splits)
  let ?p = "parquet_provider filesystem_store fw os' open_file path sc
      (after_insert filesystem_store fw os open_file path sc gop (channel_reader (schema_fields sc) inp) fs)"
  have behind: "parquet_behind sc (open_file (visible (after_insert filesystem_store fw os open_file path sc gop
      (channel_reader (schema_fields sc) inp) fs) path)) ?p"
    by (simp add: parquet_behind_def parquet_provider_def parquet_table_def filesystem_store_def)
  have reg: "registered_as tb n sc ?p"
    using assms(2) by (simp add: registered_as_def parquet_provider_def parquet_table_def)
  have "filter (where_true fo other filters (ge_projected_schema x)) (concat (map batch_rows out)) =
    map (project_row (projected (schema_fields sc) projection))
      (filter (where_true fo other filters (schema_fields sc))
        ((if op = DfAppend then t else []) @ concat (map batch_rows (in_batches inp))))"
    by (rule query_rows [OF assms(10) behind com [THEN conjunct1] reg assms(11-17) planner_pushes_subset assms(18-20)])
  with input com show ?thesis unfolding planner_keeps_all by blast
qed

text \<open>C40: A statement whose input panics fails, but not before Go has committed: whenever it fails with the
  pump's panic, the table already holds the truncated input.\<close>

theorem panicked_insert_is_committed:
  assumes "h_live h n = Some (TableImpl (parquet_provider filesystem_store fw os open_file path sc fs))"
    and "registered_as tb n sc (parquet_provider filesystem_store fw os open_file path sc fs)"
    and "write_all h tb op inp im ahead = Inl (PumpFailed m)"
    and "insertOpFromC (insert_op_to_i32 op) = Inr gop"
    and "\<not> is_temp path" and "list_all batch_ok (in_batches inp)"
    and "rows_no_nan (concat (map batch_rows (in_batches inp)))"
    and "library_ok fw sc open_file" and "holds_rows sc (open_file (visible fs path)) t"
  shows "in_end inp = InputPanic m \<and>
    holds_rows sc (open_file (visible (after_insert filesystem_store fw os open_file path sc gop
        (channel_reader (schema_fields sc) inp) fs) path))
      ((if op = DfAppend then t else []) @ concat (map batch_rows (in_batches inp)))"
proof -
  have tb: "gt_handle tb = n" "gt_schema tb = schema_fields sc" using assms(2) by (simp_all add: registered_as_def)
  obtain res left where run: "go_table_insert h n (imported_stream im (channel_reader (schema_fields sc) inp)) (insert_op_to_i32 op) = (res, left)"
    by (rule prod.exhaust)
  then obtain count where res: "res = Inr count" "pump_panic inp left ahead = Some m"
    using assms(3) by (cases res) (auto simp: write_all_def tb split: option.splits)
  note go = run [unfolded insert_imported [OF run [unfolded res(1)]] imported_stream_def stream_import.case]
  from statement_commits [OF assms(1,4) go [unfolded res(1)] assms(5-9)] res(2) show ?thesis
    by (auto simp: pump_panic_def split: input_end.splits if_splits)
qed

section \<open>Examples\<close>

text \<open>An append of 5 to a file with 9, by a statement, then \<open>5 < x\<close>.\<close>

definition byte_input :: insert_input where
  "byte_input = \<lparr>in_batches = [byte_batch 5], in_end = EndOfInput\<rparr>"

definition byte_provider :: GoTableProvider where
  "byte_provider = \<lparr>gt_handle = 1, gt_schema = schema_fields sample_schema, gt_supports_pushdown = True,
     gt_supports_insert = True\<rparr>"

lemma byte_channel: "channel_reader (schema_fields sample_schema) (byte_input\<lparr>in_end := InputPanic m\<rparr>) = byte_rows"
  "channel_reader (schema_fields sample_schema) byte_input = byte_rows"
  by (simp_all add: channel_reader_def byte_input_def byte_rows_def sample_schema_def)

lemma byte_go:
  "\<exists>left. go_table_insert (byte_handles byte_fs) 1 (Inr (Some byte_rows)) 0 = (Inr 1, Some left) \<and> rd_left left = 0"
proof -
  have h: "h_live (byte_handles byte_fs) 1 =
      Some (TableImpl (parquet_provider filesystem_store byte_writer (\<lambda>i. good_os) byte_open ''d/t'' sample_schema byte_fs))"
    by (simp add: byte_handles_def)
  have op: "insertOpFromC 0 = Inr InsertAppend" by (simp add: insertOpFromC_def)
  show ?thesis
    using go_table_insert_left [OF h op byte_after_run(2) [folded byte_channel(2)]] byte_after_run(2)
    unfolding byte_channel by (metis surjective_pairing)
qed

lemma byte_statement:
  "write_all (byte_handles byte_fs) byte_provider DfAppend byte_input Imported False = Inr 1"
  "write_all (byte_handles byte_fs) byte_provider DfAppend (byte_input\<lparr>in_end := InputPanic m\<rparr>) Imported False = Inl (PumpFailed m)"
proof -
  obtain left where go: "go_table_insert (byte_handles byte_fs) 1 (Inr (Some byte_rows)) 0 = (Inr 1, Some left)" "rd_left left = 0"
    using byte_go by blast
  have tb: "gt_handle byte_provider = 1" "gt_schema byte_provider = schema_fields sample_schema"
    by (simp_all add: byte_provider_def)
  show "write_all (byte_handles byte_fs) byte_provider DfAppend byte_input Imported False = Inr 1"
    by (simp only: write_all_def imported_stream_def stream_import.case tb byte_channel insert_op_to_i32_def DfInsertOp.case go)
      (simp add: pump_panic_def byte_input_def)
  show "write_all (byte_handles byte_fs) byte_provider DfAppend (byte_input\<lparr>in_end := InputPanic m\<rparr>) Imported False = Inl (PumpFailed m)"
    by (simp only: write_all_def imported_stream_def stream_import.case tb byte_channel insert_op_to_i32_def DfInsertOp.case go)
      (simp add: pump_panic_def byte_input_def go(2))
qed

lemma byte_select: "selectRowGroups (lib_file (byte_base [9, 5]) sample_schema (byte_full [9, 5])) sample_schema [demo_filter] = None"
proof -
  have "\<not> groupSkipped (lib_file (byte_base [9, 5]) sample_schema (byte_full [9, 5])) sample_schema {0} [demo_filter] i"
    if "i < 2" for i
    using that
    by (auto simp: less_2_cases_iff groupSkipped_def Let_def demo_filter_def canSkipCompare_def buildRowGroupStats_def fieldStats_def lib_file_def byte_base_def
       col0_def provablyAllNull_def usableRange_def absent_spec_def NumFields_def sample_schema_def int64_lit_def)
  then show ?thesis
    by (simp add: selectRowGroups_def referencedFields_def demo_filter_def addCol_def col0_def NumFields_def sample_schema_def
        int64_field_def lib_file_def byte_base_def Let_def)
qed

lemma byte_plan:
  "plan_scan demo_swap exact_fmt32 exact_fmt64 byte_provider None
     (planner_pushes (supports_filters_pushdown demo_swap byte_provider [demo_where]) [demo_where]) None =
   Some \<lparr>ge_handle = 1, ge_projection = None, ge_pushdown = Some
     \<lparr>pa_filters_json = Some (JArray (map (wire_expr exact_fmt32 exact_fmt64) [demo_filter])), pa_limit = - 1\<rparr>,
     ge_projected_schema = [int64_field]\<rparr>"
  using demo_classify
  by (simp add: plan_scan_def GoTableExec_new_def planner_pushes_def supports_filters_pushdown_def byte_provider_def
      filters_to_json_def Let_def sample_schema_def List.map_filter_def)

definition byte_exec :: GoTableExec where
  "byte_exec = \<lparr>ge_handle = 1, ge_projection = None, ge_pushdown = Some
     \<lparr>pa_filters_json = Some (JArray (map (wire_expr exact_fmt32 exact_fmt64) [demo_filter])), pa_limit = - 1\<rparr>,
     ge_projected_schema = [int64_field]\<rparr>"

lemma byte_execute:
  "execute (byte_handles byte_after) byte_exec 0 None = Inr (map (project_batch [int64_field] [0]) [byte_batch 9, byte_batch 5])"
proof -
  let ?r = "ClosingReader (LibReader [int64_field] (map (project_batch [int64_field] [0]) [byte_batch 9, byte_batch 5]) None None 1) False 0"
  have dec: "decodeFilters (Some (JArray (map (wire_expr exact_fmt32 exact_fmt64) [demo_filter]))) = Inr [demo_filter]"
    using decode_from_wire [OF wire_ok_demo parse_exact_fmt32 parse_exact_fmt64] by (simp add: decodeFilters_def)
  have scan: "ScanWithOptions sample_schema (byte_open (Some [80, 9, 5, 70]))
      (Some \<lparr>so_projection = None, so_filters = [demo_filter], so_limit = - 1\<rparr>) = (Inr ?r, 0)"
    using byte_select
    by (simp add: ScanWithOptions_def byte_open_def openProjectedReader_def getRecordReader_def byte_reader
        byte_full_def upt_rec Let_def)
  have "go_table_scan (byte_handles byte_after) 1 (- 1) []
     (Some (Some (JArray (map (wire_expr exact_fmt32 exact_fmt64) [demo_filter])))) (- 1) = Inr ?r"
    using byte_after_run(1) dec scan
    by (simp add: go_table_scan_def handle_value_def as_table_def byte_handles_def parquet_provider_def parquet_table_def
        filesystem_store_def provider_call_def trapCallbackPanic_def scan_projection_def del: wire_expr.simps)
  then have "open_go_scan (byte_handles byte_after) (request_of byte_exec) None = Inr ?r"
    by (simp add: open_go_scan_def request_of_def byte_exec_def validate_projected_schema_def del: wire_expr.simps)
  moreover have "fst (read_stream ?r) = rd_pending ?r" "rd_Err (snd (read_stream ?r)) = None"
    by (simp_all add: read_stream_def close_once_def)
  ultimately show ?thesis by (simp add: execute_pushed byte_exec_def)
qed

lemma byte_facts:
  "h_live (byte_handles fs) 1 =
     Some (TableImpl (parquet_provider filesystem_store byte_writer (\<lambda>i. good_os) byte_open ''d/t'' sample_schema fs))"
  "registered_as byte_provider 1 sample_schema
     (parquet_provider filesystem_store byte_writer (\<lambda>i. good_os) byte_open ''d/t'' sample_schema fs)"
  "insertOpFromC (insert_op_to_i32 DfAppend) = Inr InsertAppend"
  "list_all batch_ok (in_batches byte_input)" "rows_no_nan (concat (map batch_rows (in_batches byte_input)))"
  "holds_rows sample_schema (byte_open (visible byte_fs ''d/t'')) [byte_row 9]"
proof -
  show "rows_no_nan (concat (map batch_rows (in_batches byte_input)))"
    by (simp add: byte_input_def rows_no_nan_def byte_row_def row_of_def cell_nan_def)
qed (use byte_holds [of "[9]"] in \<open>simp_all add: byte_handles_def registered_as_def byte_provider_def parquet_provider_def
    parquet_table_def insert_op_roundtrip byte_input_def batch_ok_def byte_batch_def byte_temp(2)\<close>)

theorem engine_insert_then_query_witness:
  "\<exists>x out. write_all (byte_handles byte_fs) byte_provider DfAppend byte_input Imported False = Inr 1 \<and>
    plan_scan demo_swap exact_fmt32 exact_fmt64 byte_provider None
      (planner_pushes (supports_filters_pushdown demo_swap byte_provider [demo_where]) [demo_where]) None = Some x \<and>
    execute (byte_handles byte_after) x 0 None = Inr out \<and>
    filter (where_true (\<lambda>_ _. None) (\<lambda>_ _. None) [demo_where] (ge_projected_schema x)) (concat (map batch_rows out)) =
      [project_row [0] (byte_row 9)]"
proof -
  have names: "distinct (map field_name (schema_fields sample_schema))" "length (schema_fields sample_schema) < 2 ^ 31"
    by (simp_all add: sample_schema_def)
  have sem: "mirrored (\<lambda>_ _. None)" by (simp add: mirrored_def)
  have fin: "list_all finite_literals [demo_where]" by (simp add: demo_where_def finite_scalar_def)
  have cols: "\<forall>e \<in> set [demo_where]. set (df_columns e) \<subseteq> field_name ` set (ge_projected_schema byte_exec)"
    by (simp add: demo_where_def byte_exec_def)
  have after: "byte_after = after_insert filesystem_store byte_writer (\<lambda>i. good_os) byte_open ''d/t'' sample_schema InsertAppend
      (channel_reader (schema_fields sample_schema) byte_input) byte_fs"
    by (simp only: byte_channel byte_after_def)
  have matching: "map (project_row (projected (schema_fields sample_schema) None))
      (filter (where_true (\<lambda>_ _. None) (\<lambda>_ _. None) [demo_where] (schema_fields sample_schema))
        ((if DfAppend = DfAppend then [byte_row 9] else []) @ concat (map batch_rows (in_batches byte_input)))) =
      [project_row [0] (byte_row 9)]"
    by (simp add: byte_input_def byte_row_def where_true_def demo_where_def df_compare_def scalar_value_def col_env_def
        sample_schema_def row_of_def cell_value_def int64_field_def sql_compare_def op_holds_def order_int_def truth_def
        projected_def)
  show ?thesis
    using engine_insert_then_query [OF byte_facts(1,2) byte_statement(1) byte_facts(3) byte_temp(1) byte_facts(4,5)
        byte_library byte_facts(6,1) [folded after] names sem demo_swap_ok fin parse_exact_fmt32 parse_exact_fmt64
        byte_plan [folded byte_exec_def] cols byte_execute [unfolded after], of "\<lambda>_ _. None", unfolded planner_keeps_all matching]
      byte_statement(1) byte_plan [folded byte_exec_def] byte_execute
    by blast
qed

theorem panicked_insert_is_committed_witness:
  "write_all (byte_handles byte_fs) byte_provider DfAppend (byte_input\<lparr>in_end := InputPanic ''boom''\<rparr>) Imported False =
     Inl (PumpFailed ''boom'') \<and>
   holds_rows sample_schema (byte_open (visible byte_after ''d/t'')) [byte_row 9, byte_row 5]"
proof -
  let ?inp = "byte_input\<lparr>in_end := InputPanic ''boom''\<rparr>"
  have batches: "list_all batch_ok (in_batches ?inp)" "rows_no_nan (concat (map batch_rows (in_batches ?inp)))"
    using byte_facts(4,5) by simp_all
  have rows: "(if DfAppend = DfAppend then [byte_row 9] else []) @ concat (map batch_rows (in_batches ?inp)) =
      [byte_row 9, byte_row 5]"
    by (simp add: byte_input_def)
  from panicked_insert_is_committed [OF byte_facts(1,2) byte_statement(2) byte_facts(3) byte_temp(1) batches
      byte_library byte_facts(6), unfolded byte_channel rows] byte_statement(2)
  show ?thesis unfolding byte_after_def by blast
qed

end
