(* ===== verification/Engine_Handles.thy ===== *)
theory Engine_Handles
  imports Registration
begin

text \<open>
  The engine's objects over Go handles and their lives: tables, functions and catalogs a session
  holds, schemas and tables discovered through a catalog for a query
  (\<open>rust/datafusion-c-abi/src/catalog.rs\<close>, \<open>table.rs\<close>, \<open>udf.rs\<close>), each releasing its handle when it is
  dropped. Every live handle is accounted for: it has one owner, or it was leaked by a failed
  registration. The nodes of a plan (\<open>GoTableExec\<close>, \<open>GoDataSink\<close>) copy the number of their table's handle
  and release nothing, so they are no holders here, and running a plan whose table has been dropped
  meanwhile is not among the steps.
\<close>

section \<open>Catalogs and schemas in the engine\<close>

text \<open>
  \<open>GoTableProvider::try_new\<close> owns the handle from the call on; \<open>import_err\<close> is the outcome of
  importing the schema. The result is the new object's handle.
\<close>

datatype try_err = FetchingSchema callback_err | ImportingSchema string

definition try_new :: "handles \<Rightarrow> nat \<Rightarrow> string option \<Rightarrow> (try_err + nat) \<times> handles" where
  "try_new h n import_err =
     (case go_table_schema h n of
        Inl e \<Rightarrow> (Inl (FetchingSchema e), go_table_release h n)
      | Inr sc \<Rightarrow>
          (case import_err of
             Some e \<Rightarrow> (Inl (ImportingSchema e), go_table_release h n)
           | None \<Rightarrow> (Inr n, h)))"

text \<open>
  \<open>CatalogProvider::schema\<close> has no error to return, so a Go error is a panic. A name that no C
  string can hold is asked as the empty one.
\<close>

definition has_nul :: "string \<Rightarrow> bool" where
  "has_nul s \<longleftrightarrow> CHR 0x00 \<in> set s"

definition catalog_schema :: "handles \<Rightarrow> nat \<Rightarrow> string \<Rightarrow> nat option call \<times> handles" where
  "catalog_schema h n name =
     (case go_catalog_schema_lookup h n (if has_nul name then [] else name) of
        (Inl e, h') \<Rightarrow> (Panics ''Go catalog schema lookup failed'', h')
      | (Inr found, h') \<Rightarrow> (Returns found, h'))"

datatype table_err = NulInName | LookupFailed callback_err | Constructing try_err

definition schema_table :: "handles \<Rightarrow> nat \<Rightarrow> string \<Rightarrow> string option \<Rightarrow> (table_err + nat option) \<times> handles" where
  "schema_table h n name import_err =
     (if has_nul name then (Inl NulInName, h)
      else
        (case go_schema_table_lookup h n name of
           (Inl e, h') \<Rightarrow> (Inl (LookupFailed e), h')
         | (Inr None, h') \<Rightarrow> (Inr None, h')
         | (Inr (Some (k, pushdown)), h') \<Rightarrow>
             (case try_new h' k import_err of
                (Inl e, h'') \<Rightarrow> (Inl (Constructing e), h'')
              | (Inr k', h'') \<Rightarrow> (Inr (Some k'), h''))))"

section \<open>The engine's objects\<close>

text \<open>The session, the schemas and tables discovered for queries, and what was leaked.\<close>

record engine =
  en_session :: engine_session
  en_schemas :: "nat list"
  en_tables :: "nat list"
  en_leaked :: "nat set"

datatype kind = TableKind | FunctionKind | CatalogKind | SchemaKind

fun kind_of :: "go_impl \<Rightarrow> kind" where
  "kind_of (TableImpl p) = TableKind"
| "kind_of (SchemaImpl p) = SchemaKind"
| "kind_of (CatalogImpl p) = CatalogKind"
| "kind_of (UdfImpl p) = FunctionKind"

definition session_holdings :: "engine_session \<Rightarrow> (nat \<times> kind) list" where
  "session_holdings s =
     map (\<lambda>n. (n, TableKind)) (table_handles s) @
     map (\<lambda>(name, n, args, ret). (n, FunctionKind)) (es_functions s) @
     map (\<lambda>n. (n, CatalogKind)) (catalog_handles (es_catalogs s))"

definition holdings :: "engine \<Rightarrow> (nat \<times> kind) list" where
  "holdings x = session_holdings (en_session x) @
     map (\<lambda>n. (n, SchemaKind)) (en_schemas x) @ map (\<lambda>n. (n, TableKind)) (en_tables x)"

text \<open>\<open>RegisterTable\<close> on the part of the session it knows.\<close>

definition register_table_in ::
  "engine_outcome \<Rightarrow> engine_session \<Rightarrow> string \<Rightarrow> table_provider option \<Rightarrow> register_err option \<times> engine_session" where
  "register_table_in o' s name p =
     (case RegisterTable o' (session.truncate s) name p of
        (e, s') \<Rightarrow> (e, s\<lparr>ss_handles := ss_handles s', ss_tables := ss_tables s'\<rparr>))"

text \<open>\<open>df_session_free\<close>: the session's objects are dropped.\<close>

definition free_session :: "engine_session \<Rightarrow> engine_session" where
  "free_session s = s\<lparr>ss_closed := True, ss_tables := [], es_functions := [], es_catalogs := [],
     ss_handles := fold (\<lambda>n h. releaseCgoHandle h n) (map fst (session_holdings s)) (ss_handles s)\<rparr>"

text \<open>
  The failures that leave the minted handle live: the engine returns before its release. The
  handle is the next one.
\<close>

definition table_leak :: "engine_outcome \<Rightarrow> engine_session \<Rightarrow> table_provider option \<Rightarrow> nat set" where
  "table_leak o' s p =
     (if p \<noteq> None \<and> \<not> ss_closed s \<and> (\<not> eo_utf8 o' \<or> eo_exist_err o' \<noteq> None)
      then {Suc (h_next (ss_handles s))} else {})"

definition catalog_leak :: "bool \<Rightarrow> engine_session \<Rightarrow> catalog_provider option \<Rightarrow> nat set" where
  "catalog_leak utf8 s p = (if p \<noteq> None \<and> \<not> ss_closed s \<and> \<not> utf8 then {Suc (h_next (ss_handles s))} else {})"

definition set_handles :: "engine \<Rightarrow> handles \<Rightarrow> engine" where
  "set_handles x h = x\<lparr>en_session := (en_session x)\<lparr>ss_handles := h\<rparr>\<rparr>"

abbreviation en_handles :: "engine \<Rightarrow> handles" where
  "en_handles x \<equiv> ss_handles (en_session x)"

text \<open>The last step is Go's own: what a handle stands for may change, as a catalog to which a table is added.\<close>

inductive engine_step :: "engine \<Rightarrow> engine \<Rightarrow> bool" where
  reg_table: "register_table_in o' (en_session x) name p = (e, s') \<Longrightarrow>
     engine_step x (x\<lparr>en_session := s', en_leaked := en_leaked x \<union> table_leak o' (en_session x) p\<rparr>)"
| reg_function: "RegisterScalarUDF o' (en_session x) u = (e, s') \<Longrightarrow> engine_step x (x\<lparr>en_session := s'\<rparr>)"
| reg_catalog: "RegisterCatalog utf8 (en_session x) name c = (e, s') \<Longrightarrow>
     engine_step x (x\<lparr>en_session := s', en_leaked := en_leaked x \<union> catalog_leak utf8 (en_session x) c\<rparr>)"
| find_schema: "n \<in> set (catalog_handles (es_catalogs (en_session x))) \<Longrightarrow>
     catalog_schema (en_handles x) n name = (res, h) \<Longrightarrow>
     engine_step x (set_handles x h\<lparr>en_schemas := (case res of Returns (Some k) \<Rightarrow> [k] | _ \<Rightarrow> []) @ en_schemas x\<rparr>)"
| find_table: "n \<in> set (en_schemas x) \<Longrightarrow> schema_table (en_handles x) n name import_err = (res, h) \<Longrightarrow>
     engine_step x (set_handles x h\<lparr>en_tables := (case res of Inr (Some k) \<Rightarrow> [k] | _ \<Rightarrow> []) @ en_tables x\<rparr>)"
| drop_schema: "en_schemas x = ks @ n # ks' \<Longrightarrow>
     engine_step x (set_handles x (go_schema_release (en_handles x) n)\<lparr>en_schemas := ks @ ks'\<rparr>)"
| drop_table: "en_tables x = ks @ n # ks' \<Longrightarrow>
     engine_step x (set_handles x (go_table_release (en_handles x) n)\<lparr>en_tables := ks @ ks'\<rparr>)"
| session_freed: "\<not> ss_closed (en_session x) \<Longrightarrow> engine_step x (x\<lparr>en_session := free_session (en_session x)\<rparr>)"
| provider_changed: "h_live (en_handles x) n = Some v \<Longrightarrow> kind_of v' = kind_of v \<Longrightarrow>
     engine_step x (set_handles x (en_handles x\<lparr>h_live := (h_live (en_handles x))(n \<mapsto> v')\<rparr>))"

section \<open>Accounting\<close>

definition accounted :: "handles \<Rightarrow> (nat \<times> kind) list \<Rightarrow> nat set \<Rightarrow> bool" where
  "accounted h hs L \<longleftrightarrow> handles_ok h \<and>
     (\<forall>n. count_list (map fst hs) n + of_bool (n \<in> L) = (of_bool (h_live h n \<noteq> None) :: nat)) \<and>
     (\<forall>(n, k) \<in> set hs. map_option kind_of (h_live h n) = Some k)"

lemma accounted_perm:
  assumes "accounted h hs L" and "\<And>n. count_list (map fst hs') n = count_list (map fst hs) n" and "set hs' = set hs"
  shows "accounted h hs' L"
  using assms by (simp add: accounted_def)

lemma live_below: "handles_ok h \<Longrightarrow> h_live h n \<noteq> None \<Longrightarrow> n \<le> h_next h"
  by (meson handles_ok_def not_less)

lemma accounted_mint:
  assumes "accounted h hs L" and "NewHandle h v = (n, h')"
  shows "accounted h' ((n, kind_of v) # hs) L" and "n \<notin> L" and "n = Suc (h_next h)"
    and "accounted h' hs (insert n L)"
proof -
  have h': "h' = h\<lparr>h_next := n, h_live := (h_live h)(n \<mapsto> v)\<rparr>" and n: "n = Suc (h_next h)"
    using assms(2) by (auto simp: NewHandle_def)
  have ok: "handles_ok h" and cnt: "count_list (map fst hs) m + of_bool (m \<in> L) = (of_bool (h_live h m \<noteq> None) :: nat)"
    and kinds: "\<forall>(n, k) \<in> set hs. map_option kind_of (h_live h n) = Some k" for m
    using assms(1) by (auto simp: accounted_def)
  have new: "h_live h n = None" using ok n by (simp add: handles_ok_def)
  with cnt [of n] have free: "count_list (map fst hs) n = 0" "n \<notin> L" by (auto split: if_splits)
  then have fresh: "\<forall>(m, k) \<in> set hs. m \<noteq> n" by (force simp: count_list_0_iff)
  have ok': "handles_ok h'" using ok n h' by (auto simp: handles_ok_def)
  have kinds': "\<forall>(m, k) \<in> set hs. map_option kind_of (h_live h' m) = Some k"
    using kinds fresh h' by fastforce
  show "accounted h' ((n, kind_of v) # hs) L"
    unfolding accounted_def using ok' kinds' cnt free h' by (auto simp: new)
  show "accounted h' hs (insert n L)"
    unfolding accounted_def using ok' kinds' cnt free h' by (auto simp: new)
  show "n \<notin> L" "n = Suc (h_next h)" by fact+
qed

lemma accounted_release:
  assumes "accounted h ((n, k) # hs) L"
  shows "accounted (releaseCgoHandle h n) hs L"
proof -
  have cnt: "count_list (map fst ((n, k) # hs)) m + of_bool (m \<in> L) = (of_bool (h_live h m \<noteq> None) :: nat)" for m
    using assms by (auto simp: accounted_def)
  from cnt [of n] have one: "count_list (map fst hs) n = 0" "n \<notin> L" by (auto simp: of_bool_def split: if_splits)
  then have "\<forall>(m, k) \<in> set hs. m \<noteq> n" by (force simp: count_list_0_iff)
  then have kinds: "\<forall>(m, k) \<in> set hs. map_option kind_of (h_live (releaseCgoHandle h n) m) = Some k"
    using assms by (fastforce simp: accounted_def releaseCgoHandle_def)
  have "count_list (map fst hs) m + of_bool (m \<in> L) = (of_bool (h_live (releaseCgoHandle h n) m \<noteq> None) :: nat)" for m
    using cnt [of m] one by (cases "m = n") (auto simp: releaseCgoHandle_def split: if_splits)
  moreover have "handles_ok (releaseCgoHandle h n)"
    using assms by (auto simp: accounted_def dest: handles_ok_steps(2))
  ultimately show ?thesis using kinds by (simp add: accounted_def)
qed

lemma accounted_releases:
  "accounted h (rs @ hs) L \<Longrightarrow> accounted (fold (\<lambda>n h. releaseCgoHandle h n) (map fst rs) h) hs L"
proof (induction rs arbitrary: h)
  case (Cons r rs)
  obtain n k where "r = (n, k)" by (cases r)
  with Cons accounted_release show ?case by force
qed simp

text \<open>A handle minted for an object that is dropped at once.\<close>

lemma accounted_mint_release:
  assumes "accounted h hs L" and "NewHandle h v = (n, h')"
  shows "accounted (releaseCgoHandle h' n) hs L"
  using accounted_release [OF accounted_mint(1) [OF assms]] .

lemma count_map_fst [simp]:
  "count_list (map fst (map (\<lambda>n. (n, k)) ns)) m = count_list ns m"
  by (simp add: comp_def)

lemmas releases = go_table_release_def go_catalog_release_def go_schema_release_def go_scalar_udf_release_def

section \<open>Every step keeps the accounts\<close>

lemma session_holdings_simps:
  "session_holdings (s\<lparr>ss_handles := h\<rparr>) = session_holdings s"
  by (simp add: session_holdings_def table_handles_def)

lemma reg_table_accounted:
  assumes "register_table_in o' s name p = (e, s')" and "accounted (ss_handles s) (session_holdings s @ rest) L"
  shows "accounted (ss_handles s') (session_holdings s' @ rest) (L \<union> table_leak o' s p)"
proof (cases "p = None \<or> ss_closed s")
  case True
  then have "s' = s" "table_leak o' s p = {}"
    using assms(1) by (auto simp: register_table_in_def RegisterTable_def table_leak_def session.defs split: option.splits)
  then show ?thesis using assms(2) by simp
next
  case False
  then obtain q where p: "p = Some q" "\<not> ss_closed s" by auto
  let ?c = "c_string name" and ?push = "tp_ScanWithOptions q \<noteq> None" and ?ins = "tp_InsertInto q \<noteq> None"
  obtain n h where nh: "NewHandle (ss_handles s) (TableImpl q) = (n, h)" by (rule prod.exhaust)
  note mint = accounted_mint [OF assms(2) nh]
  obtain ee t where reg: "df_session_register_table o' ((session.truncate s)\<lparr>ss_handles := h\<rparr>) ?c n ?push ?ins = (ee, t)"
    by (rule prod.exhaust)
  have s': "s' = s\<lparr>ss_handles := ss_handles t, ss_tables := ss_tables t\<rparr>"
    using assms(1) p nh reg by (auto simp: register_table_in_def RegisterTable_def session.defs split: option.splits)
  have "ss_handles t = releaseCgoHandle h n \<and> ss_tables t = ss_tables s \<and> table_leak o' s p = {} \<or>
      ss_handles t = h \<and> ss_tables t = ss_tables s \<and> table_leak o' s p = {n} \<or>
      ss_handles t = h \<and> ss_tables t = ss_tables s @ [(eo_reference o' ?c, n, ?push, ?ins)] \<and> table_leak o' s p = {}"
    using reg p mint(3)
    by (auto simp: df_session_register_table_def Let_def table_leak_def releases session.defs split: if_splits option.splits sum.splits)
  then consider (released) "ss_handles t = releaseCgoHandle h n" "ss_tables t = ss_tables s" "table_leak o' s p = {}"
    | (leaked) "ss_handles t = h" "ss_tables t = ss_tables s" "table_leak o' s p = {n}"
    | (added) "ss_handles t = h" "ss_tables t = ss_tables s @ [(eo_reference o' ?c, n, ?push, ?ins)]" "table_leak o' s p = {}"
    by blast
  then show ?thesis
  proof cases
    case released
    then show ?thesis
      using accounted_release [OF mint(1)] by (simp add: s' session_holdings_def table_handles_def)
  next
    case leaked
    then show ?thesis using mint(4) by (simp add: s' session_holdings_def table_handles_def)
  next
    case added
    have "accounted h (session_holdings s' @ rest) L"
      by (rule accounted_perm [OF mint(1)])
        (auto simp: s' added session_holdings_def table_handles_def comp_def)
    then show ?thesis using added by (simp add: s')
  qed
qed

lemma reg_function_accounted:
  assumes "RegisterScalarUDF o' s u = (e, s')" and "accounted (ss_handles s) (session_holdings s @ rest) L"
  shows "accounted (ss_handles s') (session_holdings s' @ rest) L"
proof (cases "u = None \<or> ss_closed s")
  case True
  then have "s' = s" using assms(1) by (auto simp: RegisterScalarUDF_def split: option.splits)
  then show ?thesis using assms(2) by simp
next
  case False
  then obtain f where u: "u = Some f" "\<not> ss_closed s" by auto
  obtain n h where nh: "NewHandle (ss_handles s) (UdfImpl f) = (n, h)" by (rule prod.exhaust)
  note mint = accounted_mint [OF assms(2) nh]
  have "(\<exists>x. s' = s\<lparr>ss_handles := h, es_functions := es_functions s @ [(x, n, udf_arg_fields f, su_ReturnType f)]\<rparr>) \<or>
      s' = s\<lparr>ss_handles := releaseCgoHandle h n\<rparr>"
    using assms(1) u nh
    by (auto simp: RegisterScalarUDF_def df_session_register_scalar_udf_def Let_def releases udf_return_fields_def
        split: if_splits option.splits)
  then show ?thesis
  proof
    assume "\<exists>x. s' = s\<lparr>ss_handles := h, es_functions := es_functions s @ [(x, n, udf_arg_fields f, su_ReturnType f)]\<rparr>"
    then obtain x where s': "s' = s\<lparr>ss_handles := h, es_functions := es_functions s @ [(x, n, udf_arg_fields f, su_ReturnType f)]\<rparr>" ..
    have "accounted h (session_holdings s' @ rest) L"
      by (rule accounted_perm [OF mint(1)]) (auto simp: s' session_holdings_def table_handles_def comp_def)
    then show ?thesis by (simp add: s')
  next
    assume "s' = s\<lparr>ss_handles := releaseCgoHandle h n\<rparr>"
    then show ?thesis using accounted_release [OF mint(1)] by (simp add: session_holdings_simps)
  qed
qed

lemma catalog_handles_split:
  "count_list (catalog_handles cs) n =
     count_list (catalog_handles (filter P cs)) n + count_list (catalog_handles (filter (\<lambda>c. \<not> P c) cs)) n"
  "set (catalog_handles cs) = set (catalog_handles (filter P cs)) \<union> set (catalog_handles (filter (\<lambda>c. \<not> P c) cs))"
  by (induction cs) (auto simp: catalog_handles_def List.map_filter_simps split: option.splits)

lemma catalog_handles_Cons: "catalog_handles ((name, Some n) # cs) = n # catalog_handles cs"
  by (simp add: catalog_handles_def List.map_filter_simps)

lemma reg_catalog_accounted:
  assumes "RegisterCatalog utf8 s name c = (e, s')" and "accounted (ss_handles s) (session_holdings s @ rest) L"
  shows "accounted (ss_handles s') (session_holdings s' @ rest) (L \<union> catalog_leak utf8 s c)"
proof (cases "c = None \<or> ss_closed s")
  case True
  then have "s' = s" "catalog_leak utf8 s c = {}"
    using assms(1) by (auto simp: RegisterCatalog_def catalog_leak_def split: option.splits)
  then show ?thesis using assms(2) by simp
next
  case False
  then obtain q where c: "c = Some q" "\<not> ss_closed s" by auto
  let ?c = "c_string name"
  obtain n h where nh: "NewHandle (ss_handles s) (CatalogImpl q) = (n, h)" by (rule prod.exhaust)
  note mint = accounted_mint [OF assms(2) nh]
  obtain ee t where reg: "df_session_register_catalog utf8 (s\<lparr>ss_handles := h\<rparr>) ?c n = (ee, t)" by (rule prod.exhaust)
  have s': "s' = t" using assms(1) c nh reg by (auto simp: RegisterCatalog_def split: option.splits)
  consider (leaked) "\<not> utf8" | (released) "utf8" "?c \<noteq> es_default_catalog s" "?c \<in> fst ` set (es_catalogs s)"
    | (added) "utf8" "\<not> (?c \<noteq> es_default_catalog s \<and> ?c \<in> fst ` set (es_catalogs s))" by blast
  then show ?thesis
  proof cases
    case leaked
    then show ?thesis
      using reg mint(3,4) c by (auto simp: df_session_register_catalog_def s' catalog_leak_def session_holdings_simps)
  next
    case released
    then show ?thesis
      using reg accounted_release [OF mint(1)] c
      by (auto simp: df_session_register_catalog_def s' catalog_leak_def releases session_holdings_simps)
  next
    case added
    let ?gone = "filter (\<lambda>c. fst c = ?c) (es_catalogs s)" and ?kept = "filter (\<lambda>c. fst c \<noteq> ?c) (es_catalogs s)"
    let ?tables = "if ?c = es_default_catalog s then table_handles s else []"
    let ?rs = "map (\<lambda>n. (n, CatalogKind)) (catalog_handles ?gone) @ map (\<lambda>n. (n, TableKind)) ?tables"
    have t: "t = s\<lparr>es_catalogs := (?c, Some n) # ?kept, ss_tables := (if ?c = es_default_catalog s then [] else ss_tables s),
        ss_handles := fold (\<lambda>n h. releaseCgoHandle h n) (map fst ?rs) h\<rparr>"
      using reg added
      by (auto simp: df_session_register_catalog_def Let_def releases table_handles_def comp_def)
    have tables: "table_handles t = (if ?c = es_default_catalog s then [] else table_handles s)"
      "es_functions t = es_functions s" "catalog_handles (es_catalogs t) = n # catalog_handles ?kept"
      by (simp_all add: t table_handles_def catalog_handles_Cons)
    have "accounted h (?rs @ session_holdings t @ rest) L"
    proof (rule accounted_perm [OF mint(1)])
      fix m
      show "count_list (map fst (?rs @ session_holdings t @ rest)) m =
          count_list (map fst ((n, kind_of (CatalogImpl q)) # session_holdings s @ rest)) m"
        using catalog_handles_split(1) [of "es_catalogs s" m "\<lambda>c. fst c = ?c"]
        by (simp add: session_holdings_def tables comp_def)
      show "set (?rs @ session_holdings t @ rest) = set ((n, kind_of (CatalogImpl q)) # session_holdings s @ rest)"
        using catalog_handles_split(2) [of "es_catalogs s" "\<lambda>c. fst c = ?c"]
        by (auto simp add: session_holdings_def tables)
    qed
    from accounted_releases [OF this] show ?thesis
      using added c by (simp add: s' t catalog_leak_def)
  qed
qed

lemma free_accounted:
  assumes "accounted (ss_handles s) (session_holdings s @ rest) L"
  shows "accounted (ss_handles (free_session s)) (session_holdings (free_session s) @ rest) L"
  using accounted_releases [OF assms]
  by (simp add: free_session_def session_holdings_def table_handles_def catalog_handles_def List.map_filter_simps)

lemma try_new_accounted:
  assumes "try_new h n import_err = (res, h')" and "accounted h ((n, TableKind) # hs) L"
  shows "accounted h' (map (\<lambda>n. (n, TableKind)) (case res of Inr k \<Rightarrow> [k] | Inl e \<Rightarrow> []) @ hs) L"
  using assms accounted_release [OF assms(2)]
  by (auto simp: try_new_def releases split: sum.splits option.splits)

lemma catalog_schema_accounted:
  assumes "catalog_schema h n name = (res, h')" and "accounted h hs L"
  shows "accounted h' (map (\<lambda>n. (n, SchemaKind)) (case res of Returns (Some k) \<Rightarrow> [k] | _ \<Rightarrow> []) @ hs) L"
proof -
  obtain r h1 where r: "go_catalog_schema_lookup h n (if has_nul name then [] else name) = (r, h1)" by (rule prod.exhaust)
  then have "h1 = h \<and> (\<forall>k. r \<noteq> Inr (Some k)) \<or> (\<exists>sp k. NewHandle h (SchemaImpl sp) = (k, h1) \<and> r = Inr (Some k))"
    by (auto simp: go_catalog_schema_lookup_def split: sum.splits prod.splits if_splits option.splits)
  then show ?thesis
  proof
    assume "h1 = h \<and> (\<forall>k. r \<noteq> Inr (Some k))"
    then show ?thesis using assms r by (cases r) (auto simp: catalog_schema_def split: option.splits)
  next
    assume "\<exists>sp k. NewHandle h (SchemaImpl sp) = (k, h1) \<and> r = Inr (Some k)"
    then obtain sp k where k: "NewHandle h (SchemaImpl sp) = (k, h1)" "r = Inr (Some k)" by blast
    from accounted_mint(1) [OF assms(2) k(1)] show ?thesis using assms(1) r k(2) by (auto simp: catalog_schema_def)
  qed
qed

lemma schema_table_accounted:
  assumes "schema_table h n name import_err = (res, h')" and "accounted h hs L"
  shows "accounted h' (map (\<lambda>n. (n, TableKind)) (case res of Inr (Some k) \<Rightarrow> [k] | _ \<Rightarrow> []) @ hs) L"
proof (cases "has_nul name")
  case True
  then show ?thesis using assms by (auto simp: schema_table_def)
next
  case False
  obtain r h1 where r: "go_schema_table_lookup h n name = (r, h1)" by (rule prod.exhaust)
  then have "h1 = h \<and> (\<forall>k. r \<noteq> Inr (Some k)) \<or>
      (\<exists>tp k. NewHandle h (TableImpl tp) = (k, h1) \<and> r = Inr (Some (k, tp_ScanWithOptions tp \<noteq> None)))"
    by (auto simp: go_schema_table_lookup_def split: sum.splits prod.splits if_splits option.splits)
  then show ?thesis
  proof
    assume "h1 = h \<and> (\<forall>k. r \<noteq> Inr (Some k))"
    then show ?thesis using assms r False by (cases r) (auto simp: schema_table_def split: option.splits)
  next
    assume "\<exists>tp k. NewHandle h (TableImpl tp) = (k, h1) \<and> r = Inr (Some (k, tp_ScanWithOptions tp \<noteq> None))"
    then obtain tp k where k: "NewHandle h (TableImpl tp) = (k, h1)" "r = Inr (Some (k, tp_ScanWithOptions tp \<noteq> None))" by blast
    obtain res1 h2 where t: "try_new h1 k import_err = (res1, h2)" by (rule prod.exhaust)
    have "accounted h1 ((k, TableKind) # hs) L" using accounted_mint(1) [OF assms(2) k(1)] by simp
    from try_new_accounted [OF t this] show ?thesis
      using assms(1) r k(2) t False by (cases res1) (auto simp: schema_table_def)
  qed
qed

lemma engine_step_accounted:
  assumes "engine_step x y" and "accounted (en_handles x) (holdings x) (en_leaked x)"
  shows "accounted (en_handles y) (holdings y) (en_leaked y)"
  using assms
proof (induction rule: engine_step.induct)
  case (reg_table o' x name p e s')
  then show ?case using reg_table_accounted by (fastforce simp: holdings_def)
next
  case (reg_function o' x u e s')
  then show ?case using reg_function_accounted by (fastforce simp: holdings_def)
next
  case (reg_catalog utf8 x name c e s')
  then show ?case using reg_catalog_accounted by (fastforce simp: holdings_def)
next
  case (find_schema n x name res h)
  let ?y = "set_handles x h\<lparr>en_schemas := (case res of Returns (Some k) \<Rightarrow> [k] | _ \<Rightarrow> []) @ en_schemas x\<rparr>"
  have "accounted h (holdings ?y) (en_leaked x)"
    by (rule accounted_perm [OF catalog_schema_accounted [OF find_schema(2,3)]])
      (auto simp: holdings_def set_handles_def session_holdings_simps comp_def)
  then show ?case by (simp add: set_handles_def)
next
  case (find_table n x name import_err res h)
  let ?y = "set_handles x h\<lparr>en_tables := (case res of Inr (Some k) \<Rightarrow> [k] | _ \<Rightarrow> []) @ en_tables x\<rparr>"
  have "accounted h (holdings ?y) (en_leaked x)"
    by (rule accounted_perm [OF schema_table_accounted [OF find_table(2,3)]])
      (auto simp: holdings_def set_handles_def session_holdings_simps comp_def)
  then show ?case by (simp add: set_handles_def)
next
  case (drop_schema x ks n ks')
  let ?y = "set_handles x (go_schema_release (en_handles x) n)\<lparr>en_schemas := ks @ ks'\<rparr>"
  have "accounted (en_handles x) ((n, SchemaKind) # holdings ?y) (en_leaked x)"
    by (rule accounted_perm [OF drop_schema(2)])
      (auto simp: holdings_def set_handles_def session_holdings_simps drop_schema(1) comp_def)
  from accounted_release [OF this] show ?case by (simp add: releases set_handles_def)
next
  case (drop_table x ks n ks')
  let ?y = "set_handles x (go_table_release (en_handles x) n)\<lparr>en_tables := ks @ ks'\<rparr>"
  have "accounted (en_handles x) ((n, TableKind) # holdings ?y) (en_leaked x)"
    by (rule accounted_perm [OF drop_table(2)])
      (auto simp: holdings_def set_handles_def session_holdings_simps drop_table(1) comp_def)
  from accounted_release [OF this] show ?case by (simp add: releases set_handles_def)
next
  case (session_freed x)
  then show ?case using free_accounted by (fastforce simp: holdings_def)
next
  case (provider_changed x n v v')
  let ?h = "en_handles x\<lparr>h_live := (h_live (en_handles x))(n \<mapsto> v')\<rparr>"
  have "accounted ?h (holdings x) (en_leaked x)"
    unfolding accounted_def
  proof (intro conjI)
    show "handles_ok ?h" using provider_changed by (auto simp: accounted_def handles_ok_def)
    show "\<forall>m. count_list (map fst (holdings x)) m + of_bool (m \<in> en_leaked x) = (of_bool (h_live ?h m \<noteq> None) :: nat)"
      using provider_changed by (auto simp: accounted_def)
    show "\<forall>(m, k) \<in> set (holdings x). map_option kind_of (h_live ?h m) = Some k"
      using provider_changed by (fastforce simp: accounted_def)
  qed
  then show ?case by (simp add: set_handles_def holdings_def session_holdings_simps)
qed

lemma closed_holds_nothing:
  assumes "engine_step x y" and "ss_closed (en_session x) \<longrightarrow> session_holdings (en_session x) = []"
  shows "ss_closed (en_session y) \<longrightarrow> session_holdings (en_session y) = []"
  using assms
proof (induction rule: engine_step.induct)
  case (reg_table o' x name p e s')
  then have "ss_closed s' = ss_closed (en_session x)" "ss_closed (en_session x) \<longrightarrow> s' = en_session x"
    by (auto simp: register_table_in_def RegisterTable_def session.defs split: option.splits prod.splits)
  with reg_table show ?case by simp
next
  case (reg_function o' x u e s')
  then have "ss_closed s' = ss_closed (en_session x)" "ss_closed (en_session x) \<longrightarrow> s' = en_session x"
    by (auto simp: RegisterScalarUDF_def df_session_register_scalar_udf_def Let_def split: option.splits prod.splits if_splits)
  with reg_function show ?case by simp
next
  case (reg_catalog utf8 x name c e s')
  then have "ss_closed s' = ss_closed (en_session x)" "ss_closed (en_session x) \<longrightarrow> s' = en_session x"
    by (auto simp: RegisterCatalog_def df_session_register_catalog_def Let_def split: option.splits prod.splits if_splits)
  with reg_catalog show ?case by simp
next
  case (session_freed x)
  then show ?case
    by (simp add: free_session_def session_holdings_def table_handles_def catalog_handles_def List.map_filter_simps)
qed (simp_all add: set_handles_def session_holdings_simps)

section \<open>No callback on a dead handle\<close>

text \<open>The engine at its start: \<open>df_session_new\<close>, before any handle.\<close>

definition new_engine :: "string set \<Rightarrow> string \<Rightarrow> engine" where
  "new_engine builtins dflt =
     \<lparr>en_session = \<lparr>ss_closed = False, ss_handles = \<lparr>h_next = 0, h_live = Map.empty\<rparr>, ss_tables = [],
        es_functions = [], es_builtins = builtins, es_default_catalog = dflt, es_catalogs = [(dflt, None)]\<rparr>,
      en_schemas = [], en_tables = [], en_leaked = {}\<rparr>"

text \<open>A callback of the object's kind finds its provider: \<open>Value\<close> and the type assertion do not panic.\<close>

definition callable :: "handles \<Rightarrow> nat \<Rightarrow> kind \<Rightarrow> bool" where
  "callable h n k =
     (case k of
        TableKind \<Rightarrow> (case handle_value h n as_table of Returns p \<Rightarrow> True | Panics m \<Rightarrow> False)
      | FunctionKind \<Rightarrow> (case handle_value h n as_udf of Returns u \<Rightarrow> True | Panics m \<Rightarrow> False)
      | CatalogKind \<Rightarrow> (case handle_value h n as_catalog of Returns c \<Rightarrow> True | Panics m \<Rightarrow> False)
      | SchemaKind \<Rightarrow> (case handle_value h n as_schema of Returns c \<Rightarrow> True | Panics m \<Rightarrow> False))"

lemma callable_kind: "map_option kind_of (h_live h n) = Some k \<Longrightarrow> callable h n k"
  by (cases "h_live h n"; cases "the (h_live h n)")
    (auto simp: callable_def handle_value_def as_table_def as_udf_def as_catalog_def as_schema_def)

lemma accounted_owners:
  assumes "accounted h hs L"
  shows "distinct (map fst hs)" and "{n. h_live h n \<noteq> None} = fst ` set hs \<union> L" and "fst ` set hs \<inter> L = {}"
    and "\<forall>(n, k) \<in> set hs. callable h n k"
proof -
  have cnt: "count_list (map fst hs) n + of_bool (n \<in> L) = (of_bool (h_live h n \<noteq> None) :: nat)" for n
    using assms by (auto simp: accounted_def)
  have mem: "n \<in> fst ` set hs \<longleftrightarrow> count_list (map fst hs) n \<noteq> 0" for n
    using count_list_0_iff [of "map fst hs" n] by simp
  have le: "count_list (map fst hs) n \<le> 1" for n using cnt [of n] by (auto simp: of_bool_def split: if_splits)
  have "distinct xs" if "\<And>n. count_list xs n \<le> 1" for xs :: "nat list"
    using that
  proof (induction xs)
    case (Cons a xs)
    have "count_list xs n \<le> 1" for n using Cons.prems [of n] by (auto split: if_splits)
    moreover have "count_list xs a = 0" using Cons.prems [of a] by simp
    ultimately show ?case using Cons.IH by (simp add: count_list_0_iff)
  qed simp
  with le show "distinct (map fst hs)" by blast
  have "h_live h n \<noteq> None \<longleftrightarrow> n \<in> fst ` set hs \<or> n \<in> L" for n
    using cnt [of n] mem [of n] by (cases "n \<in> L"; cases "h_live h n = None") simp_all
  then show "{n. h_live h n \<noteq> None} = fst ` set hs \<union> L" by blast
  show "fst ` set hs \<inter> L = {}"
  proof (rule ccontr)
    assume "fst ` set hs \<inter> L \<noteq> {}"
    then obtain n where "n \<in> fst ` set hs" "n \<in> L" by blast
    then show False using cnt [of n] mem [of n] by (auto simp: of_bool_def split: if_splits)
  qed
  show "\<forall>(n, k) \<in> set hs. callable h n k" using assms callable_kind by (auto simp: accounted_def)
qed

lemma handles_owned:
  assumes "engine_step\<^sup>*\<^sup>* (new_engine builtins dflt) x"
  shows "(\<forall>(n, k) \<in> set (holdings x). callable (en_handles x) n k) \<and>
    distinct (map fst (holdings x)) \<and> fst ` set (holdings x) \<inter> en_leaked x = {} \<and>
    {n. h_live (en_handles x) n \<noteq> None} = fst ` set (holdings x) \<union> en_leaked x \<and>
    (ss_closed (en_session x) \<and> en_schemas x = [] \<and> en_tables x = [] \<longrightarrow>
       {n. h_live (en_handles x) n \<noteq> None} = en_leaked x)"
proof -
  have "accounted (en_handles x) (holdings x) (en_leaked x) \<and>
      (ss_closed (en_session x) \<longrightarrow> session_holdings (en_session x) = [])"
    using assms
  proof (induction rule: rtranclp_induct)
    case base
    show ?case
      by (simp add: accounted_def new_engine_def holdings_def session_holdings_def table_handles_def catalog_handles_def
          handles_ok_def List.map_filter_simps)
  next
    case (step y z)
    then show ?case using engine_step_accounted closed_holds_nothing by blast
  qed
  then have acc: "accounted (en_handles x) (holdings x) (en_leaked x)"
    and closed: "ss_closed (en_session x) \<longrightarrow> session_holdings (en_session x) = []" by blast+
  note own = accounted_owners [OF acc]
  have "{n. h_live (en_handles x) n \<noteq> None} = en_leaked x"
    if "ss_closed (en_session x) \<and> en_schemas x = [] \<and> en_tables x = []"
    using own(2) closed that by (simp add: holdings_def)
  with own show ?thesis by blast
qed

text \<open>C21: Whatever is registered (with whatever outcome), looked up through catalogs and dropped, in any
  order, every object of the engine can call its Go provider: its handle is live and of its kind.
  Every live handle has exactly one owner, which releases it when it is dropped, except those that
  failed registrations leaked; once the session is freed and the queries' schemas and tables are
  dropped, only the leaked ones are left.\<close>

theorem engine_handles_owned:
  assumes "engine_step\<^sup>*\<^sup>* (new_engine builtins dflt) x"
  shows "(\<forall>(n, k) \<in> set (holdings x). callable (en_handles x) n k) \<and>
    distinct (map fst (holdings x)) \<and> fst ` set (holdings x) \<inter> en_leaked x = {} \<and>
    {n. h_live (en_handles x) n \<noteq> None} = fst ` set (holdings x) \<union> en_leaked x \<and>
    (ss_closed (en_session x) \<and> en_schemas x = [] \<and> en_tables x = [] \<longrightarrow>
       {n. h_live (en_handles x) n \<noteq> None} = en_leaked x)"
  using assms by (rule handles_owned)

definition demo_catalog :: catalog_provider where
  "demo_catalog = \<lparr>cp_SchemaNames = Returns (Inr None), cp_Schema = (\<lambda>name. Returns (Inr (None, False)))\<rparr>"

text \<open>A catalog, a table whose name is not UTF-8, and the end: the table's handle is what is left.\<close>

theorem engine_handles_owned_witness:
  "\<exists>x. engine_step\<^sup>*\<^sup>* (new_engine {} ''df'') x \<and> ss_closed (en_session x) \<and> {n. h_live (en_handles x) n \<noteq> None} = {2}"
proof -
  define x where "x = new_engine {} ''df''"
  let ?p = "\<lparr>tp_Schema = Returns None, tp_Scan = Returns (Inr None), tp_ScanWithOptions = None, tp_InsertInto = None\<rparr>"
  let ?o = "\<lparr>eo_utf8 = False, eo_reference = id, eo_exist_err = None, eo_import_err = None, eo_register_err = None\<rparr>"
  obtain e1 s1 where r1: "RegisterCatalog True (en_session x) ''w'' (Some demo_catalog) = (e1, s1)" by (rule prod.exhaust)
  define x1 where "x1 = x\<lparr>en_session := s1, en_leaked := en_leaked x \<union> catalog_leak True (en_session x) (Some demo_catalog)\<rparr>"
  obtain e2 s2 where r2: "register_table_in ?o (en_session x1) ''t'' (Some ?p) = (e2, s2)" by (rule prod.exhaust)
  define x2 where "x2 = x1\<lparr>en_session := s2, en_leaked := en_leaked x1 \<union> table_leak ?o (en_session x1) (Some ?p)\<rparr>"
  define x3 where "x3 = x2\<lparr>en_session := free_session (en_session x2)\<rparr>"
  have s1: "\<not> ss_closed s1" "h_next (ss_handles s1) = 1"
    using r1 by (auto simp: RegisterCatalog_def x_def new_engine_def NewHandle_def df_session_register_catalog_def Let_def c_string_def
        catalog_handles_def List.map_filter_simps split: if_splits)
  have s2: "\<not> ss_closed s2"
    using r2 s1 by (auto simp: x1_def register_table_in_def RegisterTable_def session.defs df_session_register_table_def NewHandle_def)
  have leaked: "en_leaked x3 = {2}"
    using s1 by (auto simp: x_def x1_def x2_def x3_def catalog_leak_def table_leak_def new_engine_def)
  have "engine_step x x1" unfolding x1_def by (rule reg_catalog [OF r1])
  moreover have "engine_step x1 x2" unfolding x2_def by (rule reg_table [OF r2])
  moreover have "engine_step x2 x3" unfolding x3_def by (rule session_freed) (simp add: s2 x2_def)
  ultimately have reach: "engine_step\<^sup>*\<^sup>* (new_engine {} ''df'') x3"
    unfolding x_def by (meson converse_rtranclp_into_rtranclp r_into_rtranclp)
  have closed: "ss_closed (en_session x3) \<and> en_schemas x3 = [] \<and> en_tables x3 = []"
    by (simp add: x3_def x2_def x1_def x_def new_engine_def free_session_def)
  have "{n. h_live (en_handles x3) n \<noteq> None} = en_leaked x3"
    by (rule engine_handles_owned [OF reach, THEN conjunct2, THEN conjunct2, THEN conjunct2, THEN conjunct2, THEN mp, OF closed])
  with reach closed leaked show ?thesis by (intro exI [of _ x3]) simp
qed

end
