(* ===== verification/Extend_Example.thy ===== *)
theory Extend_Example
  imports Callbacks
begin

text \<open>
  \<open>examples/extend/main.go\<close>: tables, a function and a catalog written in Go, as the engine
  sees them through the callbacks. The catalog is mutable: a handle to it stands for its
  state at the time of the call.
\<close>

section \<open>Tables\<close>

definition nullable_field :: "string \<Rightarrow> dtype \<Rightarrow> Field" where
  "nullable_field name dt = \<lparr>field_name = name, field_type = dt, field_nullable = True, field_metadata = []\<rparr>"

definition peopleSchema :: "Field list" where
  "peopleSchema = [nullable_field ''id'' Int64DT, nullable_field ''name'' StringDT]"

definition peopleTable_Scan :: "Field list \<Rightarrow> (string + RecordReader option) call" where
  "peopleTable_Scan schema =
     Returns (Inr (Some (LibReader schema
       [\<lparr>b_fields = schema,
         b_columns =
           [map (\<lambda>n. Some (IntCell n)) [1, 2, 3, 4],
            map (\<lambda>s. Some (BytesCell (bytes_of_string s))) [''alice'', ''bob'', ''carol'', ''dave'']],
         b_numRows = 4\<rparr>] None None 1)))"

definition peopleTable :: "Field list \<Rightarrow> table_provider" where
  "peopleTable schema =
     \<lparr>tp_Schema = Returns (Some \<lparr>schema_fields = schema, schema_metadata = []\<rparr>), tp_Scan = peopleTable_Scan schema,
      tp_ScanWithOptions = None, tp_InsertInto = None\<rparr>"

definition intTable_Schema :: "Field list" where
  "intTable_Schema = [nullable_field ''n'' Int64DT]"

definition intTable_Scan :: "i64 list \<Rightarrow> (string + RecordReader option) call" where
  "intTable_Scan values =
     Returns (Inr (Some (LibReader intTable_Schema
       [\<lparr>b_fields = intTable_Schema, b_columns = [map (\<lambda>n. Some (IntCell n)) values],
         b_numRows = of_nat (length values)\<rparr>] None None 1)))"

definition intTable :: "i64 list \<Rightarrow> table_provider" where
  "intTable values =
     \<lparr>tp_Schema = Returns (Some \<lparr>schema_fields = intTable_Schema, schema_metadata = []\<rparr>), tp_Scan = intTable_Scan values,
      tp_ScanWithOptions = None, tp_InsertInto = None\<rparr>"

section \<open>The function \<open>double\<close>\<close>

text \<open>The argument is asserted to be an array of \<open>int64\<close>; the product wraps.\<close>

definition double_cell :: "cell option \<Rightarrow> cell option call" where
  "double_cell c =
     (case c of
        None \<Rightarrow> Returns None
      | Some (IntCell n) \<Rightarrow> Returns (Some (IntCell (n * 2)))
      | Some other \<Rightarrow> Panics ''interface conversion'')"

fun double_column :: "column \<Rightarrow> column call" where
  "double_column [] = Returns []"
| "double_column (c # cs) =
     call_bind (double_cell c) (\<lambda>d. call_bind (double_column cs) (\<lambda>ds. Returns (d # ds)))"

definition double_Evaluate :: "column list \<Rightarrow> (string + column option) call" where
  "double_Evaluate args =
     (case args of
        [] \<Rightarrow> Panics ''index out of range''
      | col # rest \<Rightarrow> call_bind (double_column col) (\<lambda>out. Returns (Inr (Some out))))"

definition double_udf :: "udf_err + scalar_udf" where
  "double_udf = NewScalarUDF ''double'' [Some Int64DT] (Some Int64DT) (Some double_Evaluate)"

section \<open>The catalog\<close>

text \<open>\<open>range\<close> over a map visits its keys in an unspecified order, here an argument.\<close>

record warehouseCatalog =
  wh_tables :: "string \<Rightarrow> table_provider option"

definition newWarehouseCatalog :: warehouseCatalog where
  "newWarehouseCatalog = \<lparr>wh_tables = Map.empty\<rparr>"

definition addTable :: "warehouseCatalog \<Rightarrow> string \<Rightarrow> table_provider \<Rightarrow> warehouseCatalog" where
  "addTable w name tbl = w\<lparr>wh_tables := (wh_tables w)(name \<mapsto> tbl)\<rparr>"

definition wh_TableNames :: "string list \<Rightarrow> (string + string list option) call" where
  "wh_TableNames visited = Returns (Inr (Some visited))"

definition wh_Table :: "warehouseCatalog \<Rightarrow> string \<Rightarrow> (string + (table_provider option \<times> bool)) call" where
  "wh_Table w name = Returns (Inr (wh_tables w name, wh_tables w name \<noteq> None))"

definition wh_schema :: "warehouseCatalog \<Rightarrow> string list \<Rightarrow> schema_provider" where
  "wh_schema w visited = \<lparr>sp_TableNames = wh_TableNames visited, sp_Table = wh_Table w\<rparr>"

definition wh_SchemaNames :: "(string + string list option) call" where
  "wh_SchemaNames = Returns (Inr (Some [''public'']))"

definition wh_Schema ::
  "warehouseCatalog \<Rightarrow> string list \<Rightarrow> string \<Rightarrow> (string + (schema_provider option \<times> bool)) call" where
  "wh_Schema w visited name =
     (if name \<noteq> ''public'' then Returns (Inr (None, False)) else Returns (Inr (Some (wh_schema w visited), True)))"

definition wh_catalog :: "warehouseCatalog \<Rightarrow> string list \<Rightarrow> catalog_provider" where
  "wh_catalog w visited = \<lparr>cp_SchemaNames = wh_SchemaNames, cp_Schema = wh_Schema w visited\<rparr>"

section \<open>What the engine sees\<close>

text \<open>The state behind a handle of the catalog changes when a table is added.\<close>

definition points_to :: "handles \<Rightarrow> nat \<Rightarrow> go_impl \<Rightarrow> handles" where
  "points_to h n v = h\<lparr>h_live := (h_live h)(n \<mapsto> v)\<rparr>"

lemma points_to_value [simp]: "h_live (points_to h n v) = (h_live h)(n \<mapsto> v)" "h_next (points_to h n v) = h_next h"
  by (simp_all add: points_to_def)

lemma double_column_eq:
  "double_column (map (map_option IntCell) ns) = Returns (map (map_option (\<lambda>n. IntCell (n * 2))) ns)"
  by (induction ns) (simp_all add: double_cell_def split: option.splits)

lemma double_invoked:
  assumes "double_udf = Inr u" "h_live h k = Some (UdfImpl u)"
  shows "go_scalar_udf_invoke h k (Inr (Some [map (map_option IntCell) ns])) =
    Inr (map (map_option (\<lambda>n. IntCell (n * 2))) ns)"
proof -
  have "su_Evaluate u = double_Evaluate"
    using assms(1) by (auto simp: double_udf_def NewScalarUDF_def split: if_splits)
  then show ?thesis using assms(2)
    by (simp add: go_scalar_udf_invoke_def handle_value_def as_udf_def double_Evaluate_def double_column_eq
        trapCallbackPanic_def)
qed

text \<open>
  From the handle of the catalog to the rows of one of its tables: the schema's lookup and
  the table's each mint a handle, and the scan goes through the last.
\<close>

lemma warehouse_lookup:
  fixes w visited n h
  defines "h1 \<equiv> points_to h n (CatalogImpl (wh_catalog w visited))"
  assumes "wh_tables w name = Some tbl" "n \<le> h_next h"
  obtains k h2 j h3 where
    "go_catalog_schema_lookup h1 n ''public'' = (Inr (Some k), h2)"
    "go_schema_table_lookup h2 k name = (Inr (Some (j, tp_ScanWithOptions tbl \<noteq> None)), h3)"
    "h_live h3 j = Some (TableImpl tbl)"
proof -
  let ?h2 = "snd (NewHandle h1 (SchemaImpl (wh_schema w visited)))"
  let ?k = "Suc (h_next h)"
  let ?h3 = "snd (NewHandle ?h2 (TableImpl tbl))"
  have "go_catalog_schema_lookup h1 n ''public'' = (Inr (Some ?k), ?h2)"
    by (simp add: go_catalog_schema_lookup_def h1_def handle_value_def as_catalog_def wh_catalog_def wh_Schema_def
        trapCallbackPanic_def NewHandle_def)
  moreover have "go_schema_table_lookup ?h2 ?k name = (Inr (Some (Suc ?k, tp_ScanWithOptions tbl \<noteq> None)), ?h3)"
    using assms(2)
    by (simp add: go_schema_table_lookup_def h1_def handle_value_def as_schema_def wh_schema_def wh_Table_def
        trapCallbackPanic_def NewHandle_def)
  moreover have "h_live ?h3 (Suc ?k) = Some (TableImpl tbl)" by (simp add: NewHandle_def h1_def)
  ultimately show ?thesis using that by blast
qed

text \<open>A table added at any time is found by name and scanned: its one column holds its values.\<close>

lemma added_table_scanned:
  fixes w visited n h name vals
  defines "h1 \<equiv> points_to h n (CatalogImpl (wh_catalog (addTable w name (intTable vals)) visited))"
  assumes "n \<le> h_next h"
  shows "\<exists>k h2 j h3 reader.
    go_catalog_schema_lookup h1 n ''public'' = (Inr (Some k), h2) \<and>
    go_schema_table_lookup h2 k name = (Inr (Some (j, False)), h3) \<and>
    go_table_scan h3 j len projection filters limit = Inr reader \<and>
    rd_Schema reader = intTable_Schema \<and>
    map b_columns (rd_pending reader) = [[map (\<lambda>n. Some (IntCell n)) vals]]"
proof -
  have "wh_tables (addTable w name (intTable vals)) name = Some (intTable vals)" by (simp add: addTable_def)
  from warehouse_lookup [OF this assms(2), of visited] obtain k h2 j h3 where
    l: "go_catalog_schema_lookup h1 n ''public'' = (Inr (Some k), h2)"
    "go_schema_table_lookup h2 k name = (Inr (Some (j, tp_ScanWithOptions (intTable vals) \<noteq> None)), h3)"
    "h_live h3 j = Some (TableImpl (intTable vals))"
    unfolding h1_def by blast
  have "tp_ScanWithOptions (intTable vals) = None" by (simp add: intTable_def)
  note l(2) [unfolded this, simplified]
  moreover have "go_table_scan h3 j len projection filters limit =
    Inr (LibReader intTable_Schema
      [\<lparr>b_fields = intTable_Schema, b_columns = [map (\<lambda>n. Some (IntCell n)) vals],
        b_numRows = of_nat (length vals)\<rparr>] None None 1)"
    using l(3) by (simp add: go_table_scan_def handle_value_def as_table_def intTable_def intTable_Scan_def trapCallbackPanic_def)
  ultimately show ?thesis using l(1) by auto
qed

lemma unknown_names_not_found:
  assumes "name \<noteq> ''public''"
  shows "go_catalog_schema_lookup (points_to h n (CatalogImpl (wh_catalog w visited))) n name =
    (Inr None, points_to h n (CatalogImpl (wh_catalog w visited)))"
  using assms
  by (simp add: go_catalog_schema_lookup_def handle_value_def as_catalog_def wh_catalog_def wh_Schema_def trapCallbackPanic_def)

end
