(* ===== verification/Engine_Glue.thy ===== *)
theory Engine_Glue
  imports Engine_Handles Engine_Classify Extend_Example
begin

text \<open>
  The engine's function over a handle (\<open>rust/datafusion-c-abi/src/udf.rs\<close>) and the lists of names it
  asks catalogs for (\<open>catalog.rs\<close>, \<open>ffi.rs\<close>).
\<close>

section \<open>Functions\<close>

record GoScalarUdf =
  gu_name :: string
  gu_handle :: nat
  gu_arg_fields :: "Field list"
  gu_return_type :: dtype

text \<open>An argument is an array or one value for all rows; its type comes first.\<close>

datatype ColumnarValue = ColumnArray dtype column | ColumnScalar dtype "cell option"

definition into_array :: "nat \<Rightarrow> ColumnarValue \<Rightarrow> dtype \<times> column" where
  "into_array num_rows v = (case v of ColumnArray dt c \<Rightarrow> (dt, c) | ColumnScalar dt x \<Rightarrow> (dt, replicate num_rows x))"

text \<open>\<open>StructArray::try_new\<close>: one array per field, of its type, all of one length; no null where none may be.\<close>

definition struct_try_new :: "Field list \<Rightarrow> (dtype \<times> column) list \<Rightarrow> column list option" where
  "struct_try_new fs arrays =
     (if map field_type fs = map fst arrays \<and> list_all (\<lambda>a. length (snd a) = length (snd (hd arrays))) arrays \<and>
         list_all2 (\<lambda>f a. field_nullable f \<or> None \<notin> set (snd a)) fs arrays
      then Some (map snd arrays) else None)"

datatype invoke_err =
    Bundling string
  | UdfFailed string callback_err
  | ImportingResult string string
  | WrongType string dtype dtype
  | WrongRows string nat nat

text \<open>
  \<open>type_of\<close> is the type of the array Go returns, \<open>import_err\<close> the outcome of importing it. The
  export of the arguments and their import by Go are the Arrow library's and do not fail here.
\<close>

definition invoke_with_args ::
  "(column \<Rightarrow> dtype) \<Rightarrow> handles \<Rightarrow> GoScalarUdf \<Rightarrow> ColumnarValue list \<Rightarrow> nat \<Rightarrow> string option \<Rightarrow> invoke_err + column" where
  "invoke_with_args type_of h u args num_rows import_err =
     (let arrays = map (into_array num_rows) args;
          bundled = (if arrays = [] then Some [] else struct_try_new (gu_arg_fields u) arrays)
      in case bundled of
           None \<Rightarrow> Inl (Bundling (gu_name u))
         | Some cols \<Rightarrow>
             (case go_scalar_udf_invoke h (gu_handle u) (Inr (Some cols)) of
                Inl e \<Rightarrow> Inl (UdfFailed (gu_name u) e)
              | Inr out \<Rightarrow>
                  (case import_err of
                     Some e \<Rightarrow> Inl (ImportingResult (gu_name u) e)
                   | None \<Rightarrow>
                       if type_of out \<noteq> gu_return_type u then Inl (WrongType (gu_name u) (type_of out) (gu_return_type u))
                       else if length out \<noteq> num_rows then Inl (WrongRows (gu_name u) (length out) num_rows)
                       else Inr out)))"

text \<open>What the engine goes on with has the declared type and a row for each of the batch.\<close>

lemma invoke_result:
  assumes "invoke_with_args type_of h u args num_rows import_err = Inr out"
  shows "type_of out = gu_return_type u" and "length out = num_rows"
    and "go_scalar_udf_invoke h (gu_handle u) (Inr (Some (map (snd \<circ> into_array num_rows) args))) = Inr out"
  using assms
  by (auto simp: invoke_with_args_def Let_def struct_try_new_def split: option.splits sum.splits if_splits)

text \<open>A panic of the function is an error of the query.\<close>

lemma invoke_panic:
  assumes "h_live h (gu_handle u) = Some (UdfImpl p)"
    and "su_Evaluate p (map (snd \<circ> into_array num_rows) args) = Panics m"
  shows "\<exists>e. invoke_with_args type_of h u args num_rows import_err = Inl e"
proof (cases "invoke_with_args type_of h u args num_rows import_err")
  case (Inr out)
  from invoke_result(3) [OF this] show ?thesis
    using assms by (simp add: go_scalar_udf_invoke_def handle_value_def as_udf_def trapCallbackPanic_def)
qed blast

text \<open>The function of \<open>examples/extend\<close>, on any batch of integers.\<close>

lemma double_through_engine:
  assumes "double_udf = Inr p" and "h_live h k = Some (UdfImpl p)" and "\<And>c. type_of c = Int64DT"
    and "u = \<lparr>gu_name = ''double'', gu_handle = k, gu_arg_fields = udf_arg_fields p, gu_return_type = su_ReturnType p\<rparr>"
  shows "invoke_with_args type_of h u [ColumnArray Int64DT (map (map_option IntCell) ns)] (length ns) None =
    Inr (map (map_option (\<lambda>n. IntCell (n * 2))) ns)"
proof -
  have p: "su_ArgTypes p = [Int64DT]" "su_ReturnType p = Int64DT"
    using assms(1) by (auto simp: double_udf_def NewScalarUDF_def split: if_splits)
  show ?thesis
    using double_invoked [OF assms(1,2), of ns] p
    by (simp add: invoke_with_args_def into_array_def struct_try_new_def udf_arg_fields_def assms(3,4))
qed

section \<open>Lists of names\<close>

definition json_string :: "json \<Rightarrow> string option" where
  "json_string j = (case j of JString s \<Rightarrow> Some s | _ \<Rightarrow> None)"

definition decode_name_list :: "json \<Rightarrow> string list option" where
  "decode_name_list j = (case j of JArray js \<Rightarrow> omap json_string js | _ \<Rightarrow> None)"

text \<open>Both listings have no error to return: a failure is a panic, which the statement reports.\<close>

definition names_or_panic :: "string \<Rightarrow> callback_err + json \<Rightarrow> string list call" where
  "names_or_panic what r =
     (case r of
        Inl e \<Rightarrow> Panics what
      | Inr j \<Rightarrow> (case decode_name_list j of None \<Rightarrow> Panics what | Some ns \<Rightarrow> Returns ns))"

definition schema_names :: "handles \<Rightarrow> nat \<Rightarrow> string list call" where
  "schema_names h n = names_or_panic ''Go catalog schema listing failed'' (go_catalog_schema_names h n)"

definition table_names :: "handles \<Rightarrow> nat \<Rightarrow> string list call" where
  "table_names h n = names_or_panic ''Go schema table listing failed'' (go_schema_table_names h n)"

definition table_exist :: "handles \<Rightarrow> nat \<Rightarrow> string \<Rightarrow> bool call" where
  "table_exist h n name = call_bind (table_names h n) (\<lambda>ns. Returns (name \<in> set ns))"

lemma omap_strings: "omap json_string (map JString ns) = Some ns"
  by (induction ns) (simp_all add: json_string_def)

lemma decode_encode_names: "decode_name_list (encodeNameList names) = Some (case names of None \<Rightarrow> [] | Some ns \<Rightarrow> ns)"
  by (simp add: decode_name_list_def encodeNameList_def omap_strings)

text \<open>The names a schema lists arrive as they are, a nil list as an empty one.\<close>

lemma table_names_exact:
  assumes "h_live h n = Some (SchemaImpl p)" "sp_TableNames p = Returns (Inr names)"
  shows "table_names h n = Returns (case names of None \<Rightarrow> [] | Some ns \<Rightarrow> ns)"
  using assms
  by (simp add: table_names_def names_or_panic_def go_schema_table_names_def handle_value_def as_schema_def trapCallbackPanic_def
      decode_encode_names)

lemma schema_names_exact:
  assumes "h_live h n = Some (CatalogImpl p)" "cp_SchemaNames p = Returns (Inr names)"
  shows "schema_names h n = Returns (case names of None \<Rightarrow> [] | Some ns \<Rightarrow> ns)"
  using assms
  by (simp add: schema_names_def names_or_panic_def go_catalog_schema_names_def handle_value_def as_catalog_def
      trapCallbackPanic_def decode_encode_names)

text \<open>
  A provider that lists the tables it finds, as the warehouse does when \<open>range\<close> visits each key: the
  engine's \<open>table_exist\<close> agrees with its lookup.
\<close>

definition lists_its_tables :: "schema_provider \<Rightarrow> bool" where
  "lists_its_tables p \<longleftrightarrow>
     (\<exists>ns. sp_TableNames p = Returns (Inr (Some ns)) \<and>
        (\<forall>name. \<exists>t. sp_Table p name = Returns (Inr (t, name \<in> set ns)) \<and> (name \<in> set ns \<longrightarrow> t \<noteq> None)))"

lemma warehouse_lists_its_tables: "set visited = dom (wh_tables w) \<Longrightarrow> lists_its_tables (wh_schema w visited)"
  by (auto simp: lists_its_tables_def wh_schema_def wh_TableNames_def wh_Table_def dom_def)

lemma table_exist_iff_found:
  assumes "h_live h n = Some (SchemaImpl p)" "lists_its_tables p"
  shows "table_exist h n name = Returns (\<exists>k pushdown. fst (go_schema_table_lookup h n name) = Inr (Some (k, pushdown)))"
proof -
  obtain ns t where p: "sp_TableNames p = Returns (Inr (Some ns))" "sp_Table p name = Returns (Inr (t, name \<in> set ns))"
    "name \<in> set ns \<longrightarrow> t \<noteq> None"
    using assms(2) unfolding lists_its_tables_def by blast
  have "table_exist h n name = Returns (name \<in> set ns)"
    using table_names_exact [OF assms(1) p(1)] by (simp add: table_exist_def)
  moreover have "(\<exists>k pushdown. fst (go_schema_table_lookup h n name) = Inr (Some (k, pushdown))) \<longleftrightarrow> name \<in> set ns"
    using assms(1) p(2,3)
    by (auto simp: go_schema_table_lookup_def handle_value_def as_schema_def trapCallbackPanic_def
        split: option.splits prod.splits)
  ultimately show ?thesis by simp
qed

end
