(* ===== verification/Go_Programs.thy ===== *)
theory Go_Programs
  imports Engine_Handles Readers "HOL-Library.Multiset"
begin

text \<open>
  What the main programs under \<open>examples/\<close> are made of: calls that may fail, after which
  \<open>log.Fatalf\<close> ends the process without running deferred calls; resources that are acquired and
  released; deferred releases, which run on a return and on a panic; a session and what is registered
  on it; results that are read and printed. A triple \<open>moves\<close> says which resources a program adds to those
  it found, and that the engine's handles stay accounted for.
\<close>

section \<open>The world of a program\<close>

datatype resource =
    TempDirRes
  | FileRes string
  | SessionRes
  | ReaderRes string
  | BuilderRes string
  | RecordRes string
  | ServerRes

datatype printed = PrintText string | PrintSchema "Field list" | PrintShape u64 nat | PrintBatch Batch

text \<open>
  \<open>w_calls\<close> numbers the calls that can fail, \<open>w_late\<close> is what was still open when the session was
  closed, \<open>w_scans\<close> how often the engine has scanned the in-memory table of the wide-events program.
  Every reference to a record is a resource of its own.
\<close>

record prog_world =
  w_calls :: nat
  w_session :: engine_session
  w_live :: "resource multiset"
  w_late :: "resource multiset"
  w_scans :: nat
  w_out :: "printed list"
  w_written :: "(string \<times> Batch list) list"
  w_fatal :: "string option"

text \<open>
  What the libraries and the engine answer the call of each number: its error, the provider behind a
  location, the result of a query and what the query does to the session's handles, how often the
  statement before it scans a registered table, the outcomes of registrations.
\<close>

record env =
  e_fails :: "nat \<Rightarrow> string option"
  e_opened :: "nat \<Rightarrow> string \<Rightarrow> table_provider"
  e_rows :: "nat \<Rightarrow> string \<Rightarrow> RecordReader"
  e_query :: "nat \<Rightarrow> string \<Rightarrow> engine_session \<Rightarrow> engine_session"
  e_scans :: "nat \<Rightarrow> nat"
  e_table :: "nat \<Rightarrow> engine_outcome"
  e_function :: "nat \<Rightarrow> udf_outcome"
  e_catalog :: "nat \<Rightarrow> bool"
  e_builtins :: "string set"
  e_default :: string

datatype 'a outcome = Done 'a | FatalExit | Panicking string

type_synonym 'a prog = "env \<Rightarrow> prog_world \<Rightarrow> 'a outcome \<times> prog_world"

definition ret :: "'a \<Rightarrow> 'a prog" where
  "ret a = (\<lambda>e w. (Done a, w))"

definition prog_bind :: "'a prog \<Rightarrow> ('a \<Rightarrow> 'b prog) \<Rightarrow> 'b prog" where
  "prog_bind p f = (\<lambda>e w.
     case p e w of
       (Done a, w') \<Rightarrow> f a e w'
     | (FatalExit, w') \<Rightarrow> (FatalExit, w')
     | (Panicking m, w') \<Rightarrow> (Panicking m, w'))"

definition prog_then :: "'a prog \<Rightarrow> 'b prog \<Rightarrow> 'b prog" where
  "prog_then p q = prog_bind p (\<lambda>_. q)"

definition fatal :: "string \<Rightarrow> 'a prog" where
  "fatal what = (\<lambda>e w. (FatalExit, w\<lparr>w_fatal := Some what\<rparr>))"

definition acquire :: "resource \<Rightarrow> unit prog" where
  "acquire r = (\<lambda>e w. (Done (), w\<lparr>w_live := add_mset r (w_live w)\<rparr>))"

definition release :: "resource \<Rightarrow> unit prog" where
  "release r = (\<lambda>e w. (Done (), w\<lparr>w_live := w_live w - {#r#}\<rparr>))"

text \<open>\<open>defer\<close> a release for the rest of the function, \<open>p\<close>.\<close>

definition deferring :: "resource \<Rightarrow> 'a prog \<Rightarrow> 'a prog" where
  "deferring r p = (\<lambda>e w.
     case p e w of
       (Done a, w') \<Rightarrow> (Done a, w'\<lparr>w_live := w_live w' - {#r#}\<rparr>)
     | (FatalExit, w') \<Rightarrow> (FatalExit, w')
     | (Panicking m, w') \<Rightarrow> (Panicking m, w'\<lparr>w_live := w_live w' - {#r#}\<rparr>))"

text \<open>A call that can fail, its failure fatal; the result is its number.\<close>

definition must_call :: "string \<Rightarrow> nat prog" where
  "must_call what = (\<lambda>e w.
     let n = w_calls w; w' = w\<lparr>w_calls := Suc n\<rparr>
     in case e_fails e n of None \<Rightarrow> (Done n, w') | Some m \<Rightarrow> fatal what e w')"

definition print_out :: "printed list \<Rightarrow> unit prog" where
  "print_out ps = (\<lambda>e w. (Done (), w\<lparr>w_out := w_out w @ ps\<rparr>))"

definition write_file :: "string \<Rightarrow> Batch list \<Rightarrow> unit prog" where
  "write_file path bs = (\<lambda>e w. (Done (), w\<lparr>w_written := w_written w @ [(path, bs)]\<rparr>))"

section \<open>Sessions and queries\<close>

definition new_session :: "string \<Rightarrow> unit prog" where
  "new_session what =
     prog_then (must_call what) (\<lambda>e w. (Done (), w\<lparr>w_session := en_session (new_engine (e_builtins e) (e_default e)),
       w_live := add_mset SessionRes (w_live w)\<rparr>))"

definition close_session :: "prog_world \<Rightarrow> prog_world" where
  "close_session w = w\<lparr>w_late := w_live w - {#SessionRes#}, w_live := w_live w - {#SessionRes#},
     w_session := (if ss_closed (w_session w) then w_session w else free_session (w_session w))\<rparr>"

definition deferring_close :: "'a prog \<Rightarrow> 'a prog" where
  "deferring_close p = (\<lambda>e w.
     case p e w of
       (Done a, w') \<Rightarrow> (Done a, close_session w')
     | (FatalExit, w') \<Rightarrow> (FatalExit, w')
     | (Panicking m, w') \<Rightarrow> (Panicking m, close_session w'))"

text \<open>Registering, each outcome numbered like a call.\<close>

definition registering ::
  "string \<Rightarrow> (env \<Rightarrow> nat \<Rightarrow> engine_session \<Rightarrow> register_err option \<times> engine_session) \<Rightarrow> unit prog" where
  "registering what reg = (\<lambda>e w.
     let n = w_calls w in
     case reg e n (w_session w) of
       (None, s) \<Rightarrow> (Done (), w\<lparr>w_calls := Suc n, w_session := s\<rparr>)
     | (Some err, s) \<Rightarrow> fatal what e (w\<lparr>w_calls := Suc n, w_session := s\<rparr>))"

definition register_table :: "string \<Rightarrow> string \<Rightarrow> table_provider \<Rightarrow> unit prog" where
  "register_table what name p = registering what (\<lambda>e n s. register_table_in (e_table e n) s name (Some p))"

definition register_function :: "string \<Rightarrow> scalar_udf \<Rightarrow> unit prog" where
  "register_function what u = registering what (\<lambda>e n s. RegisterScalarUDF (e_function e n) s (Some u))"

definition register_catalog :: "string \<Rightarrow> string \<Rightarrow> catalog_provider \<Rightarrow> unit prog" where
  "register_catalog what name c = registering what (\<lambda>e n s. RegisterCatalog (e_catalog e n) s name (Some c))"

definition open_table :: "string \<Rightarrow> string \<Rightarrow> table_provider prog" where
  "open_table what location = prog_bind (must_call what) (\<lambda>n e w. (Done (e_opened e n location), w))"

definition query :: "string \<Rightarrow> string \<Rightarrow> RecordReader prog" where
  "query what sql =
     prog_bind (must_call what) (\<lambda>n e w.
       if ss_closed (w_session w) then fatal what e w
       else (Done (e_rows e n sql), w\<lparr>w_session := e_query e n sql (w_session w), w_live := add_mset (ReaderRes sql) (w_live w)\<rparr>))"

text \<open>The loop over \<open>Next\<close>, each batch printed by \<open>line\<close>, and the error after it.\<close>

definition print_rows :: "string \<Rightarrow> (Batch \<Rightarrow> printed list) \<Rightarrow> RecordReader \<Rightarrow> unit prog" where
  "print_rows what line reader =
     (let (bs, reader') = readers.drain (Suc (length (rd_pending reader))) reader
      in prog_then (print_out (concat (map line bs)))
           (if rd_Err reader' = None then ret () else fatal what))"

section \<open>Resources and handles\<close>

definition holding :: "engine_session \<Rightarrow> engine" where
  "holding s = \<lparr>en_session = s, en_schemas = [], en_tables = [], en_leaked = {}\<rparr>"

text \<open>A query's objects are dropped with it: it is a run of the engine that ends with none, nothing leaked.\<close>

definition queries_ok :: "env \<Rightarrow> bool" where
  "queries_ok e \<longleftrightarrow>
     (\<forall>n sql s. engine_step\<^sup>*\<^sup>* (holding s) (holding (e_query e n sql s)) \<and> ss_closed (e_query e n sql s) = ss_closed s)"

definition session_inv :: "env \<Rightarrow> prog_world \<Rightarrow> bool" where
  "session_inv e w \<longleftrightarrow> engine_step\<^sup>*\<^sup>* (new_engine (e_builtins e) (e_default e)) (holding (w_session w))"

text \<open>A scan of the in-memory table keeps \<open>k\<close> references of its record: one (\<open>memProvider_Scan\<close>), or none.\<close>

definition scan_refs :: "nat \<Rightarrow> prog_world \<Rightarrow> resource multiset" where
  "scan_refs k w = replicate_mset (k * w_scans w) (RecordRes ''staging'')"

lemma scan_refs_update [simp]:
  "scan_refs k (w\<lparr>w_calls := a\<rparr>) = scan_refs k w" "scan_refs k (w\<lparr>w_session := b\<rparr>) = scan_refs k w"
  "scan_refs k (w\<lparr>w_live := c\<rparr>) = scan_refs k w" "scan_refs k (w\<lparr>w_late := c\<rparr>) = scan_refs k w"
  "scan_refs k (w\<lparr>w_out := d\<rparr>) = scan_refs k w" "scan_refs k (w\<lparr>w_written := f\<rparr>) = scan_refs k w"
  "scan_refs k (w\<lparr>w_fatal := g\<rparr>) = scan_refs k w" "scan_refs 0 w = {#}"
  by (simp_all add: scan_refs_def)

definition moves :: "nat \<Rightarrow> env \<Rightarrow> resource multiset \<Rightarrow> resource multiset \<Rightarrow> 'a prog \<Rightarrow> bool" where
  "moves k e A B p \<longleftrightarrow>
     (\<forall>w C. w_live w = C + A + scan_refs k w \<and> session_inv e w \<longrightarrow>
       (case p e w of
          (Done a, w') \<Rightarrow> w_live w' = C + B + scan_refs k w' \<and> session_inv e w'
        | (FatalExit, w') \<Rightarrow> C \<subseteq># w_live w' \<and> w_fatal w' \<noteq> None
        | (Panicking m, w') \<Rightarrow> True))"

lemma movesI:
  assumes "\<And>w C. w_live w = C + A + scan_refs k w \<Longrightarrow> session_inv e w \<Longrightarrow>
    (case p e w of
       (Done a, w') \<Rightarrow> w_live w' = C + B + scan_refs k w' \<and> session_inv e w'
     | (FatalExit, w') \<Rightarrow> C \<subseteq># w_live w' \<and> w_fatal w' \<noteq> None
     | (Panicking m, w') \<Rightarrow> True)"
  shows "moves k e A B p"
  using assms by (simp add: moves_def)

lemma movesD:
  assumes "moves k e A B p" "w_live w = C + A + scan_refs k w" "session_inv e w"
  shows "case p e w of
       (Done a, w') \<Rightarrow> w_live w' = C + B + scan_refs k w' \<and> session_inv e w'
     | (FatalExit, w') \<Rightarrow> C \<subseteq># w_live w' \<and> w_fatal w' \<noteq> None
     | (Panicking m, w') \<Rightarrow> True"
  using assms by (simp add: moves_def)

lemma moves_ret: "moves k e A A (ret a)"
  by (simp add: moves_def ret_def)

lemma moves_fatal: "moves k e A B (fatal what)"
  by (simp add: moves_def fatal_def)

lemma moves_bind:
  assumes p: "moves k e A B p" and f: "\<And>a. moves k e B D (f a)"
  shows "moves k e A D (prog_bind p f)"
proof (rule movesI)
  fix w C
  assume "w_live w = C + A + scan_refs k w" "session_inv e w"
  note p' = movesD [OF p this]
  obtain x w' where run: "p e w = (x, w')" by (rule prod.exhaust)
  show "case prog_bind p f e w of
       (Done a, w') \<Rightarrow> w_live w' = C + D + scan_refs k w' \<and> session_inv e w'
     | (FatalExit, w') \<Rightarrow> C \<subseteq># w_live w' \<and> w_fatal w' \<noteq> None
     | (Panicking m, w') \<Rightarrow> True"
    using p' movesD [OF f] by (cases x) (auto simp: prog_bind_def run)
qed

lemma moves_then: "moves k e A B p \<Longrightarrow> moves k e B D q \<Longrightarrow> moves k e A D (prog_then p q)"
  unfolding prog_then_def by (rule moves_bind)

lemma moves_acquire: "moves k e A (add_mset r A) (acquire r)"
  by (simp add: moves_def acquire_def session_inv_def)

lemma moves_release: "moves k e (add_mset r A) A (release r)"
  by (simp add: moves_def release_def session_inv_def)

lemma moves_deferring:
  assumes "moves k e A (add_mset r B) p"
  shows "moves k e A B (deferring r p)"
proof (rule movesI)
  fix w C
  assume "w_live w = C + A + scan_refs k w" "session_inv e w"
  note p = movesD [OF assms this]
  obtain x w' where run: "p e w = (x, w')" by (rule prod.exhaust)
  show "case deferring r p e w of
       (Done a, w') \<Rightarrow> w_live w' = C + B + scan_refs k w' \<and> session_inv e w'
     | (FatalExit, w') \<Rightarrow> C \<subseteq># w_live w' \<and> w_fatal w' \<noteq> None
     | (Panicking m, w') \<Rightarrow> True"
    using p by (cases x) (auto simp: deferring_def run session_inv_def)
qed

lemma moves_call: "moves k e A A (must_call what)"
  by (auto simp: moves_def must_call_def fatal_def Let_def session_inv_def split: option.splits)

lemma moves_print: "moves k e A A (print_out ps)"
  by (simp add: moves_def print_out_def session_inv_def)

lemma moves_write: "moves k e A A (write_file path bs)"
  by (simp add: moves_def write_file_def session_inv_def)

lemma moves_new_session: "moves k e A (add_mset SessionRes A) (new_session what)"
  unfolding new_session_def
  by (rule moves_then [OF moves_call]) (simp add: moves_def session_inv_def holding_def new_engine_def)

lemma moves_open: "moves k e A A (open_table what location)"
  unfolding open_table_def by (rule moves_bind [OF moves_call]) (simp add: moves_def)

lemma moves_query:
  assumes "queries_ok e"
  shows "moves k e A (add_mset (ReaderRes sql) A) (query what sql)"
  unfolding query_def
proof (rule moves_bind [OF moves_call])
  fix n
  have "engine_step\<^sup>*\<^sup>* (holding s) (holding (e_query e n sql s))" for s using assms by (simp add: queries_ok_def)
  then show "moves k e A (add_mset (ReaderRes sql) A)
      (\<lambda>e w. if ss_closed (w_session w) then fatal what e w
        else (Done (e_rows e n sql), w\<lparr>w_session := e_query e n sql (w_session w), w_live := add_mset (ReaderRes sql) (w_live w)\<rparr>))"
    by (auto simp: moves_def session_inv_def fatal_def intro: rtranclp_trans)
qed

lemma moves_rows: "moves k e A A (print_rows what line reader)"
  unfolding print_rows_def
  by (auto simp: Let_def case_prod_beta intro!: moves_then [OF moves_print] moves_ret moves_fatal)

text \<open>A registration that succeeds is a step of the engine that leaks nothing.\<close>

lemma registered_no_leak:
  "register_table_in o' s name p = (None, s') \<Longrightarrow> table_leak o' s p = {}"
  "RegisterCatalog utf8 s name c = (None, s') \<Longrightarrow> catalog_leak utf8 s c = {}"
  by (auto simp: register_table_in_def RegisterTable_def table_leak_def session.defs df_session_register_table_def NewHandle_def
      RegisterCatalog_def catalog_leak_def df_session_register_catalog_def Let_def split: option.splits if_splits)

lemma registered_steps:
  "register_table_in o' s name p = (None, s') \<Longrightarrow> engine_step (holding s) (holding s')"
  "RegisterScalarUDF u' s u = (None, s') \<Longrightarrow> engine_step (holding s) (holding s')"
  "RegisterCatalog utf8 s name c = (None, s') \<Longrightarrow> engine_step (holding s) (holding s')"
  using reg_table [of o' "holding s" name p None s'] reg_function [of u' "holding s" u None s']
    reg_catalog [of utf8 "holding s" name c None s'] registered_no_leak(1) [of o' s name p s'] registered_no_leak(2) [of utf8 s name c s']
  by (simp_all add: holding_def)

lemma moves_registering:
  assumes "\<And>n s s'. reg e n s = (None, s') \<Longrightarrow> engine_step (holding s) (holding s')"
  shows "moves k e A A (registering what reg)"
  using assms
  by (auto simp: moves_def registering_def fatal_def Let_def session_inv_def split: prod.splits option.splits
      intro: rtranclp.rtrancl_into_rtrancl)

lemma moves_registers:
  "moves k e A A (register_table what name p)"
  "moves k e A A (register_function what u)"
  "moves k e A A (register_catalog what name c)"
  unfolding register_table_def register_function_def register_catalog_def
  by (rule moves_registering, erule registered_steps)+

section \<open>The end of the session\<close>

lemma free_session_closed: "ss_closed (free_session s)"
  by (simp add: free_session_def)

lemma close_session_inv: "session_inv e w \<Longrightarrow> session_inv e (close_session w) \<and> ss_closed (w_session (close_session w))"
  using session_freed [of "holding (w_session w)"]
  by (auto simp: session_inv_def close_session_def holding_def free_session_closed intro: rtranclp.rtrancl_into_rtrancl)

text \<open>\<open>L\<close> is what is still open when the session is closed, beyond what was there before.\<close>

definition closes :: "nat \<Rightarrow> env \<Rightarrow> resource multiset \<Rightarrow> resource multiset \<Rightarrow> 'a prog \<Rightarrow> bool" where
  "closes k e A L p \<longleftrightarrow>
     (\<forall>w C a w'. w_live w = C + A + scan_refs k w \<longrightarrow> session_inv e w \<longrightarrow> p e w = (Done a, w') \<longrightarrow>
        w_late w' = C + L + scan_refs k w' \<and> ss_closed (w_session w'))"

lemma moves_deferring_close:
  assumes "moves k e A (add_mset SessionRes B) p"
  shows "moves k e A B (deferring_close p)" and "closes k e A B (deferring_close p)"
proof -
  have run: "case p e w of
       (Done a, w') \<Rightarrow> w_live (close_session w') = C + B + scan_refs k (close_session w') \<and>
         w_late (close_session w') = C + B + scan_refs k (close_session w') \<and>
         session_inv e (close_session w') \<and> ss_closed (w_session (close_session w'))
     | (FatalExit, w') \<Rightarrow> C \<subseteq># w_live w' \<and> w_fatal w' \<noteq> None
     | (Panicking m, w') \<Rightarrow> True" if "w_live w = C + A + scan_refs k w" "session_inv e w" for w C
    using movesD [OF assms that] close_session_inv
    by (auto split: prod.splits outcome.splits) (auto simp: close_session_def)
  show "moves k e A B (deferring_close p)"
  proof (rule movesI)
    fix w C
    assume "w_live w = C + A + scan_refs k w" "session_inv e w"
    from run [OF this] show "case deferring_close p e w of
       (Done a, w') \<Rightarrow> w_live w' = C + B + scan_refs k w' \<and> session_inv e w'
     | (FatalExit, w') \<Rightarrow> C \<subseteq># w_live w' \<and> w_fatal w' \<noteq> None
     | (Panicking m, w') \<Rightarrow> True"
      by (auto simp: deferring_close_def split: prod.splits outcome.splits)
  qed
  show "closes k e A B (deferring_close p)"
    using run by (fastforce simp: closes_def deferring_close_def split: prod.splits outcome.splits)
qed

lemma closes_bind:
  assumes "moves k e A B p" "\<And>a. closes k e B L (f a)"
  shows "closes k e A L (prog_bind p f)"
proof -
  have "w_late w' = C + L + scan_refs k w' \<and> ss_closed (w_session w')"
    if w: "w_live w = C + A + scan_refs k w" "session_inv e w" "prog_bind p f e w = (Done b, w')" for w C b w'
    using movesD [OF assms(1) w(1,2)] w(3) assms(2)
    by (auto simp: prog_bind_def closes_def split: prod.splits outcome.splits)
  then show ?thesis by (auto simp: closes_def)
qed

lemma closes_then: "moves k e A B p \<Longrightarrow> closes k e B L q \<Longrightarrow> closes k e A L (prog_then p q)"
  unfolding prog_then_def by (rule closes_bind)

lemma closes_deferring: "closes k e A L p \<Longrightarrow> closes k e A L (deferring r p)"
  by (fastforce simp: closes_def deferring_def split: prod.splits outcome.splits)

lemmas moves_rules =
  moves_then moves_bind moves_ret moves_acquire moves_release moves_deferring moves_call moves_print moves_write
  moves_open moves_rows moves_registers moves_new_session moves_deferring_close(1)

lemma closed_session_handles:
  assumes "session_inv e w" "ss_closed (w_session w)"
  shows "{n. h_live (ss_handles (w_session w)) n \<noteq> None} = {}"
  using handles_owned [OF assms(1) [unfolded session_inv_def]] assms(2) by (simp add: holding_def)

end
