(* ===== verification/Otel_Events.thy ===== *)
theory Otel_Events
  imports Go_Floats
begin

text \<open>
  \<open>examples/otel-wide-events/main.go\<close>: how OpenTelemetry attribute values, a sum of seven
  variants, are encoded as structs of nullable columns, and that the encoding loses nothing.
  An Arrow builder is the column built so far; nested columns share one child with offsets.
\<close>

section \<open>Attribute values\<close>

text \<open>\<open>anyValue\<close>, each field \<open>None\<close> when it is nil; a \<open>kv\<close> is a pair.\<close>

datatype anyValue =
  AnyValue (av_str: "string option") (av_boolean: "bool option") (av_i: "i64 option") (av_d: "float64 option")
    (av_bytes: "byte list option") (av_array: "anyValue list option") (av_kvlist: "(string \<times> anyValue) list option")

definition strVal :: "string \<Rightarrow> anyValue" where "strVal v = AnyValue (Some v) None None None None None None"
definition boolVal_any :: "bool \<Rightarrow> anyValue" where "boolVal_any v = AnyValue None (Some v) None None None None None"
definition intVal_any :: "i64 \<Rightarrow> anyValue" where "intVal_any v = AnyValue None None (Some v) None None None None"
definition dblVal :: "float64 \<Rightarrow> anyValue" where "dblVal v = AnyValue None None None (Some v) None None None"

text \<open>A nil slice of bytes sets nothing.\<close>

definition bytesVal_any :: "byte list option \<Rightarrow> anyValue" where "bytesVal_any v = AnyValue None None None None v None None"

text \<open>The slice of variadic arguments is nil when there are none.\<close>

definition variadic :: "'a list \<Rightarrow> 'a list option" where
  "variadic vs = (if vs = [] then None else Some vs)"

definition arrayVal :: "anyValue list \<Rightarrow> anyValue" where
  "arrayVal vs = AnyValue None None None None None (variadic vs) None"
definition kvlistVal :: "(string \<times> anyValue) list \<Rightarrow> anyValue" where
  "kvlistVal kvs = AnyValue None None None None None None (variadic kvs)"
definition kvPair :: "string \<Rightarrow> anyValue \<Rightarrow> string \<times> anyValue" where "kvPair key v = (key, v)"

record attr =
  a_key :: string
  a_value :: anyValue

definition strAttr :: "string \<Rightarrow> string \<Rightarrow> attr" where "strAttr key v = \<lparr>a_key = key, a_value = strVal v\<rparr>"
definition boolAttr :: "string \<Rightarrow> bool \<Rightarrow> attr" where "boolAttr key v = \<lparr>a_key = key, a_value = boolVal_any v\<rparr>"
definition intAttr :: "string \<Rightarrow> i64 \<Rightarrow> attr" where "intAttr key v = \<lparr>a_key = key, a_value = intVal_any v\<rparr>"
definition dblAttr :: "string \<Rightarrow> float64 \<Rightarrow> attr" where "dblAttr key v = \<lparr>a_key = key, a_value = dblVal v\<rparr>"
definition bytesAttr :: "string \<Rightarrow> byte list option \<Rightarrow> attr" where
  "bytesAttr key v = \<lparr>a_key = key, a_value = bytesVal_any v\<rparr>"
definition arrayAttr :: "string \<Rightarrow> anyValue list \<Rightarrow> attr" where
  "arrayAttr key vs = \<lparr>a_key = key, a_value = arrayVal vs\<rparr>"
definition kvlistAttr :: "string \<Rightarrow> (string \<times> anyValue) list \<Rightarrow> attr" where
  "kvlistAttr key kvs = \<lparr>a_key = key, a_value = kvlistVal kvs\<rparr>"

section \<open>The columns\<close>

text \<open>
  \<open>anyValueLeafType\<close>, \<open>kvLeafType\<close> and \<open>anyValueType\<close>: the validity of the struct and its
  fields, in order. \<open>anyValueType\<close> starts with the fields of \<open>anyValueLeafType\<close>.
\<close>

record LeafBuilder =
  lb_valid :: "bool list"
  lb_str :: "string option list"
  lb_bool :: "bool option list"
  lb_int :: "i64 option list"
  lb_dbl :: "float64 option list"
  lb_bytes :: "byte list option list"

record KvBuilder =
  kb_valid :: "bool list"
  kb_key :: "string list"
  kb_value :: LeafBuilder

text \<open>A list column: validity, the start of each list, and the child column.\<close>

record 'v ListBuilder =
  ls_valid :: "bool list"
  ls_offsets :: "nat list"
  ls_values :: 'v

record AnyBuilder = LeafBuilder +
  ab_array :: "LeafBuilder ListBuilder"
  ab_kvlist :: "KvBuilder ListBuilder"

text \<open>\<open>wideEventsSchema\<close>: the map column is the last four fields.\<close>

record EventBuilder =
  eb_id :: "i64 list"
  eb_trace :: "string list"
  eb_name :: "string list"
  eb_valid :: "bool list"
  eb_offsets :: "nat list"
  eb_keys :: "string list"
  eb_items :: AnyBuilder

section \<open>Appending\<close>

definition appendScalar :: "'a LeafBuilder_scheme \<Rightarrow> anyValue \<Rightarrow> 'a LeafBuilder_scheme" where
  "appendScalar b v =
     b\<lparr>lb_str := lb_str b @ [av_str v], lb_bool := lb_bool b @ [av_boolean v], lb_int := lb_int b @ [av_i v],
       lb_dbl := lb_dbl b @ [av_d v], lb_bytes := lb_bytes b @ [av_bytes v]\<rparr>"

text \<open>\<open>None\<close> is the panic.\<close>

definition appendLeafValue :: "LeafBuilder \<Rightarrow> anyValue \<Rightarrow> LeafBuilder option" where
  "appendLeafValue b v =
     (if av_array v \<noteq> None \<or> av_kvlist v \<noteq> None then None else Some (appendScalar b v))"

definition struct_Append :: "'a LeafBuilder_scheme \<Rightarrow> 'a LeafBuilder_scheme" where
  "struct_Append b = b\<lparr>lb_valid := lb_valid b @ [True]\<rparr>"

definition list_Append :: "bool \<Rightarrow> nat \<Rightarrow> 'v ListBuilder \<Rightarrow> 'v ListBuilder" where
  "list_Append ok n b = b\<lparr>ls_valid := ls_valid b @ [ok], ls_offsets := ls_offsets b @ [n]\<rparr>"

text \<open>A loop whose body may panic.\<close>

fun ofold :: "('s \<Rightarrow> 'a \<Rightarrow> 's option) \<Rightarrow> 's \<Rightarrow> 'a list \<Rightarrow> 's option" where
  "ofold f s [] = Some s"
| "ofold f s (x # xs) = Option.bind (f s x) (\<lambda>s'. ofold f s' xs)"

definition appendArray :: "LeafBuilder ListBuilder \<Rightarrow> anyValue list option \<Rightarrow> LeafBuilder ListBuilder option" where
  "appendArray arrB v =
     (case v of
        None \<Rightarrow> Some (list_Append False (length (lb_valid (ls_values arrB))) arrB)
      | Some elems \<Rightarrow>
          (let arrB1 = list_Append True (length (lb_valid (ls_values arrB))) arrB
           in map_option (\<lambda>leafB. arrB1\<lparr>ls_values := leafB\<rparr>)
                (ofold (\<lambda>leafB elem. appendLeafValue (struct_Append leafB) elem) (ls_values arrB1) elems)))"

definition appendPair :: "KvBuilder \<Rightarrow> string \<times> anyValue \<Rightarrow> KvBuilder option" where
  "appendPair b pair =
     map_option (\<lambda>leafValB. b\<lparr>kb_valid := kb_valid b @ [True], kb_key := kb_key b @ [fst pair], kb_value := leafValB\<rparr>)
       (appendLeafValue (struct_Append (kb_value b)) (snd pair))"

definition appendKvlist ::
  "KvBuilder ListBuilder \<Rightarrow> (string \<times> anyValue) list option \<Rightarrow> KvBuilder ListBuilder option" where
  "appendKvlist kvlistB v =
     (case v of
        None \<Rightarrow> Some (list_Append False (length (kb_valid (ls_values kvlistB))) kvlistB)
      | Some pairs \<Rightarrow>
          (let kvlistB1 = list_Append True (length (kb_valid (ls_values kvlistB))) kvlistB
           in map_option (\<lambda>kvLeafB. kvlistB1\<lparr>ls_values := kvLeafB\<rparr>) (ofold appendPair (ls_values kvlistB1) pairs)))"

definition appendAnyValue :: "AnyBuilder \<Rightarrow> anyValue \<Rightarrow> AnyBuilder option" where
  "appendAnyValue b v =
     (let b1 = appendScalar b v
      in Option.bind (appendArray (ab_array b1) (av_array v)) (\<lambda>arrB.
         let b2 = b1\<lparr>ab_array := arrB\<rparr>
         in Option.bind (appendKvlist (ab_kvlist b2) (av_kvlist v)) (\<lambda>kvlistB.
            Some (b2\<lparr>ab_kvlist := kvlistB\<rparr>))))"

text \<open>One attribute: its key and its value.\<close>

definition appendAttr :: "EventBuilder \<Rightarrow> attr \<Rightarrow> EventBuilder option" where
  "appendAttr b a =
     map_option (\<lambda>valB. b\<lparr>eb_keys := eb_keys b @ [a_key a], eb_items := valB\<rparr>)
       (appendAnyValue (struct_Append (eb_items b)) (a_value a))"

definition appendEvent :: "EventBuilder \<Rightarrow> i64 \<Rightarrow> string \<Rightarrow> string \<Rightarrow> attr list \<Rightarrow> EventBuilder option" where
  "appendEvent b eid traceID name attrs =
     ofold appendAttr
       (b\<lparr>eb_id := eb_id b @ [eid], eb_trace := eb_trace b @ [traceID], eb_name := eb_name b @ [name],
          eb_valid := eb_valid b @ [True], eb_offsets := eb_offsets b @ [length (eb_keys b)]\<rparr>)
       attrs"

text \<open>A new record builder, and the events of a program appended in turn.\<close>

record event =
  ev_id :: i64
  ev_trace :: string
  ev_name :: string
  ev_attrs :: "attr list"

definition newLeafBuilder :: LeafBuilder where
  "newLeafBuilder = \<lparr>lb_valid = [], lb_str = [], lb_bool = [], lb_int = [], lb_dbl = [], lb_bytes = []\<rparr>"

definition newRecordBuilder :: EventBuilder where
  "newRecordBuilder =
     \<lparr>eb_id = [], eb_trace = [], eb_name = [], eb_valid = [], eb_offsets = [], eb_keys = [],
      eb_items =
        \<lparr>lb_valid = [], lb_str = [], lb_bool = [], lb_int = [], lb_dbl = [], lb_bytes = [],
         ab_array = \<lparr>ls_valid = [], ls_offsets = [], ls_values = newLeafBuilder\<rparr>,
         ab_kvlist = \<lparr>ls_valid = [], ls_offsets = [], ls_values = \<lparr>kb_valid = [], kb_key = [], kb_value = newLeafBuilder\<rparr>\<rparr>\<rparr>\<rparr>"

definition build_events :: "event list \<Rightarrow> EventBuilder option" where
  "build_events evs =
     ofold (\<lambda>b e. appendEvent b (ev_id e) (ev_trace e) (ev_name e) (ev_attrs e)) newRecordBuilder evs"

section \<open>Reading the columns\<close>

text \<open>Row \<open>i\<close> of a list column spans the child's rows from its own start to the next.\<close>

definition span :: "nat list \<Rightarrow> nat \<Rightarrow> nat \<Rightarrow> nat list" where
  "span offsets n i = [(offsets @ [n]) ! i..<(offsets @ [n]) ! Suc i]"

definition leaf_at :: "'a LeafBuilder_scheme \<Rightarrow> nat \<Rightarrow> anyValue" where
  "leaf_at b j = AnyValue (lb_str b ! j) (lb_bool b ! j) (lb_int b ! j) (lb_dbl b ! j) (lb_bytes b ! j) None None"

definition list_at :: "'v ListBuilder \<Rightarrow> nat \<Rightarrow> (nat \<Rightarrow> 'a) \<Rightarrow> nat \<Rightarrow> 'a list option" where
  "list_at b n child j = (if ls_valid b ! j then Some (map child (span (ls_offsets b) n j)) else None)"

definition any_at :: "AnyBuilder \<Rightarrow> nat \<Rightarrow> anyValue" where
  "any_at b j =
     AnyValue (lb_str b ! j) (lb_bool b ! j) (lb_int b ! j) (lb_dbl b ! j) (lb_bytes b ! j)
       (list_at (ab_array b) (length (lb_valid (ls_values (ab_array b)))) (leaf_at (ls_values (ab_array b))) j)
       (list_at (ab_kvlist b) (length (kb_valid (ls_values (ab_kvlist b))))
          (\<lambda>k. (kb_key (ls_values (ab_kvlist b)) ! k, leaf_at (kb_value (ls_values (ab_kvlist b))) k)) j)"

definition read_events :: "EventBuilder \<Rightarrow> event list" where
  "read_events b =
     map (\<lambda>i. \<lparr>ev_id = eb_id b ! i, ev_trace = eb_trace b ! i, ev_name = eb_name b ! i,
               ev_attrs = map (\<lambda>j. \<lparr>a_key = eb_keys b ! j, a_value = any_at (eb_items b) j\<rparr>)
                            (span (eb_offsets b) (length (eb_keys b)) i)\<rparr>)
       [0..<length (eb_id b)]"

section \<open>The columns in closed form\<close>

text \<open>The starts of list_col laid end to end.\<close>

definition starts :: "'a list list \<Rightarrow> nat list" where
  "starts xss = map (\<lambda>j. length (concat (take j xss))) [0..<length xss]"

lemma starts_Nil [simp]: "starts [] = []"
  by (simp add: starts_def)

lemma starts_snoc [simp]: "starts (xss @ [xs]) = starts xss @ [length (concat xss)]"
  by (simp add: starts_def)

lemma starts_nth: "j \<le> length xss \<Longrightarrow> (starts xss @ [length (concat xss)]) ! j = length (concat (take j xss))"
  by (cases "j = length xss") (simp_all add: starts_def nth_append)

lemma span_starts:
  assumes "j < length xss"
  shows "map ((!) (concat xss)) (span (starts xss) (length (concat xss)) j) = xss ! j"
proof -
  let ?a = "concat (take j xss)" and ?c = "concat (drop (Suc j) xss)"
  have split: "xss = take j xss @ xss ! j # drop (Suc j) xss" using assms by (rule id_take_nth_drop)
  have "concat xss = ?a @ xss ! j @ ?c" by (subst split) simp
  moreover have "span (starts xss) (length (concat xss)) j = [length ?a..<length ?a + length (xss ! j)]"
    using assms by (simp add: span_def starts_nth take_Suc_conv_app_nth)
  ultimately show ?thesis by (auto intro!: nth_equalityI simp: nth_append)
qed

lemma span_less:
  assumes "j < length xss" "k \<in> set (span (starts xss) (length (concat xss)) j)"
  shows "k < length (concat xss)"
proof -
  have "length (concat (take (Suc j) xss)) \<le> length (concat (take (Suc j) xss) @ concat (drop (Suc j) xss))" by simp
  also have "concat (take (Suc j) xss) @ concat (drop (Suc j) xss) = concat xss"
    by (simp flip: concat_append)
  finally show ?thesis using assms by (simp add: span_def starts_nth)
qed

text \<open>So reading a span of a child that holds \<open>concat xss\<close> gives the list itself.\<close>

lemma map_span:
  assumes "j < length xss" "\<And>k. k < length (concat xss) \<Longrightarrow> child k = concat xss ! k"
  shows "map child (span (starts xss) (length (concat xss)) j) = xss ! j"
proof -
  have "map child (span (starts xss) (length (concat xss)) j) =
      map ((!) (concat xss)) (span (starts xss) (length (concat xss)) j)"
    using assms span_less [OF assms(1)] by (intro map_cong) auto
  then show ?thesis using span_starts [OF assms(1)] by simp
qed

definition elems :: "'a list option \<Rightarrow> 'a list" where
  "elems v = (case v of None \<Rightarrow> [] | Some xs \<Rightarrow> xs)"

lemma elems_simps [simp]: "elems None = []" "elems (Some xs) = xs"
  by (simp_all add: elems_def)

definition leafs :: "anyValue list \<Rightarrow> LeafBuilder" where
  "leafs vs =
     \<lparr>lb_valid = replicate (length vs) True, lb_str = map av_str vs, lb_bool = map av_boolean vs, lb_int = map av_i vs,
      lb_dbl = map av_d vs, lb_bytes = map av_bytes vs\<rparr>"

definition pairs :: "(string \<times> anyValue) list \<Rightarrow> KvBuilder" where
  "pairs kvs = \<lparr>kb_valid = replicate (length kvs) True, kb_key = map fst kvs, kb_value = leafs (map snd kvs)\<rparr>"

definition list_col :: "('a list \<Rightarrow> 'v) \<Rightarrow> 'a list option list \<Rightarrow> 'v ListBuilder" where
  "list_col build vs =
     \<lparr>ls_valid = map (\<lambda>v. v \<noteq> None) vs, ls_offsets = starts (map elems vs), ls_values = build (concat (map elems vs))\<rparr>"

definition anys :: "anyValue list \<Rightarrow> AnyBuilder" where
  "anys vs =
     \<lparr>lb_valid = replicate (length vs) True, lb_str = map av_str vs, lb_bool = map av_boolean vs, lb_int = map av_i vs,
      lb_dbl = map av_d vs, lb_bytes = map av_bytes vs,
      ab_array = list_col leafs (map av_array vs), ab_kvlist = list_col pairs (map av_kvlist vs)\<rparr>"

definition events :: "event list \<Rightarrow> EventBuilder" where
  "events evs =
     \<lparr>eb_id = map ev_id evs, eb_trace = map ev_trace evs, eb_name = map ev_name evs,
      eb_valid = replicate (length evs) True, eb_offsets = starts (map ev_attrs evs),
      eb_keys = map a_key (concat (map ev_attrs evs)), eb_items = anys (map a_value (concat (map ev_attrs evs)))\<rparr>"

section \<open>What the builders hold\<close>

text \<open>Nesting bounded to one level: what the encoding accepts.\<close>

definition leaf :: "anyValue \<Rightarrow> bool" where
  "leaf v \<longleftrightarrow> av_array v = None \<and> av_kvlist v = None"

definition flat :: "anyValue \<Rightarrow> bool" where
  "flat v \<longleftrightarrow> list_all leaf (elems (av_array v)) \<and> list_all (leaf \<circ> snd) (elems (av_kvlist v))"

definition event_flat :: "event \<Rightarrow> bool" where
  "event_flat e \<longleftrightarrow> list_all (flat \<circ> a_value) (ev_attrs e)"

lemma ofold_build:
  assumes "\<And>xs x. f (build xs) x = (if ok x then Some (build (xs @ [x])) else None)"
  shows "ofold f (build xs) ys = (if list_all ok ys then Some (build (xs @ ys)) else None)"
  by (induction ys arbitrary: xs) (simp_all add: assms)

lemma leaf_step:
  "appendLeafValue (struct_Append (leafs vs)) v = (if leaf v then Some (leafs (vs @ [v])) else None)"
  by (auto simp: appendLeafValue_def struct_Append_def appendScalar_def leafs_def leaf_def replicate_append_same)

lemma pair_step: "appendPair (pairs kvs) p = (if (leaf \<circ> snd) p then Some (pairs (kvs @ [p])) else None)"
  by (auto simp: appendPair_def pairs_def leaf_step replicate_append_same)

lemma leafs_length [simp]: "length (lb_valid (leafs vs)) = length vs"
  by (simp add: leafs_def)

lemma pairs_length [simp]: "length (kb_valid (pairs kvs)) = length kvs"
  by (simp add: pairs_def)

lemma list_col_values [simp]: "ls_values (list_col build vs) = build (concat (map elems vs))"
  by (simp add: list_col_def)

lemma list_Append_values [simp]: "ls_values (list_Append ok n b) = ls_values b"
  by (simp add: list_Append_def)

lemma list_None: "list_Append False (length (concat (map elems vs))) (list_col build vs) = list_col build (vs @ [None])"
  by (simp add: list_Append_def list_col_def)

lemma list_Some:
  "list_Append True (length (concat (map elems vs))) (list_col build vs)\<lparr>ls_values := build (concat (map elems vs) @ xs)\<rparr> =
   list_col build (vs @ [Some xs])"
  by (simp add: list_Append_def list_col_def)

lemma array_step:
  "appendArray (list_col leafs vs) v = (if list_all leaf (elems v) then Some (list_col leafs (vs @ [v])) else None)"
  using ofold_build [of "\<lambda>b. appendLeafValue (struct_Append b)" leafs leaf, OF leaf_step]
    list_None [where vs = vs and build = leafs] list_Some [where vs = vs and build = leafs]
  by (cases v) (simp_all add: appendArray_def Let_def)

lemma kvlist_step:
  "appendKvlist (list_col pairs vs) v = (if list_all (leaf \<circ> snd) (elems v) then Some (list_col pairs (vs @ [v])) else None)"
  using ofold_build [of appendPair pairs "leaf \<circ> snd", OF pair_step] list_None [where vs = vs and build = pairs] list_Some [where vs = vs and build = pairs]
  by (cases v) (simp_all add: appendKvlist_def Let_def)

lemma any_step: "appendAnyValue (struct_Append (anys vs)) v = (if flat v then Some (anys (vs @ [v])) else None)"
  using array_step [of "map av_array vs" "av_array v"] kvlist_step [of "map av_kvlist vs" "av_kvlist v"]
  by (simp add: appendAnyValue_def Let_def struct_Append_def appendScalar_def anys_def flat_def replicate_append_same)

text \<open>An event whose attributes are appended up to now.\<close>

definition with_attrs :: "event list \<Rightarrow> event \<Rightarrow> attr list \<Rightarrow> EventBuilder" where
  "with_attrs evs e as = events (evs @ [e\<lparr>ev_attrs := as\<rparr>])"

lemma attr_step:
  "appendAttr (with_attrs evs e as) a = (if (flat \<circ> a_value) a then Some (with_attrs evs e (as @ [a])) else None)"
  by (simp add: appendAttr_def with_attrs_def events_def any_step)

lemma event_step:
  "appendEvent (events evs) (ev_id e) (ev_trace e) (ev_name e) (ev_attrs e) =
   (if event_flat e then Some (events (evs @ [e])) else None)"
proof -
  have "(events evs)\<lparr>eb_id := eb_id (events evs) @ [ev_id e], eb_trace := eb_trace (events evs) @ [ev_trace e],
      eb_name := eb_name (events evs) @ [ev_name e], eb_valid := eb_valid (events evs) @ [True],
      eb_offsets := eb_offsets (events evs) @ [length (eb_keys (events evs))]\<rparr> = with_attrs evs e []"
    by (simp add: with_attrs_def events_def replicate_append_same)
  then show ?thesis
    using ofold_build [of appendAttr "with_attrs evs e" "flat \<circ> a_value" "[]" "ev_attrs e", OF attr_step]
    by (simp add: appendEvent_def event_flat_def) (simp add: with_attrs_def)
qed

lemma build_events_eq: "build_events evs = (if list_all event_flat evs then Some (events evs) else None)"
proof -
  have "newRecordBuilder = events []"
    by (simp add: newRecordBuilder_def events_def anys_def list_col_def leafs_def pairs_def newLeafBuilder_def)
  then show ?thesis
    using ofold_build [of "\<lambda>b e. appendEvent b (ev_id e) (ev_trace e) (ev_name e) (ev_attrs e)" events event_flat "[]" evs,
        OF event_step]
    by (simp add: build_events_def)
qed

section \<open>The encoding loses nothing\<close>

lemma leaf_at_leafs: "j < length vs \<Longrightarrow> leaf (vs ! j) \<Longrightarrow> leaf_at (leafs vs) j = vs ! j"
  by (cases "vs ! j") (simp add: leaf_at_def leafs_def leaf_def)

lemma list_at_list_col:
  assumes "j < length vs" "\<And>k. k < length (concat (map elems vs)) \<Longrightarrow> child k = concat (map elems vs) ! k"
  shows "list_at (list_col build vs) (length (concat (map elems vs))) child j = vs ! j"
proof -
  have "map child (span (starts (map elems vs)) (length (concat (map elems vs))) j) = elems (vs ! j)"
    using map_span [of j "map elems vs" child] assms by simp
  then show ?thesis using assms(1) by (cases "vs ! j") (auto simp: list_at_def list_col_def)
qed

lemma any_at_anys:
  assumes "list_all flat vs" "j < length vs"
  shows "any_at (anys vs) j = vs ! j"
proof -
  let ?as = "map av_array vs" and ?ks = "map av_kvlist vs"
  have "list_all leaf (concat (map elems ?as))" "list_all (leaf \<circ> snd) (concat (map elems ?ks))"
    using assms(1) by (auto simp: list_all_iff flat_def)
  then have leaves: "k < length (concat (map elems ?as)) \<Longrightarrow> leaf_at (leafs (concat (map elems ?as))) k = concat (map elems ?as) ! k"
    "k < length (concat (map elems ?ks)) \<Longrightarrow>
       (map fst (concat (map elems ?ks)) ! k, leaf_at (leafs (map snd (concat (map elems ?ks)))) k) = concat (map elems ?ks) ! k"
    for k
    using leaf_at_leafs [of k "concat (map elems ?as)"] leaf_at_leafs [of k "map snd (concat (map elems ?ks))"]
    by (simp_all add: list_all_length del: map_map)
  have "list_at (list_col leafs ?as) (length (concat (map elems ?as))) (leaf_at (leafs (concat (map elems ?as)))) j = ?as ! j"
    using assms(2) by (intro list_at_list_col leaves(1)) simp_all
  moreover have "list_at (list_col pairs ?ks) (length (concat (map elems ?ks)))
       (\<lambda>k. (map fst (concat (map elems ?ks)) ! k, leaf_at (leafs (map snd (concat (map elems ?ks)))) k)) j = ?ks ! j"
    using assms(2) by (intro list_at_list_col leaves(2)) simp_all
  ultimately show ?thesis using assms(2)
    by (cases "vs ! j") (simp add: any_at_def anys_def pairs_def)
qed

lemma read_events_exact:
  assumes "list_all event_flat evs"
  shows "read_events (events evs) = evs"
proof (rule nth_equalityI)
  fix i assume "i < length (read_events (events evs))"
  then have i: "i < length evs" by (simp add: read_events_def events_def)
  let ?as = "concat (map ev_attrs evs)"
  have flat: "list_all flat (map a_value ?as)"
    using assms by (auto simp: list_all_iff event_flat_def)
  have "\<lparr>a_key = map a_key ?as ! j, a_value = any_at (anys (map a_value ?as)) j\<rparr> = ?as ! j" if "j < length ?as" for j
    using that any_at_anys [OF flat, of j] by simp
  then have "map (\<lambda>j. \<lparr>a_key = map a_key ?as ! j, a_value = any_at (anys (map a_value ?as)) j\<rparr>)
      (span (starts (map ev_attrs evs)) (length ?as) i) = ev_attrs (evs ! i)"
    using map_span [of i "map ev_attrs evs"] i by simp
  then show "read_events (events evs) ! i = evs ! i" using i by (simp add: read_events_def events_def)
qed (simp add: read_events_def events_def)

text \<open>C32: Reading the Arrow columns that a run of \<open>appendEvent\<close> builds gives back every event
  with all its attributes, whatever the variants of their values, lists of values and of
  pairs included; and the builder panics exactly when a list holds another list.\<close>

theorem events_roundtrip:
  "map_option read_events (build_events evs) = (if list_all event_flat evs then Some evs else None)"
  by (simp add: build_events_eq read_events_exact)

text \<open>
  A value is documented to set exactly one variant. A list of no values sets none, and so is
  encoded as no value at all.
\<close>

lemma empty_array_lost: "arrayVal [] = kvlistVal []" "arrayVal [] = bytesVal_any None"
  by (simp_all add: arrayVal_def kvlistVal_def bytesVal_any_def variadic_def)

end
