(* ===== verification/Otel_Udf.thy ===== *)
theory Otel_Udf
  imports Otel_Events Callbacks
begin

text \<open>
  \<open>examples/otel-wide-events/attr_udf.go\<close>: the function \<open>otel_http_attrs\<close>, which reads five
  attributes of each event in one pass over its map, against looking each of them up.
\<close>

section \<open>Attributes wanted\<close>

text \<open>The field of the value read: 0 string, 1 bool, 2 int, 3 double, 4 bytes.\<close>

record httpAttrWant =
  w_key :: string
  w_valueField :: nat

definition httpAttrWants :: "httpAttrWant list" where
  "httpAttrWants =
     [\<lparr>w_key = ''http.request.method'', w_valueField = 0\<rparr>,
      \<lparr>w_key = ''error'', w_valueField = 1\<rparr>,
      \<lparr>w_key = ''http.response.status_code'', w_valueField = 2\<rparr>,
      \<lparr>w_key = ''http.server.request.duration'', w_valueField = 3\<rparr>,
      \<lparr>w_key = ''debug.payload_prefix'', w_valueField = 4\<rparr>]"

definition wantIndex :: "httpAttrWant list \<Rightarrow> string \<rightharpoonup> nat" where
  "wantIndex wants = fold (\<lambda>(i, w) m. m(w_key w \<mapsto> i)) (zip [0..<length wants] wants) Map.empty"

section \<open>The argument and the result\<close>

text \<open>
  An Arrow map array, possibly a slice: row \<open>i\<close> is at \<open>m_start + i\<close> of the validity and of
  the offsets, the children are those of the whole array.
\<close>

record MapArray =
  m_len :: nat
  m_start :: nat
  m_valid :: "bool list"
  m_offsets :: "nat list"
  m_keys :: "string list"
  m_items :: AnyBuilder

definition m_IsNull :: "MapArray \<Rightarrow> nat \<Rightarrow> bool" where
  "m_IsNull m i \<longleftrightarrow> \<not> m_valid m ! (m_start m + i)"

definition m_ValueOffsets :: "MapArray \<Rightarrow> nat \<Rightarrow> nat \<times> nat" where
  "m_ValueOffsets m i = (m_offsets m ! (m_start m + i), m_offsets m ! Suc (m_start m + i))"

datatype arg_array = MapArg MapArray | OtherArg dtype

record HttpAttrs =
  ha_valid :: "bool list"
  ha_method :: "string option list"
  ha_is_error :: "bool option list"
  ha_status_code :: "i64 option list"
  ha_duration :: "float64 option list"
  ha_payload_prefix :: "byte list option list"

section \<open>The function\<close>

definition appendMatched :: "'v option list \<Rightarrow> 'v option list \<Rightarrow> int \<Rightarrow> 'v option list" where
  "appendMatched b col idx =
     (if idx < 0 then b @ [None]
      else (case col ! nat idx of None \<Rightarrow> b @ [None] | Some v \<Rightarrow> b @ [Some v]))"

text \<open>The entries of a row: the last entry of a wanted key is kept.\<close>

definition match_row :: "(string \<rightharpoonup> nat) \<Rightarrow> string list \<Rightarrow> nat \<Rightarrow> nat \<Rightarrow> int list \<Rightarrow> int list" where
  "match_row index keys start end' matched =
     fold (\<lambda>j ms. case index (keys ! j) of Some wi \<Rightarrow> ms[wi := int j] | None \<Rightarrow> ms) [start..<end'] matched"

definition append_want :: "AnyBuilder \<Rightarrow> httpAttrWant \<times> int \<Rightarrow> HttpAttrs \<Rightarrow> HttpAttrs" where
  "append_want items wi b =
     (case wi of (want, idx) \<Rightarrow>
        if w_valueField want = 0 then b\<lparr>ha_method := appendMatched (ha_method b) (lb_str items) idx\<rparr>
        else if w_valueField want = 1 then b\<lparr>ha_is_error := appendMatched (ha_is_error b) (lb_bool items) idx\<rparr>
        else if w_valueField want = 2 then b\<lparr>ha_status_code := appendMatched (ha_status_code b) (lb_int items) idx\<rparr>
        else if w_valueField want = 3 then b\<lparr>ha_duration := appendMatched (ha_duration b) (lb_dbl items) idx\<rparr>
        else if w_valueField want = 4 then b\<lparr>ha_payload_prefix := appendMatched (ha_payload_prefix b) (lb_bytes items) idx\<rparr>
        else b)"

definition attrs_row :: "httpAttrWant list \<Rightarrow> (string \<rightharpoonup> nat) \<Rightarrow> MapArray \<Rightarrow> nat \<Rightarrow> HttpAttrs \<Rightarrow> HttpAttrs" where
  "attrs_row wants index m i b =
     (let none = replicate (length wants) (- 1);
          matched =
            (if m_IsNull m i then none
             else (case m_ValueOffsets m i of (start, end') \<Rightarrow> match_row index (m_keys m) start end' none))
      in fold (append_want (m_items m)) (zip wants matched) (b\<lparr>ha_valid := ha_valid b @ [True]\<rparr>))"

text \<open>The body the function is registered with: an argument of another type panics.\<close>

definition otel_http_attrs :: "arg_array list \<Rightarrow> (string + HttpAttrs) call" where
  "otel_http_attrs args =
     (case args of
        [] \<Rightarrow> Panics ''index out of range''
      | OtherArg dt # rest \<Rightarrow> Panics ''interface conversion''
      | MapArg m # rest \<Rightarrow>
          Returns (Inr (fold (attrs_row httpAttrWants (wantIndex httpAttrWants) m) [0..<m_len m]
            \<lparr>ha_valid = [], ha_method = [], ha_is_error = [], ha_status_code = [], ha_duration = [], ha_payload_prefix = []\<rparr>)))"

section \<open>Looking an attribute up\<close>

text \<open>The entry of a key that was set last, and its value's variant.\<close>

definition last_value :: "('e \<Rightarrow> string) \<Rightarrow> ('e \<Rightarrow> 'v option) \<Rightarrow> 'e list \<Rightarrow> string \<Rightarrow> 'v option" where
  "last_value key val es k = Option.bind (map_of (rev (map (\<lambda>e. (key e, val e)) es)) k) id"

lemma last_value_map: "last_value key val (map f es) k = last_value (key \<circ> f) (val \<circ> f) es k"
  by (simp add: last_value_def comp_def)

lemma last_value_cong:
  "(\<And>e. e \<in> set es \<Longrightarrow> key e = key' e) \<Longrightarrow> (\<And>e. e \<in> set es \<Longrightarrow> val e = val' e) \<Longrightarrow>
   last_value key val es k = last_value key' val' es k"
  unfolding last_value_def by (metis (mono_tags, lifting) map_cong)

text \<open>The entries of row \<open>i\<close>, by their position in the children.\<close>

definition row_entries :: "MapArray \<Rightarrow> nat \<Rightarrow> nat list" where
  "row_entries m i = (if m_IsNull m i then [] else (case m_ValueOffsets m i of (s, e) \<Rightarrow> [s..<e]))"

definition entry_value :: "MapArray \<Rightarrow> 'v option list \<Rightarrow> string \<Rightarrow> nat \<Rightarrow> 'v option" where
  "entry_value m col k i = last_value ((!) (m_keys m)) ((!) col) (row_entries m i) k"

definition column_of :: "MapArray \<Rightarrow> 'v option list \<Rightarrow> string \<Rightarrow> 'v option list" where
  "column_of m col k = map (entry_value m col k) [0..<m_len m]"

section \<open>One pass finds what the lookups find\<close>

lemma appendMatched_eq: "appendMatched b col idx = b @ [if idx < 0 then None else col ! nat idx]"
  by (simp add: appendMatched_def split: option.splits)

text \<open>The position a key is matched at after some entries.\<close>

definition matched_at :: "string list \<Rightarrow> nat list \<Rightarrow> string \<Rightarrow> int" where
  "matched_at keys js k = (case map_of (rev (map (\<lambda>j. (keys ! j, j)) js)) k of None \<Rightarrow> - 1 | Some j \<Rightarrow> int j)"

lemma matched_at_snoc:
  "matched_at keys (js @ [j]) k = (if keys ! j = k then int j else matched_at keys js k)"
  by (simp add: matched_at_def)

lemma fold_matched:
  assumes "\<And>k wi. index k = Some wi \<longleftrightarrow> wi < length ks \<and> ks ! wi = k" and "distinct ks"
  shows "fold (\<lambda>j ms. case index (keys ! j) of Some wi \<Rightarrow> ms[wi := int j] | None \<Rightarrow> ms) js (replicate (length ks) (- 1)) =
    map (matched_at keys js) ks"
proof (induction js rule: rev_induct)
  case Nil
  show ?case by (simp add: matched_at_def map_replicate_const)
next
  case (snoc j js)
  let ?ms = "map (matched_at keys js) ks"
  have "(case index (keys ! j) of Some wi \<Rightarrow> ?ms[wi := int j] | None \<Rightarrow> ?ms) = map (matched_at keys (js @ [j])) ks"
  proof (cases "index (keys ! j)")
    case None
    then have "keys ! j \<noteq> k" if "k \<in> set ks" for k
      using assms(1) [of "keys ! j"] that by (metis in_set_conv_nth option.distinct(1))
    then show ?thesis using None by (auto simp: matched_at_snoc)
  next
    case (Some wi)
    then have wi: "wi < length ks" "ks ! wi = keys ! j" using assms(1) by auto
    have "?ms[wi := int j] ! n = map (matched_at keys (js @ [j])) ks ! n" if "n < length ks" for n
      using that wi nth_eq_iff_index_eq [OF assms(2) that wi(1)] by (auto simp: matched_at_snoc nth_list_update)
    then show ?thesis using Some by (auto intro!: nth_equalityI)
  qed
  then show ?case unfolding fold_append fold_simps comp_apply snoc.IH .
qed

lemma wantIndex_snoc: "wantIndex (ws @ [w]) = (wantIndex ws)(w_key w \<mapsto> length ws)"
  by (simp add: wantIndex_def)

lemma wantIndex_iff:
  "distinct (map w_key ws) \<Longrightarrow>
   wantIndex ws k = Some wi \<longleftrightarrow> wi < length (map w_key ws) \<and> map w_key ws ! wi = k"
proof (induction ws arbitrary: wi rule: rev_induct)
  case Nil
  show ?case by (simp add: wantIndex_def)
next
  case (snoc w ws)
  then have IH: "wantIndex ws k = Some wi \<longleftrightarrow> wi < length ws \<and> w_key (ws ! wi) = k" by auto
  have "w_key w \<noteq> w_key (ws ! wi)" if "wi < length ws" using snoc.prems that by auto
  then show ?case using IH by (auto simp: wantIndex_snoc nth_append less_Suc_eq)
qed

lemma matched_value:
  "(if matched_at keys js k < 0 then None else col ! nat (matched_at keys js k)) = last_value ((!) keys) ((!) col) js k"
proof -
  have "map_of (rev (map (\<lambda>j. (keys ! j, col ! j)) js)) k = map_option ((!) col) (map_of (rev (map (\<lambda>j. (keys ! j, j)) js)) k)"
    by (induction js rule: rev_induct) simp_all
  then show ?thesis
    by (cases "map_of (rev (map (\<lambda>j. (keys ! j, j)) js)) k") (simp_all add: matched_at_def last_value_def)
qed

lemma attrs_row_eq:
  "attrs_row httpAttrWants (wantIndex httpAttrWants) m i b =
    \<lparr>ha_valid = ha_valid b @ [True],
     ha_method = ha_method b @ [entry_value m (lb_str (m_items m)) ''http.request.method'' i],
     ha_is_error = ha_is_error b @ [entry_value m (lb_bool (m_items m)) ''error'' i],
     ha_status_code = ha_status_code b @ [entry_value m (lb_int (m_items m)) ''http.response.status_code'' i],
     ha_duration = ha_duration b @ [entry_value m (lb_dbl (m_items m)) ''http.server.request.duration'' i],
     ha_payload_prefix = ha_payload_prefix b @ [entry_value m (lb_bytes (m_items m)) ''debug.payload_prefix'' i]\<rparr>"
proof -
  let ?ks = "map w_key httpAttrWants"
  have d: "distinct ?ks" by (simp add: httpAttrWants_def)
  have "(if m_IsNull m i then replicate (length httpAttrWants) (- 1)
      else (case m_ValueOffsets m i of (s, e) \<Rightarrow>
        match_row (wantIndex httpAttrWants) (m_keys m) s e (replicate (length httpAttrWants) (- 1)))) =
    map (matched_at (m_keys m) (row_entries m i)) ?ks"
    using fold_matched [OF wantIndex_iff [OF d] d, of "m_keys m" "row_entries m i"]
    by (auto simp: row_entries_def match_row_def split: prod.splits)
  then show ?thesis unfolding attrs_row_def Let_def entry_value_def
    by (simp add: httpAttrWants_def append_want_def appendMatched_eq matched_value)
qed

lemma otel_http_attrs_columns:
  "otel_http_attrs [MapArg m] = Returns (Inr
    \<lparr>ha_valid = replicate (m_len m) True,
     ha_method = column_of m (lb_str (m_items m)) ''http.request.method'',
     ha_is_error = column_of m (lb_bool (m_items m)) ''error'',
     ha_status_code = column_of m (lb_int (m_items m)) ''http.response.status_code'',
     ha_duration = column_of m (lb_dbl (m_items m)) ''http.server.request.duration'',
     ha_payload_prefix = column_of m (lb_bytes (m_items m)) ''debug.payload_prefix''\<rparr>)"
proof -
  have "fold (attrs_row httpAttrWants (wantIndex httpAttrWants) m) [0..<n]
      \<lparr>ha_valid = [], ha_method = [], ha_is_error = [], ha_status_code = [], ha_duration = [], ha_payload_prefix = []\<rparr> =
    \<lparr>ha_valid = replicate n True,
     ha_method = map (entry_value m (lb_str (m_items m)) ''http.request.method'') [0..<n],
     ha_is_error = map (entry_value m (lb_bool (m_items m)) ''error'') [0..<n],
     ha_status_code = map (entry_value m (lb_int (m_items m)) ''http.response.status_code'') [0..<n],
     ha_duration = map (entry_value m (lb_dbl (m_items m)) ''http.server.request.duration'') [0..<n],
     ha_payload_prefix = map (entry_value m (lb_bytes (m_items m)) ''debug.payload_prefix'') [0..<n]\<rparr>"
    for n
    by (induction n) (simp_all add: attrs_row_eq replicate_append_same)
  then show ?thesis by (simp add: otel_http_attrs_def column_of_def)
qed

section \<open>From events to their attributes\<close>

text \<open>
  Some rows of the map column of the events, as a scan may hand them over: a window of the
  array, each row null or not.
\<close>

definition map_window :: "EventBuilder \<Rightarrow> nat \<Rightarrow> nat \<Rightarrow> bool list \<Rightarrow> MapArray" where
  "map_window b start n valid =
     \<lparr>m_len = n, m_start = start, m_valid = valid, m_offsets = eb_offsets b @ [length (eb_keys b)],
      m_keys = eb_keys b, m_items = eb_items b\<rparr>"

definition event_attr :: "(anyValue \<Rightarrow> 'v option) \<Rightarrow> string \<Rightarrow> event \<Rightarrow> 'v option" where
  "event_attr variant key e = last_value a_key (variant \<circ> a_value) (ev_attrs e) key"

lemma window_column:
  assumes "start + n \<le> length evs"
  shows "column_of (map_window (events evs) start n valid) (map variant (map a_value (concat (map ev_attrs evs)))) k =
    map (\<lambda>i. if valid ! (start + i) then event_attr variant k (evs ! (start + i)) else None) [0..<n]"
proof -
  let ?as = "concat (map ev_attrs evs)"
  have "last_value ((!) (map a_key ?as)) ((!) (map variant (map a_value ?as)))
      (span (starts (map ev_attrs evs)) (length ?as) j) k = event_attr variant k (evs ! j)"
    if j: "j < length evs" for j
  proof -
    let ?js = "span (starts (map ev_attrs evs)) (length ?as) j"
    have in_as: "i < length ?as" if "i \<in> set ?js" for i using span_less [of j "map ev_attrs evs" i] that j by simp
    have "last_value ((!) (map a_key ?as)) ((!) (map variant (map a_value ?as))) ?js k =
        last_value (a_key \<circ> (!) ?as) (variant \<circ> a_value \<circ> (!) ?as) ?js k"
      by (rule last_value_cong) (simp_all add: in_as)
    also have "\<dots> = last_value a_key (variant \<circ> a_value) (map ((!) ?as) ?js) k"
      by (simp add: last_value_map)
    finally show ?thesis using span_starts [of j "map ev_attrs evs"] j by (simp add: event_attr_def)
  qed
  then show ?thesis using assms
    by (auto simp: column_of_def entry_value_def map_window_def row_entries_def m_IsNull_def m_ValueOffsets_def events_def
        span_def last_value_def)
qed

lemma window_reads:
  assumes "build_events evs = Some b" "start + n \<le> length evs"
  shows "otel_http_attrs [MapArg (map_window b start n valid)] = Returns (Inr
    \<lparr>ha_valid = replicate n True,
     ha_method = map (\<lambda>i. if valid ! (start + i) then event_attr av_str ''http.request.method'' (evs ! (start + i)) else None) [0..<n],
     ha_is_error = map (\<lambda>i. if valid ! (start + i) then event_attr av_boolean ''error'' (evs ! (start + i)) else None) [0..<n],
     ha_status_code = map (\<lambda>i. if valid ! (start + i) then event_attr av_i ''http.response.status_code'' (evs ! (start + i)) else None) [0..<n],
     ha_duration = map (\<lambda>i. if valid ! (start + i) then event_attr av_d ''http.server.request.duration'' (evs ! (start + i)) else None) [0..<n],
     ha_payload_prefix = map (\<lambda>i. if valid ! (start + i) then event_attr av_bytes ''debug.payload_prefix'' (evs ! (start + i)) else None) [0..<n]\<rparr>)"
proof -
  have b: "b = events evs" using assms(1) by (simp add: build_events_eq split: if_splits)
  have "m_len (map_window b start n valid) = n" "m_items (map_window b start n valid) = anys (map a_value (concat (map ev_attrs evs)))"
    by (simp_all add: map_window_def b events_def)
  then show ?thesis unfolding otel_http_attrs_columns
    by (simp only: b anys_def LeafBuilder.simps window_column [OF assms(2)])
qed

text \<open>C28: \<open>otel_http_attrs\<close>, which reads all wanted attributes in one pass over a row's entries,
  returns on the map column built from any events the value of each attribute that a lookup
  of its own in the event finds: the variant it is declared for of the entry set last, and
  NULL when there is none, when it has another variant, or when the row is NULL. This holds
  for any slice of the column.\<close>

theorem otel_http_attrs_exact:
  assumes "build_events evs = Some b" "start + n \<le> length evs"
  shows "otel_http_attrs [MapArg (map_window b start n valid)] = Returns (Inr
    \<lparr>ha_valid = replicate n True,
     ha_method = map (\<lambda>i. if valid ! (start + i) then event_attr av_str ''http.request.method'' (evs ! (start + i)) else None) [0..<n],
     ha_is_error = map (\<lambda>i. if valid ! (start + i) then event_attr av_boolean ''error'' (evs ! (start + i)) else None) [0..<n],
     ha_status_code = map (\<lambda>i. if valid ! (start + i) then event_attr av_i ''http.response.status_code'' (evs ! (start + i)) else None) [0..<n],
     ha_duration = map (\<lambda>i. if valid ! (start + i) then event_attr av_d ''http.server.request.duration'' (evs ! (start + i)) else None) [0..<n],
     ha_payload_prefix = map (\<lambda>i. if valid ! (start + i) then event_attr av_bytes ''debug.payload_prefix'' (evs ! (start + i)) else None) [0..<n]\<rparr>)"
  using assms by (rule window_reads)

text \<open>The last two of three events, the third with a second status that is no number.\<close>

definition three_events :: "event list" where
  "three_events =
     [\<lparr>ev_id = 1, ev_trace = ''t1'', ev_name = ''n'', ev_attrs = [strAttr ''http.request.method'' ''GET'']\<rparr>,
      \<lparr>ev_id = 2, ev_trace = ''t2'', ev_name = ''n'',
       ev_attrs = [boolAttr ''error'' True, intAttr ''http.response.status_code'' 500, arrayAttr ''x'' [strVal ''a'']]\<rparr>,
      \<lparr>ev_id = 3, ev_trace = ''t3'', ev_name = ''n'',
       ev_attrs = [strAttr ''http.request.method'' ''PUT'', strAttr ''http.request.method'' ''POST'',
                   intAttr ''http.response.status_code'' 200, strAttr ''http.response.status_code'' ''ok'']\<rparr>]"

theorem otel_http_attrs_exact_witness:
  "otel_http_attrs [MapArg (map_window (events three_events) 1 2 [True, True, True])] = Returns (Inr
    \<lparr>ha_valid = [True, True], ha_method = [None, Some ''POST''], ha_is_error = [Some True, None],
     ha_status_code = [Some 500, None], ha_duration = [None, None], ha_payload_prefix = [None, None]\<rparr>)"
proof -
  have "build_events three_events = Some (events three_events)"
    by (simp add: build_events_eq three_events_def event_flat_def flat_def leaf_def strAttr_def boolAttr_def intAttr_def
        arrayAttr_def strVal_def boolVal_any_def intVal_any_def arrayVal_def variadic_def)
  from otel_http_attrs_exact [OF this, of 1 2 "[True, True, True]"] show ?thesis
    by (simp add: three_events_def event_attr_def last_value_def upt_rec numeral_2_eq_2 strAttr_def boolAttr_def intAttr_def
        arrayAttr_def strVal_def boolVal_any_def intVal_any_def arrayVal_def)
qed

end
