(* ===== verification/Otel_Program.thy ===== *)
theory Otel_Program
  imports Go_Programs Otel_Udf Iceberg_Open
begin

text \<open>
  The rest of \<open>examples/otel-wide-events\<close>: the physical types of the table, the events the program
  writes and inserts, the registration of \<open>otel_http_attrs\<close>, and \<open>main\<close>.
\<close>

section \<open>Types\<close>

text \<open>Arrow types, nested ones included; a field is its name, type and whether it is nullable.\<close>

datatype arrow_type =
    Plain dtype
  | StructOf "(string \<times> arrow_type \<times> bool) list"
  | ListOf arrow_type
  | MapOf arrow_type arrow_type

definition anyValueLeafType :: arrow_type where
  "anyValueLeafType = StructOf
     [(''string_value'', Plain StringDT, True), (''bool_value'', Plain BoolDT, True), (''int_value'', Plain Int64DT, True),
      (''double_value'', Plain Float64DT, True), (''bytes_value'', Plain BinaryDT, True)]"

definition kvLeafType :: arrow_type where
  "kvLeafType = StructOf [(''key'', Plain StringDT, False), (''value'', anyValueLeafType, True)]"

definition anyValueType :: arrow_type where
  "anyValueType = StructOf
     [(''string_value'', Plain StringDT, True), (''bool_value'', Plain BoolDT, True), (''int_value'', Plain Int64DT, True),
      (''double_value'', Plain Float64DT, True), (''bytes_value'', Plain BinaryDT, True),
      (''array_value'', ListOf anyValueLeafType, True), (''kvlist_value'', ListOf kvLeafType, True)]"

definition wideEventsFields :: "(string \<times> arrow_type \<times> bool) list" where
  "wideEventsFields =
     [(''event_id'', Plain Int64DT, False), (''trace_id'', Plain StringDT, True), (''event_name'', Plain StringDT, True),
      (''attributes'', MapOf (Plain StringDT) anyValueType, True)]"

text \<open>The schema as the core library sees it, which tells nested types apart only by their names.\<close>

definition flat_type :: "arrow_type \<Rightarrow> dtype" where
  "flat_type t = (case t of Plain dt \<Rightarrow> dt | StructOf fs \<Rightarrow> OtherDT ''struct'' | ListOf e \<Rightarrow> OtherDT ''list'' | MapOf k v \<Rightarrow> OtherDT ''map'')"

definition wideEventsSchema :: Schema where
  "wideEventsSchema =
     \<lparr>schema_fields = map (\<lambda>(name, t, nullable). \<lparr>field_name = name, field_type = flat_type t, field_nullable = nullable,
        field_metadata = []\<rparr>) wideEventsFields, schema_metadata = []\<rparr>"

definition httpAttrsResultType :: arrow_type where
  "httpAttrsResultType = StructOf
     [(''method'', Plain StringDT, True), (''is_error'', Plain BoolDT, True), (''status_code'', Plain Int64DT, True),
      (''duration'', Plain Float64DT, True), (''payload_prefix'', Plain BinaryDT, True)]"

definition struct_field :: "arrow_type \<Rightarrow> nat \<Rightarrow> arrow_type option" where
  "struct_field t i = (case t of StructOf fs \<Rightarrow> if i < length fs then Some (fst (snd (fs ! i))) else None | _ \<Rightarrow> None)"

text \<open>
  What the comments of \<open>attr_udf.go\<close> ask to keep in sync: each wanted value has the type of the
  result's field of the same index, and a leaf starts like a full value.
\<close>

lemma wants_aligned:
  "map (\<lambda>w. struct_field anyValueType (w_valueField w)) httpAttrWants =
   map (\<lambda>w. struct_field httpAttrsResultType (w_valueField w)) httpAttrWants"
  "map w_valueField httpAttrWants = [0..<5]"
  "\<forall>i < 5. struct_field anyValueLeafType i = struct_field anyValueType i \<and> struct_field anyValueType i \<noteq> None"
proof -
  show "map (\<lambda>w. struct_field anyValueType (w_valueField w)) httpAttrWants =
      map (\<lambda>w. struct_field httpAttrsResultType (w_valueField w)) httpAttrWants"
    by (simp add: httpAttrWants_def struct_field_def anyValueType_def httpAttrsResultType_def)
  show "map w_valueField httpAttrWants = [0..<5]" by (simp add: httpAttrWants_def upt_rec)
  show "\<forall>i < 5. struct_field anyValueLeafType i = struct_field anyValueType i \<and> struct_field anyValueType i \<noteq> None"
    by (simp add: struct_field_def anyValueType_def anyValueLeafType_def nth_append less_Suc_eq numeral_eq_Suc)
qed

section \<open>The program's events\<close>

text \<open>A floating-point literal is its nearest double, given by its bits.\<close>

definition initial_events :: "event list" where
  "initial_events =
     [\<lparr>ev_id = 1, ev_trace = ''trace-001'', ev_name = ''http.request'', ev_attrs =
        [strAttr ''http.request.method'' ''GET'', strAttr ''url.path'' ''/orders/1'', strAttr ''client.address'' ''203.0.113.1'',
         intAttr ''http.response.status_code'' 200, dblAttr ''http.server.request.duration'' (F64 0x3F80624DD2F1A9FC),
         boolAttr ''error'' False]\<rparr>,
      \<lparr>ev_id = 2, ev_trace = ''trace-002'', ev_name = ''http.request'', ev_attrs =
        [strAttr ''http.request.method'' ''GET'', strAttr ''url.path'' ''/orders/2'', strAttr ''client.address'' ''203.0.113.2'',
         intAttr ''http.response.status_code'' 500, dblAttr ''http.server.request.duration'' (F64 0x3FC22D0E56041893),
         boolAttr ''error'' True]\<rparr>]"

definition staged_events :: "event list" where
  "staged_events =
     [\<lparr>ev_id = 3, ev_trace = ''trace-003'', ev_name = ''http.request'', ev_attrs =
        [strAttr ''http.request.method'' ''POST'', strAttr ''url.path'' ''/orders'', strAttr ''client.address'' ''203.0.113.7'',
         intAttr ''http.response.status_code'' 404, dblAttr ''http.server.request.duration'' (F64 0x3F9FBE76C8B43958),
         boolAttr ''error'' True, bytesAttr ''debug.payload_prefix'' (Some [0xDE, 0xAD, 0xBE, 0xEF]),
         arrayAttr ''http.request.header.accept'' [strVal ''text/html'', strVal ''application/json''],
         kvlistAttr ''debug.context'' [kvPair ''region'' (strVal ''us-west''), kvPair ''retry_count'' (intVal_any 2)]]\<rparr>]"

text \<open>Both batches are accepted: nothing nests deeper than one level.\<close>

lemmas attr_simps =
  strAttr_def boolAttr_def intAttr_def dblAttr_def bytesAttr_def arrayAttr_def kvlistAttr_def strVal_def boolVal_any_def
  intVal_any_def dblVal_def bytesVal_any_def arrayVal_def kvlistVal_def kvPair_def variadic_def

lemma events_accepted:
  "build_events initial_events = Some (events initial_events)"
  "build_events staged_events = Some (events staged_events)"
  by (simp_all add: build_events_eq initial_events_def staged_events_def event_flat_def flat_def leaf_def attr_simps)

text \<open>What the function returns for the table after the insert.\<close>

lemma attrs_after_insert:
  "otel_http_attrs [MapArg (map_window (events (initial_events @ staged_events)) 0 3 [True, True, True])] = Returns (Inr
    \<lparr>ha_valid = [True, True, True], ha_method = [Some ''GET'', Some ''GET'', Some ''POST''],
     ha_is_error = [Some False, Some True, Some True], ha_status_code = [Some 200, Some 500, Some 404],
     ha_duration = [Some (F64 0x3F80624DD2F1A9FC), Some (F64 0x3FC22D0E56041893), Some (F64 0x3F9FBE76C8B43958)],
     ha_payload_prefix = [None, None, Some [0xDE, 0xAD, 0xBE, 0xEF]]\<rparr>)"
proof -
  have "build_events (initial_events @ staged_events) = Some (events (initial_events @ staged_events))"
    by (simp add: build_events_eq initial_events_def staged_events_def event_flat_def flat_def leaf_def attr_simps)
  note reads = window_reads [OF this, of 0 3 "[True, True, True]"]
  have three: "[0..<3] = [0, 1, 2]" "replicate 3 True = [True, True, True]" by (simp_all add: upt_rec numeral_3_eq_3)
  show ?thesis
    by (subst reads) (simp_all add: three initial_events_def staged_events_def event_attr_def last_value_def attr_simps)
qed

section \<open>The function and the staging table\<close>

text \<open>
  What the Arrow library does between columns and this model's values: a function's argument, its
  result, and the record of a builder's events.
\<close>

record arrow_lib =
  al_argument :: "column \<Rightarrow> arg_array"
  al_result :: "HttpAttrs \<Rightarrow> column"
  al_record :: "EventBuilder \<Rightarrow> Batch"

definition newOtelHTTPAttrsUDF :: "arrow_lib \<Rightarrow> dtype \<Rightarrow> udf_err + scalar_udf" where
  "newOtelHTTPAttrsUDF lib attrsType =
     NewScalarUDF ''otel_http_attrs'' [Some attrsType] (Some (flat_type httpAttrsResultType))
       (Some (\<lambda>args. call_bind (otel_http_attrs (map (al_argument lib) args))
          (\<lambda>r. Returns (case r of Inl e \<Rightarrow> Inl e | Inr h \<Rightarrow> Inr (Some (al_result lib h))))))"

definition registerAttrUDFs :: "string \<Rightarrow> arrow_lib \<Rightarrow> dtype \<Rightarrow> unit prog" where
  "registerAttrUDFs what lib attrsType =
     (case newOtelHTTPAttrsUDF lib attrsType of Inl _ \<Rightarrow> fatal what | Inr udf \<Rightarrow> register_function what udf)"

text \<open>
  \<open>memProvider.Scan\<close> retains its record before \<open>NewRecordReader\<close>, which takes a reference of its
  own for the reader and checks the record's schema. \<open>w_scans\<close> counts the calls.
\<close>

definition memProvider_rows :: "Schema \<Rightarrow> Batch \<Rightarrow> string + RecordReader option" where
  "memProvider_rows schema batch =
     (if b_fields batch = schema_fields schema then Inr (Some (LibReader (schema_fields schema) [batch] None None 1))
      else Inl ''arrow/array: mismatched schema'')"

definition memProvider_Scan :: "Schema \<Rightarrow> Batch \<Rightarrow> (string + RecordReader option) prog" where
  "memProvider_Scan schema batch =
     prog_then (acquire (RecordRes ''staging''))
       (\<lambda>e w. (Done (memProvider_rows schema batch), w\<lparr>w_scans := Suc (w_scans w)\<rparr>))"

definition memProvider :: "Schema \<Rightarrow> Batch \<Rightarrow> table_provider" where
  "memProvider schema batch =
     \<lparr>tp_Schema = Returns (Some schema), tp_Scan = Returns (memProvider_rows schema batch), tp_ScanWithOptions = None,
      tp_InsertInto = None\<rparr>"

text \<open>
  The engine scans the registered table as often as the statement just made needs, and gives up the
  readers with it.
\<close>

fun repeated :: "nat \<Rightarrow> 'a prog \<Rightarrow> unit prog" where
  "repeated 0 p = ret ()"
| "repeated (Suc n) p = prog_then p (repeated n p)"

definition scanned_by_engine :: "'a prog \<Rightarrow> unit prog" where
  "scanned_by_engine scan = (\<lambda>e w. repeated (e_scans e (w_calls w)) scan e w)"

section \<open>The program\<close>

text \<open>SQL texts are given with single spaces.\<close>

definition httpEventsView :: string where
  \<open>httpEventsView =
     ''CREATE VIEW http_events AS SELECT event_id, trace_id, event_name, '' @
     ''m_method.string_value AS "http.request.method", m_path.string_value AS "url.path", '' @
     ''m_addr.string_value AS "client.address", m_status.int_value AS "http.response.status_code", '' @
     ''m_dur.double_value AS "http.server.request.duration", m_err.bool_value AS "error", '' @
     ''m_payload.bytes_value AS "debug.payload_prefix", m_accept.array_value AS "http.request.header.accept", '' @
     ''m_ctx.kvlist_value AS "debug.context" FROM ( SELECT event_id, trace_id, event_name, '' @
     concat (map (\<lambda>(key, alias, sep). ''attributes['' @ [CHR 0x27] @ key @ [CHR 0x27] @ ''] AS '' @ alias @ sep)
       [(''http.request.method'', ''m_method'', '', ''), (''url.path'', ''m_path'', '', ''),
        (''client.address'', ''m_addr'', '', ''), (''http.response.status_code'', ''m_status'', '', ''),
        (''http.server.request.duration'', ''m_dur'', '', ''), (''error'', ''m_err'', '', ''),
        (''debug.payload_prefix'', ''m_payload'', '', ''), (''http.request.header.accept'', ''m_accept'', '', ''),
        (''debug.context'', ''m_ctx'', '' '')]) @
     ''FROM wide_events )''\<close>

definition Join :: "string \<Rightarrow> string \<Rightarrow> string" where
  "Join dir name = (if dir = [] then Clean name else Clean (dir @ ''/'' @ name))"

text \<open>A Parquet file written with one batch: the file is closed by a \<open>defer\<close>, the writer before.\<close>

definition write_parquet :: "string \<Rightarrow> Batch \<Rightarrow> unit prog" where
  "write_parquet path rec =
     prog_then (must_call ''create'') (prog_then (acquire (FileRes path)) (deferring (FileRes path)
       (prog_then (must_call ''NewFileWriter'') (prog_then (must_call ''Write'') (prog_then (must_call ''Close writer'')
         (write_file path [rec]))))))"

text \<open>The record of a builder's events; the builder panics on a value nested too deep.\<close>

definition build_record :: "arrow_lib \<Rightarrow> event list \<Rightarrow> Batch prog" where
  "build_record lib evs = (\<lambda>e w.
     case build_events evs of
       None \<Rightarrow> (Panicking ''array_value/kvlist_value elements must be scalar AnyValues'', w)
     | Some b \<Rightarrow> (Done (al_record lib b), w))"

definition writeInitialEvents :: "arrow_lib \<Rightarrow> string \<Rightarrow> string prog" where
  "writeInitialEvents lib dir =
     prog_then (acquire (BuilderRes ''events'')) (deferring (BuilderRes ''events'')
       (prog_bind (build_record lib initial_events) (\<lambda>rec.
        prog_then (acquire (RecordRes ''events'')) (deferring (RecordRes ''events'')
          (prog_then (write_parquet (Join dir ''wide_events.parquet'') rec)
             (ret (Join dir ''wide_events.parquet'')))))))"

definition event_columns :: string where
  \<open>event_columns =
     ''SELECT event_id, "http.request.method", "url.path", "client.address", "http.response.status_code", '' @
     ''"http.server.request.duration", "error", "debug.payload_prefix", "http.request.header.accept", "debug.context" '' @
     ''FROM http_events ORDER BY event_id''\<close>

definition printHTTPEvents :: "unit prog" where
  "printHTTPEvents =
     prog_bind (query ''SQL'' event_columns) (\<lambda>reader. deferring (ReaderRes event_columns)
       (print_rows ''reading result'' (\<lambda>b. [PrintBatch b]) reader))"

text \<open>\<open>Schema().Field(i).Type\<close> of an opened table.\<close>

definition column_type :: "table_provider \<Rightarrow> nat \<Rightarrow> dtype prog" where
  "column_type p i = (\<lambda>e w.
     case tp_Schema p of
       Panics m \<Rightarrow> (Panicking m, w)
     | Returns None \<Rightarrow> (Panicking ''nil pointer dereference'', w)
     | Returns (Some sc) \<Rightarrow>
         if i < length (schema_fields sc) then (Done (field_type (schema_fields sc ! i)), w)
         else (Panicking ''index out of range'', w))"

definition attrs_query :: string where
  "attrs_query =
     ''SELECT event_id, h.method, h.status_code, h.duration, h.is_error, h.payload_prefix '' @
     ''FROM (SELECT event_id, otel_http_attrs(attributes) AS h FROM wide_events) ORDER BY event_id''"

definition staging_insert :: string where
  "staging_insert = ''INSERT INTO wide_events SELECT * FROM staging''"

text \<open>
  From the \<open>staging\<close> builder on; the builder is released when its record is made. A statement may
  scan the staging table once it is registered.
\<close>

definition otel_insert :: "arrow_lib \<Rightarrow> unit prog" where
  "otel_insert lib =
     prog_then (acquire (BuilderRes ''staging''))
    (prog_bind (build_record lib staged_events) (\<lambda>rec.
     prog_then (prog_then (acquire (RecordRes ''staging'')) (release (BuilderRes ''staging'')))
    (deferring (RecordRes ''staging'')
    (prog_then (register_table ''RegisterTable(staging)'' ''staging'' (memProvider wideEventsSchema rec))
    (prog_bind (query ''INSERT INTO wide_events'' staging_insert) (\<lambda>insertReader.
     prog_then (scanned_by_engine (memProvider_Scan wideEventsSchema rec))
    (prog_then (release (ReaderRes staging_insert))
    (prog_then (print_out [PrintText ''--- http_events, after insert ---''])
    (prog_then printHTTPEvents
    (prog_then (scanned_by_engine (memProvider_Scan wideEventsSchema rec))
    (prog_then (print_out [PrintText ''--- direct attribute extraction via otel_http_attrs UDF ---''])
    (prog_bind (query ''SQL (otel_http_attrs)'' attrs_query) (\<lambda>udfReader. deferring (ReaderRes attrs_query)
    (prog_then (scanned_by_engine (memProvider_Scan wideEventsSchema rec))
       (print_rows ''reading result'' (\<lambda>b. [PrintBatch b]) udfReader)))))))))))))))"

definition otel_session :: "arrow_lib \<Rightarrow> string \<Rightarrow> unit prog" where
  "otel_session lib path =
     prog_bind (open_table ''parquet.NewTableProvider'' path) (\<lambda>events.
     prog_then (register_table ''RegisterTable(wide_events)'' ''wide_events'' events)
    (prog_then (prog_bind (query ''CREATE VIEW http_events'' httpEventsView) (\<lambda>_. ret ()))
    (prog_bind (column_type events 3) (\<lambda>attrsType.
     prog_then (registerAttrUDFs ''registerAttrUDFs'' lib attrsType)
    (prog_then (print_out [PrintText ''--- http_events, before insert ---''])
    (prog_then printHTTPEvents (otel_insert lib)))))))"

text \<open>The rest of a main program once it has a temporary directory.\<close>

definition in_temp_dir :: "(env \<Rightarrow> string) \<Rightarrow> (string \<Rightarrow> unit prog) \<Rightarrow> unit prog" where
  "in_temp_dir name body =
     prog_then (must_call ''MkdirTemp'') (prog_then (acquire TempDirRes)
       (deferring TempDirRes (\<lambda>e w. body (name e) e w)))"

definition otel_main :: "arrow_lib \<Rightarrow> (env \<Rightarrow> string) \<Rightarrow> unit prog" where
  "otel_main lib name =
     in_temp_dir name (\<lambda>dir.
       prog_bind (writeInitialEvents lib dir) (\<lambda>path.
       prog_then (new_session ''NewSessionContext'') (deferring_close (otel_session lib path))))"

section \<open>What it leaves open\<close>

lemma moves_record: "moves k e A A (build_record lib evs)"
  by (simp add: moves_def build_record_def split: option.splits)

lemma moves_column_type: "moves k e A A (column_type p i)"
  by (auto simp: moves_def column_type_def split: call.splits option.splits)

lemma moves_attr_udfs: "moves k e A A (registerAttrUDFs what lib dt)"
  by (auto simp: registerAttrUDFs_def intro: moves_fatal moves_registers split: sum.splits)

lemma moves_write_parquet: "moves k e A A (write_parquet path rec)"
  unfolding write_parquet_def by (rule moves_rules)+

lemma moves_initial_events: "moves k e A A (writeInitialEvents lib dir)"
  unfolding writeInitialEvents_def by (rule moves_rules moves_record moves_write_parquet)+

lemma moves_print_events: "queries_ok e \<Longrightarrow> moves k e A A printHTTPEvents"
  unfolding printHTTPEvents_def by (rule moves_rules moves_query | assumption)+

lemma moves_swap: "moves k e A (add_mset r (add_mset s B)) p \<Longrightarrow> moves k e A (add_mset s (add_mset r B)) p"
  by (simp add: add_mset_commute)

lemma moves_new_record:
  "moves k e (add_mset b A) (add_mset r A) (prog_then (acquire r) (release b))"
  by (rule moves_then [OF moves_acquire]) (simp add: moves_def release_def session_inv_def)

lemma moves_mem_scan: "moves 1 e A A (memProvider_Scan schema batch)"
  by (simp add: moves_def memProvider_Scan_def prog_then_def prog_bind_def acquire_def session_inv_def scan_refs_def)

lemma moves_repeated: "moves k e A A p \<Longrightarrow> moves k e A A (repeated n p)"
  by (induction n) (auto intro: moves_ret moves_then)

lemma moves_scanned: "moves 1 e A A (scanned_by_engine (memProvider_Scan schema batch))"
  using moves_repeated [OF moves_mem_scan] by (auto simp: moves_def scanned_by_engine_def)

lemma moves_otel_insert: "queries_ok e \<Longrightarrow> moves 1 e A A (otel_insert lib)"
  unfolding otel_insert_def
  by (rule moves_then moves_bind moves_new_record moves_deferring moves_acquire moves_release moves_record moves_registers
      moves_query moves_print moves_print_events moves_scanned moves_rows | assumption)+

lemma moves_otel_session: "queries_ok e \<Longrightarrow> moves 1 e A (add_mset (ReaderRes httpEventsView) A) (otel_session lib path)"
  unfolding otel_session_def
  by (rule moves_then moves_bind moves_ret moves_open moves_registers moves_query moves_column_type moves_attr_udfs moves_print
      moves_print_events moves_otel_insert | assumption)+

end
