(* ===== verification/Example_Programs.thy ===== *)
theory Example_Programs
  imports Otel_Program Extend_Example
begin

text \<open>
  The main programs of \<open>examples/sql\<close>, \<open>examples/parquet-iceberg\<close> and \<open>examples/extend\<close>, and what all
  four leave behind: open resources, handles of the session, the temporary directory of a run that
  \<open>log.Fatalf\<close> ended.
\<close>

section \<open>\<open>examples/sql\<close>\<close>

definition sql_text :: string where
  "sql_text = ''SELECT 1 AS one, 2 AS two UNION ALL SELECT 3, 4''"

definition sql_main :: "unit prog" where
  "sql_main =
     prog_then (new_session ''NewSessionContext'') (deferring_close
       (prog_bind (query ''SQL'' sql_text) (\<lambda>reader. deferring (ReaderRes sql_text)
         (prog_then (print_out [PrintSchema (rd_Schema reader)])
           (print_rows ''reading result'' (\<lambda>rec. [PrintShape (b_numRows rec) (length (b_columns rec)), PrintBatch rec]) reader)))))"

section \<open>\<open>examples/parquet-iceberg\<close>\<close>

definition productsSchema :: "Field list" where
  "productsSchema = [nullable_field ''id'' Int64DT, nullable_field ''name'' StringDT]"

definition productsRecord :: Batch where
  "productsRecord =
     \<lparr>b_fields = productsSchema,
      b_columns = [map (\<lambda>n. Some (IntCell n)) [1, 2, 3],
        map (\<lambda>s. Some (BytesCell (bytes_of_string s))) [''widget'', ''gadget'', ''gizmo'']],
      b_numRows = 3\<rparr>"

definition writeProductsParquet :: "string \<Rightarrow> string prog" where
  "writeProductsParquet dir =
     prog_then (acquire (BuilderRes ''products'')) (deferring (BuilderRes ''products'')
    (prog_then (acquire (RecordRes ''products'')) (deferring (RecordRes ''products'')
    (prog_then (write_parquet (Join dir ''products.parquet'') productsRecord)
       (ret (Join dir ''products.parquet''))))))"

definition ordersSchema :: "Field list" where
  "ordersSchema = [nullable_field ''product_id'' Int64DT, nullable_field ''quantity'' Int64DT]"

definition ordersRecord :: Batch where
  "ordersRecord =
     \<lparr>b_fields = ordersSchema,
      b_columns = [map (\<lambda>n. Some (IntCell n)) [1, 2, 1, 3], map (\<lambda>n. Some (IntCell n)) [5, 2, 1, 8]],
      b_numRows = 4\<rparr>"

text \<open>
  The record is retained once more before the reader is made. The reader holds references of its
  own (\<open>peopleTable.Scan\<close> of \<open>examples/extend\<close> relies on it) and gives them up with its release.
  \<open>location\<close> is where the catalog put the metadata.
\<close>

definition writeOrdersIceberg :: "string \<Rightarrow> string \<Rightarrow> string prog" where
  "writeOrdersIceberg location dir =
     prog_then (acquire (BuilderRes ''orders'')) (deferring (BuilderRes ''orders'')
    (prog_then (acquire (RecordRes ''orders'')) (deferring (RecordRes ''orders'')
    (prog_then (must_call ''MkdirAll'')
    (prog_then (must_call ''hadoop.NewCatalog'')
    (prog_then (must_call ''CreateNamespace'')
    (prog_then (must_call ''ArrowSchemaToIcebergWithFreshIDs'')
    (prog_then (must_call ''CreateTable'')
    (prog_then (acquire (RecordRes ''orders''))
    (prog_then (must_call ''NewRecordReader'')
    (prog_then (acquire (ReaderRes ''orders'')) (deferring (ReaderRes ''orders'')
    (prog_then (must_call ''Append'')
    (prog_then (write_file ''default.orders'' [ordersRecord]) (ret location)))))))))))))))"

text \<open>
  \<open>startRESTCatalogFake\<close>: the bodies it serves. \<open>%q\<close> quotes a string the Go way, here of bytes
  below 128 and of printable text above.
\<close>

definition hex_digit :: "nat \<Rightarrow> char" where
  "hex_digit n = ''0123456789abcdef'' ! n"

definition quote_go_char :: "char \<Rightarrow> string" where
  "quote_go_char c =
     (let n = of_char c :: nat in
      if n = 0x22 \<or> n = 0x5C then [CHR 0x5C, c]
      else if n = 7 then [CHR 0x5C, CHR ''a''] else if n = 8 then [CHR 0x5C, CHR ''b'']
      else if n = 9 then [CHR 0x5C, CHR ''t''] else if n = 10 then [CHR 0x5C, CHR ''n'']
      else if n = 11 then [CHR 0x5C, CHR ''v''] else if n = 12 then [CHR 0x5C, CHR ''f'']
      else if n = 13 then [CHR 0x5C, CHR ''r'']
      else if n < 0x20 \<or> n = 0x7F then [CHR 0x5C, CHR ''x'', hex_digit (n div 16), hex_digit (n mod 16)]
      else [c])"

definition go_quote :: "string \<Rightarrow> string" where
  "go_quote s = [CHR 0x22] @ concat (map quote_go_char s) @ [CHR 0x22]"

definition rest_response :: "string \<Rightarrow> string \<Rightarrow> string \<Rightarrow> string option" where
  \<open>rest_response metadataLocation metadataBytes path =
     (if path = ''/v1/config'' then Some (''{"defaults":{},"overrides":{}}'' @ [CHR 0x0A])
      else if path = ''/v1/namespaces/default/tables/orders''
        then Some (''{"metadata-location": '' @ go_quote metadataLocation @ '', "metadata": '' @ metadataBytes @ ''}'')
      else None)\<close>

definition startRESTCatalogFake :: "unit prog" where
  "startRESTCatalogFake = prog_then (must_call ''reading orders metadata.json'') (acquire ServerRes)"

definition join_text :: string where
  "join_text = ''SELECT p.name, o.quantity FROM orders o JOIN products p ON p.id = o.product_id ORDER BY p.name''"

definition products_insert :: string where "products_insert = ''INSERT INTO products VALUES (4, '' @ [CHR 0x27] @ ''sprocket'' @ [CHR 0x27] @ '')''"
definition products_text :: string where "products_text = ''SELECT name FROM products ORDER BY id''"
definition orders_insert :: string where "orders_insert = ''INSERT INTO orders_writable VALUES (2, 3)''"
definition orders_count :: string where "orders_count = ''SELECT COUNT('' @ [CHR 0x2A] @ '') FROM orders_writable''"
definition orders_text :: string where
  "orders_text = ''SELECT product_id, quantity FROM orders_via_catalog ORDER BY product_id''"


definition print_batches :: "RecordReader \<Rightarrow> unit prog" where
  "print_batches reader = print_rows ''reading result'' (\<lambda>rec. [PrintBatch rec]) reader"

text \<open>From the reopened table on.\<close>

definition orders_session :: "unit prog" where
  "orders_session =
     prog_bind (open_table ''iceberg.NewTableProviderFromCatalog'' ''default.orders'') (\<lambda>ordersWritable.
     prog_then (register_table ''RegisterTable(orders_writable)'' ''orders_writable'' ordersWritable)
    (prog_bind (query ''INSERT INTO orders_writable'' orders_insert) (\<lambda>insertOrdersReader.
     prog_then (release (ReaderRes orders_insert))
    (prog_bind (query ''SQL'' orders_count) (\<lambda>afterOrdersInsert. deferring (ReaderRes orders_count)
    (prog_then (print_batches afterOrdersInsert)
    (prog_then startRESTCatalogFake (deferring ServerRes
    (prog_then (must_call ''rest.NewCatalog'')
    (prog_bind (open_table ''iceberg.NewTableProviderFromCatalog'' ''default.orders'') (\<lambda>ordersViaCatalog.
     prog_then (register_table ''RegisterTable(orders_via_catalog)'' ''orders_via_catalog'' ordersViaCatalog)
    (prog_bind (query ''SQL'' orders_text) (\<lambda>catalogReader. deferring (ReaderRes orders_text)
       (print_rows ''reading catalog result'' (\<lambda>rec. [PrintBatch rec]) catalogReader))))))))))))))"

definition parquet_iceberg_session :: "string \<Rightarrow> string \<Rightarrow> unit prog" where
  "parquet_iceberg_session productsPath ordersMetaLoc =
     prog_bind (open_table ''parquet.NewTableProvider'' productsPath) (\<lambda>products.
     prog_then (register_table ''RegisterTable(products)'' ''products'' products)
    (prog_bind (open_table ''iceberg.NewTableProvider'' ordersMetaLoc) (\<lambda>orders.
     prog_then (register_table ''RegisterTable(orders)'' ''orders'' orders)
    (prog_bind (query ''SQL'' join_text) (\<lambda>reader. deferring (ReaderRes join_text)
    (prog_then (print_batches reader)
    (prog_bind (query ''INSERT INTO products'' products_insert) (\<lambda>insertReader.
     prog_then (release (ReaderRes products_insert))
    (prog_bind (query ''SQL'' products_text) (\<lambda>afterInsert. deferring (ReaderRes products_text)
    (prog_then (print_batches afterInsert) orders_session)))))))))))"

definition parquet_iceberg_main :: "string \<Rightarrow> (env \<Rightarrow> string) \<Rightarrow> unit prog" where
  "parquet_iceberg_main location name =
     in_temp_dir name (\<lambda>dir.
       prog_bind (writeProductsParquet dir) (\<lambda>productsPath.
       prog_bind (writeOrdersIceberg location dir) (\<lambda>ordersMetaLoc.
       prog_then (new_session ''NewSessionContext'')
         (deferring_close (parquet_iceberg_session productsPath ordersMetaLoc)))))"

section \<open>\<open>examples/extend\<close>\<close>

definition people_text :: string where
  "people_text = ''SELECT name, double(id) AS doubled_id FROM people WHERE id > 1 ORDER BY id''"
definition counts_text :: string where "counts_text = ''SELECT n FROM warehouse.public.counts ORDER BY n''"
definition more_text :: string where "more_text = ''SELECT n FROM warehouse.public.more''"

text \<open>What the handle of a registered catalog stands for changes with the catalog.\<close>

definition catalog_changed :: "string \<Rightarrow> catalog_provider \<Rightarrow> unit prog" where
  "catalog_changed name c = (\<lambda>e w.
     let s = w_session w in
     case map_of (es_catalogs s) name of
       Some (Some n) \<Rightarrow>
         (case h_live (ss_handles s) n of
            Some (CatalogImpl old) \<Rightarrow> (Done (), w\<lparr>w_session := s\<lparr>ss_handles := points_to (ss_handles s) n (CatalogImpl c)\<rparr>\<rparr>)
          | _ \<Rightarrow> (Done (), w))
     | _ \<Rightarrow> (Done (), w))"

text \<open>\<open>visited\<close> is the order in which \<open>range\<close> visits a catalog's map.\<close>

definition warehouse_session :: "(warehouseCatalog \<Rightarrow> string list) \<Rightarrow> unit prog" where
  "warehouse_session visited =
     (let warehouse = addTable newWarehouseCatalog ''counts'' (intTable [10, 20, 30]);
          warehouse' = addTable warehouse ''more'' (intTable [99]) in
      prog_then (register_catalog ''RegisterCatalog'' ''warehouse'' (wh_catalog warehouse (visited warehouse)))
     (prog_bind (query ''SQL'' counts_text) (\<lambda>catalogReader.
      prog_then (print_out [PrintText ''warehouse.public.counts before adding more:''])
     (prog_then (print_rows ''reading catalog result'' (\<lambda>rec. [PrintBatch rec]) catalogReader)
     (prog_then (release (ReaderRes counts_text))
     (prog_then (catalog_changed ''warehouse'' (wh_catalog warehouse' (visited warehouse')))
     (prog_bind (query ''SQL'' more_text) (\<lambda>moreReader.
      prog_then (print_out [PrintText ''warehouse.public.more, added after registration:''])
     (prog_then (print_rows ''reading catalog result'' (\<lambda>rec. [PrintBatch rec]) moreReader)
        (release (ReaderRes more_text)))))))))))"

definition extend_session :: "(warehouseCatalog \<Rightarrow> string list) \<Rightarrow> unit prog" where
  "extend_session visited =
     prog_then (register_table ''RegisterTable'' ''people'' (peopleTable peopleSchema))
    (case double_udf of
       Inl _ \<Rightarrow> fatal ''NewScalarUDF''
     | Inr double \<Rightarrow>
         prog_then (register_function ''RegisterScalarUDF'' double)
        (prog_bind (query ''SQL'' people_text) (\<lambda>reader. deferring (ReaderRes people_text)
        (prog_then (print_out [PrintSchema (rd_Schema reader)])
        (prog_then (print_rows ''reading result'' (\<lambda>rec. [PrintShape (b_numRows rec) 0, PrintBatch rec]) reader)
           (warehouse_session visited))))))"

definition extend_main :: "(warehouseCatalog \<Rightarrow> string list) \<Rightarrow> unit prog" where
  "extend_main visited = prog_then (new_session ''NewSessionContext'') (deferring_close (extend_session visited))"

section \<open>What they leave open\<close>

lemma moves_products: "moves k e A A (writeProductsParquet dir)"
  unfolding writeProductsParquet_def by (rule moves_rules moves_write_parquet)+

text \<open>The second reference to the record is never released.\<close>

lemma moves_orders: "moves k e A (add_mset (RecordRes ''orders'') A) (writeOrdersIceberg location dir)"
proof -
  let ?R = "RecordRes ''orders''" and ?B = "BuilderRes ''orders''"
  have last: "moves k e (add_mset (ReaderRes ''orders'') (add_mset ?R (add_mset ?R (add_mset ?B A))))
      (add_mset (ReaderRes ''orders'') (add_mset ?R (add_mset ?B (add_mset ?R A)))) (ret location)"
    using moves_ret by (simp add: add_mset_commute)
  show ?thesis
    unfolding writeOrdersIceberg_def by (rule last moves_rules)+
qed

lemma moves_orders_session: "queries_ok e \<Longrightarrow> moves k e A A orders_session"
  unfolding orders_session_def print_batches_def startRESTCatalogFake_def by (rule moves_rules moves_query | assumption)+

lemma moves_parquet_iceberg: "queries_ok e \<Longrightarrow> moves k e A A (parquet_iceberg_session productsPath loc)"
  unfolding parquet_iceberg_session_def print_batches_def
  by (rule moves_rules moves_query moves_orders_session | assumption)+

lemma moves_catalog_changed: "moves k e A A (catalog_changed name c)"
proof (rule movesI)
  fix w C
  assume w: "w_live w = C + A + scan_refs k w" "session_inv e w"
  let ?s = "w_session w"
  have "session_inv e (w\<lparr>w_session := ?s\<lparr>ss_handles := points_to (ss_handles ?s) n (CatalogImpl c)\<rparr>\<rparr>)"
    if "h_live (ss_handles ?s) n = Some (CatalogImpl old)" for n old
    using w(2) provider_changed [of "holding ?s" n "CatalogImpl old" "CatalogImpl c"] that
    by (auto simp: session_inv_def holding_def set_handles_def points_to_def intro: rtranclp.rtrancl_into_rtrancl)
  with w show "case catalog_changed name c e w of
       (Done a, w') \<Rightarrow> w_live w' = C + A + scan_refs k w' \<and> session_inv e w'
     | (FatalExit, w') \<Rightarrow> C \<subseteq># w_live w' \<and> w_fatal w' \<noteq> None
     | (Panicking m, w') \<Rightarrow> True"
    by (auto simp: catalog_changed_def Let_def split: option.splits go_impl.splits)
qed

lemma moves_warehouse: "queries_ok e \<Longrightarrow> moves k e A A (warehouse_session visited)"
  unfolding warehouse_session_def Let_def by (rule moves_rules moves_query moves_catalog_changed | assumption)+

lemma moves_extend:
  assumes "queries_ok e"
  shows "moves k e A A (extend_session visited)"
  unfolding extend_session_def
proof (rule moves_then [OF moves_registers(1)], cases double_udf)
  case (Inl ue)
  show "moves k e A A (case_sum (\<lambda>_. fatal ''NewScalarUDF'') f double_udf)" for f
    unfolding Inl sum.case by (rule moves_fatal)
next
  case (Inr double)
  show "moves k e A A (case double_udf of
      Inl _ \<Rightarrow> fatal ''NewScalarUDF''
    | Inr double \<Rightarrow>
        prog_then (register_function ''RegisterScalarUDF'' double)
       (prog_bind (query ''SQL'' people_text) (\<lambda>reader. deferring (ReaderRes people_text)
       (prog_then (print_out [PrintSchema (rd_Schema reader)])
       (prog_then (print_rows ''reading result'' (\<lambda>rec. [PrintShape (b_numRows rec) 0, PrintBatch rec]) reader)
          (warehouse_session visited))))))"
    unfolding Inr sum.case using assms by - (rule moves_rules moves_query moves_warehouse | assumption)+
qed

section \<open>The four programs\<close>

datatype example = Sql | ParquetIceberg | OtelWideEvents | Extend

text \<open>A program's run; the parameters are what the libraries choose.\<close>

definition example_main ::
  "arrow_lib \<Rightarrow> string \<Rightarrow> (env \<Rightarrow> string) \<Rightarrow> (warehouseCatalog \<Rightarrow> string list) \<Rightarrow> example \<Rightarrow> unit prog" where
  "example_main lib location name visited ex =
     (case ex of
        Sql \<Rightarrow> sql_main
      | ParquetIceberg \<Rightarrow> parquet_iceberg_main location name
      | OtelWideEvents \<Rightarrow> otel_main lib name
      | Extend \<Rightarrow> extend_main visited)"

definition start :: "env \<Rightarrow> prog_world" where
  "start e = \<lparr>w_calls = 0, w_session = en_session (new_engine (e_builtins e) (e_default e)), w_live = {#}, w_late = {#}, w_scans = 0,
     w_out = [], w_written = [], w_fatal = None\<rparr>"

text \<open>What stays open when a program returns.\<close>

definition left_open :: "example \<Rightarrow> nat \<Rightarrow> resource multiset" where
  "left_open ex scans =
     (case ex of
        ParquetIceberg \<Rightarrow> {#RecordRes ''orders''#}
      | OtelWideEvents \<Rightarrow> {#ReaderRes httpEventsView#} + replicate_mset scans (RecordRes ''staging'')
      | _ \<Rightarrow> {#})"

definition temp_dir :: "example \<Rightarrow> resource multiset" where
  "temp_dir ex = (if ex = ParquetIceberg \<or> ex = OtelWideEvents then {#TempDirRes#} else {#})"

definition ends_well :: "env \<Rightarrow> (nat \<Rightarrow> resource multiset) \<Rightarrow> resource multiset \<Rightarrow> unit outcome \<times> prog_world \<Rightarrow> bool" where
  "ends_well e B D r \<longleftrightarrow>
     (case r of
        (Done a, w) \<Rightarrow> w_live w = B (w_scans w) \<and> w_late w = B (w_scans w) + D \<and> session_inv e w \<and> ss_closed (w_session w)
      | (FatalExit, w) \<Rightarrow> w_fatal w \<noteq> None \<and> (1 < w_calls w \<longrightarrow> D \<subseteq># w_live w)
      | (Panicking m, w) \<Rightarrow> True)"

lemma start_simps [simp]: "w_live (start e) = {#}" "scan_refs k (start e) = {#}" "w_scans (start e) = 0" "w_calls (start e) = 0" "session_inv e (start e)"
  by (simp_all add: start_def scan_refs_def session_inv_def holding_def new_engine_def)

definition ending :: "nat \<Rightarrow> resource multiset \<Rightarrow> nat \<Rightarrow> resource multiset" where
  "ending k B n = B + replicate_mset (k * n) (RecordRes ''staging'')"

lemma ends_wellI:
  assumes "moves k e {#} B p" "closes k e {#} B p"
  shows "ends_well e (ending k B) {#} (p e (start e))"
proof -
  obtain x w where run: "p e (start e) = (x, w)" by (rule prod.exhaust)
  have "w_late w = {#} + B + scan_refs k w \<and> ss_closed (w_session w)" if "x = Done a" for a
    using assms(2) [unfolded closes_def, rule_format, of "start e" "{#}"] run that by simp
  then show ?thesis
    using movesD [OF assms(1), of "start e" "{#}"] run by (cases x) (auto simp: ends_well_def ending_def scan_refs_def)
qed

lemma temp_dir_ends_well:
  assumes body: "\<And>dir. moves k e {#} B (body dir)" "\<And>dir. closes k e {#} B (body dir)"
  shows "ends_well e (ending k B) {#TempDirRes#} (in_temp_dir name body e (start e))"
proof (cases "e_fails e 0")
  case (Some m)
  then show ?thesis by (simp add: ends_well_def in_temp_dir_def prog_then_def prog_bind_def must_call_def fatal_def Let_def)
next
  case None
  define w where "w = start e\<lparr>w_calls := 1, w_live := {#TempDirRes#}\<rparr>"
  have w: "w_live w = {#TempDirRes#} + {#} + scan_refs k w" "session_inv e w"
    using start_simps(5) [of e] by (simp_all add: w_def session_inv_def start_def scan_refs_def)
  have run: "in_temp_dir name body e (start e) = deferring TempDirRes (body (name e)) e w"
    using None by (simp add: in_temp_dir_def prog_then_def prog_bind_def must_call_def acquire_def deferring_def Let_def w_def)
  obtain x w' where x: "body (name e) e w = (x, w')" by (rule prod.exhaust)
  show ?thesis
    using movesD [OF body(1) w, of "name e"] body(2) [of "name e", unfolded closes_def, rule_format, OF w] x
    by (cases x) (auto simp: run ends_well_def deferring_def session_inv_def ending_def scan_refs_def)
qed

lemma endings:
  "ending 0 B = (\<lambda>n. B)" "left_open Sql = (\<lambda>n. {#})" "left_open Extend = (\<lambda>n. {#})"
  "left_open ParquetIceberg = (\<lambda>n. {#RecordRes ''orders''#})" "left_open OtelWideEvents = ending 1 {#ReaderRes httpEventsView#}"
  by (simp_all add: ending_def left_open_def fun_eq_iff)

lemma example_ends_well:
  assumes "queries_ok e"
  shows "ends_well e (left_open ex) (temp_dir ex) (example_main lib location name visited ex e (start e))"
proof (cases ex)
  case Sql
  have "moves 0 e {#SessionRes#} (add_mset SessionRes {#})
      (prog_bind (query ''SQL'' sql_text) (\<lambda>reader. deferring (ReaderRes sql_text)
         (prog_then (print_out [PrintSchema (rd_Schema reader)])
           (print_rows ''reading result'' (\<lambda>rec. [PrintShape (b_numRows rec) (length (b_columns rec)), PrintBatch rec]) reader))))"
    using assms by - (rule moves_rules moves_query | assumption)+
  note close = moves_deferring_close [OF this]
  show ?thesis
    using ends_wellI [OF moves_then [OF moves_new_session close(1)] closes_then [OF moves_new_session close(2)]]
    by (simp add: Sql example_main_def sql_main_def endings temp_dir_def)
next
  case Extend
  note close = moves_deferring_close [OF moves_extend [OF assms, of 0 "add_mset SessionRes {#}" visited]]
  show ?thesis
    using ends_wellI [OF moves_then [OF moves_new_session close(1)] closes_then [OF moves_new_session close(2)]]
    by (simp add: Extend example_main_def extend_main_def endings temp_dir_def)
next
  case OtelWideEvents
  note view = moves_swap [OF moves_otel_session [OF assms, of "add_mset SessionRes {#}" lib]]
  note close = moves_deferring_close [OF view]
  have "moves 1 e {#} {#ReaderRes httpEventsView#} (prog_bind (writeInitialEvents lib dir) (\<lambda>path.
      prog_then (new_session ''NewSessionContext'') (deferring_close (otel_session lib path))))"
    and "closes 1 e {#} {#ReaderRes httpEventsView#} (prog_bind (writeInitialEvents lib dir) (\<lambda>path.
      prog_then (new_session ''NewSessionContext'') (deferring_close (otel_session lib path))))" for dir
    by (rule moves_bind [OF moves_initial_events moves_then [OF moves_new_session close(1)]],
        rule closes_bind [OF moves_initial_events closes_then [OF moves_new_session close(2)]])
  then show ?thesis using temp_dir_ends_well
    by (simp add: OtelWideEvents example_main_def otel_main_def endings temp_dir_def)
next
  case ParquetIceberg
  let ?R = "RecordRes ''orders''"
  let ?body = "\<lambda>dir. prog_bind (writeProductsParquet dir) (\<lambda>productsPath. prog_bind (writeOrdersIceberg location dir) (\<lambda>loc.
      prog_then (new_session ''NewSessionContext'') (deferring_close (parquet_iceberg_session productsPath loc))))"
  note close = moves_deferring_close [OF moves_parquet_iceberg [OF assms, of 0 "add_mset SessionRes {#?R#}"]]
  have "moves 0 e {#} {#?R#} (?body dir)" and "closes 0 e {#} {#?R#} (?body dir)" for dir
    by (rule moves_bind [OF moves_products moves_bind [OF moves_orders moves_then [OF moves_new_session close(1)]]],
        rule closes_bind [OF moves_products closes_bind [OF moves_orders closes_then [OF moves_new_session close(2)]]])
  then show ?thesis using temp_dir_ends_well [where k = 0, unfolded endings(1)]
    by (simp add: ParquetIceberg example_main_def parquet_iceberg_main_def endings temp_dir_def)
qed

text \<open>C29: Whatever the calls of an example program answer, when it returns its session is closed and no handle of
  it is live, and every resource is released, the readers of a session before the session and the
  temporary directory after it, except: in parquet-iceberg a reference to the orders record, and in
  otel-wide-events the reader of the CREATE VIEW statement and, for each scan of the staging table,
  however many the engine makes, the reference memProvider.Scan retains. When a program is ended by a
  call that fails, deferred calls do not run and the temporary directory stays.\<close>

theorem example_programs_release:
  assumes "queries_ok e" and "example_main lib location name visited ex e (start e) = (res, w)"
  shows "(res = Done () \<longrightarrow> w_live w = left_open ex (w_scans w) \<and> w_late w = left_open ex (w_scans w) + temp_dir ex \<and>
      ss_closed (w_session w) \<and> {n. h_live (ss_handles (w_session w)) n \<noteq> None} = {}) \<and>
    (res = FatalExit \<longrightarrow> w_fatal w \<noteq> None \<and> (1 < w_calls w \<longrightarrow> temp_dir ex \<subseteq># w_live w))"
  using example_ends_well [OF assms(1), of ex lib location name visited] closed_session_handles
  by (auto simp: assms(2) ends_well_def)

definition demo_env :: "nat \<Rightarrow> env" where
  "demo_env k =
     \<lparr>e_fails = (\<lambda>n. if n = k then Some ''disk full'' else None),
      e_opened = (\<lambda>n location. memProvider wideEventsSchema productsRecord),
      e_rows = (\<lambda>n sql. LibReader [] [] None None 1), e_query = (\<lambda>n sql s. s), e_scans = (\<lambda>n. 2),
      e_table = (\<lambda>n. \<lparr>eo_utf8 = True, eo_reference = id, eo_exist_err = None, eo_import_err = None, eo_register_err = None\<rparr>),
      e_function = (\<lambda>n. \<lparr>uo_utf8 = True, uo_args_err = None, uo_ret_err = None\<rparr>), e_catalog = (\<lambda>n. True),
      e_builtins = {}, e_default = ''datafusion''\<rparr>"

definition demo_lib :: arrow_lib where
  "demo_lib = \<lparr>al_argument = (\<lambda>c. OtherArg Int64DT), al_result = (\<lambda>h. []), al_record = (\<lambda>b. productsRecord)\<rparr>"

definition demo_run :: "example \<Rightarrow> nat \<Rightarrow> unit outcome \<times> prog_world" where
  "demo_run ex k = example_main demo_lib ''m.json'' (\<lambda>e. ''/tmp/x'') (\<lambda>c. []) ex (demo_env k) (start (demo_env k))"

lemmas prog_defs = in_temp_dir_def prog_then_def prog_bind_def must_call_def acquire_def release_def deferring_def
  deferring_close_def write_parquet_def write_file_def new_session_def query_def open_table_def registering_def register_table_def
  register_function_def print_out_def ret_def fatal_def Let_def

lemmas engine_defs = register_table_in_def RegisterTable_def df_session_register_table_def session.defs NewHandle_def
  go_table_schema_def trapCallbackPanic_def handle_value_def as_table_def NewScalarUDF_def RegisterScalarUDF_def
  df_session_register_scalar_udf_def c_string_def new_engine_def

lemma demo_parts:
  "build_record l initial_events e w = (Done (al_record l (events initial_events)), w)"
  "build_record l staged_events e w = (Done (al_record l (events staged_events)), w)"
  "print_rows what line (LibReader [] [] None None 1) e w = (Done (), w)"
  "length (schema_fields wideEventsSchema) = 4" "length (udf_return_fields u) = 1"
  by (simp_all add: build_record_def events_accepted print_rows_def print_out_def ret_def prog_then_def prog_bind_def
      wideEventsSchema_def wideEventsFields_def udf_return_fields_def)

lemma otel_session_run:
  assumes "w_session w = en_session (new_engine {} ''datafusion'')" "w_calls w = 6"
  shows "fst (otel_session l path (demo_env 99) w) = Done () \<and> w_scans (snd (otel_session l path (demo_env 99) w)) = w_scans w + 6"
  by (simp add: otel_session_def otel_insert_def prog_defs demo_parts demo_env_def assms engine_defs memProvider_def column_type_def
      registerAttrUDFs_def newOtelHTTPAttrsUDF_def printHTTPEvents_def scanned_by_engine_def memProvider_Scan_def numeral_2_eq_2)

text \<open>The third call of \<open>parquet-iceberg\<close> fails; \<open>sql\<close> runs to its end, and so does
  \<open>otel-wide-events\<close>, the staging table scanned twice by each of three statements.\<close>

lemma demo_runs:
  "fst (demo_run ParquetIceberg 2) = FatalExit \<and> w_calls (snd (demo_run ParquetIceberg 2)) = 3"
  "fst (demo_run Sql 9) = Done ()"
  "fst (demo_run OtelWideEvents 99) = Done () \<and> w_scans (snd (demo_run OtelWideEvents 99)) = 6"
proof -
  show "fst (demo_run ParquetIceberg 2) = FatalExit \<and> w_calls (snd (demo_run ParquetIceberg 2)) = 3"
    by (simp add: demo_run_def example_main_def parquet_iceberg_main_def prog_defs demo_env_def start_def writeProductsParquet_def)
  show "fst (demo_run Sql 9) = Done ()"
    by (simp add: demo_run_def example_main_def sql_main_def prog_defs demo_parts demo_env_def start_def new_engine_def)
  let ?w = "start (demo_env 99)\<lparr>w_calls := 6, w_session := en_session (new_engine {} ''datafusion''),
      w_live := {#SessionRes, TempDirRes#}, w_written := [(Join ''/tmp/x'' ''wide_events.parquet'', [productsRecord])]\<rparr>"
  obtain x w where run: "otel_session demo_lib (Join ''/tmp/x'' ''wide_events.parquet'') (demo_env 99) ?w = (x, w)" by (rule prod.exhaust)
  with otel_session_run [of ?w demo_lib "Join ''/tmp/x'' ''wide_events.parquet''"]
  have "x = Done ()" "w_scans w = 6" by (simp_all add: start_def)
  then show "fst (demo_run OtelWideEvents 99) = Done () \<and> w_scans (snd (demo_run OtelWideEvents 99)) = 6"
    using run
    by (simp add: demo_run_def example_main_def otel_main_def writeInitialEvents_def prog_defs demo_parts demo_lib_def
        demo_env_def start_def close_session_def eval_nat_numeral)
qed

theorem example_programs_release_witness:
  "(fst (demo_run ParquetIceberg 2) = FatalExit \<and> TempDirRes \<in># w_live (snd (demo_run ParquetIceberg 2))) \<and>
   (fst (demo_run Sql 9) = Done () \<and> w_live (snd (demo_run Sql 9)) = {#} \<and> ss_closed (w_session (snd (demo_run Sql 9)))) \<and>
   (fst (demo_run OtelWideEvents 99) = Done () \<and>
    w_live (snd (demo_run OtelWideEvents 99)) = add_mset (ReaderRes httpEventsView) (replicate_mset 6 (RecordRes ''staging'')))"
proof -
  have ok: "queries_ok (demo_env k)" for k by (simp add: queries_ok_def demo_env_def)
  note ends = example_programs_release [OF ok prod.collapse [symmetric], of demo_lib "''m.json''" "\<lambda>e. ''/tmp/x''" "\<lambda>c. []", folded demo_run_def]
  show ?thesis
    using ends [of ParquetIceberg 2] ends [of Sql 9] ends [of OtelWideEvents 99] demo_runs
    by (simp add: left_open_def temp_dir_def)
qed

end
