(* ===== verification/Spec2Isabelle.thy ===== *)
theory Spec2Isabelle
  imports Wire_Invariants Callbacks_Correct Registration Session Cloud_Insert Cloud_Open Cloud_Reads Local_Inodes
    Insert_Concurrent Engine_Insert Engine_Iceberg Engine_Limit Reader_References Provider_Test File_Providers Iceberg_Open
    Engine_Statement Engine_Glue Example_Programs
begin

text \<open>
  A verification library of datafusion-golang, the Go bindings of the DataFusion query
  engine. A program registers Go tables, functions and catalogs on a session; the engine (a
  Rust library behind a C interface) calls back into Go to scan and insert, sends the
  predicates it wants to push down as JSON, and applies them again itself, so a provider may
  use them only to leave rows out that cannot match. The providers read and write Parquet,
  Iceberg, CSV and JSON tables in object stores that are found by URL.

  \<^bold>\<open>Data and predicates.\<close> \<open>Prelude\<close> has the shared lemmas and hint collections. \<open>Go_Numbers\<close> and
  \<open>Go_Floats\<close> are Go's integer conversions, integer printing and IEEE numbers, \<open>Base64\<close> the
  standard alphabet. \<open>Filter_Expr\<close> is the predicate AST of \<open>datafusion/expr.go\<close>, \<open>Arrow_Types\<close>
  the Arrow types, fields and cells, \<open>Sql_Semantics\<close> the three-valued meaning of a predicate
  on a row, against which all pushdown is judged.

  \<^bold>\<open>From the engine to Go.\<close> \<open>Wire_Decode\<close> is \<open>decodeFilters\<close> with the literal decoder on a JSON
  tree; \<open>Wire_Roundtrip\<close> the engine's serializer (\<open>pushdown.rs\<close>) and the proof that decoding
  inverts it; \<open>Wire_Invariants\<close> what every accepted document satisfies, exact integers, and
  the infinite literal that decodes to zero. \<open>Callbacks\<close> has the trampolines of \<open>table.go\<close>,
  \<open>catalog.go\<close> and \<open>udf.go\<close>, panics included, cgo handles as a table of live handles, and
  \<open>RegisterTable\<close> with the engine's side; \<open>Registration\<close> the registration of functions and
  catalogs and the session calls of \<open>cgo.go\<close>; \<open>Session\<close> the life of a session under
  concurrent calls, closes and the finalizer. \<open>Callbacks_Correct\<close> composes them with the
  providers: from the engine's predicates to the rows of the file; \<open>Engine_Limit\<close> adds the limit
  hint, and \<open>Engine_Insert\<close> an INSERT and the scans after it, through callback, insert, commit,
  the opening of the new file and the pruned scan, \<open>Engine_Iceberg\<close> the same for a table of a catalog.

  \<^bold>\<open>The engine's side.\<close> \<open>Engine_Classify\<close> is the rest of \<open>pushdown.rs\<close>: which of the engine's expressions
  become wire predicates, with the proof that they keep their meaning. \<open>Engine_Table\<close> is \<open>table.rs\<close>: the
  table over a handle, which filters it takes, the scan it plans and runs, and the bridge that feeds an
  INSERT's rows to Go. \<open>Engine_Query\<close> joins both with the callbacks, the decoder and the Parquet provider
  into a query, \<open>Engine_Statement\<close> into an INSERT and the queries after it. \<open>Engine_Handles\<close> has the lookups
  of \<open>catalog.rs\<close> and the lives of all the engine's objects over Go handles, as a step relation;
  \<open>Engine_Glue\<close> the invocation of a function (\<open>udf.rs\<close>) and the listings of names.

  \<^bold>\<open>Scans.\<close> \<open>Readers\<close> models the Arrow record readers and all wrappers of the repository as one
  tree, with the interface \<open>record_reader\<close> they implement; \<open>Reader_References\<close> adds \<open>Retain\<close>. \<open>Parquet_Skip\<close>, \<open>Parquet_Stats\<close> and
  \<open>Parquet_Bloom\<close> are \<open>skip.go\<close>, \<open>stats.go\<close> and \<open>bloom.go\<close>, proved sound in \<open>Skip_Soundness\<close> and in
  place; \<open>Parquet_Pushdown\<close> is \<open>pushdown.go\<close> and the scan side of \<open>parquet.go\<close>, proved in
  \<open>Pushdown_Correct\<close>. \<open>Iceberg_Convert\<close> is \<open>convert.go\<close>, \<open>Iceberg_Reader\<close> the goroutine and channel
  of \<open>reader.go\<close> as a step relation, \<open>Iceberg_Scan\<close> the Iceberg \<open>pushdown.go\<close> and \<open>iceberg.go\<close>,
  \<open>Iceberg_Open\<close> its construction by location.
  \<open>File_Providers\<close> has the CSV, JSON and JSON Lines providers and the construction of the
  Parquet one.

  \<^bold>\<open>Stores and inserts.\<close> \<open>Slash_Paths\<close> has \<open>Clean\<close>, \<open>Dir\<close> and \<open>Base\<close> of \<open>path/filepath\<close>. \<open>Object_Store\<close> states the writer contract as the locale \<open>object_store\<close>
  and models \<open>mem.go\<close>, \<open>local.go\<close> and \<open>writeguard.go\<close>, its first two interpretations; \<open>Cloud_Store\<close>
  is the \<open>gocloudblob\<close> adapter, a \<open>sublocale\<close> of it over any bucket that keeps the library's
  documented promises (\<open>blob_bucket\<close>, interpreted on an in-memory bucket). \<open>Store_Contract\<close> is
  the suite \<open>objectstoretest\<close> that every backend is tested against; \<open>Contract_Correct\<close> extends
  \<open>object_store\<close> to all operations (\<open>full_store\<close>), proves the suite there and interprets it on
  the three backends. \<open>Registry\<close> is
  \<open>registry.go\<close>: locations, and the concurrent callers of \<open>Resolve\<close> and \<open>Register\<close>; \<open>Cloud_Open\<close> the
  openers of \<open>s3\<close>, \<open>gcs\<close> and \<open>azure\<close> beside any others, and which bucket a location resolves to.
  \<open>Local_Inodes\<close> refines \<open>local.go\<close> to names and inodes and shows that the model by names gives the
  same results and files; \<open>Cloud_Reads\<close> shows what a bucket's reader cannot promise.
  \<open>Parquet_Insert\<close> is \<open>insert.go\<close> over any store, proved once inside \<open>object_store\<close> in
  \<open>Insert_Correct\<close> and applied to local files, memory and, in \<open>Cloud_Insert\<close>, buckets;
  \<open>Insert_Concurrent\<close> has the provider's mutex and any number of inserts at once, each a caller in a
  step relation whose lone runs are those of \<open>InsertInto\<close>.
  \<open>Iceberg_Insert\<close> is the Iceberg \<open>insert.go\<close>.

  \<^bold>\<open>Extensions and tests.\<close> \<open>Otel_Events\<close> and \<open>Otel_Udf\<close> are the wide-events example: the encoding of
  attribute values as columns and the function that reads them back in one pass.
  \<open>Extend_Example\<close> has the tables, the function and the catalog of \<open>examples/extend\<close> behind the
  callbacks, \<open>Provider_Test\<close> the doubles of \<open>providertest\<close>. \<open>Go_Programs\<close> has what the main programs are made
  of (calls that may end the process, deferred releases, a session, results that are printed) and the
  rules of a triple on what they leave open; \<open>Otel_Program\<close> and \<open>Example_Programs\<close> are the four programs.

  \<^bold>\<open>How the code is translated.\<close> Structs are records, tagged unions datatypes, Go's sized integers
  words of their width, errors a sum with a datatype of their own (the text of messages is
  kept where something reads it), panics \<open>None\<close> or \<open>Panics\<close>. State is passed explicitly.
  Concurrency is a step relation whose steps are the sections that hold a lock, or the
  meetings on a channel. A call of the operating system or of a library that can fail takes
  its outcome as an argument, so a theorem covers every outcome. What a library promises
  (Parquet statistics that bound the rows, a bloom filter without false negatives, a
  catalog's commit that is atomic) is a named predicate in the theorems that need it, with a
  witness that it can hold.

  \<^bold>\<open>Bounds and fuel.\<close> No definition runs on fuel except \<open>drain\<close>, a client's loop in \<open>Readers\<close>, which
  reaches the end of a reader when given more steps than batches are pending (\<open>drain_all\<close>).
  The insert's loop terminates by the batches its innermost reader has left; a \<open>Next\<close> of the
  Iceberg reader by \<open>pump_work\<close>, two steps per item the iterator has left and three more.

  \<^bold>\<open>What the theorems show.\<close> Predicates without an infinite or NaN float literal survive the wire. In a
  Parquet file without NaN cells whose statistics bound a column on both sides where they bound it, a
  skipped row group has no matching row, and a scan returns the requested columns and every matching row,
  through the callback too, with a limit hint that LIMIT cannot tell from none, and after an INSERT of
  the old rows and the new. For such files and literals a query of the engine without a LIMIT returns
  exactly the projected rows that satisfy its WHERE clause, and what an INSERT statement on a local file
  reports is what later queries see. Every engine object can call its Go provider, which is
  released once; an example program that returns has closed its session and released all but what its
  theorem names; converted Iceberg predicates keep their meaning, and those that do not convert only widen
  the scan; inserts are all or nothing and count their rows, on local files, in memory, in
  buckets and in Iceberg tables, and those of one Parquet provider take effect one after the other;
  a reader of a local file sees one version of it; every backend passes the store contract; events encoded as
  columns read back as they were; the file of a Parquet scan is closed once and every Iceberg batch
  released once; one opener runs per key, and the cache of stores is transparent for openers that look at the
  bucket only; the engine's session is freed once and never in use.

  Some theorems state behaviour that the comments rule out: a literal that is infinite, rows
  that are NaN, statistics with one bound, a handle leaked by a failed registration, rows
  released twice, a record retained at every scan, an opener that panics, a store cached after its scheme was registered
  again, a cloud object replaced while it is scanned, a reader that gives its first batch or its file up
  with the first of several releases, an INSERT that fails by a panic after its
  rows were committed, a program that ends without its deferred calls, a second \<open>Close\<close> that does not wait, and text cut at its first NUL.

  \<^bold>\<open>Not modelled.\<close> The query engine itself (its planner and operators are the filters kept above a scan), the
  threads and the asynchronous polling of the Rust library around it, the Arrow,
  Parquet, Iceberg, bucket and catalog libraries, \<open>encoding/json\<close>'s scanner and \<open>url.Parse\<close>:
  other code, here parameters. Reference counts of batches outside the Iceberg reader and insert:
  memory management without effect on results. The Iceberg provider's mutex. The evaluation of the examples' SQL, the
  view of \<open>otel-wide-events\<close> included, and how a value is printed.
\<close>

end
